(* ===== verification/OCP_Prelude.thy ===== *)
theory OCP_Prelude
  imports Complex_Main "HOL-Library.Multiset"
begin

text \<open>
  Vocabulary shared by the component theories: results of code that may throw, JavaScript
  arrays and numbers, sums over arrays that are updated in place, and the collections of
  rewrite rules the component proofs use.
\<close>

named_theorems length_simps \<open>operations that keep the length of an array\<close>
named_theorems chip_simps \<open>equations that move chips between an account and another\<close>

subsection \<open>Code that may throw\<close>

text \<open>
  A function that throws is modelled by a sum: \<open>Inl e\<close> is the thrown error, \<open>Inr v\<close> the
  returned value. \<open>rbind\<close> sequences two such computations; \<open>guard_else\<close> is the statement
  \<^verbatim>\<open>if (!c) throw e\<close>.
\<close>

definition rbind :: "'e + 'a \<Rightarrow> ('a \<Rightarrow> 'e + 'b) \<Rightarrow> 'e + 'b" where
  "rbind m k = (case m of Inl e \<Rightarrow> Inl e | Inr x \<Rightarrow> k x)"

definition guard_else :: "bool \<Rightarrow> 'e \<Rightarrow> 'e + unit" where
  "guard_else c e = (if c then Inr () else Inl e)"

lemma rbind_simps [simp]:
  "rbind (Inl e) k = Inl e"
  "rbind (Inr x) k = k x"
  by (simp_all add: rbind_def)

lemma rbind_Inr_iff: "rbind m k = Inr y \<longleftrightarrow> (\<exists>x. m = Inr x \<and> k x = Inr y)"
  by (cases m) auto

lemma rbind_InrE [elim!]:
  assumes "rbind m k = Inr y"
  obtains x where "m = Inr x" and "k x = Inr y"
  using assms by (auto simp: rbind_Inr_iff)

lemma guard_else_simps [simp]:
  "guard_else True e = Inr ()"
  "guard_else False e = Inl e"
  by (simp_all add: guard_else_def)

lemma guard_else_Inr [simp]: "guard_else c e = Inr u \<longleftrightarrow> c"
  by (simp add: guard_else_def)

lemma guard_else_Inl [simp]: "guard_else c e = Inl e' \<longleftrightarrow> \<not> c \<and> e' = e"
  by (auto simp: guard_else_def)

text \<open>\<^verbatim>\<open>arr.map(f)\<close> with a throwing \<open>f\<close>: the first error is the result.\<close>

fun rmap :: "('a \<Rightarrow> 'e + 'b) \<Rightarrow> 'a list \<Rightarrow> 'e + 'b list" where
  "rmap f [] = Inr []"
| "rmap f (x # xs) = rbind (f x) (\<lambda>y. rbind (rmap f xs) (\<lambda>ys. Inr (y # ys)))"

lemma rmap_Inr_map: "(\<And>x. x \<in> set xs \<Longrightarrow> f x = Inr (g x)) \<Longrightarrow> rmap f xs = Inr (map g xs)"
  by (induction xs) auto

lemma rmap_length: "rmap f xs = Inr ys \<Longrightarrow> length ys = length xs"
  by (induction xs arbitrary: ys) auto

lemma rmap_nth: "rmap f xs = Inr ys \<Longrightarrow> i < length xs \<Longrightarrow> f (xs ! i) = Inr (ys ! i)"
proof (induction xs arbitrary: ys i)
  case (Cons x xs)
  then obtain y zs where "f x = Inr y" "rmap f xs = Inr zs" "ys = y # zs" by auto
  then show ?case using Cons by (cases i) auto
qed simp

text \<open>A loop over a list whose body may throw.\<close>

fun rfold :: "('a \<Rightarrow> 's \<Rightarrow> 'e + 's) \<Rightarrow> 'a list \<Rightarrow> 's \<Rightarrow> 'e + 's" where
  "rfold f [] s = Inr s"
| "rfold f (x # xs) s = rbind (f x s) (rfold f xs)"

lemma rfold_cong:
  "\<lbrakk>xs = ys; \<And>x s. x \<in> set ys \<Longrightarrow> f x s = g x s\<rbrakk> \<Longrightarrow> rfold f xs s = rfold g ys s"
proof (induction xs arbitrary: ys s)
  case (Cons x xs)
  then show ?case by (cases "g x s") auto
qed simp

lemma rfold_append: "rfold f (xs @ ys) s = rbind (rfold f xs s) (rfold f ys)"
  by (induction xs arbitrary: s) (auto simp: rbind_def split: sum.split)

text \<open>
  A specification of throwing code: an error satisfies \<open>E\<close>, a result satisfies \<open>P\<close>. The rules
  follow the code, one for a sequence and one for a loop with its invariant.
\<close>

definition outcome :: "('e \<Rightarrow> bool) \<Rightarrow> ('a \<Rightarrow> bool) \<Rightarrow> 'e + 'a \<Rightarrow> bool" where
  "outcome E P m = (case m of Inl e \<Rightarrow> E e | Inr x \<Rightarrow> P x)"

lemma outcome_simps [simp]:
  "outcome E P (Inl e) = E e"
  "outcome E P (Inr x) = P x"
  by (simp_all add: outcome_def)

lemma outcome_rbind:
  assumes "outcome E P m" and "\<And>x. m = Inr x \<Longrightarrow> P x \<Longrightarrow> outcome E Q (k x)"
  shows "outcome E Q (rbind m k)"
  using assms by (cases m) auto

lemma outcome_seq: "outcome E P m \<Longrightarrow> (\<And>x. P x \<Longrightarrow> outcome E Q (k x)) \<Longrightarrow> outcome E Q (rbind m k)"
  by (cases m) auto

lemma outcome_mono: "outcome E P m \<Longrightarrow> (\<And>x. P x \<Longrightarrow> Q x) \<Longrightarrow> outcome E Q m"
  by (cases m) auto

lemma outcome_rfold:
  assumes "P s" and "\<And>x s. x \<in> set xs \<Longrightarrow> P s \<Longrightarrow> outcome E P (f x s)"
  shows "outcome E P (rfold f xs s)"
  using assms
proof (induction xs arbitrary: s)
  case (Cons x xs)
  then show ?case by (auto intro!: outcome_rbind [of E P])
qed simp

subsection \<open>Arrays\<close>

text \<open>
  \<^verbatim>\<open>arr[i]\<close> of JavaScript is \<^verbatim>\<open>undefined\<close> outside the array; \<open>aget d\<close> makes the value
  the code then uses explicit.
\<close>

definition aget :: "'a \<Rightarrow> 'a list \<Rightarrow> nat \<Rightarrow> 'a" where
  "aget d xs i = (if i < length xs then xs ! i else d)"

lemma aget_nth [simp]: "i < length xs \<Longrightarrow> aget d xs i = xs ! i"
  by (simp add: aget_def)

lemma aget_out [simp]: "length xs \<le> i \<Longrightarrow> aget d xs i = d"
  by (simp add: aget_def)

lemma aget_update [simp]: "i < length xs \<Longrightarrow> aget d (xs[i := v]) i = v"
  by (simp add: aget_def)

lemma aget_update_other [simp]: "i \<noteq> j \<Longrightarrow> aget d (xs[i := v]) j = aget d xs j"
  by (simp add: aget_def)

lemma aget_replicate [simp]: "aget d (replicate n d) i = d"
  by (simp add: aget_def)

text \<open>The chips of an array after one entry changed.\<close>

lemma sum_list_map_update:
  fixes f :: "'a \<Rightarrow> int"
  assumes "i < length xs"
  shows "sum_list (map f (xs[i := v])) = sum_list (map f xs) - f (xs ! i) + f v"
  using assms
proof (induction xs arbitrary: i)
  case Nil
  then show ?case by simp
next
  case (Cons x xs)
  then show ?case by (cases i) auto
qed

lemma sum_list_update_int [chip_simps]:
  fixes xs :: "int list"
  assumes "i < length xs"
  shows "sum_list (xs[i := v]) = sum_list xs - xs ! i + v"
  using sum_list_map_update [of i xs "\<lambda>x. x" v] assms by simp

lemma sum_list_nonneg_mem:
  fixes xs :: "int list"
  assumes "\<forall>x \<in> set xs. 0 \<le> x" and "i < length xs"
  shows "xs ! i \<le> sum_list xs"
  using assms
proof (induction xs arbitrary: i)
  case Nil
  then show ?case by simp
next
  case (Cons x xs)
  show ?case
  proof (cases i)
    case 0
    with Cons.prems show ?thesis by (simp add: sum_list_nonneg)
  next
    case (Suc j)
    with Cons.prems Cons.IH [of j] show ?thesis by simp
  qed
qed

lemma all_set_conv_nth9: "length xs = 9 \<Longrightarrow> (\<forall>x \<in> set xs. P x) \<longleftrightarrow> (\<forall>i<9. P (xs ! i))"
  by (auto simp: all_set_conv_all_nth)

text \<open>Forward loops that stop at the first hit are \<open>find\<close> over the list of indices.\<close>

lemma find_SomeD: "find P xs = Some x \<Longrightarrow> x \<in> set xs \<and> P x"
  by (auto simp: find_Some_iff)

lemma find_unique:
  assumes "x \<in> set xs" and "P x" and "\<And>y. y \<in> set xs \<Longrightarrow> P y \<Longrightarrow> y = x"
  shows "find P xs = Some x"
proof (cases "find P xs")
  case None
  then show ?thesis using assms(1,2) by (auto simp: find_None_iff)
next
  case (Some y)
  then show ?thesis using find_SomeD [OF Some] assms(3) by simp
qed

lemma find_ex: "x \<in> set xs \<Longrightarrow> P x \<Longrightarrow> \<exists>y. find P xs = Some y"
  by (metis find_None_iff not_None_eq)

subsection \<open>Numbers\<close>

text \<open>
  A JavaScript \<^verbatim>\<open>number\<close> whose integrality the code checks is a rational (every finite
  double is one); \<open>isInteger\<close> is \<^verbatim>\<open>Number.isInteger\<close>. A \<^verbatim>\<open>bigint\<close> and a number that
  the code uses as an index or counter is an \<open>int\<close> or a \<open>nat\<close>.
\<close>

type_synonym js_number = rat

definition isInteger :: "js_number \<Rightarrow> bool" where
  "isInteger x \<longleftrightarrow> of_int \<lfloor>x\<rfloor> = x"

lemma isInteger_of_int [simp]: "isInteger (of_int n)"
  by (simp add: isInteger_def)

lemma isInteger_numeral [simp]:
  "isInteger 0" "isInteger 1" "isInteger (numeral n)"
  by (simp_all add: isInteger_def)

end
