(* ===== verification/Side_Pots.thy ===== *)
theory Side_Pots
  imports OCP_Prelude
begin

text \<open>
  The side-pot computation of \<^verbatim>\<open>packages/poker-engine/src/pots.ts\<close>: contributions are
  peeled off tier by tier, each tier making one pot, and neighbouring tiers that the same
  seats can win are merged. The lemmas show that no chip is created or lost, that a seat
  can win exactly what each opponent put in up to its own contribution, and that the
  merged pots differ in who can win them.
\<close>

subsection \<open>Data\<close>

record Pot =
  amount :: int
  eligibleSeats :: "nat list"

record PotEntry =
  entry_seat :: nat
  entry_amount :: int
  entry_eligible :: bool

subsection \<open>The operations\<close>

definition potEntries :: "int list \<Rightarrow> bool list \<Rightarrow> PotEntry list" where
  "potEntries totalCommit eligibleForWin =
     map (\<lambda>i. \<lparr>entry_seat = i, entry_amount = totalCommit ! i,
                entry_eligible = aget False eligibleForWin i\<rparr>)
       (filter (\<lambda>i. 0 < totalCommit ! i) [0..<length totalCommit])"

fun minEntryAmount :: "int \<Rightarrow> PotEntry list \<Rightarrow> int" where
  "minEntryAmount m [] = m"
| "minEntryAmount m (r # rs) =
     minEntryAmount (if entry_amount r < m then entry_amount r else m) rs"

definition tierMin :: "PotEntry list \<Rightarrow> int" where
  "tierMin remaining = (case remaining of [] \<Rightarrow> 0 | r # rs \<Rightarrow> minEntryAmount (entry_amount r) rs)"

definition peelTier :: "int \<Rightarrow> PotEntry list \<Rightarrow> PotEntry list" where
  "peelTier m remaining =
     filter (\<lambda>r. entry_amount r \<noteq> 0)
       (map (\<lambda>r. r\<lparr>entry_amount := entry_amount r - m\<rparr>) remaining)"

definition tierPot :: "int \<Rightarrow> PotEntry list \<Rightarrow> Pot" where
  "tierPot m remaining =
     \<lparr>amount = m * int (length remaining),
      eligibleSeats = map entry_seat (filter entry_eligible remaining)\<rparr>"

lemma minEntryAmount_mem:
  "minEntryAmount m rs = m \<or> (\<exists>r \<in> set rs. entry_amount r = minEntryAmount m rs)"
  by (induction rs arbitrary: m) (force split: if_splits)+

lemma minEntryAmount_le:
  "minEntryAmount m rs \<le> m \<and> (\<forall>r \<in> set rs. minEntryAmount m rs \<le> entry_amount r)"
proof (induction rs arbitrary: m)
  case Nil
  then show ?case by simp
next
  case (Cons r rs)
  show ?case using Cons.IH [of "if entry_amount r < m then entry_amount r else m"] by auto
qed

lemma tierMin_le: "r \<in> set remaining \<Longrightarrow> tierMin remaining \<le> entry_amount r"
  using minEntryAmount_le by (cases remaining) (fastforce simp: tierMin_def)+

lemma tierMin_mem: "remaining \<noteq> [] \<Longrightarrow> \<exists>r \<in> set remaining. entry_amount r = tierMin remaining"
  using minEntryAmount_mem by (cases remaining) (force simp: tierMin_def)+

lemma peelTier_shorter:
  assumes "remaining \<noteq> []"
  shows "length (peelTier (tierMin remaining) remaining) < length remaining"
proof -
  from tierMin_mem [OF assms] obtain r where r: "r \<in> set remaining" "entry_amount r = tierMin remaining"
    by blast
  have "r\<lparr>entry_amount := entry_amount r - tierMin remaining\<rparr>
      \<in> set (map (\<lambda>r. r\<lparr>entry_amount := entry_amount r - tierMin remaining\<rparr>) remaining)"
    unfolding set_map using r(1) by (rule imageI)
  then have "length (peelTier (tierMin remaining) remaining)
      < length (map (\<lambda>r. r\<lparr>entry_amount := entry_amount r - tierMin remaining\<rparr>) remaining)"
    unfolding peelTier_def by (rule length_filter_less) (simp add: r)
  then show ?thesis by simp
qed

function potsByTier :: "PotEntry list \<Rightarrow> Pot list" where
  "potsByTier remaining =
     (if remaining = [] then []
      else tierPot (tierMin remaining) remaining # potsByTier (peelTier (tierMin remaining) remaining))"
  by pat_completeness auto
termination
  by (relation "measure length") (auto simp: peelTier_shorter)

declare potsByTier.simps [simp del]

definition sameSeats :: "nat list \<Rightarrow> nat list \<Rightarrow> bool" where
  "sameSeats a b \<longleftrightarrow>
     length a = length b \<and> list_all (\<lambda>i. a ! i = b ! i) [0..<length a]"

fun mergeTiers :: "Pot list \<Rightarrow> Pot list \<Rightarrow> Pot list" where
  "mergeTiers merged [] = merged"
| "mergeTiers merged (p # ps) =
     (if merged \<noteq> [] \<and> sameSeats (eligibleSeats (last merged)) (eligibleSeats p)
      then mergeTiers (butlast merged @ [(last merged)\<lparr>amount := amount (last merged) + amount p\<rparr>]) ps
      else mergeTiers (merged @ [\<lparr>amount = amount p, eligibleSeats = eligibleSeats p\<rparr>]) ps)"

definition computeSidePots :: "int list \<Rightarrow> bool list \<Rightarrow> Pot list" where
  "computeSidePots totalCommit eligibleForWin =
     mergeTiers [] (potsByTier (potEntries totalCommit eligibleForWin))"

subsection \<open>What the pots hold\<close>

text \<open>
  \<open>potWeight Q\<close> adds up the pots whose eligible seats satisfy \<open>Q\<close>: all pots
  (\<open>potTotal\<close>), or the pots a given seat can win (\<open>winnableBy\<close>).
\<close>

definition potWeight :: "(nat list \<Rightarrow> bool) \<Rightarrow> Pot list \<Rightarrow> int" where
  "potWeight Q pots = sum_list (map amount (filter (\<lambda>p. Q (eligibleSeats p)) pots))"

definition potTotal :: "Pot list \<Rightarrow> int" where
  "potTotal pots = sum_list (map amount pots)"

definition winnableBy :: "nat \<Rightarrow> Pot list \<Rightarrow> int" where
  "winnableBy i pots = potWeight (\<lambda>s. i \<in> set s) pots"

lemma potWeight_simps [simp]:
  "potWeight Q [] = 0"
  "potWeight Q (p # ps) = (if Q (eligibleSeats p) then amount p else 0) + potWeight Q ps"
  "potWeight Q (ps @ qs) = potWeight Q ps + potWeight Q qs"
  by (simp_all add: potWeight_def)

lemma potTotal_potWeight: "potTotal pots = potWeight (\<lambda>_. True) pots"
  by (simp add: potTotal_def potWeight_def)

lemma sameSeats_iff [simp]: "sameSeats a b \<longleftrightarrow> a = b"
  by (auto simp: sameSeats_def list_all_iff intro: nth_equalityI)

lemma mergeTiers_weight: "potWeight Q (mergeTiers merged ps) = potWeight Q merged + potWeight Q ps"
proof (induction ps arbitrary: merged)
  case Nil
  then show ?case by simp
next
  case (Cons p ps)
  show ?case
  proof (cases "merged \<noteq> [] \<and> eligibleSeats (last merged) = eligibleSeats p")
    case True
    then have "potWeight Q merged = potWeight Q (butlast merged) + potWeight Q [last merged]"
      by (metis append_butlast_last_id potWeight_simps(3))
    with True show ?thesis by (simp add: Cons.IH)
  next
    case False
    then show ?thesis by (auto simp: Cons.IH)
  qed
qed

lemma mergeTiers_distinct_adj:
  "distinct_adj (map eligibleSeats merged) \<Longrightarrow> distinct_adj (map eligibleSeats (mergeTiers merged ps))"
proof (induction ps arbitrary: merged)
  case Nil
  then show ?case by simp
next
  case (Cons p ps)
  show ?case
  proof (cases "merged \<noteq> [] \<and> eligibleSeats (last merged) = eligibleSeats p")
    case True
    then obtain init q where "merged = init @ [q]" by (metis rev_exhaust)
    with True Cons show ?thesis by (auto simp: distinct_adj_append_iff)
  next
    case False
    with Cons show ?thesis
      by (cases merged rule: rev_cases) (auto simp: distinct_adj_append_iff)
  qed
qed

lemma Pot_copy [simp]: "\<lparr>amount = amount p, eligibleSeats = eligibleSeats p\<rparr> = (p :: Pot)"
  by simp

lemma mergeTiers_all:
  assumes step: "\<And>p q. P p \<Longrightarrow> P q \<Longrightarrow> eligibleSeats p = eligibleSeats q
             \<Longrightarrow> P (p\<lparr>amount := amount p + amount q\<rparr>)"
    and "\<forall>p \<in> set merged. P p" and "\<forall>p \<in> set ps. P p"
  shows "\<forall>p \<in> set (mergeTiers merged ps). P p"
  using assms(2,3)
proof (induction ps arbitrary: merged)
  case Nil
  then show ?case by simp
next
  case (Cons p ps)
  show ?case
  proof (cases "merged \<noteq> [] \<and> eligibleSeats (last merged) = eligibleSeats p")
    case True
    then obtain init q where m: "merged = init @ [q]" by (metis rev_exhaust)
    have "\<forall>x \<in> set (init @ [q\<lparr>amount := amount q + amount p\<rparr>]). P x"
      using True m Cons.prems step [of q p] by auto
    from Cons.IH [OF this] True m Cons.prems(2) show ?thesis by simp
  next
    case False
    have "\<forall>x \<in> set (merged @ [p]). P x" using Cons.prems by auto
    from Cons.IH [OF this] False Cons.prems(2) show ?thesis by auto
  qed
qed

subsection \<open>Peeling one tier\<close>

lemma sum_peelTier:
  "f 0 = 0 \<Longrightarrow> sum_list (map (\<lambda>r. f (entry_amount r)) (peelTier m remaining))
     = sum_list (map (\<lambda>r. (f (entry_amount r - m) :: int)) remaining)"
  by (induction remaining) (auto simp: peelTier_def)

lemma sum_split_min:
  "sum_list (map f rs) = m * int (length rs) + sum_list (map (\<lambda>r. f r - m) (rs :: PotEntry list))"
  by (induction rs) (auto simp: algebra_simps)

lemma set_peelTier:
  "set (peelTier m remaining) =
     {r\<lparr>entry_amount := entry_amount r - m\<rparr> | r. r \<in> set remaining \<and> entry_amount r \<noteq> m}"
  by (auto simp: peelTier_def)

lemma seats_peelTier:
  "map entry_seat (peelTier m remaining) = map entry_seat (filter (\<lambda>r. entry_amount r \<noteq> m) remaining)"
  by (induction remaining) (auto simp: peelTier_def)

lemma distinct_map_filter_seat:
  "distinct (map entry_seat rs) \<Longrightarrow> distinct (map entry_seat (filter P rs))"
  by (induction rs) auto

lemma tierPot_simps [simp]:
  "amount (tierPot m rs) = m * int (length rs)"
  "set (eligibleSeats (tierPot m rs)) = entry_seat ` {r \<in> set rs. entry_eligible r}"
  by (auto simp: tierPot_def)

lemma potsByTier_seats:
  "p \<in> set (potsByTier rs) \<Longrightarrow> s \<in> set (eligibleSeats p) \<Longrightarrow>
     \<exists>r \<in> set rs. entry_seat r = s \<and> entry_eligible r"
proof (induction rs rule: potsByTier.induct)
  case (1 rs)
  show ?case
  proof (cases "rs = []")
    case True
    with "1.prems" show ?thesis by (simp add: potsByTier.simps)
  next
    case False
    then have "p = tierPot (tierMin rs) rs \<or> p \<in> set (potsByTier (peelTier (tierMin rs) rs))"
      using "1.prems"(1) by (simp add: potsByTier.simps [of rs])
    then show ?thesis
    proof
      assume "p = tierPot (tierMin rs) rs"
      with "1.prems"(2) show ?thesis by auto
    next
      assume "p \<in> set (potsByTier (peelTier (tierMin rs) rs))"
      from "1.IH" [OF False this "1.prems"(2)] show ?thesis
        by (auto simp: set_peelTier)
    qed
  qed
qed

lemma potsByTier_total: "potTotal (potsByTier rs) = sum_list (map entry_amount rs)"
proof (induction rs rule: potsByTier.induct)
  case (1 rs)
  show ?case
  proof (cases "rs = []")
    case True
    then show ?thesis by (simp add: potsByTier.simps potTotal_def)
  next
    case False
    let ?m = "tierMin rs"
    have "sum_list (map entry_amount rs) = ?m * int (length rs) + sum_list (map (\<lambda>r. entry_amount r - ?m) rs)"
      by (rule sum_split_min)
    moreover have "sum_list (map entry_amount (peelTier ?m rs)) = sum_list (map (\<lambda>r. entry_amount r - ?m) rs)"
      using sum_peelTier [of "\<lambda>x. x" ?m rs] by simp
    ultimately show ?thesis
      using "1.IH" [OF False] False by (simp add: potsByTier.simps [of rs] potTotal_def)
  qed
qed

lemma sum_list_const: "(\<And>r. r \<in> set rs \<Longrightarrow> f r = m) \<Longrightarrow> sum_list (map f rs) = m * int (length rs)"
  by (induction rs) (auto simp: algebra_simps)

lemma potsByTier_winnable:
  assumes "distinct (map entry_seat rs)" and "r \<in> set rs" and "entry_eligible r"
  shows "winnableBy (entry_seat r) (potsByTier rs)
           = sum_list (map (\<lambda>x. min (entry_amount x) (entry_amount r)) rs)"
  using assms
proof (induction rs arbitrary: r rule: potsByTier.induct)
  case (1 rs)
  let ?m = "tierMin rs" and ?rest = "peelTier (tierMin rs) rs" and ?s = "entry_seat r"
  from "1.prems" have ne: "rs \<noteq> []" and mem: "?s \<in> set (eligibleSeats (tierPot ?m rs))" by auto
  then have split: "winnableBy ?s (potsByTier rs) = ?m * int (length rs) + winnableBy ?s (potsByTier ?rest)"
    by (simp add: potsByTier.simps [of rs] winnableBy_def)
  have dist: "distinct (map entry_seat ?rest)"
    using "1.prems"(1) by (simp add: seats_peelTier distinct_map_filter_seat)
  show ?case
  proof (cases "entry_amount r = ?m")
    case True
    have "winnableBy ?s (potsByTier ?rest) = 0"
    proof -
      have "?s \<notin> set (eligibleSeats p)" if p: "p \<in> set (potsByTier ?rest)" for p
      proof
        assume "?s \<in> set (eligibleSeats p)"
        from potsByTier_seats [OF p this] obtain x where x: "x \<in> set rs" "entry_amount x \<noteq> ?m" "entry_seat x = ?s"
          by (auto simp: set_peelTier)
        with "1.prems"(1,2) have "x = r" by (metis distinct_map inj_on_eq_iff)
        with x True show False by simp
      qed
      then show ?thesis by (auto simp: winnableBy_def potWeight_def filter_empty_conv)
    qed
    moreover have "sum_list (map (\<lambda>x. min (entry_amount x) (entry_amount r)) rs) = ?m * int (length rs)"
      by (rule sum_list_const) (use True tierMin_le in fastforce)
    ultimately show ?thesis using split by simp
  next
    case False
    let ?r = "r\<lparr>entry_amount := entry_amount r - ?m\<rparr>"
    have r': "?r \<in> set ?rest" using False "1.prems"(2) by (auto simp: set_peelTier)
    have "winnableBy ?s (potsByTier ?rest)
        = sum_list (map (\<lambda>x. min (entry_amount x) (entry_amount r - ?m)) ?rest)"
      using "1.IH" [OF ne dist r'] "1.prems"(3) by simp
    also have "\<dots> = sum_list (map (\<lambda>x. min (entry_amount x - ?m) (entry_amount r - ?m)) rs)"
      using sum_peelTier [of "\<lambda>a. min a (entry_amount r - ?m)" ?m rs] tierMin_le [OF "1.prems"(2)] by simp
    also have "\<dots> = sum_list (map (\<lambda>x. min (entry_amount x) (entry_amount r) - ?m) rs)"
      by (rule arg_cong [where f = sum_list]) (auto simp: min_def)
    finally show ?thesis
      using split sum_split_min [of "\<lambda>x. min (entry_amount x) (entry_amount r)" rs ?m] by simp
  qed
qed

lemma peelTier_pos:
  assumes "\<forall>r \<in> set rs. 0 < entry_amount r"
  shows "\<forall>r \<in> set (peelTier (tierMin rs) rs). 0 < entry_amount r"
  using tierMin_le by (fastforce simp: set_peelTier)

lemma potsByTier_pos:
  "\<forall>r \<in> set rs. 0 < entry_amount r \<Longrightarrow> \<forall>p \<in> set (potsByTier rs). 0 < amount p"
proof (induction rs rule: potsByTier.induct)
  case (1 rs)
  show ?case
  proof (cases "rs = []")
    case True
    then show ?thesis by (simp add: potsByTier.simps)
  next
    case False
    from tierMin_mem [OF this] "1.prems" have "0 < tierMin rs" by auto
    with "1.IH" [OF False peelTier_pos [OF "1.prems"]] False show ?thesis
      by (simp add: potsByTier.simps [of rs])
  qed
qed

lemma potsByTier_claimed:
  assumes "r \<in> set rs" and "entry_eligible r" and "\<forall>x \<in> set rs. entry_amount x \<le> entry_amount r"
  shows "\<forall>p \<in> set (potsByTier rs). eligibleSeats p \<noteq> []"
  using assms
proof (induction rs arbitrary: r rule: potsByTier.induct)
  case (1 rs)
  let ?m = "tierMin rs"
  from "1.prems" have ne: "rs \<noteq> []" and top: "eligibleSeats (tierPot ?m rs) \<noteq> []"
    by (auto simp: tierPot_def filter_empty_conv)
  have "\<forall>p \<in> set (potsByTier (peelTier ?m rs)). eligibleSeats p \<noteq> []"
  proof (cases "entry_amount r = ?m")
    case True
    then have "peelTier ?m rs = []"
      using "1.prems"(3) tierMin_le by (fastforce simp: peelTier_def filter_empty_conv)
    then show ?thesis by (simp add: potsByTier.simps)
  next
    case False
    let ?r = "r\<lparr>entry_amount := entry_amount r - ?m\<rparr>"
    have "?r \<in> set (peelTier ?m rs)"
      using False "1.prems"(1) by (auto simp: set_peelTier)
    moreover have "\<forall>x \<in> set (peelTier ?m rs). entry_amount x \<le> entry_amount ?r"
      using "1.prems"(3) by (auto simp: set_peelTier)
    ultimately show ?thesis using "1.IH" [OF ne, of ?r] "1.prems"(2) by simp
  qed
  with top ne show ?case by (simp add: potsByTier.simps [of rs])
qed

subsection \<open>The entries the loop starts from\<close>

lemma filter_conv_nth: "map (nth xs) (filter (\<lambda>i. P (xs ! i)) [0..<length xs]) = filter P xs"
  by (metis (no_types, lifting) comp_apply filter_cong filter_map map_nth)

lemma potEntries_amounts: "map entry_amount (potEntries tc el) = filter (\<lambda>a. 0 < a) tc"
  using filter_conv_nth [of tc "\<lambda>a. 0 < a"] by (simp add: potEntries_def comp_def)

lemma set_potEntries:
  "r \<in> set (potEntries tc el) \<longleftrightarrow>
     entry_seat r < length tc \<and> 0 < tc ! entry_seat r \<and>
     entry_amount r = tc ! entry_seat r \<and> entry_eligible r = aget False el (entry_seat r)"
  by (cases r) (auto simp: potEntries_def)

lemma distinct_potEntries: "distinct (map entry_seat (potEntries tc el))"
  by (simp add: potEntries_def comp_def)

lemma sum_potEntries:
  "sum_list (map (\<lambda>r. f (entry_amount r)) (potEntries tc el)) = sum_list (map f (filter (\<lambda>a. 0 < a) tc))"
  using arg_cong [OF potEntries_amounts, of "\<lambda>xs. sum_list (map f xs)"] by (simp add: comp_def)

subsection \<open>Correctness of the side pots\<close>

lemma potWeight_computeSidePots:
  "potWeight Q (computeSidePots tc el) = potWeight Q (potsByTier (potEntries tc el))"
  by (simp add: computeSidePots_def mergeTiers_weight)

text \<open>
  No chip is created or lost: the side pots together hold exactly the positive
  contributions.
\<close>

theorem computeSidePots_total:
  "potTotal (computeSidePots totalCommit eligibleForWin) = sum_list (filter (\<lambda>a. 0 < a) totalCommit)"
  using potsByTier_total [of "potEntries totalCommit eligibleForWin"]
    sum_potEntries [of "\<lambda>a. a" totalCommit eligibleForWin]
  by (simp add: potTotal_potWeight potWeight_computeSidePots)

text \<open>
  C5: the pots an eligible contributor can win hold, of every seat's contribution, exactly
  the part up to its own contribution: it can win from each opponent at most what it put
  in itself, and all of that.
\<close>

theorem computeSidePots_winnable:
  assumes "i < length totalCommit" and "0 < totalCommit ! i" and "aget False eligibleForWin i"
  shows "winnableBy i (computeSidePots totalCommit eligibleForWin)
           = sum_list (map (\<lambda>a. min a (totalCommit ! i)) (filter (\<lambda>a. 0 < a) totalCommit))"
proof -
  let ?r = "\<lparr>entry_seat = i, entry_amount = totalCommit ! i, entry_eligible = aget False eligibleForWin i\<rparr>"
  have "?r \<in> set (potEntries totalCommit eligibleForWin)" using assms by (simp add: set_potEntries)
  from potsByTier_winnable [OF distinct_potEntries this] assms(3) show ?thesis
    by (simp add: winnableBy_def potWeight_computeSidePots sum_potEntries [of "\<lambda>a. min a (totalCommit ! i)"])
qed

theorem computeSidePots_winnable_witness:
  "winnableBy 0 (computeSidePots [50, 150, 150] [True, True, False]) = 150"
  using computeSidePots_winnable [of 0 "[50, 150, 150]" "[True, True, False]"] by simp

text \<open>
  C14: every pot is positive, its eligible seats are seats that contributed and were marked
  eligible, and neighbouring pots have different eligible seats, so folded money never
  splits a pot.
\<close>

theorem computeSidePots_wellformed:
  "list_all (\<lambda>p. 0 < amount p \<and>
       list_all (\<lambda>s. s < length totalCommit \<and> 0 < totalCommit ! s \<and> aget False eligibleForWin s) (eligibleSeats p))
     (computeSidePots totalCommit eligibleForWin)
   \<and> distinct_adj (map eligibleSeats (computeSidePots totalCommit eligibleForWin))"
proof -
  let ?rs = "potEntries totalCommit eligibleForWin"
  have "\<forall>p \<in> set (mergeTiers [] (potsByTier ?rs)). 0 < amount p \<and>
      list_all (\<lambda>s. s < length totalCommit \<and> 0 < totalCommit ! s \<and> aget False eligibleForWin s) (eligibleSeats p)"
  proof (rule mergeTiers_all)
    show "\<forall>p \<in> set (potsByTier ?rs). 0 < amount p \<and>
      list_all (\<lambda>s. s < length totalCommit \<and> 0 < totalCommit ! s \<and> aget False eligibleForWin s) (eligibleSeats p)"
      using potsByTier_pos [of ?rs] by (auto simp: list_all_iff set_potEntries dest!: potsByTier_seats)
  qed auto
  then show ?thesis
    by (simp add: computeSidePots_def list_all_iff mergeTiers_distinct_adj)
qed

text \<open>
  When a seat that can still win has contributed at least as much as everybody else,
  every pot has somebody who can win it.
\<close>

theorem computeSidePots_claimed:
  assumes "i < length totalCommit" and "aget False eligibleForWin i"
    and "\<forall>a \<in> set totalCommit. a \<le> totalCommit ! i"
  shows "[] \<notin> set (map eligibleSeats (computeSidePots totalCommit eligibleForWin))"
proof -
  let ?rs = "potEntries totalCommit eligibleForWin"
  let ?r = "\<lparr>entry_seat = i, entry_amount = totalCommit ! i, entry_eligible = aget False eligibleForWin i\<rparr>"
  have "\<forall>p \<in> set (potsByTier ?rs). eligibleSeats p \<noteq> []"
  proof (cases "0 < totalCommit ! i")
    case True
    show ?thesis
      by (rule potsByTier_claimed [of ?r]) (use True assms in \<open>auto simp: set_potEntries\<close>)
  next
    case False
    have "?rs = []"
      unfolding potEntries_def using False assms(3) by (auto simp: filter_empty_conv) (metis less_le_trans nth_mem)
    then show ?thesis by (simp add: potsByTier.simps)
  qed
  then have "\<forall>p \<in> set (mergeTiers [] (potsByTier ?rs)). eligibleSeats p \<noteq> []"
    by (intro mergeTiers_all) auto
  then show ?thesis by (auto simp: computeSidePots_def)
qed

theorem computeSidePots_claimed_witness:
  "[] \<notin> set (map eligibleSeats (computeSidePots [50, 150, 150] [True, True, False]))"
  by (rule computeSidePots_claimed [of 1]) auto

subsection \<open>The interface the engine uses\<close>

locale pot_splitter =
  fixes split_pots :: "int list \<Rightarrow> bool list \<Rightarrow> Pot list"
  assumes split_total: "potTotal (split_pots tc el) = sum_list (filter (\<lambda>a. 0 < a) tc)"
    and split_eligible:
      "p \<in> set (split_pots tc el) \<Longrightarrow> s \<in> set (eligibleSeats p) \<Longrightarrow> aget False el s \<and> 0 < aget 0 tc s"
    and split_positive: "p \<in> set (split_pots tc el) \<Longrightarrow> 0 < amount p"
begin

lemma split_total_escrow: "\<forall>a \<in> set tc. 0 \<le> a \<Longrightarrow> potTotal (split_pots tc el) = sum_list tc"
proof -
  assume nn: "\<forall>a \<in> set tc. 0 \<le> a"
  have "sum_list (filter (\<lambda>a. 0 < a) tc) = sum_list tc"
    using nn by (induction tc) auto
  then show ?thesis by (simp add: split_total)
qed

lemma winnable_le_total: "winnableBy i (split_pots tc el) \<le> potTotal (split_pots tc el)"
proof -
  have "winnableBy i ps \<le> potTotal ps" if "\<forall>p \<in> set ps. 0 < amount p" for ps
    using that by (induction ps) (auto simp: winnableBy_def potTotal_def)
  then show ?thesis using split_positive by blast
qed

end

interpretation side_pots: pot_splitter computeSidePots
proof
  fix tc el p s
  show "potTotal (computeSidePots tc el) = sum_list (filter (\<lambda>a. 0 < a) tc)"
    using potsByTier_total [of "potEntries tc el"] sum_potEntries [of "\<lambda>a. a" tc el]
    by (simp add: potTotal_potWeight potWeight_computeSidePots)
  have "\<forall>p \<in> set (computeSidePots tc el). 0 < amount p"
    unfolding computeSidePots_def
    using potsByTier_pos [of "potEntries tc el"] by (intro mergeTiers_all) (auto simp: set_potEntries)
  then show "p \<in> set (computeSidePots tc el) \<Longrightarrow> 0 < amount p" by blast
  have "\<forall>p \<in> set (computeSidePots tc el). \<forall>s \<in> set (eligibleSeats p). aget False el s \<and> 0 < aget 0 tc s"
    unfolding computeSidePots_def
    by (intro mergeTiers_all) (auto simp: set_potEntries dest!: potsByTier_seats)
  then show "p \<in> set (computeSidePots tc el) \<Longrightarrow> s \<in> set (eligibleSeats p) \<Longrightarrow> aget False el s \<and> 0 < aget 0 tc s"
    by blast
qed

end
