(* ===== verification/Poker_Engine.thy ===== *)
theory Poker_Engine
  imports Side_Pots
begin

text \<open>
  The no-limit hold'em state machine of \<^verbatim>\<open>packages/poker-engine/src\<close> (\<^verbatim>\<open>types.ts\<close>,
  \<^verbatim>\<open>errors.ts\<close>, \<^verbatim>\<open>engine.ts\<close>): its data and every operation, in the order of the source.
  A function that mutates \<^verbatim>\<open>state\<close> and \<^verbatim>\<open>state.hand\<close> takes the table and the hand and
  returns both; \<^verbatim>\<open>cloneTableState\<close> is the identity, since the model's states are values.
  Chips are bigints (\<open>int\<close>), seats are array indices (\<open>nat\<close>, checked \<open>int\<close> in an action),
  timestamps are numbers whose integrality is checked. Of a \<^verbatim>\<open>PokerEngineError\<close> the model
  keeps the code; message and details are diagnostics.
\<close>

subsection \<open>Data\<close>

datatype Street = Preflop | Flop | Turn | River

datatype HandPhase = Betting | Showdown | Complete | Aborted

datatype PokerEngineErrorCode =
    NO_HAND | HAND_NOT_ACTIVE | OUT_OF_TURN | SEAT_EMPTY | SEAT_NOT_IN_HAND
  | SEAT_FOLDED | SEAT_ALL_IN | ILLEGAL_ACTION | INVALID_AMOUNT

record SeatState =
  playerId :: string
  stack :: int

record TableParams =
  smallBlind :: int
  bigBlind :: int
  actionTimeoutSecs :: js_number
  rakeBps :: js_number
  refundBlindsOnAbort :: bool

datatype Action = Fold int | Check int | Call int | BetTo int int

primrec action_seat :: "Action \<Rightarrow> int" where
  "action_seat (Fold s) = s"
| "action_seat (Check s) = s"
| "action_seat (Call s) = s"
| "action_seat (BetTo s a) = s"

datatype EngineEvent =
    HandStarted int nat nat nat
  | ActionApplied nat Action
  | TimeoutApplied nat string
  | StreetAdvanced Street
  | ShowdownReached
  | HandCompleted string
  | HandAborted string

record HandState =
  handId :: int
  phase :: HandPhase
  street :: Street
  button :: nat
  smallBlindSeat :: nat
  bigBlindSeat :: nat
  actionOn :: "nat option"
  actionDeadlineTs :: "js_number option"
  betTo :: int
  minRaiseSize :: int
  intervalId :: int
  lastIntervalActed :: "int list"
  streetCommit :: "int list"
  totalCommit :: "int list"
  inHand :: "bool list"
  folded :: "bool list"
  allIn :: "bool list"
  pots :: "Pot list"
  winnerSeat :: "nat option"
  events :: "EngineEvent list"

record TableState =
  params :: TableParams
  seats :: "SeatState option list"
  tableButton :: "nat option"
  nextHandId :: int
  hand :: "HandState option"

type_synonym 'a result = "PokerEngineErrorCode + 'a"

text \<open>Reads of the per-seat arrays; outside the array JavaScript reads \<^verbatim>\<open>undefined\<close>.\<close>

abbreviation seatAt :: "TableState \<Rightarrow> nat \<Rightarrow> SeatState option" where
  "seatAt st i \<equiv> aget None (seats st) i"

abbreviation inHandAt :: "HandState \<Rightarrow> nat \<Rightarrow> bool" where
  "inHandAt h i \<equiv> aget False (inHand h) i"

abbreviation foldedAt :: "HandState \<Rightarrow> nat \<Rightarrow> bool" where
  "foldedAt h i \<equiv> aget False (folded h) i"

abbreviation allInAt :: "HandState \<Rightarrow> nat \<Rightarrow> bool" where
  "allInAt h i \<equiv> aget False (allIn h) i"

abbreviation streetCommitAt :: "HandState \<Rightarrow> nat \<Rightarrow> int" where
  "streetCommitAt h i \<equiv> aget 0 (streetCommit h) i"

abbreviation totalCommitAt :: "HandState \<Rightarrow> nat \<Rightarrow> int" where
  "totalCommitAt h i \<equiv> aget 0 (totalCommit h) i"

abbreviation lastActedAt :: "HandState \<Rightarrow> nat \<Rightarrow> int" where
  "lastActedAt h i \<equiv> aget (- 1) (lastIntervalActed h) i"

definition stackAt :: "TableState \<Rightarrow> nat \<Rightarrow> int" where
  "stackAt st i = (case seatAt st i of None \<Rightarrow> 0 | Some ss \<Rightarrow> stack ss)"

text \<open>\<^verbatim>\<open>seatState.stack += d\<close> through the reference \<^verbatim>\<open>state.seats[i]\<close>.\<close>

definition addStack :: "TableState \<Rightarrow> nat \<Rightarrow> int \<Rightarrow> TableState" where
  "addStack st i d =
     (case seatAt st i of
        None \<Rightarrow> st
      | Some ss \<Rightarrow> st\<lparr>seats := (seats st)[i := Some (ss\<lparr>stack := stack ss + d\<rparr>)]\<rparr>)"

subsection \<open>Helpers of the engine\<close>

definition assertIntTimestamp :: "js_number \<Rightarrow> unit result" where
  "assertIntTimestamp now = guard_else (isInteger now \<and> \<not> now < 0) ILLEGAL_ACTION"

definition seatCount9 :: "'a list \<Rightarrow> unit result" where
  "seatCount9 ss = guard_else (length ss = 9) ILLEGAL_ACTION"

definition nextOccupiedSeat :: "SeatState option list \<Rightarrow> nat \<Rightarrow> nat" where
  "nextOccupiedSeat ss fromSeat =
     (case find (\<lambda>s. aget None ss s \<noteq> None) (map (\<lambda>offset. (fromSeat + offset) mod 9) [1..<10]) of
        Some s \<Rightarrow> s
      | None \<Rightarrow> fromSeat)"

definition needsToAct :: "HandState \<Rightarrow> nat \<Rightarrow> bool" where
  "needsToAct h s =
     (if \<not> inHandAt h s then False
      else if foldedAt h s then False
      else if allInAt h s then False
      else lastActedAt h s \<noteq> intervalId h \<or> streetCommitAt h s \<noteq> betTo h)"

definition nextActiveInHand :: "HandState \<Rightarrow> int \<Rightarrow> nat option" where
  "nextActiveInHand h fromSeat =
     find (\<lambda>s. inHandAt h s \<and> \<not> foldedAt h s \<and> \<not> allInAt h s \<and> needsToAct h s)
       (map (\<lambda>offset. nat ((fromSeat + int offset) mod 9)) [1..<10])"

definition countNotFolded :: "HandState \<Rightarrow> nat" where
  "countNotFolded h = length (filter (\<lambda>i. inHandAt h i \<and> \<not> foldedAt h i) [0..<9])"

definition countWithChips :: "HandState \<Rightarrow> TableState \<Rightarrow> nat" where
  "countWithChips h st =
     length (filter (\<lambda>i. inHandAt h i \<and> \<not> foldedAt h i \<and> seatAt st i \<noteq> None \<and> 0 < stackAt st i) [0..<9])"

definition toCall :: "HandState \<Rightarrow> nat \<Rightarrow> int" where
  "toCall h s = (let need = betTo h - streetCommitAt h s in if 0 < need then need else 0)"

definition maxCommitThisStreet :: "HandState \<Rightarrow> int" where
  "maxCommitThisStreet h =
     foldl (\<lambda>m i. if m < streetCommitAt h i then streetCommitAt h i else m) 0 [0..<9]"

definition secondMaxCommitThisStreet :: "HandState \<Rightarrow> int \<Rightarrow> int" where
  "secondMaxCommitThisStreet h mx =
     foldl (\<lambda>s i. let v = streetCommitAt h i in if v = mx then s else if s < v then v else s) 0 [0..<9]"

definition returnUncalledStreetExcess :: "TableState \<Rightarrow> HandState \<Rightarrow> TableState \<times> HandState" where
  "returnUncalledStreetExcess st h =
     (let mx = maxCommitThisStreet h in
      if mx = 0 then (st, h)
      else let second = secondMaxCommitThisStreet h mx in
      if second = mx then (st, h)
      else case filter (\<lambda>i. streetCommitAt h i = mx) [0..<9] of
          [maxSeat] \<Rightarrow>
            (let excess = mx - second in
             if excess \<le> 0 then (st, h)
             else case seatAt st maxSeat of
                 None \<Rightarrow> (st, h)
               | Some ss \<Rightarrow>
                   (addStack st maxSeat excess,
                    h\<lparr>streetCommit := (streetCommit h)[maxSeat := streetCommitAt h maxSeat - excess],
                      totalCommit := (totalCommit h)[maxSeat := totalCommitAt h maxSeat - excess],
                      allIn := (if 0 < stack ss + excess then (allIn h)[maxSeat := False] else allIn h)\<rparr>))
        | _ \<Rightarrow> (st, h))"

primrec nextStreet :: "Street \<Rightarrow> Street" where
  "nextStreet Preflop = Flop"
| "nextStreet Flop = Turn"
| "nextStreet Turn = River"
| "nextStreet River = River"

definition deadlineFor :: "TableState \<Rightarrow> nat option \<Rightarrow> js_number \<Rightarrow> js_number option" where
  "deadlineFor st seat now =
     (case seat of None \<Rightarrow> None | Some _ \<Rightarrow> Some (now + actionTimeoutSecs (params st)))"

definition advanceStreet :: "TableState \<Rightarrow> HandState \<Rightarrow> js_number \<Rightarrow> HandState" where
  "advanceStreet st h now =
     (let h1 = h\<lparr>street := nextStreet (street h), betTo := 0,
                 minRaiseSize := bigBlind (params st), intervalId := 0,
                 streetCommit := replicate 9 0, lastIntervalActed := replicate 9 (- 1)\<rparr>;
          start = nextOccupiedSeat (seats st) (button h1);
          next = nextActiveInHand h1 (int start - 1)
      in h1\<lparr>actionOn := next, actionDeadlineTs := deadlineFor st next now,
            events := events h1 @ [StreetAdvanced (street h1)]\<rparr>)"

definition reachShowdown :: "HandState \<Rightarrow> HandState" where
  "reachShowdown h =
     (let eligible = map (\<lambda>i. inHandAt h i \<and> \<not> foldedAt h i) [0..<length (inHand h)]
      in h\<lparr>phase := Showdown, actionOn := None, actionDeadlineTs := None,
           pots := computeSidePots (totalCommit h) eligible,
           events := events h @ [ShowdownReached]\<rparr>)"

definition completeByFolds :: "TableState \<Rightarrow> HandState \<Rightarrow> TableState \<times> HandState" where
  "completeByFolds st h =
     (case find (\<lambda>i. inHandAt h i \<and> \<not> foldedAt h i) [0..<9] of
        None \<Rightarrow> (st, h)
      | Some winner \<Rightarrow>
          (let (st1, h1) = returnUncalledStreetExcess st h;
               total = sum_list (map (totalCommitAt h1) [0..<9])
           in case seatAt st1 winner of
                None \<Rightarrow> (st1, h1)
              | Some _ \<Rightarrow>
                  (addStack st1 winner total,
                   h1\<lparr>streetCommit := replicate 9 0, totalCommit := replicate 9 0,
                      phase := Complete, winnerSeat := Some winner,
                      actionOn := None, actionDeadlineTs := None, pots := [],
                      events := events h1 @ [HandCompleted ''all-folded'']\<rparr>)))"

subsection \<open>Player actions\<close>

definition validateRaiseAllowed :: "HandState \<Rightarrow> nat \<Rightarrow> unit result" where
  "validateRaiseAllowed h s = guard_else (lastActedAt h s \<noteq> intervalId h) ILLEGAL_ACTION"

text \<open>The chips move from the stack into the pot; a seat left with nothing is all-in.\<close>

definition payIn :: "TableState \<Rightarrow> HandState \<Rightarrow> nat \<Rightarrow> int \<Rightarrow> TableState \<times> HandState" where
  "payIn st h s delta =
     (let st1 = addStack st s (- delta)
      in (st1,
          h\<lparr>streetCommit := (streetCommit h)[s := streetCommitAt h s + delta],
            totalCommit := (totalCommit h)[s := totalCommitAt h s + delta],
            allIn := (if stackAt st1 s = 0 then (allIn h)[s := True] else allIn h)\<rparr>))"

definition applyBetTo :: "TableState \<Rightarrow> HandState \<Rightarrow> nat \<Rightarrow> int \<Rightarrow> (TableState \<times> HandState) result" where
  "applyBetTo st h s desiredCommit =
     (let maxCommit = streetCommitAt h s + stackAt st s;
          currentBetTo = betTo h;
          isAllIn = (desiredCommit = maxCommit);
          raiseSize = desiredCommit - currentBetTo;
          minBet = bigBlind (params st)
      in if desiredCommit \<le> streetCommitAt h s then Inl INVALID_AMOUNT
         else if maxCommit < desiredCommit then Inl INVALID_AMOUNT
         else if desiredCommit \<le> currentBetTo then Inl ILLEGAL_ACTION
         else rbind (validateRaiseAllowed h s) (\<lambda>_.
           rbind
             (if currentBetTo = 0 then
                (if desiredCommit < minBet \<and> \<not> isAllIn then Inl ILLEGAL_ACTION
                 else Inr (h\<lparr>intervalId := intervalId h + 1,
                             lastIntervalActed := (lastIntervalActed h)[s := intervalId h + 1],
                             minRaiseSize := (if minBet \<le> desiredCommit then desiredCommit else minBet),
                             betTo := desiredCommit\<rparr>))
              else if raiseSize < minRaiseSize h then
                (if \<not> isAllIn then Inl ILLEGAL_ACTION
                 else Inr (h\<lparr>lastIntervalActed := (lastIntervalActed h)[s := intervalId h],
                             betTo := desiredCommit\<rparr>))
              else Inr (h\<lparr>intervalId := intervalId h + 1, minRaiseSize := raiseSize,
                          betTo := desiredCommit,
                          lastIntervalActed := (lastIntervalActed h)[s := intervalId h + 1]\<rparr>))
             (\<lambda>h1. Inr (payIn st h1 s (desiredCommit - streetCommitAt h1 s)))))"

definition applyCall :: "TableState \<Rightarrow> HandState \<Rightarrow> nat \<Rightarrow> (TableState \<times> HandState) result" where
  "applyCall st h s =
     (let need = toCall h s in
      if need = 0 then Inl ILLEGAL_ACTION
      else let pay = (if need \<le> stackAt st s then need else stackAt st s);
               (st1, h1) = payIn st h s pay
           in Inr (st1, h1\<lparr>lastIntervalActed := (lastIntervalActed h1)[s := intervalId h1]\<rparr>))"

definition applyCheck :: "HandState \<Rightarrow> nat \<Rightarrow> HandState result" where
  "applyCheck h s =
     (if toCall h s \<noteq> 0 then Inl ILLEGAL_ACTION
      else Inr (h\<lparr>lastIntervalActed := (lastIntervalActed h)[s := intervalId h]\<rparr>))"

definition applyFold :: "HandState \<Rightarrow> nat \<Rightarrow> HandState" where
  "applyFold h s =
     h\<lparr>folded := (folded h)[s := True], lastIntervalActed := (lastIntervalActed h)[s := intervalId h]\<rparr>"

definition streetComplete :: "HandState \<Rightarrow> bool" where
  "streetComplete h \<longleftrightarrow>
     list_all (\<lambda>i. (\<not> inHandAt h i \<or> foldedAt h i \<or> allInAt h i)
       \<or> (streetCommitAt h i = betTo h \<and> lastActedAt h i = intervalId h)) [0..<9]"

definition maybeAdvance :: "TableState \<Rightarrow> HandState \<Rightarrow> js_number \<Rightarrow> TableState \<times> HandState" where
  "maybeAdvance st h now =
     (if countNotFolded h \<le> 1 then completeByFolds st h
      else if \<not> streetComplete h then
        (let next = nextActiveInHand h (int (case actionOn h of None \<Rightarrow> 0 | Some s \<Rightarrow> s))
         in (st, h\<lparr>actionOn := next, actionDeadlineTs := deadlineFor st next now\<rparr>))
      else
        (let (st1, h1) = returnUncalledStreetExcess st h
         in if street h1 = River then (st1, reachShowdown h1)
            else if countWithChips h1 st1 < 2 then (st1, reachShowdown h1)
            else (st1, advanceStreet st1 h1 now)))"

subsection \<open>The exported operations\<close>

definition createTableState :: "TableParams \<Rightarrow> TableState result" where
  "createTableState ps =
     (if smallBlind ps \<le> 0 \<or> bigBlind ps \<le> 0 \<or> bigBlind ps \<le> smallBlind ps then Inl ILLEGAL_ACTION
      else if \<not> isInteger (actionTimeoutSecs ps) \<or> actionTimeoutSecs ps \<le> 0 then Inl ILLEGAL_ACTION
      else if \<not> isInteger (rakeBps ps) \<or> rakeBps ps < 0 then Inl ILLEGAL_ACTION
      else Inr \<lparr>params = ps, seats = replicate 9 None, tableButton = None, nextHandId = 1, hand = None\<rparr>)"

definition sit :: "TableState \<Rightarrow> int \<Rightarrow> string \<Rightarrow> int \<Rightarrow> TableState result" where
  "sit st seat pid stk =
     rbind (seatCount9 (seats st)) (\<lambda>_.
       if seat < 0 \<or> 8 < seat then Inl ILLEGAL_ACTION
       else if seatAt st (nat seat) \<noteq> None then Inl ILLEGAL_ACTION
       else if stk < 0 then Inl ILLEGAL_ACTION
       else Inr (st\<lparr>seats := (seats st)[nat seat := Some \<lparr>playerId = pid, stack = stk\<rparr>]\<rparr>))"

definition fundedSeats :: "TableState \<Rightarrow> nat list" where
  "fundedSeats st = filter (\<lambda>i. seatAt st i \<noteq> None \<and> 0 < stackAt st i) [0..<9]"

definition chooseButton :: "TableState \<Rightarrow> nat" where
  "chooseButton st =
     (case tableButton st of
        None \<Rightarrow> hd (fundedSeats st)
      | Some prevButton \<Rightarrow>
          (case find (\<lambda>cand. seatAt st cand \<noteq> None \<and> 0 < stackAt st cand)
                  (map (\<lambda>i. (prevButton + 1 + i) mod 9) [0..<9]) of
             Some cand \<Rightarrow> cand
           | None \<Rightarrow> prevButton))"

definition smallBlindSeatFor :: "TableState \<Rightarrow> nat \<Rightarrow> nat" where
  "smallBlindSeatFor st btn =
     (if length (fundedSeats st) = 2 then btn else nextOccupiedSeat (seats st) btn)"

definition blindPay :: "int \<Rightarrow> int \<Rightarrow> int" where
  "blindPay blind stk = (if blind \<le> stk then blind else stk)"

definition postBlinds :: "TableState \<Rightarrow> nat \<Rightarrow> nat \<Rightarrow> TableState" where
  "postBlinds st sb bb =
     addStack (addStack st sb (- blindPay (smallBlind (params st)) (stackAt st sb)))
       bb (- blindPay (bigBlind (params st)) (stackAt st bb))"

definition dealtHand :: "TableState \<Rightarrow> nat \<Rightarrow> nat \<Rightarrow> nat \<Rightarrow> HandState" where
  "dealtHand st btn sb bb =
     (let sbPay = blindPay (smallBlind (params st)) (stackAt st sb);
          bbPay = blindPay (bigBlind (params st)) (stackAt st bb);
          st1 = postBlinds st sb bb;
          sc1 = (replicate 9 0)[sb := sbPay];
          sc2 = sc1[bb := aget 0 sc1 bb + bbPay];
          ai1 = (if stackAt st1 sb = 0 then (replicate 9 False)[sb := True] else replicate 9 False);
          ai2 = (if stackAt st1 bb = 0 then ai1[bb := True] else ai1)
      in \<lparr>handId = nextHandId st, phase = Betting, street = Preflop, button = btn,
          smallBlindSeat = sb, bigBlindSeat = bb, actionOn = None, actionDeadlineTs = None,
          betTo = bbPay, minRaiseSize = bigBlind (params st), intervalId = 0,
          lastIntervalActed = replicate 9 (- 1), streetCommit = sc2, totalCommit = sc2,
          inHand = map (\<lambda>i. seatAt st i \<noteq> None \<and> 0 < stackAt st i) [0..<9],
          folded = replicate 9 False, allIn = ai2, pots = [], winnerSeat = None,
          events = [HandStarted (nextHandId st) btn sb bb]\<rparr>)"

definition startHand :: "TableState \<Rightarrow> js_number \<Rightarrow> TableState result" where
  "startHand st now =
     rbind (assertIntTimestamp now) (\<lambda>_.
     rbind (seatCount9 (seats st)) (\<lambda>_.
       if length (fundedSeats st) < 2 then Inl ILLEGAL_ACTION
       else
         let btn = chooseButton st;
             sb = smallBlindSeatFor st btn;
             bb = nextOccupiedSeat (seats st) sb;
             h = dealtHand st btn sb bb;
             next = nextActiveInHand h (int bb);
             h1 = h\<lparr>actionOn := next, actionDeadlineTs := deadlineFor st next now\<rparr>;
             h2 = (if next = None then reachShowdown h1 else h1)
         in Inr ((postBlinds st sb bb)\<lparr>tableButton := Some btn, nextHandId := nextHandId st + 1,
                    hand := Some h2\<rparr>)))"

definition dispatchAction :: "TableState \<Rightarrow> HandState \<Rightarrow> nat \<Rightarrow> Action \<Rightarrow> (TableState \<times> HandState) result" where
  "dispatchAction st h s act =
     (case act of
        Fold _ \<Rightarrow> Inr (st, applyFold h s)
      | Check _ \<Rightarrow> rbind (applyCheck h s) (\<lambda>h1. Inr (st, h1))
      | Call _ \<Rightarrow> applyCall st h s
      | BetTo _ amt \<Rightarrow> applyBetTo st h s amt)"

definition applyAction :: "TableState \<Rightarrow> Action \<Rightarrow> js_number \<Rightarrow> TableState result" where
  "applyAction st act now =
     rbind (assertIntTimestamp now) (\<lambda>_.
     rbind (seatCount9 (seats st)) (\<lambda>_.
     case hand st of
       None \<Rightarrow> Inl NO_HAND
     | Some h \<Rightarrow>
         if phase h \<noteq> Betting then Inl HAND_NOT_ACTIVE
         else let seat = action_seat act; s = nat seat in
         if seat < 0 \<or> 8 < seat then Inl ILLEGAL_ACTION
         else if seatAt st s = None then Inl SEAT_EMPTY
         else if \<not> inHandAt h s then Inl SEAT_NOT_IN_HAND
         else if foldedAt h s then Inl SEAT_FOLDED
         else if allInAt h s then Inl SEAT_ALL_IN
         else if actionOn h \<noteq> Some s then Inl OUT_OF_TURN
         else rbind (dispatchAction st h s act) (\<lambda>(st1, h1).
           let (st2, h2) = maybeAdvance st1 (h1\<lparr>events := events h1 @ [ActionApplied s act]\<rparr>) now
           in Inr (st2\<lparr>hand := Some h2\<rparr>))))"

definition pushEvent :: "EngineEvent \<Rightarrow> TableState \<Rightarrow> TableState" where
  "pushEvent e st = st\<lparr>hand := map_option (\<lambda>h. h\<lparr>events := events h @ [e]\<rparr>) (hand st)\<rparr>"

definition timeoutAction :: "HandState \<Rightarrow> nat \<Rightarrow> Action" where
  "timeoutAction h s = (if toCall h s = 0 then Check (int s) else Fold (int s))"

definition applyTick :: "TableState \<Rightarrow> js_number \<Rightarrow> TableState result" where
  "applyTick st now =
     rbind (assertIntTimestamp now) (\<lambda>_.
     rbind (seatCount9 (seats st)) (\<lambda>_.
     case hand st of
       None \<Rightarrow> Inr st
     | Some h \<Rightarrow>
         if phase h \<noteq> Betting then Inr st
         else case (actionOn h, actionDeadlineTs h) of
             (Some s, Some deadline) \<Rightarrow>
               if now < deadline then Inr st
               else rbind (applyAction st (timeoutAction h s) now) (\<lambda>st1.
                 Inr (pushEvent (TimeoutApplied s (if toCall h s = 0 then ''Check'' else ''Fold'')) st1))
           | _ \<Rightarrow> Inr st))"

definition refundSeat :: "nat \<Rightarrow> TableState \<times> HandState \<Rightarrow> TableState \<times> HandState" where
  "refundSeat i sh =
     (let (st, h) = sh in
      case seatAt st i of
        None \<Rightarrow> (st, h)
      | Some _ \<Rightarrow>
          if (i = smallBlindSeat h \<or> i = bigBlindSeat h) \<and> \<not> refundBlindsOnAbort (params st) then (st, h)
          else (addStack st i (totalCommitAt h i),
                h\<lparr>totalCommit := (totalCommit h)[i := 0], streetCommit := (streetCommit h)[i := 0]\<rparr>))"

definition abortHand :: "TableState \<Rightarrow> string \<Rightarrow> js_number \<Rightarrow> TableState result" where
  "abortHand st reason now =
     rbind (assertIntTimestamp now) (\<lambda>_.
     rbind (seatCount9 (seats st)) (\<lambda>_.
     case hand st of
       None \<Rightarrow> Inl NO_HAND
     | Some h \<Rightarrow>
         if phase h = Complete \<or> phase h = Aborted then Inr st
         else let (st1, h1) = fold refundSeat [0..<9] (st, h) in
           Inr (st1\<lparr>hand := Some (h1\<lparr>phase := Aborted, actionOn := None, actionDeadlineTs := None,
             pots := [], winnerSeat := None, events := events h1 @ [HandAborted reason]\<rparr>)\<rparr>)))"

definition legalActions :: "TableState \<Rightarrow> Action list" where
  "legalActions st =
     (case hand st of
        None \<Rightarrow> []
      | Some h \<Rightarrow>
          if phase h \<noteq> Betting then []
          else case actionOn h of
              None \<Rightarrow> []
            | Some s \<Rightarrow>
                if \<not> inHandAt h s \<or> foldedAt h s \<or> allInAt h s then []
                else if seatAt st s = None then []
                else
                  let seat = int s; need = toCall h s; stk = stackAt st s;
                      canRaise = (lastActedAt h s \<noteq> intervalId h);
                      maxCommit = streetCommitAt h s + stk
                  in if need = 0 then
                       [Fold seat, Check seat] @
                       (if 0 < stk \<and> canRaise then
                          (let minBet = bigBlind (params st);
                               bet = (if minBet \<le> maxCommit then minBet else maxCommit)
                           in (if 0 < bet then [BetTo seat bet] else []) @
                              (if bet < maxCommit then [BetTo seat maxCommit] else []))
                        else [])
                     else
                       [Fold seat, Call seat] @
                       (if \<not> canRaise \<or> stk = 0 then []
                        else if maxCommit \<le> betTo h then []
                        else (let minRaiseTo = betTo h + minRaiseSize h
                              in (if minRaiseTo \<le> maxCommit then [BetTo seat minRaiseTo] else []) @
                                 [BetTo seat maxCommit])))"

definition stacksTotal :: "TableState \<Rightarrow> int" where
  "stacksTotal st = sum_list (map (\<lambda>s. case s of None \<Rightarrow> 0 | Some ss \<Rightarrow> stack ss) (seats st))"

definition escrow :: "HandState \<Rightarrow> int" where
  "escrow h = sum_list (map (totalCommitAt h) [0..<9])"

definition totalChipsOnTable :: "TableState \<Rightarrow> int" where
  "totalChipsOnTable st =
     stacksTotal st + (case hand st of None \<Rightarrow> 0 | Some h \<Rightarrow> escrow h)"

end
