(* ===== verification/Engine_Chips.thy ===== *)
theory Engine_Chips
  imports Poker_Engine
begin

text \<open>
  Chip accounting of the engine: every operation on a hand moves chips between the stacks
  and the pot and neither creates nor destroys any. \<open>hand_wf\<close> says that the per-seat
  arrays of a hand have nine entries, which every operation keeps.
\<close>

subsection \<open>Nine-seat arrays\<close>

definition hand_wf :: "HandState \<Rightarrow> bool" where
  "hand_wf h \<longleftrightarrow>
     length (lastIntervalActed h) = 9 \<and> length (streetCommit h) = 9 \<and> length (totalCommit h) = 9 \<and>
     length (inHand h) = 9 \<and> length (folded h) = 9 \<and> length (allIn h) = 9"

lemma hand_wf_update [simp]:
  "hand_wf (h\<lparr>handId := a1\<rparr>) = hand_wf h" "hand_wf (h\<lparr>phase := a2\<rparr>) = hand_wf h"
  "hand_wf (h\<lparr>street := a3\<rparr>) = hand_wf h" "hand_wf (h\<lparr>actionOn := a4\<rparr>) = hand_wf h"
  "hand_wf (h\<lparr>actionDeadlineTs := a5\<rparr>) = hand_wf h" "hand_wf (h\<lparr>betTo := a6\<rparr>) = hand_wf h"
  "hand_wf (h\<lparr>minRaiseSize := a7\<rparr>) = hand_wf h" "hand_wf (h\<lparr>intervalId := a8\<rparr>) = hand_wf h"
  "hand_wf (h\<lparr>pots := a9\<rparr>) = hand_wf h" "hand_wf (h\<lparr>winnerSeat := a10\<rparr>) = hand_wf h"
  "hand_wf (h\<lparr>events := a11\<rparr>) = hand_wf h"
  by (simp_all add: hand_wf_def)

lemma hand_wf_ints [simp]:
  assumes "hand_wf h" and "length xs = 9"
  shows "hand_wf (h\<lparr>streetCommit := xs\<rparr>)" "hand_wf (h\<lparr>totalCommit := xs\<rparr>)"
    "hand_wf (h\<lparr>lastIntervalActed := xs\<rparr>)"
  using assms by (simp_all add: hand_wf_def)

lemma hand_wf_bools [simp]:
  assumes "hand_wf h" and "length bs = 9"
  shows "hand_wf (h\<lparr>inHand := bs\<rparr>)" "hand_wf (h\<lparr>folded := bs\<rparr>)" "hand_wf (h\<lparr>allIn := bs\<rparr>)"
  using assms by (simp_all add: hand_wf_def)

lemma hand_wfD [simp]:
  assumes "hand_wf h"
  shows "length (lastIntervalActed h) = 9" "length (streetCommit h) = 9" "length (totalCommit h) = 9"
    "length (inHand h) = 9" "length (folded h) = 9" "length (allIn h) = 9"
  using assms by (simp_all add: hand_wf_def)

lemma map_aget_id: "length xs = n \<Longrightarrow> map (aget d xs) [0..<n] = xs"
  by (rule nth_equalityI) auto

lemma escrow_wf: "hand_wf h \<Longrightarrow> escrow h = sum_list (totalCommit h)"
  by (simp add: escrow_def map_aget_id)


lemma addStack_None [simp]: "seatAt st i = None \<Longrightarrow> addStack st i d = st"
  by (simp add: addStack_def)

lemma seatAt_Some_less: "seatAt st i \<noteq> None \<Longrightarrow> i < length (seats st)"
  by (simp add: aget_def split: if_splits)

lemma addStack_Some:
  "seatAt st i = Some ss \<Longrightarrow> addStack st i d = st\<lparr>seats := (seats st)[i := Some (ss\<lparr>stack := stack ss + d\<rparr>)]\<rparr>"
  by (simp add: addStack_def)

lemma addStack_simps [simp]:
  "length (seats (addStack st i d)) = length (seats st)"
  "params (addStack st i d) = params st"
  "hand (addStack st i d) = hand st"
  "tableButton (addStack st i d) = tableButton st"
  "nextHandId (addStack st i d) = nextHandId st"
  by (cases "seatAt st i"; simp add: addStack_def)+

lemma seatAt_addStack [simp]: "seatAt (addStack st i d) j = None \<longleftrightarrow> seatAt st j = None"
proof (cases "seatAt st i")
  case (Some ss)
  with seatAt_Some_less [of st i] show ?thesis by (cases "i = j") (simp_all add: addStack_Some)
qed simp

lemma seatAt_addStack_ex [simp]: "(\<exists>y. seatAt (addStack st i d) j = Some y) \<longleftrightarrow> (\<exists>y. seatAt st j = Some y)"
  using seatAt_addStack [of st i d j] by (metis not_None_eq)

lemma stackAt_None [simp]: "seatAt st i = None \<Longrightarrow> stackAt st i = 0"
  by (simp add: stackAt_def)

lemma stackAt_addStack:
  "stackAt (addStack st i d) j = (if i = j \<and> seatAt st i \<noteq> None then stackAt st j + d else stackAt st j)"
proof (cases "seatAt st i")
  case (Some ss)
  with seatAt_Some_less [of st i] show ?thesis by (cases "i = j") (simp_all add: addStack_Some stackAt_def)
qed simp

lemma stacksTotal_addStack:
  "stacksTotal (addStack st i d) = stacksTotal st + (if seatAt st i = None then 0 else d)"
proof (cases "seatAt st i")
  case (Some ss)
  with seatAt_Some_less [of st i] show ?thesis
    by (simp add: addStack_Some stacksTotal_def sum_list_map_update)
qed simp

definition chips :: "TableState \<times> HandState \<Rightarrow> int" where
  "chips sh = stacksTotal (fst sh) + escrow (snd sh)"

lemma hand_wf_payIn [simp]: "hand_wf h \<Longrightarrow> hand_wf (snd (payIn st h s d))"
  by (simp add: payIn_def Let_def)

lemma chips_payIn:
  assumes "hand_wf h" "s < 9" "seatAt st s \<noteq> None"
  shows "chips (payIn st h s d) = chips (st, h)"
proof -
  have "escrow (snd (payIn st h s d)) = escrow h + d"
    using assms hand_wf_payIn [OF assms(1), of st s d]
    by (simp add: escrow_wf) (simp add: payIn_def Let_def chip_simps)
  moreover have "stacksTotal (fst (payIn st h s d)) = stacksTotal st - d"
    using assms by (auto simp: payIn_def Let_def stacksTotal_addStack)
  ultimately show ?thesis by (simp add: chips_def)
qed

lemma foldl_max_ge:
  "m \<le> foldl (\<lambda>m i. if m < f i then f i else m) m xs
   \<and> (\<forall>i \<in> set xs. f i \<le> foldl (\<lambda>m i. if m < f i then f i else m) (m::int) xs)"
proof (induction xs arbitrary: m)
  case Nil
  then show ?case by simp
next
  case (Cons x xs)
  show ?case using Cons.IH [of "if m < f x then f x else m"] by auto
qed

lemma foldl_second_bounds:
  fixes f :: "nat \<Rightarrow> int"
  assumes "s \<ge> 0"
  shows "s \<le> foldl (\<lambda>s i. let v = f i in if v = mx then s else if s < v then v else s) s xs"
proof -
  show ?thesis
  proof (induction xs arbitrary: s)
    case Nil
    then show ?case by simp
  next
    case (Cons x xs)
    show ?case using Cons.IH [of "let v = f x in if v = mx then s else if s < v then v else s"]
      by (simp add: Let_def split: if_splits)
  qed
qed

lemma second_nonneg: "0 \<le> secondMaxCommitThisStreet h mx"
  unfolding secondMaxCommitThisStreet_def by (rule foldl_second_bounds) simp

lemma returnUncalled_cases:
  obtains (same) "returnUncalledStreetExcess st h = (st, h)"
  | (paid) i e where "i < 9" and "seatAt st i \<noteq> None" and "0 < e" and "e \<le> streetCommitAt h i"
      and "returnUncalledStreetExcess st h =
        (addStack st i e,
         h\<lparr>streetCommit := (streetCommit h)[i := streetCommitAt h i - e],
           totalCommit := (totalCommit h)[i := totalCommitAt h i - e],
           allIn := (if 0 < stackAt st i + e then (allIn h)[i := False] else allIn h)\<rparr>)"
proof -
  let ?mx = "maxCommitThisStreet h" and ?second = "secondMaxCommitThisStreet h (maxCommitThisStreet h)"
  let ?tops = "filter (\<lambda>i. streetCommitAt h i = ?mx) [0..<9]"
  show thesis
  proof (cases "?mx = 0 \<or> ?second = ?mx \<or> (\<forall>i. ?tops \<noteq> [i]) \<or> ?mx - ?second \<le> 0 \<or> seatAt st (hd ?tops) = None")
    case True
    then have "returnUncalledStreetExcess st h = (st, h)"
      unfolding returnUncalledStreetExcess_def Let_def
      by (auto split: list.splits option.splits)
    then show thesis by (rule same)
  next
    case False
    then obtain i where i: "?tops = [i]" by blast
    then have "i \<in> set ?tops" by simp
    then have i9: "i < 9" and top: "streetCommitAt h i = ?mx" by simp_all
    from False i obtain ss where ss: "seatAt st i = Some ss" by auto
    show thesis
    proof (rule paid [of i "?mx - ?second"])
      show "?mx - ?second \<le> streetCommitAt h i" using top second_nonneg [of h ?mx] by linarith
      show "0 < ?mx - ?second" using False by linarith
      show "returnUncalledStreetExcess st h =
        (addStack st i (?mx - ?second),
         h\<lparr>streetCommit := (streetCommit h)[i := streetCommitAt h i - (?mx - ?second)],
           totalCommit := (totalCommit h)[i := totalCommitAt h i - (?mx - ?second)],
           allIn := (if 0 < stackAt st i + (?mx - ?second) then (allIn h)[i := False] else allIn h)\<rparr>)"
        using False i ss unfolding returnUncalledStreetExcess_def Let_def stackAt_def
        by (simp del: upt_Suc upt.simps filter.simps)
    qed (use i9 ss in simp_all)
  qed
qed


lemma hand_wf_returnUncalled [simp]: "hand_wf h \<Longrightarrow> hand_wf (snd (returnUncalledStreetExcess st h))"
  by (rule returnUncalled_cases [of st h]) simp_all

lemma chips_returnUncalled:
  assumes "hand_wf h"
  shows "chips (returnUncalledStreetExcess st h) = chips (st, h)"
proof (rule returnUncalled_cases [of st h])
  fix i e
  assume i: "i < 9" "seatAt st i \<noteq> None"
    and eq: "returnUncalledStreetExcess st h =
        (addStack st i e,
         h\<lparr>streetCommit := (streetCommit h)[i := streetCommitAt h i - e],
           totalCommit := (totalCommit h)[i := totalCommitAt h i - e],
           allIn := (if 0 < stackAt st i + e then (allIn h)[i := False] else allIn h)\<rparr>)"
  have "escrow (snd (returnUncalledStreetExcess st h)) = escrow h - e"
    using i assms by (simp add: eq escrow_wf chip_simps)
  moreover have "stacksTotal (fst (returnUncalledStreetExcess st h)) = stacksTotal st + e"
    using i by (auto simp: eq stacksTotal_addStack)
  ultimately show ?thesis by (simp add: chips_def)
qed simp

lemma returnUncalled_fst [simp]:
  "length (seats (fst (returnUncalledStreetExcess st h))) = length (seats st)"
  "params (fst (returnUncalledStreetExcess st h)) = params st"
  "seatAt (fst (returnUncalledStreetExcess st h)) j = None \<longleftrightarrow> seatAt st j = None"
  "(\<exists>y. seatAt (fst (returnUncalledStreetExcess st h)) j = Some y) \<longleftrightarrow> (\<exists>y. seatAt st j = Some y)"
  by (rule returnUncalled_cases [of st h]; simp)+

lemma returnUncalled_snd [simp]:
  "phase (snd (returnUncalledStreetExcess st h)) = phase h"
  "street (snd (returnUncalledStreetExcess st h)) = street h"
  "button (snd (returnUncalledStreetExcess st h)) = button h"
  "inHand (snd (returnUncalledStreetExcess st h)) = inHand h"
  "folded (snd (returnUncalledStreetExcess st h)) = folded h"
  "events (snd (returnUncalledStreetExcess st h)) = events h"
  by (rule returnUncalled_cases [of st h]; simp)+

lemma escrow_replicate [simp]: "totalCommit h = replicate 9 0 \<Longrightarrow> escrow h = 0"
  by (simp add: escrow_def)

lemma hand_wf_completeByFolds [simp]: "hand_wf h \<Longrightarrow> hand_wf (snd (completeByFolds st h))"
  by (simp add: completeByFolds_def Let_def split_beta split: option.splits)

lemma chips_completeByFolds: 
  assumes "hand_wf h"
  shows "chips (completeByFolds st h) = chips (st, h)"
proof -
  obtain st1 h1 where r: "returnUncalledStreetExcess st h = (st1, h1)" by fastforce
  then have c: "chips (st1, h1) = chips (st, h)" using chips_returnUncalled [OF assms, of st] by simp
  show ?thesis
  proof (cases "find (\<lambda>i. inHandAt h i \<and> \<not> foldedAt h i) [0..<9]")
    case None
    then show ?thesis by (simp add: completeByFolds_def)
  next
    case (Some w)
    show ?thesis
    proof (cases "seatAt st1 w")
      case None
      with Some r c show ?thesis by (simp add: completeByFolds_def)
    next
      case (Some ss)
      with \<open>find _ _ = Some w\<close> r c show ?thesis
        by (simp add: completeByFolds_def chips_def stacksTotal_addStack Let_def) (simp add: escrow_def)
    qed
  qed
qed

lemma escrow_update [simp]:
  "escrow (h\<lparr>phase := a2\<rparr>) = escrow h"
  "escrow (h\<lparr>street := a3\<rparr>) = escrow h" "escrow (h\<lparr>actionOn := a4\<rparr>) = escrow h"
  "escrow (h\<lparr>actionDeadlineTs := a5\<rparr>) = escrow h" "escrow (h\<lparr>betTo := a6\<rparr>) = escrow h"
  "escrow (h\<lparr>minRaiseSize := a7\<rparr>) = escrow h" "escrow (h\<lparr>intervalId := a8\<rparr>) = escrow h"
  "escrow (h\<lparr>pots := a9\<rparr>) = escrow h" "escrow (h\<lparr>winnerSeat := a10\<rparr>) = escrow h"
  "escrow (h\<lparr>events := a11\<rparr>) = escrow h" "escrow (h\<lparr>lastIntervalActed := a12\<rparr>) = escrow h"
  "escrow (h\<lparr>streetCommit := a13\<rparr>) = escrow h" "escrow (h\<lparr>folded := a14\<rparr>) = escrow h"
  "escrow (h\<lparr>allIn := a15\<rparr>) = escrow h"
  by (simp_all add: escrow_def)

lemma escrow_reachShowdown [simp]: "escrow (reachShowdown h) = escrow h"
  by (simp add: reachShowdown_def Let_def)

lemma escrow_advanceStreet [simp]: "escrow (advanceStreet st h now) = escrow h"
  by (simp add: advanceStreet_def Let_def)

lemma hand_wf_reachShowdown [simp]: "hand_wf h \<Longrightarrow> hand_wf (reachShowdown h)"
  by (simp add: reachShowdown_def Let_def)

lemma hand_wf_advanceStreet [simp]: "hand_wf h \<Longrightarrow> hand_wf (advanceStreet st h now)"
  by (simp add: advanceStreet_def Let_def)

lemma hand_wf_maybeAdvance [simp]: "hand_wf h \<Longrightarrow> hand_wf (snd (maybeAdvance st h now))"
  by (simp add: maybeAdvance_def Let_def split_beta)

lemma chips_maybeAdvance: 
  assumes "hand_wf h"
  shows "chips (maybeAdvance st h now) = chips (st, h)"
  using chips_returnUncalled [OF assms, of st] chips_completeByFolds [OF assms, of st]
  by (auto simp: maybeAdvance_def Let_def chips_def split: prod.splits)


lemma hand_wf_dispatchAction:
  "hand_wf h \<Longrightarrow> dispatchAction st h s act = Inr (st1, h1) \<Longrightarrow> hand_wf h1"
  by (cases act)
    (auto simp: dispatchAction_def applyFold_def applyCheck_def applyCall_def applyBetTo_def
       payIn_def Let_def split: if_splits)

lemma chips_dispatchAction:
  assumes "hand_wf h" and "s < 9" and "seatAt st s \<noteq> None"
    and "dispatchAction st h s act = Inr sh"
  shows "chips sh = chips (st, h)"
proof (cases act)
  case (Fold x)
  then show ?thesis using assms(4) by (auto simp: dispatchAction_def applyFold_def chips_def)
next
  case (Check x)
  then show ?thesis using assms(4)
    by (auto simp: dispatchAction_def applyCheck_def chips_def split: if_splits)
next
  case (Call x)
  obtain d where "chips sh = chips (payIn st h s d)"
    using assms(4) Call by (auto simp: dispatchAction_def applyCall_def Let_def split_beta chips_def split: if_splits)
  then show ?thesis using chips_payIn [OF assms(1-3)] by simp
next
  case (BetTo x a)
  then obtain h1 d where p: "sh = payIn st h1 s d" and h1: "hand_wf h1" "escrow h1 = escrow h"
    using assms(1,4) by (auto simp: dispatchAction_def applyBetTo_def Let_def split: if_splits)
  show ?thesis using chips_payIn [OF h1(1) assms(2,3)] h1(2) p by (simp add: chips_def)
qed

subsection \<open>The exported operations conserve chips\<close>

definition table_wf :: "TableState \<Rightarrow> bool" where
  "table_wf st \<longleftrightarrow> length (seats st) = 9 \<and> (case hand st of None \<Rightarrow> True | Some h \<Rightarrow> hand_wf h)"

lemma applyAction_InrE:
  assumes "applyAction st act now = Inr st'"
  obtains h s st1 h1 st2 h2 where "hand st = Some h" and "phase h = Betting"
    and "action_seat act = int s" and "s < 9" and "length (seats st) = 9"
    and "seatAt st s \<noteq> None" and "inHandAt h s" and "\<not> foldedAt h s" and "\<not> allInAt h s"
    and "actionOn h = Some s" and "dispatchAction st h s act = Inr (st1, h1)"
    and "maybeAdvance st1 (h1\<lparr>events := events h1 @ [ActionApplied s act]\<rparr>) now = (st2, h2)"
    and "st' = st2\<lparr>hand := Some h2\<rparr>"
proof -
  let ?s = "nat (action_seat act)"
  from assms obtain h where h: "hand st = Some h"
    by (auto simp: applyAction_def split: option.splits)
  from assms h obtain sh where d: "dispatchAction st h ?s act = Inr sh"
    by (auto simp: applyAction_def Let_def split: if_splits)
  from assms h d show thesis
    by (intro that [of h ?s "fst sh" "snd sh"])
      (auto simp: applyAction_def seatCount9_def Let_def split_beta split: if_splits)
qed

lemma hand_update_simps [simp]:
  "stacksTotal (st\<lparr>hand := x\<rparr>) = stacksTotal st"
  "stackAt (st\<lparr>hand := x\<rparr>) i = stackAt st i"
  "stacksTotal (st\<lparr>tableButton := b\<rparr>) = stacksTotal st"
  "stackAt (st\<lparr>tableButton := b\<rparr>) i = stackAt st i"
  "stacksTotal (st\<lparr>nextHandId := n\<rparr>) = stacksTotal st"
  "stackAt (st\<lparr>nextHandId := n\<rparr>) i = stackAt st i"
  by (simp_all add: stacksTotal_def stackAt_def)

lemma totalChips_chips: "hand st = Some h \<Longrightarrow> totalChipsOnTable st = chips (st, h)"
  by (simp add: totalChipsOnTable_def chips_def)

lemma applyAction_chips:
  assumes "table_wf st" and "applyAction st act now = Inr st'"
  shows "totalChipsOnTable st' = totalChipsOnTable st"
  using assms(2)
proof (rule applyAction_InrE)
  fix h s st1 h1 st2 h2
  assume h: "hand st = Some h" and s: "s < 9" "seatAt st s \<noteq> None"
    and d: "dispatchAction st h s act = Inr (st1, h1)"
    and m: "maybeAdvance st1 (h1\<lparr>events := events h1 @ [ActionApplied s act]\<rparr>) now = (st2, h2)"
    and st': "st' = st2\<lparr>hand := Some h2\<rparr>"
  have wf: "hand_wf h" using assms(1) h by (simp add: table_wf_def)
  then have wf1: "hand_wf h1" using d by (rule hand_wf_dispatchAction)
  have "totalChipsOnTable st' = chips (st2, h2)" by (simp add: st' totalChipsOnTable_def chips_def)
  also have "\<dots> = chips (st1, h1)"
    using chips_maybeAdvance [of "h1\<lparr>events := events h1 @ [ActionApplied s act]\<rparr>" st1 now] wf1 m
    by (simp add: chips_def)
  also have "\<dots> = chips (st, h)" by (rule chips_dispatchAction [OF wf s d])
  finally show ?thesis using h by (simp add: totalChips_chips)
qed

lemma pushEvent_chips [simp]: "totalChipsOnTable (pushEvent e st) = totalChipsOnTable st"
  by (auto simp: pushEvent_def totalChipsOnTable_def split: option.splits)

lemma applyTick_InrE:
  assumes "applyTick st now = Inr st'"
  obtains (idle) "st' = st"
  | (timeout) h s deadline st1 where "hand st = Some h" and "phase h = Betting" and "actionOn h = Some s"
      and "actionDeadlineTs h = Some deadline" and "deadline \<le> now"
      and "applyAction st (timeoutAction h s) now = Inr st1"
      and "st' = pushEvent (TimeoutApplied s (if toCall h s = 0 then ''Check'' else ''Fold'')) st1"
proof (cases "hand st")
  case None
  with assms idle show thesis by (auto simp: applyTick_def)
next
  case (Some h)
  show thesis
  proof (cases "phase h = Betting \<and> actionOn h \<noteq> None \<and> actionDeadlineTs h \<noteq> None \<and> the (actionDeadlineTs h) \<le> now")
    case True
    then obtain s d where "actionOn h = Some s" "actionDeadlineTs h = Some d" by blast
    with True Some assms timeout show thesis by (auto simp: applyTick_def)
  next
    case False
    with Some assms idle show thesis by (auto simp: applyTick_def split: if_splits option.splits)
  qed
qed

lemma refundSeat_wf:
  "hand_wf (snd sh) \<Longrightarrow> hand_wf (snd (refundSeat i sh))"
  by (auto simp: refundSeat_def Let_def split_beta split: option.splits)

lemma refundSeat_chips:
  assumes "hand_wf (snd sh)" and "i < 9"
  shows "chips (refundSeat i sh) = chips sh"
proof (cases "refundSeat i sh = sh")
  case False
  obtain st h where sh: "sh = (st, h)" by fastforce
  with False obtain ss where ss: "seatAt st i = Some ss"
    and eq: "refundSeat i sh = (addStack st i (totalCommitAt h i),
                h\<lparr>totalCommit := (totalCommit h)[i := 0], streetCommit := (streetCommit h)[i := 0]\<rparr>)"
    by (auto simp: refundSeat_def split: option.splits if_splits)
  have "escrow (snd (refundSeat i sh)) = escrow h - totalCommitAt h i"
    unfolding eq using assms sh by (simp add: escrow_wf chip_simps)
  moreover have "stacksTotal (fst (refundSeat i sh)) = stacksTotal st + totalCommitAt h i"
    unfolding eq using ss by (simp add: stacksTotal_addStack)
  ultimately show ?thesis using sh by (simp add: chips_def)
qed simp

lemma fold_refundSeat:
  assumes "hand_wf (snd sh)" and "\<forall>i \<in> set is. i < 9"
  shows "hand_wf (snd (fold refundSeat is sh)) \<and> chips (fold refundSeat is sh) = chips sh"
  using assms
proof (induction "is" arbitrary: sh)
  case (Cons i "is")
  then show ?case by (simp add: refundSeat_wf refundSeat_chips)
qed simp

lemma abortHand_chips:
  assumes "table_wf st" and "abortHand st reason now = Inr st'"
  shows "totalChipsOnTable st' = totalChipsOnTable st"
proof -
  from assms(2) obtain h where h: "hand st = Some h"
    by (auto simp: abortHand_def split: option.splits)
  with assms(1) have wf: "hand_wf h" by (simp add: table_wf_def)
  show ?thesis
  proof (cases "phase h = Complete \<or> phase h = Aborted")
    case True
    with assms(2) h show ?thesis by (auto simp: abortHand_def)
  next
    case False
    obtain st1 h1 where f: "fold refundSeat [0..<9] (st, h) = (st1, h1)" by fastforce
    have "chips (st1, h1) = chips (st, h)"
      using fold_refundSeat [of "(st, h)" "[0..<9]"] wf f by simp
    with False assms(2) h f show ?thesis
      by (auto simp: abortHand_def totalChipsOnTable_def chips_def)
  qed
qed

end
