(* ===== verification/Engine_Invariant.thy ===== *)
theory Engine_Invariant
  imports Engine_Chips
begin

text \<open>
  The invariant of the engine and that every exported operation keeps it: chip counts are
  never negative, a seat's contribution to the street is part of its contribution to the
  hand, a contender is all-in exactly when its stack is empty, at least two contenders are
  left while betting goes on, and the turn is always with a seat that still has to act.
\<close>

subsection \<open>The invariant\<close>

definition params_ok :: "TableParams \<Rightarrow> bool" where
  "params_ok ps \<longleftrightarrow> 0 < smallBlind ps \<and> smallBlind ps < bigBlind ps"

definition commits_ok :: "TableState \<Rightarrow> HandState \<Rightarrow> bool" where
  "commits_ok st h \<longleftrightarrow>
     (\<forall>i<9. 0 \<le> stackAt st i \<and> 0 \<le> streetCommitAt h i \<and> streetCommitAt h i \<le> totalCommitAt h i
        \<and> (inHandAt h i \<longrightarrow> seatAt st i \<noteq> None))"

definition allin_ok :: "TableState \<Rightarrow> HandState \<Rightarrow> bool" where
  "allin_ok st h \<longleftrightarrow>
     (\<forall>i<9. inHandAt h i \<and> \<not> foldedAt h i \<longrightarrow> (allInAt h i \<longleftrightarrow> stackAt st i = 0))"

definition interval_ok :: "HandState \<Rightarrow> bool" where
  "interval_ok h \<longleftrightarrow>
     0 \<le> betTo h \<and> 0 < minRaiseSize h \<and> 0 \<le> intervalId h \<and> (\<forall>i<9. lastActedAt h i \<le> intervalId h)"

definition turn_ok :: "HandState \<Rightarrow> bool" where
  "turn_ok h \<longleftrightarrow>
     (case actionOn h of None \<Rightarrow> False
      | Some s \<Rightarrow> s < 9 \<and> needsToAct h s \<and> actionDeadlineTs h \<noteq> None)"

definition hand_inv :: "TableState \<Rightarrow> HandState \<Rightarrow> bool" where
  "hand_inv st h \<longleftrightarrow>
     hand_wf h \<and> commits_ok st h \<and> interval_ok h \<and>
     (case phase h of
        Betting \<Rightarrow> allin_ok st h \<and> 2 \<le> countNotFolded h \<and> turn_ok h
      | Showdown \<Rightarrow> actionOn h = None \<and> potTotal (pots h) = escrow h
      | Complete \<Rightarrow> actionOn h = None \<and> escrow h = 0
      | Aborted \<Rightarrow> actionOn h = None)"

definition table_inv :: "TableState \<Rightarrow> bool" where
  "table_inv st \<longleftrightarrow>
     length (seats st) = 9 \<and> params_ok (params st) \<and> (\<forall>i<9. 0 \<le> stackAt st i) \<and>
     (case hand st of None \<Rightarrow> True | Some h \<Rightarrow> hand_inv st h)"

definition mid_inv :: "TableState \<Rightarrow> HandState \<Rightarrow> bool" where
  "mid_inv st h \<longleftrightarrow>
     hand_wf h \<and> commits_ok st h \<and> interval_ok h \<and> allin_ok st h \<and> phase h = Betting \<and> 1 \<le> countNotFolded h"

lemmas engine_inv_defs = commits_ok_def allin_ok_def interval_ok_def

subsection \<open>Turn order\<close>

lemma needsToAct_iff:
  "needsToAct h s \<longleftrightarrow> inHandAt h s \<and> \<not> foldedAt h s \<and> \<not> allInAt h s
     \<and> (lastActedAt h s \<noteq> intervalId h \<or> streetCommitAt h s \<noteq> betTo h)"
  by (auto simp: needsToAct_def)

lemma streetComplete_iff: "streetComplete h \<longleftrightarrow> (\<forall>i<9. \<not> needsToAct h i)"
  by (auto simp: streetComplete_def needsToAct_iff list_all_iff)

lemma mod9_range: "(\<lambda>offset. nat ((f + int offset) mod 9)) ` set [1..<10] = {..<9}"
proof -
  have "\<exists>off \<in> {1..<10}. i = nat ((f + int off) mod 9)" if "i < 9" for i
  proof -
    have "\<exists>k \<in> {1..9}. int i = (f + k) mod 9"
    proof -
      let ?k = "(int i - f - 1) mod 9 + 1"
      have "(f + ?k) mod 9 = (f + 1 + (int i - f - 1) mod 9) mod 9" by (simp add: algebra_simps)
      also have "\<dots> = (int i) mod 9" unfolding mod_add_right_eq by simp
      finally have "(f + ?k) mod 9 = (int i) mod 9" .
      moreover have "?k \<in> {1..9}" by simp
      ultimately show ?thesis using that by (intro bexI [of _ ?k]) auto
    qed
    then obtain k where "k \<in> {1..9}" "int i = (f + k) mod 9" by blast
    then show ?thesis by (intro bexI [of _ "nat k"]) auto
  qed
  then show ?thesis by auto
qed

lemma nextActiveInHand_None: 
  "nextActiveInHand h f = None \<longleftrightarrow> (\<forall>i<9. \<not> needsToAct h i)"
  using mod9_range [of f] unfolding nextActiveInHand_def find_None_iff set_map by (auto simp: needsToAct_iff)

lemma nextActiveInHand_Some:
  assumes "nextActiveInHand h f = Some s" 
  shows "s < 9 \<and> needsToAct h s"
proof -
  have "s \<in> (\<lambda>offset. nat ((f + int offset) mod 9)) ` set [1..<10] \<and> needsToAct h s"
    using find_SomeD [OF assms [unfolded nextActiveInHand_def]] by simp
  then show ?thesis by auto
qed

subsection \<open>Ending a street or a hand\<close>

lemma interval_ok_update [simp]:
  "interval_ok (h\<lparr>phase := a1\<rparr>) = interval_ok h" "interval_ok (h\<lparr>actionOn := a2\<rparr>) = interval_ok h"
  "interval_ok (h\<lparr>actionDeadlineTs := a3\<rparr>) = interval_ok h" "interval_ok (h\<lparr>pots := a4\<rparr>) = interval_ok h"
  "interval_ok (h\<lparr>winnerSeat := a5\<rparr>) = interval_ok h" "interval_ok (h\<lparr>events := a6\<rparr>) = interval_ok h"
  "interval_ok (h\<lparr>streetCommit := a7\<rparr>) = interval_ok h" "interval_ok (h\<lparr>totalCommit := a8\<rparr>) = interval_ok h"
  "interval_ok (h\<lparr>folded := a9\<rparr>) = interval_ok h" "interval_ok (h\<lparr>allIn := a10\<rparr>) = interval_ok h"
  by (simp_all add: interval_ok_def)

lemma aget_list_update: "aget d (xs[i := v]) j = (if i = j \<and> i < length xs then v else aget d xs j)"
  by (simp add: aget_def)

lemma returnUncalled_commits_ok:
  assumes "hand_wf h" and "commits_ok st h"
  shows "commits_ok (fst (returnUncalledStreetExcess st h)) (snd (returnUncalledStreetExcess st h))"
  by (rule returnUncalled_cases [of st h])
    (use assms in \<open>auto simp: commits_ok_def stackAt_addStack aget_list_update\<close>)

lemma returnUncalled_allin_ok:
  assumes "hand_wf h" and "commits_ok st h" and "allin_ok st h"
  shows "allin_ok (fst (returnUncalledStreetExcess st h)) (snd (returnUncalledStreetExcess st h))"
  by (rule returnUncalled_cases [of st h])
    (use assms in \<open>auto simp: allin_ok_def commits_ok_def stackAt_addStack aget_list_update add_nonneg_eq_0_iff split: if_splits\<close>)

lemma returnUncalled_interval [simp]:
  "interval_ok (snd (returnUncalledStreetExcess st h)) = interval_ok h"
  by (rule returnUncalled_cases [of st h]) (auto simp: interval_ok_def)

lemma countNotFolded_returnUncalled [simp]:
  "countNotFolded (snd (returnUncalledStreetExcess st h)) = countNotFolded h"
  by (simp add: countNotFolded_def)

lemma escrow_nonneg: "commits_ok st h \<Longrightarrow> 0 \<le> escrow h"
  unfolding escrow_def by (rule sum_list_nonneg) (force simp: commits_ok_def)

lemma countNotFolded_ex:
  assumes "1 \<le> countNotFolded h"
  obtains w where "find (\<lambda>i. inHandAt h i \<and> \<not> foldedAt h i) [0..<9] = Some w" and "w < 9" and "inHandAt h w"
proof -
  from assms have "filter (\<lambda>i. inHandAt h i \<and> \<not> foldedAt h i) [0..<9] \<noteq> []"
    unfolding countNotFolded_def by (metis length_0_conv not_one_le_zero)
  then obtain w where "find (\<lambda>i. inHandAt h i \<and> \<not> foldedAt h i) [0..<9] = Some w"
    using find_None_iff [of _ "[0..<9]"] by (auto simp: filter_empty_conv) (metis not_None_eq)
  with find_SomeD [OF this] that show thesis by auto
qed

lemma completeByFolds_inv:
  assumes "mid_inv st h"
  shows "hand_inv (fst (completeByFolds st h)) (snd (completeByFolds st h))"
proof -
  let ?r = "returnUncalledStreetExcess st h"
  have wf: "hand_wf h" and c: "commits_ok st h" and iv: "interval_ok h" using assms by (auto simp: mid_inv_def)
  have "1 \<le> countNotFolded h" using assms by (simp add: mid_inv_def)
  then obtain w where w: "find (\<lambda>i. inHandAt h i \<and> \<not> foldedAt h i) [0..<9] = Some w" "w < 9" "inHandAt h w"
    by (rule countNotFolded_ex)
  have c1: "commits_ok (fst ?r) (snd ?r)" by (rule returnUncalled_commits_ok [OF wf c])
  have "seatAt st w \<noteq> None" using c w by (auto simp: commits_ok_def)
  then obtain ss where ss: "seatAt (fst ?r) w = Some ss" by fastforce
  have nn: "0 \<le> escrow (snd ?r)" by (rule escrow_nonneg [OF c1])
  show ?thesis
    using w ss wf nn c1 iv
    by (auto simp: completeByFolds_def split_beta Let_def hand_inv_def commits_ok_def
       stackAt_addStack escrow_def [symmetric])
qed

lemma reachShowdown_simps [simp]:
  "phase (reachShowdown h) = Showdown" "actionOn (reachShowdown h) = None"
  "streetCommit (reachShowdown h) = streetCommit h" "totalCommit (reachShowdown h) = totalCommit h"
  "inHand (reachShowdown h) = inHand h" "folded (reachShowdown h) = folded h"
  "commits_ok st (reachShowdown h) = commits_ok st h" "interval_ok (reachShowdown h) = interval_ok h"
  by (simp_all add: reachShowdown_def Let_def engine_inv_defs)

lemma totalCommit_nonneg: "hand_wf h \<Longrightarrow> commits_ok st h \<Longrightarrow> \<forall>a \<in> set (totalCommit h). 0 \<le> a"
  by (simp add: all_set_conv_nth9 commits_ok_def) (meson order_trans)

lemma reachShowdown_inv:
  assumes "hand_wf h" and "commits_ok st h" and "interval_ok h"
  shows "hand_inv st (reachShowdown h)"
proof -
  have "potTotal (pots (reachShowdown h)) = escrow h"
    using side_pots.split_total_escrow [OF totalCommit_nonneg [OF assms(1,2)]] assms(1)
    by (simp add: reachShowdown_def Let_def escrow_wf)
  with assms show ?thesis by (simp add: hand_inv_def)
qed

lemma countWithChips_needs:
  assumes "hand_wf h" and "allin_ok st h" and "1 \<le> countWithChips h st"
  obtains i where "i < 9" and "inHandAt h i" and "\<not> foldedAt h i" and "\<not> allInAt h i"
proof -
  let ?P = "\<lambda>i. inHandAt h i \<and> \<not> foldedAt h i \<and> seatAt st i \<noteq> None \<and> 0 < stackAt st i"
  from assms(3) have "filter ?P [0..<9] \<noteq> []"
    unfolding countWithChips_def by (metis length_0_conv not_one_le_zero)
  then obtain i where "i < 9" "?P i" by (auto simp: filter_empty_conv)
  with assms(2) that show thesis by (auto simp: allin_ok_def)
qed

lemma advanceStreet_inv:
  assumes "mid_inv st h" and "params_ok (params st)" and "2 \<le> countNotFolded h" and "2 \<le> countWithChips h st"
  shows "hand_inv st (advanceStreet st h now)"
proof -
  have wf: "hand_wf h" and ai: "allin_ok st h" using assms(1) by (auto simp: mid_inv_def)
  let ?h1 = "h\<lparr>street := nextStreet (street h), betTo := 0,
                 minRaiseSize := bigBlind (params st), intervalId := 0,
                 streetCommit := replicate 9 0, lastIntervalActed := replicate 9 (- 1)\<rparr>"
  let ?start = "nextOccupiedSeat (seats st) (button h)"
  let ?next = "nextActiveInHand ?h1 (int ?start - 1)"
  obtain i where i: "i < 9" "inHandAt h i" "\<not> foldedAt h i" "\<not> allInAt h i"
    using countWithChips_needs [OF wf ai] assms(4) by (metis one_le_numeral order_trans)
  then have "needsToAct ?h1 i" by (simp add: needsToAct_iff)
  with i(1) have "?next \<noteq> None" unfolding nextActiveInHand_None by blast
  then obtain s where s: "?next = Some s" by blast
  from nextActiveInHand_Some [OF s] have "s < 9" "needsToAct ?h1 s" by auto
  moreover have "advanceStreet st h now = ?h1\<lparr>actionOn := Some s,
       actionDeadlineTs := Some (now + actionTimeoutSecs (params st)),
       events := events h @ [StreetAdvanced (nextStreet (street h))]\<rparr>"
    using s by (simp add: advanceStreet_def Let_def deadlineFor_def)
  ultimately show ?thesis
    using assms(1-3)
    by (auto simp: hand_inv_def mid_inv_def engine_inv_defs turn_ok_def params_ok_def countNotFolded_def needsToAct_iff)
qed

lemma maybeAdvance_inv:
  assumes "mid_inv st h" and "params_ok (params st)"
  shows "hand_inv (fst (maybeAdvance st h now)) (snd (maybeAdvance st h now))"
proof (cases "countNotFolded h \<le> 1")
  case True
  then show ?thesis using completeByFolds_inv [OF assms(1)] by (simp add: maybeAdvance_def)
next
  case two: False
  show ?thesis
  proof (cases "streetComplete h")
    case False
    then obtain i where "i < 9" "needsToAct h i" by (auto simp: streetComplete_iff)
    let ?from = "int (case actionOn h of None \<Rightarrow> 0 | Some s \<Rightarrow> s)"
    have "nextActiveInHand h ?from \<noteq> None" unfolding nextActiveInHand_None using \<open>i < 9\<close> \<open>needsToAct h i\<close> by blast
    then obtain s where s: "nextActiveInHand h ?from = Some s" by blast
    have "maybeAdvance st h now = (st, h\<lparr>actionOn := Some s, actionDeadlineTs := Some (now + actionTimeoutSecs (params st))\<rparr>)"
      using two False s by (simp add: maybeAdvance_def Let_def deadlineFor_def)
    moreover have "countNotFolded (h\<lparr>actionOn := Some s, actionDeadlineTs := Some (now + actionTimeoutSecs (params st))\<rparr>) = countNotFolded h"
      by (simp add: countNotFolded_def)
    ultimately show ?thesis
      using assms two nextActiveInHand_Some [OF s]
      by (auto simp: hand_inv_def mid_inv_def engine_inv_defs turn_ok_def needsToAct_iff)
  next
    case True
    let ?r = "returnUncalledStreetExcess st h"
    have m: "mid_inv (fst ?r) (snd ?r)"
      using assms(1) by (simp add: mid_inv_def returnUncalled_commits_ok returnUncalled_allin_ok)
    then have show_inv: "hand_inv (fst ?r) (reachShowdown (snd ?r))"
      by (intro reachShowdown_inv) (simp_all add: mid_inv_def)
    have "hand_inv (fst ?r) (advanceStreet (fst ?r) (snd ?r) now)" if "\<not> countWithChips (snd ?r) (fst ?r) < 2"
      using that two assms(2) by (intro advanceStreet_inv [OF m]) simp_all
    with show_inv two True show ?thesis
      by (simp add: maybeAdvance_def Let_def split_beta)
  qed
qed


subsection \<open>Player actions\<close>

lemma hand_inv_mid: "hand_inv st h \<Longrightarrow> phase h = Betting \<Longrightarrow> mid_inv st h"
  by (simp add: hand_inv_def mid_inv_def)

lemma payIn_inv:
  assumes "hand_wf h" and "commits_ok st h" and "allin_ok st h" and "s < 9" and "seatAt st s \<noteq> None"
    and "0 \<le> d" and "d \<le> stackAt st s"  and "\<not> allInAt h s"
  shows "commits_ok (fst (payIn st h s d)) (snd (payIn st h s d)) \<and>
         allin_ok (fst (payIn st h s d)) (snd (payIn st h s d))"
  using assms
  by (auto simp: payIn_def Let_def commits_ok_def allin_ok_def stackAt_addStack aget_list_update)

lemma payIn_simps [simp]:
  "phase (snd (payIn st h s d)) = phase h" "inHand (snd (payIn st h s d)) = inHand h"
  "folded (snd (payIn st h s d)) = folded h" "betTo (snd (payIn st h s d)) = betTo h"
  "minRaiseSize (snd (payIn st h s d)) = minRaiseSize h" "intervalId (snd (payIn st h s d)) = intervalId h"
  "lastIntervalActed (snd (payIn st h s d)) = lastIntervalActed h" "street (snd (payIn st h s d)) = street h"
  "params (fst (payIn st h s d)) = params st" "length (seats (fst (payIn st h s d))) = length (seats st)"
  "seatAt (fst (payIn st h s d)) j = None \<longleftrightarrow> seatAt st j = None"
  by (simp_all add: payIn_def Let_def)

lemma filter_length_update:
  "length (filter P xs) \<le> length (filter Q xs) + 1"
  if "\<And>x. x \<in> set xs \<Longrightarrow> x \<noteq> a \<Longrightarrow> P x \<Longrightarrow> Q x" and "distinct xs"
  using that
proof (induction xs)
  case Nil
  then show ?case by simp
next
  case (Cons x xs)
  show ?case
  proof (cases "x = a")
    case True
    with Cons.prems have "\<And>y. y \<in> set xs \<Longrightarrow> P y \<Longrightarrow> Q y" by auto
    then have "length (filter P xs) \<le> length (filter Q xs)"
      by (metis (mono_tags, lifting) filter_cong filter_filter length_filter_le)
    then show ?thesis by simp
  next
    case False
    with Cons show ?thesis by auto
  qed
qed

lemma countNotFolded_fold:
  assumes "2 \<le> countNotFolded h"
  shows "1 \<le> countNotFolded (applyFold h s)"
proof -
  have "countNotFolded h \<le> countNotFolded (applyFold h s) + 1"
    unfolding countNotFolded_def
    by (rule filter_length_update [of _ s]) (auto simp: applyFold_def)
  with assms show ?thesis by simp
qed

lemma applyBetTo_bounds:
  assumes "applyBetTo st h s a = Inr sh"
  shows "streetCommitAt h s < a" and "a \<le> streetCommitAt h s + stackAt st s" and "betTo h < a"
    and "lastActedAt h s \<noteq> intervalId h"
  using assms by (auto simp: applyBetTo_def Let_def validateRaiseAllowed_def split: if_splits)

lemma applyBetTo_InrE:
  assumes "applyBetTo st h s a = Inr sh"
  obtains
    (first) "betTo h = 0" and "bigBlind (params st) \<le> a \<or> a = streetCommitAt h s + stackAt st s"
      and "sh = payIn st (h\<lparr>intervalId := intervalId h + 1,
              lastIntervalActed := (lastIntervalActed h)[s := intervalId h + 1],
              minRaiseSize := (if bigBlind (params st) \<le> a then a else bigBlind (params st)),
              betTo := a\<rparr>) s (a - streetCommitAt h s)"
  | (under) "betTo h \<noteq> 0" and "a - betTo h < minRaiseSize h" and "a = streetCommitAt h s + stackAt st s"
      and "sh = payIn st (h\<lparr>lastIntervalActed := (lastIntervalActed h)[s := intervalId h],
              betTo := a\<rparr>) s (a - streetCommitAt h s)"
  | (full) "betTo h \<noteq> 0" and "minRaiseSize h \<le> a - betTo h"
      and "sh = payIn st (h\<lparr>intervalId := intervalId h + 1, minRaiseSize := a - betTo h, betTo := a,
              lastIntervalActed := (lastIntervalActed h)[s := intervalId h + 1]\<rparr>) s (a - streetCommitAt h s)"
proof (cases "betTo h = 0")
  case True
  with assms first show thesis
    by (auto simp: applyBetTo_def Let_def not_less split: if_splits)
next
  case nz: False
  show thesis
  proof (cases "a - betTo h < minRaiseSize h")
    case True
    with nz assms under show thesis by (auto simp: applyBetTo_def Let_def split: if_splits)
  next
    case False
    with nz assms full show thesis by (auto simp: applyBetTo_def Let_def split: if_splits)
  qed
qed

lemma applyBetTo_inv:
  assumes m: "hand_wf h" "commits_ok st h" "allin_ok st h" "interval_ok h" and par: "params_ok (params st)"
    and s: "s < 9" "seatAt st s \<noteq> None" "\<not> allInAt h s" and r: "applyBetTo st h s a = Inr sh"
  shows "commits_ok (fst sh) (snd sh) \<and> allin_ok (fst sh) (snd sh) \<and> interval_ok (snd sh)
    \<and> hand_wf (snd sh) \<and> phase (snd sh) = phase h \<and> countNotFolded (snd sh) = countNotFolded h
    \<and> params (fst sh) = params st \<and> length (seats (fst sh)) = length (seats st)"
proof -
  obtain h0 where sh: "sh = payIn st h0 s (a - streetCommitAt h s)"
    and eqs: "hand_wf h0" "streetCommit h0 = streetCommit h" "totalCommit h0 = totalCommit h"
      "inHand h0 = inHand h" "folded h0 = folded h" "allIn h0 = allIn h" "phase h0 = phase h"
    and iv: "interval_ok h0"
    using r
  proof (rule applyBetTo_InrE)
    assume "sh = payIn st (h\<lparr>intervalId := intervalId h + 1,
              lastIntervalActed := (lastIntervalActed h)[s := intervalId h + 1],
              minRaiseSize := (if bigBlind (params st) \<le> a then a else bigBlind (params st)),
              betTo := a\<rparr>) s (a - streetCommitAt h s)" (is "sh = payIn st ?h s _")
    with m applyBetTo_bounds [OF r] par show thesis
      by (intro that [of ?h]) (auto simp: interval_ok_def aget_list_update params_ok_def add_increasing2)
  next
    assume "sh = payIn st (h\<lparr>lastIntervalActed := (lastIntervalActed h)[s := intervalId h],
              betTo := a\<rparr>) s (a - streetCommitAt h s)" (is "sh = payIn st ?h s _")
    with m applyBetTo_bounds [OF r] show thesis
      by (intro that [of ?h]) (auto simp: interval_ok_def aget_list_update)
  next
    assume "sh = payIn st (h\<lparr>intervalId := intervalId h + 1, minRaiseSize := a - betTo h, betTo := a,
              lastIntervalActed := (lastIntervalActed h)[s := intervalId h + 1]\<rparr>) s (a - streetCommitAt h s)"
      (is "sh = payIn st ?h s _")
    with m applyBetTo_bounds [OF r] show thesis
      by (intro that [of ?h]) (auto simp: interval_ok_def aget_list_update add_increasing2)
  qed
  have "commits_ok st h0" "allin_ok st h0" using m(2,3) eqs by (auto simp: engine_inv_defs)
  from payIn_inv [OF eqs(1) this s(1,2)] applyBetTo_bounds [OF r] s(3) eqs
  have "commits_ok (fst sh) (snd sh) \<and> allin_ok (fst sh) (snd sh)" unfolding sh by simp
  with eqs iv show ?thesis unfolding sh by (auto simp: interval_ok_def countNotFolded_def)
qed

lemma dispatchAction_inv:
  assumes inv: "hand_inv st h" and "phase h = Betting" and par: "params_ok (params st)"
    and s: "s < 9" and occ: "seatAt st s \<noteq> None" "inHandAt h s" "\<not> foldedAt h s" and ai: "\<not> allInAt h s"
    and d: "dispatchAction st h s act = Inr (st1, h1)"
  shows "mid_inv st1 h1 \<and> params st1 = params st \<and> length (seats st1) = length (seats st)"
proof -
  have m: "hand_wf h" "commits_ok st h" "allin_ok st h" "interval_ok h" "2 \<le> countNotFolded h"
    using assms(1,2) by (auto simp: hand_inv_def)
  have stk: "0 < stackAt st s" using m(2,3) s occ ai by (force simp: commits_ok_def allin_ok_def)
  show ?thesis
  proof (cases act)
    case (Fold x)
    with d have "st1 = st" "h1 = applyFold h s" by (auto simp: dispatchAction_def)
    with m countNotFolded_fold [OF m(5), of s] assms(2) show ?thesis
      by (auto simp: mid_inv_def applyFold_def engine_inv_defs aget_list_update)
  next
    case (Check x)
    with d have "st1 = st" "h1 = h\<lparr>lastIntervalActed := (lastIntervalActed h)[s := intervalId h]\<rparr>"
      by (auto simp: dispatchAction_def applyCheck_def split: if_splits)
    with m assms(2) show ?thesis
      by (auto simp: mid_inv_def engine_inv_defs aget_list_update countNotFolded_def)
  next
    case (Call x)
    let ?pay = "if toCall h s \<le> stackAt st s then toCall h s else stackAt st s"
    have p: "0 \<le> ?pay" "?pay \<le> stackAt st s" using stk by (auto simp: toCall_def Let_def)
    have "st1 = fst (payIn st h s ?pay)"
      "h1 = (snd (payIn st h s ?pay))\<lparr>lastIntervalActed := (lastIntervalActed h)[s := intervalId h]\<rparr>"
      using d Call by (auto simp: dispatchAction_def applyCall_def Let_def split_beta split: if_splits)
    with payIn_inv [OF m(1-3) s occ(1) p ai] m assms(2) show ?thesis
      by (auto simp: mid_inv_def engine_inv_defs aget_list_update countNotFolded_def)
  next
    case (BetTo x a)
    then have "applyBetTo st h s a = Inr (st1, h1)" using d by (simp add: dispatchAction_def)
    from applyBetTo_inv [OF m(1-4) par s occ(1) ai this] m(5) assms(2) show ?thesis
      by (simp add: mid_inv_def)
  qed
qed


subsection \<open>The exported operations on a running hand\<close>

lemma table_invD:
  "table_inv st \<Longrightarrow> hand st = Some h \<Longrightarrow> hand_inv st h"
  "table_inv st \<Longrightarrow> params_ok (params st)"
  "table_inv st \<Longrightarrow> length (seats st) = 9"
  "table_inv st \<Longrightarrow> i < 9 \<Longrightarrow> 0 \<le> stackAt st i"
  "table_inv st \<Longrightarrow> table_wf st"
  by (auto simp: table_inv_def table_wf_def hand_inv_def split: option.splits)

lemma hand_inv_hand [simp]: "hand_inv (st\<lparr>hand := x\<rparr>) h = hand_inv st h"
  by (simp add: hand_inv_def commits_ok_def allin_ok_def split: HandPhase.splits)

lemma hand_inv_event [simp]: "hand_inv st (h\<lparr>events := e\<rparr>) = hand_inv st h"
  by (simp add: hand_inv_def engine_inv_defs countNotFolded_def turn_ok_def needsToAct_def split: HandPhase.splits option.splits)

lemma mid_inv_event [simp]: "mid_inv st (h\<lparr>events := e\<rparr>) = mid_inv st h"
  by (simp add: mid_inv_def engine_inv_defs countNotFolded_def)

lemma maybeAdvance_fst [simp]:
  "params (fst (maybeAdvance st h now)) = params st"
  "length (seats (fst (maybeAdvance st h now))) = length (seats st)"
  by (simp_all add: maybeAdvance_def completeByFolds_def Let_def split_beta split: option.splits)

lemma hand_inv_table: "hand_inv st h \<Longrightarrow> length (seats st) = 9 \<Longrightarrow> params_ok (params st) \<Longrightarrow> table_inv (st\<lparr>hand := Some h\<rparr>)"
  by (simp add: table_inv_def) (simp add: hand_inv_def commits_ok_def)

lemma applyAction_inv:
  assumes "table_inv st" and "applyAction st act now = Inr st'"
  shows "table_inv st'"
  using assms(2)
proof (rule applyAction_InrE)
  fix h s st1 h1 st2 h2
  assume h: "hand st = Some h" "phase h = Betting" and s: "s < 9" "seatAt st s \<noteq> None" "inHandAt h s" "\<not> foldedAt h s" "\<not> allInAt h s"
    and d: "dispatchAction st h s act = Inr (st1, h1)"
    and m: "maybeAdvance st1 (h1\<lparr>events := events h1 @ [ActionApplied s act]\<rparr>) now = (st2, h2)"
    and st': "st' = st2\<lparr>hand := Some h2\<rparr>"
  note inv = table_invD [OF assms(1)]
  from dispatchAction_inv [OF inv(1) [OF h(1)] h(2) inv(2) s d]
  have mid: "mid_inv st1 h1" and p1: "params st1 = params st" "length (seats st1) = length (seats st)" by auto
  have "hand_inv st2 h2"
    using maybeAdvance_inv [of st1 "h1\<lparr>events := events h1 @ [ActionApplied s act]\<rparr>" now] mid m p1 inv(2) by simp
  moreover have "params st2 = params st" "length (seats st2) = length (seats st)"
    using m p1 maybeAdvance_fst [of st1 "h1\<lparr>events := events h1 @ [ActionApplied s act]\<rparr>" now] by simp_all
  ultimately show ?thesis using inv(2,3) unfolding st' by (intro hand_inv_table) simp_all
qed

lemma pushEvent_inv: "table_inv st \<Longrightarrow> table_inv (pushEvent e st)"
  by (auto simp: table_inv_def pushEvent_def split: option.splits)

lemma applyTick_inv:
  assumes "table_inv st" and "applyTick st now = Inr st'"
  shows "table_inv st'"
  using assms(2)
proof (rule applyTick_InrE)
  fix h s st1
  assume "applyAction st (timeoutAction h s) now = Inr st1"
    and "st' = pushEvent (TimeoutApplied s (if toCall h s = 0 then ''Check'' else ''Fold'')) st1"
  then show ?thesis using applyAction_inv [OF assms(1)] pushEvent_inv by simp
qed (use assms in simp)

lemma turn_okE:
  assumes "hand_inv st h" and "phase h = Betting"
  obtains s d where "actionOn h = Some s" and "s < 9" and "needsToAct h s" and "actionDeadlineTs h = Some d"
    and "seatAt st s \<noteq> None" and "inHandAt h s" and "\<not> foldedAt h s" and "\<not> allInAt h s"
  using assms by (force simp: hand_inv_def turn_ok_def needsToAct_iff commits_ok_def split: option.splits)

lemma applyAction_turn:
  assumes "table_inv st" and h: "hand st = Some h" "phase h = Betting" and "actionOn h = Some s"
    and "isInteger now" and "0 \<le> now" and act: "action_seat act = int s"
    and d: "dispatchAction st h s act = Inr (st1, h1)"
  shows "\<exists>st'. applyAction st act now = Inr st'"
proof -
  obtain s' d' where "actionOn h = Some s'" "s' < 9" "seatAt st s' \<noteq> None" "inHandAt h s'" "\<not> foldedAt h s'" "\<not> allInAt h s'"
    using turn_okE [OF table_invD(1) [OF assms(1) h(1)] h(2)] by metis
  with assms table_invD(3) [OF assms(1)] show ?thesis
    by (simp add: applyAction_def assertIntTimestamp_def seatCount9_def Let_def split_beta)
qed

lemma fold_allowed: "dispatchAction st h s (Fold x) = Inr (st, applyFold h s)"
  by (simp add: dispatchAction_def)

lemma check_allowed: "toCall h s = 0 \<Longrightarrow> \<exists>h1. dispatchAction st h s (Check x) = Inr (st, h1)"
  by (simp add: dispatchAction_def applyCheck_def)

lemma applyTick_total:
  assumes "table_inv st" and "isInteger now" and "0 \<le> now"
  shows "\<exists>st'. applyTick st now = Inr st'"
proof (cases "hand st")
  case None
  with assms table_invD(3) [OF assms(1)] show ?thesis
    by (simp add: applyTick_def assertIntTimestamp_def seatCount9_def)
next
  case (Some h)
  show ?thesis
  proof (cases "phase h = Betting")
    case True
    obtain s d where t: "actionOn h = Some s" "actionDeadlineTs h = Some d"
      using turn_okE [OF table_invD(1) [OF assms(1) Some] True] by metis
    have "\<exists>st1. applyAction st (timeoutAction h s) now = Inr st1"
      unfolding timeoutAction_def
      using applyAction_turn [OF assms(1) Some True t(1) assms(2,3)]
        fold_allowed [of st h s "int s"] check_allowed [of h s st "int s"]
      by (cases "toCall h s = 0") force+
    with True Some t assms table_invD(3) [OF assms(1)] show ?thesis
      by (auto simp: applyTick_def assertIntTimestamp_def seatCount9_def)
  next
    case False
    with Some assms table_invD(3) [OF assms(1)] show ?thesis
      by (simp add: applyTick_def assertIntTimestamp_def seatCount9_def)
  qed
qed

lemma refundSeat_inv:
  assumes "hand_wf (snd sh)" and "commits_ok (fst sh) (snd sh)" and "i < 9"
  shows "commits_ok (fst (refundSeat i sh)) (snd (refundSeat i sh))"
  using assms
  by (auto simp: refundSeat_def split_beta Let_def commits_ok_def stackAt_addStack aget_list_update add_nonneg_nonneg
      intro!: add_nonneg_nonneg intro: order_trans split: option.splits)

lemma refundSeat_simps [simp]:
  "interval_ok (snd (refundSeat i sh)) = interval_ok (snd sh)"
  "params (fst (refundSeat i sh)) = params (fst sh)"
  "length (seats (fst (refundSeat i sh))) = length (seats (fst sh))"
  by (auto simp: refundSeat_def split_beta Let_def split: option.splits)

lemma fold_refundSeat_inv:
  assumes "hand_wf (snd sh)" and "commits_ok (fst sh) (snd sh)" and "\<forall>i \<in> set is. i < 9"
  shows "hand_wf (snd (fold refundSeat is sh)) \<and> commits_ok (fst (fold refundSeat is sh)) (snd (fold refundSeat is sh))
    \<and> interval_ok (snd (fold refundSeat is sh)) = interval_ok (snd sh) \<and> params (fst (fold refundSeat is sh)) = params (fst sh)
    \<and> length (seats (fst (fold refundSeat is sh))) = length (seats (fst sh))"
  using assms
proof (induction "is" arbitrary: sh)
  case (Cons i "is")
  then have "hand_wf (snd (refundSeat i sh))" "commits_ok (fst (refundSeat i sh)) (snd (refundSeat i sh))"
    by (simp_all add: refundSeat_wf refundSeat_inv)
  from Cons.IH [OF this] Cons.prems show ?case by simp
qed simp

lemma abortHand_inv:
  assumes "table_inv st" and "abortHand st reason now = Inr st'"
  shows "table_inv st'"
proof -
  from assms(2) obtain h where h: "hand st = Some h"
    by (auto simp: abortHand_def split: option.splits)
  show ?thesis
  proof (cases "phase h = Complete \<or> phase h = Aborted")
    case True
    with assms h show ?thesis by (auto simp: abortHand_def)
  next
    case False
    obtain st1 h1 where f: "fold refundSeat [0..<9] (st, h) = (st1, h1)" by fastforce
    note inv = table_invD [OF assms(1)]
    have "hand_wf h1" "commits_ok st1 h1" "interval_ok h1" "params st1 = params st" "length (seats st1) = length (seats st)"
      using fold_refundSeat_inv [of "(st, h)" "[0..<9]"] inv(1) [OF h] f by (simp_all add: hand_inv_def)
    with False assms(2) h f inv(2,3) show ?thesis
      by (auto simp: abortHand_def intro!: hand_inv_table) (auto simp: hand_inv_def commits_ok_def)
  qed
qed

subsection \<open>Seating and starting a hand\<close>

lemma mod9_offset:
  fixes f j :: nat
  assumes "j < 9"
  obtains k where "1 \<le> k" and "k \<le> 9" and "(f + k) mod 9 = j"
proof -
  have "j \<in> (\<lambda>offset. nat ((int f + int offset) mod 9)) ` set [1..<10]"
    using mod9_range [of "int f"] assms by blast
  then obtain k where k: "k \<in> {1..<10}" "j = nat ((int f + int k) mod 9)" by auto
  have "nat ((int f + int k) mod 9) = (f + k) mod 9"
    by (simp add: nat_mod_distrib flip: of_nat_add)
  with k that show thesis by auto
qed

lemma find_append: "find P (xs @ ys) = (case find P xs of None \<Rightarrow> find P ys | Some x \<Rightarrow> Some x)"
  by (induction xs) auto

lemma nextOccupiedSeat_props:
  assumes "j < 9" and "aget None ss j \<noteq> None" and "f < 9"
  shows "nextOccupiedSeat ss f < 9" and "aget None ss (nextOccupiedSeat ss f) \<noteq> None"
    and "j \<noteq> f \<Longrightarrow> nextOccupiedSeat ss f \<noteq> f"
proof -
  let ?g = "\<lambda>offset. (f + offset) mod 9" and ?P = "\<lambda>s. aget None ss s \<noteq> None"
  obtain k where k: "1 \<le> k" "k \<le> 9" "?g k = j" using mod9_offset [OF assms(1)] by blast
  have "j \<in> set (map ?g [1..<10])" using k by force
  then obtain s where s: "find ?P (map ?g [1..<10]) = Some s"
    using find_ex [of j "map ?g [1..<10]" ?P] assms(2) by blast
  have n: "nextOccupiedSeat ss f = s" by (simp only: nextOccupiedSeat_def s option.case)
  show "nextOccupiedSeat ss f < 9" using find_SomeD [OF s] n by auto
  show "aget None ss (nextOccupiedSeat ss f) \<noteq> None" using find_SomeD [OF s] n by auto
  show "nextOccupiedSeat ss f \<noteq> f" if "j \<noteq> f"
  proof -
    have "k \<noteq> 9" using k that assms(3) by auto
    then have "j \<in> set (map ?g [1..<9])" using k by force
    then obtain s' where s': "find ?P (map ?g [1..<9]) = Some s'"
      using find_ex [of j "map ?g [1..<9]" ?P] assms(2) by blast
    have "[1..<10] = [1..<9] @ [9::nat]" by (simp add: upt_rec)
    then have "find ?P (map ?g [1..<10]) = Some s'" by (simp only: map_append find_append s' option.case)
    then have "s = s'" using s by simp
    moreover from find_SomeD [OF s'] obtain m where "1 \<le> m" "m < 9" "s' = (f + m) mod 9" by auto
    moreover have "(f + m) mod 9 \<noteq> f" if "1 \<le> m" "m < 9" for m using that assms(3) by (auto simp: mod_if)
    ultimately show ?thesis using n by simp
  qed
qed

lemma set_fundedSeats: "i \<in> set (fundedSeats st) \<longleftrightarrow> i < 9 \<and> seatAt st i \<noteq> None \<and> 0 < stackAt st i"
  by (auto simp: fundedSeats_def)

lemma chooseButton_props:
  assumes "fundedSeats st \<noteq> []"
  shows "chooseButton st \<in> set (fundedSeats st)"
proof (cases "tableButton st")
  case None
  then show ?thesis using assms by (simp add: chooseButton_def)
next
  case (Some prev)
  let ?P = "\<lambda>cand. seatAt st cand \<noteq> None \<and> 0 < stackAt st cand"
  let ?xs = "map (\<lambda>i. (prev + 1 + i) mod 9) [0..<9]"
  from assms obtain j where j: "j < 9" "?P j" by (metis list.set_intros(1) neq_Nil_conv set_fundedSeats)
  obtain k where k: "1 \<le> k" "k \<le> 9" "(prev + k) mod 9 = j" using mod9_offset [OF j(1)] by blast
  then have "j = (\<lambda>i. (prev + 1 + i) mod 9) (k - 1)" "k - 1 \<in> set [0..<9]" by auto
  then have "j \<in> set ?xs" unfolding set_map by (rule image_eqI)
  then obtain s where s: "find ?P ?xs = Some s" using find_ex [of j ?xs ?P] j(2) by blast
  have "chooseButton st = s" by (simp only: chooseButton_def Some s option.case)
  with find_SomeD [OF s] show ?thesis by (auto simp: set_fundedSeats)
qed

lemma two_funded:
  assumes "2 \<le> length (fundedSeats st)"
  obtains j where "j < 9" and "seatAt st j \<noteq> None" and "j \<noteq> i"
proof -
  have "distinct (fundedSeats st)" by (simp add: fundedSeats_def)
  with assms obtain a b where "a \<in> set (fundedSeats st)" "b \<in> set (fundedSeats st)" "a \<noteq> b"
    by (metis One_nat_def Suc_1 card_le_Suc0_iff_eq distinct_card finite_set not_less_eq_eq)
  with that show thesis by (metis set_fundedSeats)
qed

lemma blindSeats_props:
  assumes two: "2 \<le> length (fundedSeats st)" and sb: "sb = smallBlindSeatFor st (chooseButton st)"
    and bb: "bb = nextOccupiedSeat (seats st) sb"
  shows "chooseButton st < 9" and "sb < 9" and "bb < 9" and "sb \<noteq> bb" and "seatAt st sb \<noteq> None" and "seatAt st bb \<noteq> None"
proof -
  have "fundedSeats st \<noteq> []" using two by auto
  from chooseButton_props [OF this] have b: "chooseButton st < 9" "seatAt st (chooseButton st) \<noteq> None"
    by (auto simp: set_fundedSeats)
  then show "chooseButton st < 9" by simp
  show s9: "sb < 9" and so: "seatAt st sb \<noteq> None"
    using nextOccupiedSeat_props [OF b b(1)] b unfolding sb smallBlindSeatFor_def by auto
  obtain j where j: "j < 9" "seatAt st j \<noteq> None" "j \<noteq> sb" using two_funded [OF two] by blast
  from nextOccupiedSeat_props [OF j(1,2) s9] j(3)
  show "bb < 9" "sb \<noteq> bb" "seatAt st bb \<noteq> None" unfolding bb by auto
qed

lemma stackAt_postBlinds:
  assumes "sb \<noteq> bb" and "seatAt st sb \<noteq> None" and "seatAt st bb \<noteq> None"
  shows "stackAt (postBlinds st sb bb) i =
    (if i = sb then stackAt st i - blindPay (smallBlind (params st)) (stackAt st i)
     else if i = bb then stackAt st i - blindPay (bigBlind (params st)) (stackAt st i) else stackAt st i)"
  using assms by (auto simp: postBlinds_def stackAt_addStack)

lemma postBlinds_simps [simp]:
  "params (postBlinds st sb bb) = params st" "length (seats (postBlinds st sb bb)) = length (seats st)"
  "seatAt (postBlinds st sb bb) i = None \<longleftrightarrow> seatAt st i = None"
  "(\<exists>y. seatAt (postBlinds st sb bb) i = Some y) \<longleftrightarrow> (\<exists>y. seatAt st i = Some y)"
  by (simp_all add: postBlinds_def)

lemma dealtHand_commits:
  assumes "sb \<noteq> bb" and "sb < 9" and "bb < 9" and "i < 9"
  shows "streetCommitAt (dealtHand st btn sb bb) i =
    (if i = sb then blindPay (smallBlind (params st)) (stackAt st i)
     else if i = bb then blindPay (bigBlind (params st)) (stackAt st i) else 0)"
    and "totalCommitAt (dealtHand st btn sb bb) i = streetCommitAt (dealtHand st btn sb bb) i"
  using assms by (auto simp: dealtHand_def Let_def nth_list_update)

lemma dealtHand_allIn:
  assumes "sb \<noteq> bb" and "sb < 9" and "bb < 9" and "i < 9"
  shows "allInAt (dealtHand st btn sb bb) i =
    ((i = sb \<or> i = bb) \<and> stackAt (postBlinds st sb bb) i = 0)"
  using assms by (auto simp: dealtHand_def Let_def nth_list_update split: if_splits)

lemma dealtHand_simps [simp]:
  "hand_wf (dealtHand st btn sb bb)"
  "phase (dealtHand st btn sb bb) = Betting" "betTo (dealtHand st btn sb bb) = blindPay (bigBlind (params st)) (stackAt st bb)"
  "minRaiseSize (dealtHand st btn sb bb) = bigBlind (params st)" "intervalId (dealtHand st btn sb bb) = 0"
  "lastIntervalActed (dealtHand st btn sb bb) = replicate 9 (- 1)" "folded (dealtHand st btn sb bb) = replicate 9 False"
  "i < 9 \<Longrightarrow> inHandAt (dealtHand st btn sb bb) i \<longleftrightarrow> seatAt st i \<noteq> None \<and> 0 < stackAt st i"
  "street (dealtHand st btn sb bb) = Preflop" "button (dealtHand st btn sb bb) = btn"
  "smallBlindSeat (dealtHand st btn sb bb) = sb" "bigBlindSeat (dealtHand st btn sb bb) = bb"
  by (simp_all add: dealtHand_def Let_def hand_wf_def)

lemma blindPay_bounds: "0 \<le> stk \<Longrightarrow> 0 < blind \<Longrightarrow> 0 \<le> blindPay blind stk \<and> blindPay blind stk \<le> stk"
  by (simp add: blindPay_def)

lemma dealtHand_inv:
  assumes inv: "\<forall>i<9. 0 \<le> stackAt st i" "params_ok (params st)" and two: "2 \<le> length (fundedSeats st)"
    and s: "sb < 9" "bb < 9" "sb \<noteq> bb" "seatAt st sb \<noteq> None" "seatAt st bb \<noteq> None"
  shows "mid_inv (postBlinds st sb bb) (dealtHand st btn sb bb)" and "2 \<le> countNotFolded (dealtHand st btn sb bb)"
proof -
  let ?h = "dealtHand st btn sb bb" and ?st = "postBlinds st sb bb"
  have pos: "0 < smallBlind (params st)" "0 < bigBlind (params st)" using inv(2) by (auto simp: params_ok_def)
  have bp: "0 \<le> blindPay (smallBlind (params st)) (stackAt st sb)" "blindPay (smallBlind (params st)) (stackAt st sb) \<le> stackAt st sb"
    "0 \<le> blindPay (bigBlind (params st)) (stackAt st bb)" "blindPay (bigBlind (params st)) (stackAt st bb) \<le> stackAt st bb"
    using blindPay_bounds inv(1) pos s(1,2) by auto
  have "commits_ok ?st ?h"
    unfolding commits_ok_def
    using inv(1) bp by (simp add: dealtHand_commits [OF s(3,1,2)] stackAt_postBlinds [OF s(3-5)] del: hand_wfD)
  moreover have "allin_ok ?st ?h"
    unfolding allin_ok_def
    by (auto simp add: dealtHand_allIn [OF s(3,1,2)] stackAt_postBlinds [OF s(3-5)] simp del: hand_wfD aget_nth)
  moreover have "interval_ok ?h" using pos bp by (simp add: interval_ok_def aget_def)
  moreover have c: "countNotFolded ?h = length (fundedSeats st)"
    unfolding countNotFolded_def fundedSeats_def
    by (rule arg_cong [where f = length], rule filter_cong [OF refl])  (simp del: aget_nth hand_wfD)
  ultimately show "mid_inv ?st ?h" using two by (simp add: mid_inv_def)
  show "2 \<le> countNotFolded ?h" using c two by simp
qed

lemma startHand_InrE:
  assumes "startHand st now = Inr st'"
  obtains btn sb bb nx h2 where "length (seats st) = 9" and "2 \<le> length (fundedSeats st)"
    and "btn = chooseButton st" and "sb = smallBlindSeatFor st btn" and "bb = nextOccupiedSeat (seats st) sb"
    and "nx = nextActiveInHand (dealtHand st btn sb bb) (int bb)"
    and "h2 = (if nx = None then reachShowdown ((dealtHand st btn sb bb)\<lparr>actionOn := nx, actionDeadlineTs := deadlineFor st nx now\<rparr>)
               else (dealtHand st btn sb bb)\<lparr>actionOn := nx, actionDeadlineTs := deadlineFor st nx now\<rparr>)"
    and "st' = (postBlinds st sb bb)\<lparr>tableButton := Some btn, nextHandId := nextHandId st + 1, hand := Some h2\<rparr>"
  using assms by (auto simp: startHand_def seatCount9_def Let_def not_less split: if_splits)

lemma table_fields_inv [simp]:
  "hand_inv (st\<lparr>tableButton := b\<rparr>) h = hand_inv st h" "hand_inv (st\<lparr>nextHandId := n\<rparr>) h = hand_inv st h"
  by (simp_all add: hand_inv_def commits_ok_def allin_ok_def split: HandPhase.splits)

lemma mid_inv_turn:
  assumes "mid_inv st h" and "2 \<le> countNotFolded h" and "nextActiveInHand h f = Some s"
  shows "hand_inv st (h\<lparr>actionOn := Some s, actionDeadlineTs := Some d\<rparr>)"
  using assms nextActiveInHand_Some [OF assms(3)]
  by (auto simp: mid_inv_def hand_inv_def engine_inv_defs turn_ok_def needsToAct_iff countNotFolded_def)

lemma startHand_inv:
  assumes inv: "table_inv st" and r: "startHand st now = Inr st'"
  shows "table_inv st'"
  using r
proof (rule startHand_InrE)
  fix btn sb bb nx h2
  assume two: "2 \<le> length (fundedSeats st)" and btn: "btn = chooseButton st" and sb: "sb = smallBlindSeatFor st btn"
    and bb: "bb = nextOccupiedSeat (seats st) sb" and nx_eq: "nx = nextActiveInHand (dealtHand st btn sb bb) (int bb)"
    and h2: "h2 = (if nx = None then reachShowdown ((dealtHand st btn sb bb)\<lparr>actionOn := nx, actionDeadlineTs := deadlineFor st nx now\<rparr>)
               else (dealtHand st btn sb bb)\<lparr>actionOn := nx, actionDeadlineTs := deadlineFor st nx now\<rparr>)"
    and st': "st' = (postBlinds st sb bb)\<lparr>tableButton := Some btn, nextHandId := nextHandId st + 1, hand := Some h2\<rparr>"
  note bs = blindSeats_props [OF two sb [unfolded btn] bb]
  note tv = table_invD [OF inv]
  have stk: "\<forall>i<9. 0 \<le> stackAt st i" using tv(4) by simp
  note d = dealtHand_inv [OF stk tv(2) two bs(2,3,4,5,6), of btn]
  have "hand_inv (postBlinds st sb bb) h2"
  proof (cases nx)
    case None
    have "hand_inv (postBlinds st sb bb) (reachShowdown ((dealtHand st btn sb bb)\<lparr>actionOn := nx, actionDeadlineTs := deadlineFor st nx now\<rparr>))"
      using d(1) by (intro reachShowdown_inv) (auto simp: mid_inv_def commits_ok_def)
    then show ?thesis using None h2 by simp
  next
    case (Some s)
    then have "nextActiveInHand (dealtHand st btn sb bb) (int bb) = Some s" using nx_eq by simp
    from mid_inv_turn [OF d this] Some h2 show ?thesis by (simp add: deadlineFor_def)
  qed
  then show ?thesis using tv(2,3) unfolding st' by (intro hand_inv_table) simp_all
qed

lemma escrow_dealtHand:
  assumes "sb \<noteq> bb" and "sb < 9" and "bb < 9"
  shows "escrow (dealtHand st btn sb bb) =
    blindPay (smallBlind (params st)) (stackAt st sb) + blindPay (bigBlind (params st)) (stackAt st bb)"
proof -
  have "sum_list (replicate 9 0 :: int list) = 0" by (simp add: sum_list_replicate)
  then show ?thesis
    using assms by (simp add: escrow_wf) (simp add: dealtHand_def Let_def chip_simps)
qed

lemma startHand_total:
  assumes r: "startHand st now = Inr st'"
  shows "totalChipsOnTable st' = stacksTotal st"
  using r
proof (rule startHand_InrE)
  fix btn sb bb nx h2
  assume two: "2 \<le> length (fundedSeats st)" and btn: "btn = chooseButton st" and sb: "sb = smallBlindSeatFor st btn"
    and bb: "bb = nextOccupiedSeat (seats st) sb"
    and h2: "h2 = (if nx = None then reachShowdown ((dealtHand st btn sb bb)\<lparr>actionOn := nx, actionDeadlineTs := deadlineFor st nx now\<rparr>)
               else (dealtHand st btn sb bb)\<lparr>actionOn := nx, actionDeadlineTs := deadlineFor st nx now\<rparr>)"
    and st': "st' = (postBlinds st sb bb)\<lparr>tableButton := Some btn, nextHandId := nextHandId st + 1, hand := Some h2\<rparr>"
  note bs = blindSeats_props [OF two sb [unfolded btn] bb]
  have "escrow h2 = escrow (dealtHand st btn sb bb)" by (simp add: h2)
  moreover have "stacksTotal (postBlinds st sb bb) = stacksTotal st - escrow (dealtHand st btn sb bb)"
    using bs by (auto simp: postBlinds_def stacksTotal_addStack escrow_dealtHand [OF bs(4,2,3)])
  ultimately show ?thesis by (simp add: totalChipsOnTable_def st')
qed

lemma sit_inv:
  assumes "table_inv st" and r: "sit st seat pid stk = Inr st'"
  shows "table_inv st'"
proof -
  from r have e: "seatAt st (nat seat) = None" "0 \<le> stk" "nat seat < 9"
    and st': "st' = st\<lparr>seats := (seats st)[nat seat := Some \<lparr>playerId = pid, stack = stk\<rparr>]\<rparr>"
    by (auto simp: sit_def split: if_splits)
  note tv = table_invD [OF assms(1)]
  have stack: "stackAt st' i = (if i = nat seat then stk else stackAt st i)" for i
    using e tv(3) by (simp add: st' stackAt_def aget_list_update)
  have occ: "seatAt st i \<noteq> None \<Longrightarrow> seatAt st' i = seatAt st i" for i
    using e by (auto simp: st' aget_list_update)
  have "hand_inv st' h" if "hand st = Some h" for h
  proof -
    have inv: "hand_inv st h" using tv(1) that by blast
    then have c: "commits_ok st h" by (simp add: hand_inv_def)
    then have ne: "i < 9 \<Longrightarrow> inHandAt h i \<Longrightarrow> i \<noteq> nat seat" for i using e(1) by (auto simp: commits_ok_def)
    have "commits_ok st' h" using c occ e(2) unfolding commits_ok_def stack by auto
    moreover have "allin_ok st h \<Longrightarrow> allin_ok st' h" using ne unfolding allin_ok_def stack by metis
    ultimately show ?thesis using inv by (auto simp: hand_inv_def split: HandPhase.splits)
  qed
  moreover have "\<forall>i<9. 0 \<le> stackAt st' i" using stack e(2) tv(4) by simp
  ultimately show ?thesis using assms(1) by (auto simp: table_inv_def st' split: option.splits)
qed

lemma createTableState_inv:
  assumes "createTableState ps = Inr st"
  shows "table_inv st"
  using assms by (auto simp: createTableState_def table_inv_def params_ok_def stackAt_def aget_def split: if_splits)
end
