(* ===== verification/Engine_Runs.thy ===== *)
theory Engine_Runs
  imports Engine_Invariant
begin

text \<open>
  Runs of a table of \<^verbatim>\<open>packages/poker-engine/src/engine.ts\<close>: the contract that every
  operation on a running table obeys (the invariant and the chip total are kept), its
  interpretation for \<open>applyAction\<close>, \<open>applyTick\<close> and \<open>abortHand\<close>, the states that a client can
  reach through the exported operations, and the rank that shows that betting ends.
\<close>

subsection \<open>The contract of an operation on a running table\<close>

locale table_operation =
  fixes run :: "TableState \<Rightarrow> TableState result"
  assumes run_inv: "table_inv st \<Longrightarrow> run st = Inr st' \<Longrightarrow> table_inv st'"
    and run_chips: "table_inv st \<Longrightarrow> run st = Inr st' \<Longrightarrow> totalChipsOnTable st' = totalChipsOnTable st"
begin

lemma runs_keep:
  assumes "(\<lambda>x y. run x = Inr y)\<^sup>*\<^sup>* st st'" and "table_inv st"
  shows "table_inv st' \<and> totalChipsOnTable st' = totalChipsOnTable st"
  using assms
proof (induction rule: rtranclp_induct)
  case (step y z)
  then show ?case using run_inv [of y z] run_chips [of y z] by auto
qed simp

end

interpretation act: table_operation "\<lambda>st. applyAction st a now" for a now
  using applyAction_inv applyAction_chips table_invD(5) by unfold_locales metis+

lemma applyTick_chips:
  assumes "table_wf st" and "applyTick st now = Inr st'"
  shows "totalChipsOnTable st' = totalChipsOnTable st"
  using assms(2)
proof (rule applyTick_InrE)
  fix h s st1
  assume "applyAction st (timeoutAction h s) now = Inr st1"
    and "st' = pushEvent (TimeoutApplied s (if toCall h s = 0 then ''Check'' else ''Fold'')) st1"
  then show ?thesis using applyAction_chips [OF assms(1)] by simp
qed simp

interpretation tick: table_operation "\<lambda>st. applyTick st now" for now
  using applyTick_inv applyTick_chips table_invD(5) by unfold_locales metis+

interpretation abort: table_operation "\<lambda>st. abortHand st reason now" for reason now
  using abortHand_inv abortHand_chips table_invD(5) by unfold_locales metis+

subsection \<open>Runs of a table\<close>

inductive play_step :: "TableState \<Rightarrow> TableState \<Rightarrow> bool" where
  play_action: "applyAction st act now = Inr st' \<Longrightarrow> play_step st st'"
| play_tick: "applyTick st now = Inr st' \<Longrightarrow> play_step st st'"
| play_abort: "abortHand st reason now = Inr st' \<Longrightarrow> play_step st st'"

inductive engine_reachable :: "TableState \<Rightarrow> bool" where
  reach_create: "createTableState ps = Inr st \<Longrightarrow> engine_reachable st"
| reach_sit: "engine_reachable st \<Longrightarrow> sit st seat pid stk = Inr st' \<Longrightarrow> engine_reachable st'"
| reach_start: "engine_reachable st \<Longrightarrow> startHand st now = Inr st' \<Longrightarrow> engine_reachable st'"
| reach_play: "engine_reachable st \<Longrightarrow> play_step st st' \<Longrightarrow> engine_reachable st'"

inductive_cases play_stepE: "play_step st st'"

lemma play_step_keeps:
  assumes "play_step st st'" and "table_inv st"
  shows "table_inv st' \<and> totalChipsOnTable st' = totalChipsOnTable st"
  using assms
  by (elim play_stepE) (auto dest: act.run_inv act.run_chips tick.run_inv tick.run_chips abort.run_inv abort.run_chips)

lemma reachable_inv: "engine_reachable st \<Longrightarrow> table_inv st"
  by (induction rule: engine_reachable.induct)
    (auto dest: createTableState_inv sit_inv startHand_inv play_step_keeps)


subsection \<open>Betting ends\<close>

text \<open>
  While no seat has put in more than the bet to match, every accepted action makes progress:
  the street advances, or chips leave the stacks, or one seat fewer has to act.
\<close>

definition no_overcommit :: "HandState \<Rightarrow> bool" where
  "no_overcommit h \<longleftrightarrow> (\<forall>i<9. streetCommitAt h i \<le> betTo h)"

primrec streetsLeft :: "Street \<Rightarrow> nat" where
  "streetsLeft Preflop = 3"
| "streetsLeft Flop = 2"
| "streetsLeft Turn = 1"
| "streetsLeft River = 0"

definition pendingSeats :: "HandState \<Rightarrow> nat" where
  "pendingSeats h = length (filter (needsToAct h) [0..<9])"

definition betting_rank :: "TableState \<Rightarrow> HandState \<Rightarrow> nat \<times> nat \<times> nat" where
  "betting_rank st h = (streetsLeft (street h), nat (stacksTotal st), pendingSeats h)"

abbreviation rank_less :: "((nat \<times> nat \<times> nat) \<times> (nat \<times> nat \<times> nat)) set" where
  "rank_less \<equiv> less_than <*lex*> less_than <*lex*> less_than"

lemma stacksTotal_nonneg:
  assumes "length (seats st) = 9" and "\<forall>i<9. 0 \<le> stackAt st i"
  shows "0 \<le> stacksTotal st"
  unfolding stacksTotal_def
proof (rule sum_list_nonneg)
  fix x assume "x \<in> set (map (\<lambda>s. case s of None \<Rightarrow> 0 | Some ss \<Rightarrow> stack ss) (seats st))"
  then obtain i where "i < 9" "x = stackAt st i"
    using assms(1) by (auto simp: in_set_conv_nth stackAt_def)
  with assms(2) show "0 \<le> x" by simp
qed

lemma filter_length_less:
  assumes "\<And>x. Q x \<Longrightarrow> P x" and "a \<in> set xs" and "P a" and "\<not> Q a"
  shows "length (filter Q xs) < length (filter P xs)"
proof -
  have "filter Q xs = filter Q (filter P xs)" using assms(1) by (auto intro: filter_cong)
  moreover have "length (filter Q (filter P xs)) < length (filter P xs)"
    by (rule length_filter_less [of a]) (use assms in auto)
  ultimately show ?thesis by simp
qed

lemma pendingSeats_acted:
  assumes "needsToAct h s" and "s < 9" and "\<not> needsToAct h' s" and "\<And>i. needsToAct h' i \<Longrightarrow> needsToAct h i"
  shows "pendingSeats h' < pendingSeats h"
  unfolding pendingSeats_def by (rule filter_length_less [of _ _ s]) (use assms in auto)

lemma dispatchAction_progress:
  assumes wf: "hand_wf h" and c: "commits_ok st h" and no: "no_overcommit h" and occ: "seatAt st s \<noteq> None"
    and s: "s < 9" "needsToAct h s" and stk: "0 < stackAt st s"
    and d: "dispatchAction st h s act = Inr (st1, h1)"
  shows "no_overcommit h1 \<and> street h1 = street h \<and>
    (stacksTotal st1 < stacksTotal st \<or> stacksTotal st1 = stacksTotal st \<and> pendingSeats h1 < pendingSeats h)"
proof (cases act)
  case (Fold x)
  with d have "st1 = st" "h1 = applyFold h s" by (auto simp: dispatchAction_def)
  moreover have "pendingSeats (applyFold h s) < pendingSeats h"
    by (rule pendingSeats_acted [OF s(2,1)])
      (use wf s in \<open>auto simp: needsToAct_iff applyFold_def aget_list_update split: if_splits\<close>)
  ultimately show ?thesis using no by (simp add: no_overcommit_def applyFold_def)
next
  case (Check x)
  let ?h = "h\<lparr>lastIntervalActed := (lastIntervalActed h)[s := intervalId h]\<rparr>"
  from Check d have t: "toCall h s = 0" "st1 = st" "h1 = ?h"
    by (auto simp: dispatchAction_def applyCheck_def split: if_splits)
  then have "betTo h \<le> streetCommitAt h s" by (auto simp: toCall_def Let_def split: if_splits)
  with no s have "streetCommitAt h s = betTo h" by (force simp: no_overcommit_def)
  then have "pendingSeats ?h < pendingSeats h"
    by (intro pendingSeats_acted [OF s(2,1)])
      (use wf s in \<open>auto simp: needsToAct_iff aget_list_update split: if_splits\<close>)
  with t no show ?thesis by (simp add: no_overcommit_def)
next
  case (Call x)
  let ?pay = "if toCall h s \<le> stackAt st s then toCall h s else stackAt st s"
  have "toCall h s \<noteq> 0" and eq: "st1 = fst (payIn st h s ?pay)"
    "h1 = (snd (payIn st h s ?pay))\<lparr>lastIntervalActed := (lastIntervalActed h)[s := intervalId h]\<rparr>"
    using d Call by (auto simp: dispatchAction_def applyCall_def Let_def split_beta split: if_splits)
  then have p: "0 < ?pay" "streetCommitAt h s + ?pay \<le> betTo h" using stk by (auto simp: toCall_def Let_def split: if_splits)
  have "stacksTotal st1 = stacksTotal st - ?pay"
    unfolding eq payIn_def using occ by (auto simp: Let_def stacksTotal_addStack)
  moreover have "no_overcommit h1"
    unfolding eq no_overcommit_def using no p(2) wf s(1)
    by (auto simp: payIn_def Let_def aget_list_update no_overcommit_def)
  ultimately show ?thesis using p(1) by (simp add: eq)
next
  case (BetTo x a)
  then have b: "applyBetTo st h s a = Inr (st1, h1)" using d by (simp add: dispatchAction_def)
  note bd = applyBetTo_bounds [OF b]
  obtain h0 where sh: "(st1, h1) = payIn st h0 s (a - streetCommitAt h s)"
    and e: "streetCommit h0 = streetCommit h" "betTo h0 = a" "street h0 = street h"
    using b by (rule applyBetTo_InrE) (auto intro: that)
  have eq: "st1 = fst (payIn st h0 s (a - streetCommitAt h s))" "h1 = snd (payIn st h0 s (a - streetCommitAt h s))"
    unfolding sh [symmetric] by simp_all
  have "stacksTotal st1 = stacksTotal st - (a - streetCommitAt h s)"
    unfolding eq payIn_def using occ by (auto simp: Let_def stacksTotal_addStack)
  moreover have "no_overcommit h1"
    unfolding no_overcommit_def
  proof (intro allI impI)
    fix i :: nat assume "i < 9"
    with no bd(3) have "streetCommitAt h i \<le> a" by (force simp: no_overcommit_def)
    then show "streetCommitAt h1 i \<le> betTo h1"
      unfolding eq using e s(1) wf by (simp add: payIn_def Let_def aget_list_update)
  qed
  ultimately show ?thesis using bd(1) e by (simp add: eq)
qed

lemma needsToAct_update [simp]:
  "needsToAct (h\<lparr>actionOn := a\<rparr>) = needsToAct h" "needsToAct (h\<lparr>actionDeadlineTs := d\<rparr>) = needsToAct h"
  "needsToAct (h\<lparr>events := e\<rparr>) = needsToAct h"
  by (simp_all add: needsToAct_def fun_eq_iff)

lemma completeByFolds_phase:
  assumes "mid_inv st h"
  shows "phase (snd (completeByFolds st h)) = Complete"
proof -
  have c: "commits_ok st h" and "1 \<le> countNotFolded h" using assms by (simp_all add: mid_inv_def)
  from this(2) obtain w where w: "find (\<lambda>i. inHandAt h i \<and> \<not> foldedAt h i) [0..<9] = Some w" "w < 9" "inHandAt h w"
    by (rule countNotFolded_ex)
  have "seatAt st w \<noteq> None" using c w by (auto simp: commits_ok_def)
  then obtain ss where "seatAt (fst (returnUncalledStreetExcess st h)) w = Some ss" by fastforce
  with w show ?thesis by (simp add: completeByFolds_def split_beta Let_def)
qed

lemma maybeAdvance_progress:
  assumes m: "mid_inv st h" and no: "no_overcommit h" and b: "phase (snd (maybeAdvance st h now)) = Betting"
  shows "no_overcommit (snd (maybeAdvance st h now)) \<and>
    (fst (maybeAdvance st h now) = st \<and> street (snd (maybeAdvance st h now)) = street h
       \<and> pendingSeats (snd (maybeAdvance st h now)) = pendingSeats h
     \<or> streetsLeft (street (snd (maybeAdvance st h now))) < streetsLeft (street h))"
proof -
  have two: "\<not> countNotFolded h \<le> 1" using b completeByFolds_phase [OF m] by (auto simp: maybeAdvance_def)
  show ?thesis
  proof (cases "streetComplete h")
    case False
    with two no show ?thesis
      by (auto simp: maybeAdvance_def Let_def no_overcommit_def pendingSeats_def)
  next
    case True
    let ?r = "returnUncalledStreetExcess st h"
    from two True b have st: "street h \<noteq> River"
      and eq: "snd (maybeAdvance st h now) = advanceStreet (fst ?r) (snd ?r) now"
      by (auto simp: maybeAdvance_def Let_def split_beta split: if_splits)
    then show ?thesis
      by (cases "street h") (simp_all add: eq advanceStreet_def Let_def no_overcommit_def)
  qed
qed

lemma applyAction_progress:
  assumes inv: "table_inv st" and h: "hand st = Some h" and no: "no_overcommit h"
    and r: "applyAction st act now = Inr st'" and h': "hand st' = Some h'" "phase h' = Betting"
  shows "no_overcommit h' \<and> (betting_rank st' h', betting_rank st h) \<in> rank_less"
  using r
proof (rule applyAction_InrE)
  fix g s st1 h1 st2 h2
  assume g: "hand st = Some g" "phase g = Betting" and s: "s < 9" "seatAt st s \<noteq> None" "inHandAt g s" "\<not> foldedAt g s" "\<not> allInAt g s"
    and on: "actionOn g = Some s" and d: "dispatchAction st g s act = Inr (st1, h1)"
    and m: "maybeAdvance st1 (h1\<lparr>events := events h1 @ [ActionApplied s act]\<rparr>) now = (st2, h2)"
    and st': "st' = st2\<lparr>hand := Some h2\<rparr>"
  have gh: "g = h" and h2: "h2 = h'" using g h h' st' by auto
  note tv = table_invD [OF inv]
  have hi: "hand_inv st h" using tv(1) h by blast
  then have base: "hand_wf h" "commits_ok st h" "allin_ok st h" "needsToAct h s"
    using g on gh by (auto simp: hand_inv_def turn_ok_def)
  have stk: "0 < stackAt st s" using base s gh by (force simp: commits_ok_def allin_ok_def)
  from dispatchAction_inv [OF hi _ tv(2) s(1,2)] s g gh d
  have mid: "mid_inv st1 h1" and len: "length (seats st1) = length (seats st)" by auto
  let ?h1 = "h1\<lparr>events := events h1 @ [ActionApplied s act]\<rparr>"
  from dispatchAction_progress [OF base(1,2) no s(2,1) base(4) stk] d gh
  have p1: "no_overcommit h1" "street h1 = street h"
    "stacksTotal st1 < stacksTotal st \<or> stacksTotal st1 = stacksTotal st \<and> pendingSeats h1 < pendingSeats h" by auto
  have ev: "no_overcommit ?h1 = no_overcommit h1" "pendingSeats ?h1 = pendingSeats h1"
    by (simp_all add: no_overcommit_def pendingSeats_def)
  from maybeAdvance_progress [of st1 ?h1 now] mid p1(1) ev m h2 h'(2)
  have p2: "no_overcommit h'" "st2 = st1 \<and> street h' = street h1 \<and> pendingSeats h' = pendingSeats h1
      \<or> streetsLeft (street h') < streetsLeft (street h1)" by auto
  have "0 \<le> stacksTotal st1"
    using mid len tv(3) by (intro stacksTotal_nonneg) (auto simp: mid_inv_def commits_ok_def)
  with p1 p2 show ?thesis by (auto simp: betting_rank_def st')
qed

lemma accepted_betting: "applyAction st act now = Inr st' \<Longrightarrow> \<exists>h. hand st = Some h \<and> phase h = Betting"
  by (erule applyAction_InrE) blast

lemma no_infinite_betting:
  assumes "table_inv (f 0)" and "hand (f 0) = Some h" and "no_overcommit h"
    and run: "\<And>n. \<exists>act now. applyAction (f n) act now = Inr (f (Suc n))"
  shows False
proof -
  define hd where "hd n = the (hand (f n))" for n
  have h: "hand (f n) = Some (hd n) \<and> phase (hd n) = Betting" for n
    using run [of n] accepted_betting unfolding hd_def by fastforce
  have inv: "table_inv (f n) \<and> no_overcommit (hd n)" for n
  proof (induction n)
    case 0
    then show ?case using assms(1-3) by (simp add: hd_def)
  next
    case (Suc n)
    obtain act now where r: "applyAction (f n) act now = Inr (f (Suc n))" using run by blast
    from Suc applyAction_inv [OF _ r] applyAction_progress [OF _ _ _ r] h show ?case by blast
  qed
  have "(betting_rank (f (Suc n)) (hd (Suc n)), betting_rank (f n) (hd n)) \<in> rank_less" for n
  proof -
    obtain act now where r: "applyAction (f n) act now = Inr (f (Suc n))" using run by blast
    from applyAction_progress [OF _ _ _ r] inv h show ?thesis by blast
  qed
  moreover have "wf rank_less" by blast
  ultimately show False
    unfolding wf_iff_no_infinite_down_chain
    by (elim notE) (rule exI [of _ "\<lambda>n. betting_rank (f n) (hd n)"], blast)
qed
end
