(* ===== verification/Engine_Theorems.thy ===== *)
theory Engine_Theorems
  imports Engine_Runs
begin

text \<open>
  What the hold'em engine of \<^verbatim>\<open>packages/poker-engine/src/engine.ts\<close> guarantees on every
  table a client can reach: chip conservation, complete side pots at a showdown, progress
  (no stuck hand, timeouts, termination of betting), the rules of betting and raising, the
  errors, and how a hand ends. The examples of the first section are the concrete tables on
  which the theorems are applied.
\<close>


subsection \<open>Example tables\<close>

definition demo_params :: TableParams where
  "demo_params = \<lparr>smallBlind = 5, bigBlind = 10, actionTimeoutSecs = 30, rakeBps = 0, refundBlindsOnAbort = True\<rparr>"

definition seating :: "int list \<Rightarrow> TableState result" where
  "seating stacks =
     foldl (\<lambda>r p. rbind r (\<lambda>st. sit st (int (fst p)) ''player'' (snd p))) (createTableState demo_params) (enumerate 0 stacks)"

definition scenario :: "int list \<Rightarrow> Action list \<Rightarrow> TableState result" where
  "scenario stacks acts =
     foldl (\<lambda>r a. rbind r (\<lambda>st. applyAction st a 0)) (rbind (seating stacks) (\<lambda>st. startHand st 0)) acts"

lemma foldl_rbind:
  assumes "foldl (\<lambda>r a. rbind r (f a)) r0 xs = Inr y" and "\<And>x. r0 = Inr x \<Longrightarrow> P x"
    and "\<And>a x x'. P x \<Longrightarrow> f a x = Inr x' \<Longrightarrow> P x'"
  shows "P y"
  using assms
proof (induction xs arbitrary: r0)
  case (Cons a xs)
  have "P x" if "rbind r0 (f a) = Inr x" for x
    using that by (rule rbind_InrE) (use Cons.prems(2,3) in blast)
  with Cons.IH [of "rbind r0 (f a)"] Cons.prems(1,3) show ?case by simp
qed simp

lemma seating_reachable: "seating stacks = Inr st \<Longrightarrow> engine_reachable st"
  unfolding seating_def by (erule foldl_rbind) (auto intro: reach_create reach_sit)

lemma scenario_reachable:
  assumes "scenario stacks acts = Inr st"
  shows "engine_reachable st"
  using assms [unfolded scenario_def]
  by (rule foldl_rbind) (auto intro: reach_start seating_reachable reach_play play_action)

definition demo_table :: TableState where "demo_table = projr (seating [100, 100, 100])"
definition demo_start :: TableState where "demo_start = projr (scenario [100, 100, 100] [])"
definition demo_allin :: TableState where "demo_allin = projr (scenario [100, 60] [BetTo 0 100, Call 1])"

lemma demo_table_reachable: "engine_reachable demo_table"
  by (rule seating_reachable [of "[100, 100, 100]"]) code_simp

lemma demo_start_eq: "startHand demo_table 0 = Inr demo_start"
  by code_simp

lemma demo_start_reachable: "engine_reachable demo_start"
  by (rule reach_start [OF demo_table_reachable demo_start_eq])

lemma demo_allin_reachable: "engine_reachable demo_allin"
  by (rule scenario_reachable [of "[100, 60]" "[BetTo 0 100, Call 1]"]) code_simp

lemma demo_allin_facts:
  "hand demo_allin = Some (the (hand demo_allin))" "phase (the (hand demo_allin)) = Showdown"
  "potTotal (pots (the (hand demo_allin))) = 120"
  by code_simp+

definition demo_hand :: HandState where "demo_hand = the (hand demo_start)"

lemma demo_hand_eq: "hand demo_start = Some demo_hand" 
  by code_simp
lemma demo_hand_facts: "phase demo_hand = Betting" "actionOn demo_hand = Some 0"
  by code_simp+

lemma now0: "isInteger (0 :: js_number)" "(0 :: js_number) \<le> 0"
  by code_simp+

subsection \<open>Safety\<close>

text \<open>
  C1: every state a client can reach by creating a table, seating players, dealing hands,
  playing, ticking and aborting satisfies the table invariant.
\<close>

theorem reachable_table_inv:
  assumes "engine_reachable st"
  shows "table_inv st"
  using assms by (rule reachable_inv)

theorem reachable_table_inv_witness: "engine_reachable demo_start \<and> table_inv demo_start"
  using reachable_table_inv [OF demo_start_reachable] demo_start_reachable by simp

text \<open>
  C2: no sequence of player actions, timeouts and aborts creates or destroys a chip.
\<close>

theorem play_conserves_chips:
  assumes "engine_reachable st" and "play_step\<^sup>*\<^sup>* st st'"
  shows "totalChipsOnTable st' = totalChipsOnTable st"
proof -
  have "table_inv st' \<and> totalChipsOnTable st' = totalChipsOnTable st"
    using assms(2) reachable_inv [OF assms(1)]
    by (induction rule: rtranclp_induct) (auto dest: play_step_keeps)
  then show ?thesis by simp
qed

definition demo_called :: TableState where "demo_called = projr (applyAction demo_start (Call 0) 5)"

lemma demo_called_eq: "applyAction demo_start (Call 0) 5 = Inr demo_called"
  by code_simp

theorem play_conserves_chips_witness:
  "engine_reachable demo_start \<and> play_step\<^sup>*\<^sup>* demo_start demo_called \<and> totalChipsOnTable demo_called = 300"
proof -
  have p: "play_step\<^sup>*\<^sup>* demo_start demo_called"
    using play_action [OF demo_called_eq] by (rule r_into_rtranclp)
  have "totalChipsOnTable demo_start = 300" by code_simp
  with play_conserves_chips [OF demo_start_reachable p] p demo_start_reachable show ?thesis by simp
qed


subsection \<open>Progress\<close>

lemma call_allowed: "toCall h s \<noteq> 0 \<Longrightarrow> \<exists>sh. dispatchAction st h s (Call x) = Inr sh"
  by (simp add: dispatchAction_def applyCall_def Let_def split_beta)

text \<open>
  C6: a betting hand is never stuck: some seat is on turn, the engine accepts its fold, and
  it accepts its check when there is nothing to call and its call otherwise.
\<close>

theorem betting_never_stuck:
  assumes "engine_reachable st" and "hand st = Some h" and "phase h = Betting"
    and "isInteger now" and "0 \<le> now"
  shows "\<exists>s. actionOn h = Some s \<and> s < 9 \<and> (\<exists>st'. applyAction st (Fold (int s)) now = Inr st')
    \<and> (\<exists>st'. applyAction st (if toCall h s = 0 then Check (int s) else Call (int s)) now = Inr st')"
proof -
  note inv = reachable_inv [OF assms(1)]
  obtain s where s: "actionOn h = Some s" "s < 9"
    using turn_okE [OF table_invD(1) [OF inv assms(2)] assms(3)] by metis
  note ok = applyAction_turn [OF inv assms(2,3) s(1) assms(4,5)]
  have "\<exists>st'. applyAction st (if toCall h s = 0 then Check (int s) else Call (int s)) now = Inr st'"
    using ok [of "Check (int s)"] ok [of "Call (int s)"] check_allowed [of h s st "int s"] call_allowed [of h s st "int s"]
    by fastforce
  with ok [OF _ fold_allowed] s show ?thesis by simp
qed

theorem betting_never_stuck_witness:
  "\<exists>s. actionOn demo_hand = Some s \<and> s < 9 \<and> (\<exists>st'. applyAction demo_start (Fold (int s)) 0 = Inr st')
    \<and> (\<exists>st'. applyAction demo_start (if toCall demo_hand s = 0 then Check (int s) else Call (int s)) 0 = Inr st')"
  using betting_never_stuck [OF demo_start_reachable demo_hand_eq demo_hand_facts(1) now0] .

text \<open>
  C10: the clock can always be advanced: before the deadline of the seat on turn a tick
  changes nothing, at or after it the tick plays for the seat, a check when there is nothing
  to call and a fold otherwise, and records the timeout.
\<close>

theorem tick_plays_default:
  assumes "engine_reachable st" and "isInteger now" and "0 \<le> now"
    and "hand st = Some h" and "phase h = Betting" and "actionOn h = Some s"
    and "actionDeadlineTs h = Some deadline"
  shows "if now < deadline then applyTick st now = Inr st
     else \<exists>st1. applyAction st (if toCall h s = 0 then Check (int s) else Fold (int s)) now = Inr st1
       \<and> applyTick st now = Inr (pushEvent (TimeoutApplied s (if toCall h s = 0 then ''Check'' else ''Fold'')) st1)"
proof -
  note inv = reachable_inv [OF assms(1)]
  have "applyTick st now = (if now < deadline then Inr st else rbind (applyAction st (timeoutAction h s) now)
      (\<lambda>st1. Inr (pushEvent (TimeoutApplied s (if toCall h s = 0 then ''Check'' else ''Fold'')) st1)))"
    using table_invD(3) [OF inv] assms by (simp add: applyTick_def assertIntTimestamp_def seatCount9_def)
  moreover obtain st' where "applyTick st now = Inr st'" using applyTick_total [OF inv assms(2,3)] by blast
  ultimately show ?thesis
    by (cases "applyAction st (timeoutAction h s) now") (auto simp: timeoutAction_def split: if_splits)
qed

theorem tick_plays_default_witness:
  "\<exists>st1. applyAction demo_start (Fold 0) 31 = Inr st1
     \<and> applyTick demo_start 31 = Inr (pushEvent (TimeoutApplied 0 ''Fold'') st1)"
proof -
  have d: "actionDeadlineTs demo_hand = Some 30" "isInteger (31 :: js_number)" "(0 :: js_number) \<le> 31"
    and c: "toCall demo_hand 0 = 10" "\<not> (31 :: js_number) < 30" by code_simp+
  show ?thesis
    using tick_plays_default [OF demo_start_reachable d(2,3) demo_hand_eq demo_hand_facts d(1)] c by simp
qed

lemma startHand_no_overcommit:
  assumes "table_inv st" and "startHand st now = Inr st'" and "hand st' = Some h" and "betTo h = bigBlind (params st)"
  shows "no_overcommit h"
  using assms(2)
proof (rule startHand_InrE)
  fix btn sb bb nx h2
  assume two: "2 \<le> length (fundedSeats st)" and btn: "btn = chooseButton st" and sb: "sb = smallBlindSeatFor st btn"
    and bb: "bb = nextOccupiedSeat (seats st) sb"
    and h2: "h2 = (if nx = None then reachShowdown ((dealtHand st btn sb bb)\<lparr>actionOn := nx, actionDeadlineTs := deadlineFor st nx now\<rparr>)
               else (dealtHand st btn sb bb)\<lparr>actionOn := nx, actionDeadlineTs := deadlineFor st nx now\<rparr>)"
    and st': "st' = (postBlinds st sb bb)\<lparr>tableButton := Some btn, nextHandId := nextHandId st + 1, hand := Some h2\<rparr>"
  note bs = blindSeats_props [OF two sb [unfolded btn] bb]
  have "params_ok (params st)" using table_invD(2) [OF assms(1)] .
  moreover have "h = h2" using assms(3) st' by simp
  moreover have "betTo (reachShowdown g) = betTo g" for g by (simp add: reachShowdown_def Let_def)
  ultimately show ?thesis using assms(4) bs dealtHand_commits(1) [OF bs(4,2,3)]
    by (auto simp: no_overcommit_def h2 params_ok_def blindPay_def)
qed

text \<open>
  C3: when the big blind was posted in full, the betting of a hand ends: there is no endless
  sequence of accepted actions from the deal.
\<close>

theorem betting_terminates:
  assumes "engine_reachable st" and "startHand st now = Inr (f 0)" and "hand (f 0) = Some h"
    and "betTo h = bigBlind (params st)"
  shows "\<not> (\<forall>n. \<exists>act t. applyAction (f n) act t = Inr (f (Suc n)))"
proof
  note inv = reachable_inv [OF assms(1)]
  assume "\<forall>n. \<exists>act t. applyAction (f n) act t = Inr (f (Suc n))"
  with no_infinite_betting [of f h] startHand_inv [OF inv assms(2)] assms(3)
    startHand_no_overcommit [OF inv assms(2,3,4)] show False by blast
qed

theorem betting_terminates_witness:
  "startHand demo_table 0 = Inr demo_start \<and>
   \<not> (\<forall>n::nat. \<exists>act t. applyAction demo_start act t = Inr demo_start)"
proof -
  have b: "betTo demo_hand = bigBlind (params demo_table)" by code_simp
  show ?thesis
    using betting_terminates [of demo_table 0 "\<lambda>_. demo_start", OF demo_table_reachable demo_start_eq demo_hand_eq b]
      demo_start_eq by simp
qed

subsection \<open>Bets and raises\<close>

lemma applyBetTo_ok:
  assumes "streetCommitAt h s < a" and "a \<le> streetCommitAt h s + stackAt st s" and "betTo h < a"
    and "lastActedAt h s \<noteq> intervalId h"
    and "a = streetCommitAt h s + stackAt st s
       \<or> (if betTo h = 0 then bigBlind (params st) \<le> a else betTo h + minRaiseSize h \<le> a)"
  obtains st1 h1 where "applyBetTo st h s a = Inr (st1, h1)"
  using assms by (fastforce simp: applyBetTo_def validateRaiseAllowed_def Let_def payIn_def split: if_splits)

text \<open>
  C7: the engine accepts a bet of the seat on turn exactly when it is more than the seat has
  in and than the bet to match, within the seat's chips, the seat may still raise in this
  betting interval, and it is a full bet (the big blind) or a full raise, or all-in.
\<close>

theorem bet_accepted_iff:
  assumes "engine_reachable st" and "hand st = Some h" and "phase h = Betting" and "actionOn h = Some s"
    and "isInteger now" and "0 \<le> now"
  shows "(\<exists>st'. applyAction st (BetTo (int s) a) now = Inr st') \<longleftrightarrow>
    streetCommitAt h s < a \<and> a \<le> streetCommitAt h s + stackAt st s \<and> betTo h < a
    \<and> lastActedAt h s \<noteq> intervalId h
    \<and> (a = streetCommitAt h s + stackAt st s
       \<or> (if betTo h = 0 then bigBlind (params st) \<le> a else betTo h + minRaiseSize h \<le> a))"
    (is "?L \<longleftrightarrow> ?R")
proof
  assume ?L
  then have "\<exists>sh. applyBetTo st h s a = Inr sh"
    using assms by (auto elim!: applyAction_InrE simp: dispatchAction_def)
  then obtain sh where b: "applyBetTo st h s a = Inr sh" by blast
  from b show ?R using applyBetTo_bounds [OF b] by (cases rule: applyBetTo_InrE) auto
next
  assume R: ?R
  then obtain st1 h1 where "applyBetTo st h s a = Inr (st1, h1)"
    by (elim conjE) (rule applyBetTo_ok)
  then show ?L
    using applyAction_turn [OF reachable_inv [OF assms(1)] assms(2-6), of "BetTo (int s) a"]
    by (simp add: dispatchAction_def)
qed

theorem bet_accepted_iff_witness:
  "(\<exists>st'. applyAction demo_start (BetTo 0 20) 0 = Inr st') \<and> \<not> (\<exists>st'. applyAction demo_start (BetTo 0 19) 0 = Inr st')"
proof -
  have e: "streetCommitAt demo_hand 0 = 0" "stackAt demo_start 0 = 100" "betTo demo_hand = 10" "minRaiseSize demo_hand = 10"
    "lastActedAt demo_hand 0 = - 1" "intervalId demo_hand = 0" by code_simp+
  note w = bet_accepted_iff [OF demo_start_reachable demo_hand_eq demo_hand_facts now0]
  show ?thesis using w [of 20] w [of 19] e by simp
qed

lemma returnUncalled_interval_fields [simp]:
  "lastIntervalActed (snd (returnUncalledStreetExcess st h)) = lastIntervalActed h"
  "intervalId (snd (returnUncalledStreetExcess st h)) = intervalId h"
  by (rule returnUncalled_cases [of st h]; simp)+

lemma nextStreet_neq: "x \<noteq> River \<Longrightarrow> nextStreet x \<noteq> x"
  by (cases x) auto

lemma maybeAdvance_same_street:
  assumes "street (snd (maybeAdvance st h now)) = street h"
  shows "lastIntervalActed (snd (maybeAdvance st h now)) = lastIntervalActed h
    \<and> intervalId (snd (maybeAdvance st h now)) = intervalId h"
  using assms nextStreet_neq
  by (auto simp: maybeAdvance_def completeByFolds_def reachShowdown_def advanceStreet_def split_beta Let_def
      split: if_splits option.splits)


text \<open>
  C8: an all-in raise smaller than a full raise does not reopen the betting: a seat that has
  already acted in the current interval cannot raise afterwards on the same street.
\<close>

theorem under_raise_keeps_betting_closed:
  assumes "engine_reachable st" and "hand st = Some h"
    and "applyAction st (BetTo (int s) a) now = Inr st'" and "betTo h \<noteq> 0" and "a - betTo h < minRaiseSize h"
    and "t \<noteq> s" and "lastActedAt h t = intervalId h"
    and "hand st' = Some h'" and "street h' = street h"
  shows "\<not> (\<exists>st''. applyAction st' (BetTo (int t) b) now' = Inr st'')"
proof
  assume "\<exists>st''. applyAction st' (BetTo (int t) b) now' = Inr st''"
  then have n: "lastActedAt h' t \<noteq> intervalId h'"
    using assms(8) by (auto elim!: applyAction_InrE simp: dispatchAction_def dest: applyBetTo_bounds(4))
  show False
    using assms(3)
  proof (rule applyAction_InrE)
    fix g u st1 h1 st2 h2
    assume g: "hand st = Some g" "action_seat (BetTo (int s) a) = int u" "dispatchAction st g u (BetTo (int s) a) = Inr (st1, h1)"
      and m: "maybeAdvance st1 (h1\<lparr>events := events h1 @ [ActionApplied u (BetTo (int s) a)]\<rparr>) now = (st2, h2)"
      and st': "st' = st2\<lparr>hand := Some h2\<rparr>"
    have "applyBetTo st h s a = Inr (st1, h1)" using g assms(2) by (simp add: dispatchAction_def)
    then have h1: "lastActedAt h1 t = intervalId h1 \<and> street h1 = street h"
    proof (cases rule: applyBetTo_InrE)
      case under
      then have "h1 = snd (payIn st (h\<lparr>lastIntervalActed := (lastIntervalActed h)[s := intervalId h], betTo := a\<rparr>)
          s (a - streetCommitAt h s))" by (metis snd_conv)
      then show ?thesis using assms(6,7) by (simp add: aget_list_update)
    qed (use assms(4,5) in auto)
    let ?h = "h1\<lparr>events := events h1 @ [ActionApplied u (BetTo (int s) a)]\<rparr>"
    have h': "h' = snd (maybeAdvance st1 ?h now)" using m st' assms(8) by simp
    show False using h' h1 n assms(9) maybeAdvance_same_street [of st1 ?h now] by simp
  qed
qed

definition demo_short :: TableState where "demo_short = projr (scenario [200, 200, 25] [BetTo 0 20, Call 1])"
definition demo_under :: TableState where "demo_under = projr (scenario [200, 200, 25] [BetTo 0 20, Call 1, BetTo 2 25])"

theorem under_raise_keeps_betting_closed_witness:
  "applyAction demo_short (BetTo 2 25) 0 = Inr demo_under \<and> actionOn (the (hand demo_under)) = Some 0
     \<and> \<not> (\<exists>st''. applyAction demo_under (BetTo 0 100) 0 = Inr st'')"
proof -
  have r: "engine_reachable demo_short"
    by (rule scenario_reachable [of "[200, 200, 25]" "[BetTo 0 20, Call 1]"]) code_simp
  have e: "hand demo_short = Some (the (hand demo_short))" "applyAction demo_short (BetTo (int 2) 25) 0 = Inr demo_under"
    "betTo (the (hand demo_short)) \<noteq> 0" "25 - betTo (the (hand demo_short)) < minRaiseSize (the (hand demo_short))"
    "(0::nat) \<noteq> 2" "lastActedAt (the (hand demo_short)) 0 = intervalId (the (hand demo_short))"
    "hand demo_under = Some (the (hand demo_under))" "street (the (hand demo_under)) = street (the (hand demo_short))"
    "actionOn (the (hand demo_under)) = Some 0" by code_simp+
  from under_raise_keeps_betting_closed [OF r e(1-8), of 100 0] e(2,9) show ?thesis by simp
qed

text \<open>
  An action by a seat that is not on turn is refused, and the error says why: the seat
  is empty, not in the hand, folded, all-in, or out of turn.
\<close>

theorem off_turn_action_refused:
  assumes "engine_reachable st" and "hand st = Some h" and "phase h = Betting"
    and "isInteger now" and "0 \<le> now" and "t < 9" and "actionOn h \<noteq> Some t" and "action_seat act = int t"
  shows "applyAction st act now =
    Inl (if seatAt st t = None then SEAT_EMPTY else if \<not> inHandAt h t then SEAT_NOT_IN_HAND
         else if foldedAt h t then SEAT_FOLDED else if allInAt h t then SEAT_ALL_IN else OUT_OF_TURN)"
  using assms table_invD(3) [OF reachable_inv [OF assms(1)]]
  by (auto simp: applyAction_def assertIntTimestamp_def seatCount9_def Let_def)

theorem off_turn_action_refused_witness:
  "applyAction demo_start (Fold 1) 0 = Inl OUT_OF_TURN \<and> applyAction demo_start (Fold 5) 0 = Inl SEAT_EMPTY"
proof -
  have e: "seatAt demo_start 1 \<noteq> None" "inHandAt demo_hand 1" "\<not> foldedAt demo_hand 1" "\<not> allInAt demo_hand 1"
    "seatAt demo_start 5 = None" by code_simp+
  note w = off_turn_action_refused [OF demo_start_reachable demo_hand_eq demo_hand_facts(1) now0]
  show ?thesis using w [of 1 "Fold 1"] w [of 5 "Fold 5"] e demo_hand_facts(2) by simp
qed

text \<open>
  C12: every action that \<^verbatim>\<open>legalActions\<close> offers is accepted, when the seat on turn faces a bet or
  nobody has bet and it has nothing in on this street.
\<close>

theorem legalActions_accepted:
  assumes "engine_reachable st" and "hand st = Some h" and "phase h = Betting" and "actionOn h = Some s"
    and "isInteger now" and "0 \<le> now"
    and "0 < toCall h s \<or> betTo h = 0 \<and> streetCommitAt h s = 0"
    and "act \<in> set (legalActions st)"
  shows "\<exists>st'. applyAction st act now = Inr st'"
proof -
  note inv = reachable_inv [OF assms(1)]
  obtain d where t: "s < 9" "needsToAct h s" "seatAt st s \<noteq> None" "inHandAt h s" "\<not> foldedAt h s" "\<not> allInAt h s"
    using turn_okE [OF table_invD(1) [OF inv assms(2)] assms(3)] assms(4) by force
  have iv: "0 \<le> betTo h" "0 < minRaiseSize h" "0 \<le> streetCommitAt h s" "0 < bigBlind (params st)"
    using table_invD(1) [OF inv assms(2)] table_invD(2) [OF inv] t(1)
    by (auto simp: hand_inv_def interval_ok_def commits_ok_def params_ok_def)
  note ok = applyAction_turn [OF inv assms(2-6)]
  have "act = Fold (int s) \<or> (act = Check (int s) \<and> toCall h s = 0) \<or> (act = Call (int s) \<and> toCall h s \<noteq> 0)
      \<or> (\<exists>a. act = BetTo (int s) a \<and> streetCommitAt h s < a \<and> a \<le> streetCommitAt h s + stackAt st s \<and> betTo h < a
          \<and> lastActedAt h s \<noteq> intervalId h \<and> (a = streetCommitAt h s + stackAt st s
            \<or> (if betTo h = 0 then bigBlind (params st) \<le> a else betTo h + minRaiseSize h \<le> a)))"
  proof (cases "toCall h s = 0")
    case True
    then have "betTo h = 0" "streetCommitAt h s = 0" using assms(7) by auto
    with True assms(2,3,4,8) t iv show ?thesis by (auto simp: legalActions_def Let_def split: if_splits)
  next
    case False
    then have "streetCommitAt h s < betTo h" by (auto simp: toCall_def Let_def split: if_splits)
    with False assms(2,3,4,8) t iv show ?thesis by (auto simp: legalActions_def Let_def split: if_splits)
  qed
  moreover have "\<exists>st'. applyAction st (BetTo (int s) a) now = Inr st'"
    if "streetCommitAt h s < a" "a \<le> streetCommitAt h s + stackAt st s" "betTo h < a" "lastActedAt h s \<noteq> intervalId h"
      "a = streetCommitAt h s + stackAt st s
       \<or> (if betTo h = 0 then bigBlind (params st) \<le> a else betTo h + minRaiseSize h \<le> a)" for a
    by (rule applyBetTo_ok [OF that]) (use ok [of "BetTo (int s) a"] in \<open>simp add: dispatchAction_def\<close>)
  moreover have "\<exists>st'. applyAction st (Fold (int s)) now = Inr st'" using ok [OF _ fold_allowed] by simp
  moreover have "toCall h s = 0 \<Longrightarrow> \<exists>st'. applyAction st (Check (int s)) now = Inr st'"
    using ok [of "Check (int s)"] check_allowed [of h s st "int s"] by fastforce
  moreover have "toCall h s \<noteq> 0 \<Longrightarrow> \<exists>st'. applyAction st (Call (int s)) now = Inr st'"
    using ok [of "Call (int s)"] call_allowed [of h s st "int s"] by fastforce
  ultimately show ?thesis by blast
qed

theorem legalActions_accepted_witness:
  "\<exists>st'. applyAction demo_start (BetTo 0 20) 0 = Inr st'"
proof -
  have e: "0 < toCall demo_hand 0 \<or> betTo demo_hand = 0 \<and> streetCommitAt demo_hand 0 = 0"
    "BetTo 0 20 \<in> set (legalActions demo_start)" by code_simp+
  show ?thesis
    by (rule legalActions_accepted [OF demo_start_reachable demo_hand_eq demo_hand_facts now0 e])
qed

subsection \<open>The end of a hand\<close>

lemma fold_refundSeat_stack:
  assumes "distinct is" and "\<forall>i \<in> set is. i < 9" and "hand_wf h" and "j < 9"
  shows "stackAt (fst (fold refundSeat is (st, h))) j = stackAt st j +
    (if j \<in> set is \<and> seatAt st j \<noteq> None \<and> \<not> ((j = smallBlindSeat h \<or> j = bigBlindSeat h) \<and> \<not> refundBlindsOnAbort (params st))
     then totalCommitAt h j else 0)"
  using assms
proof (induction "is" arbitrary: st h)
  case (Cons i "is")
  obtain st1 h1 where r: "refundSeat i (st, h) = (st1, h1)" by fastforce
  have "params st1 = params st" "smallBlindSeat h1 = smallBlindSeat h" "bigBlindSeat h1 = bigBlindSeat h" "hand_wf h1"
    "seatAt st1 j = None \<longleftrightarrow> seatAt st j = None" "i \<noteq> j \<Longrightarrow> totalCommitAt h1 j = totalCommitAt h j"
    "stackAt st1 j = stackAt st j + (if i = j \<and> seatAt st i \<noteq> None \<and>
        \<not> ((i = smallBlindSeat h \<or> i = bigBlindSeat h) \<and> \<not> refundBlindsOnAbort (params st)) then totalCommitAt h i else 0)"
    using r Cons.prems by (auto simp: refundSeat_def Let_def stackAt_addStack split: option.splits if_splits)
  with Cons.IH [of h1 st1] Cons.prems r show ?case by auto
qed simp



lemma filter_length_two:
  assumes "length (filter P xs) = 2" and "distinct xs" and "a \<in> set xs" "P a" "b \<in> set xs" "P b" "a \<noteq> b"
    and "c \<in> set xs" "P c"
  shows "c = a \<or> c = b"
proof (rule ccontr)
  assume n: "\<not> (c = a \<or> c = b)"
  have "card {a, b, c} \<le> card (set (filter P xs))" by (rule card_mono) (use assms in auto)
  also have "\<dots> \<le> 2" using card_length [of "filter P xs"] assms(1) by simp
  finally show False using n assms(7) by (auto simp: card_insert_if)
qed

lemma countNotFolded_two:
  assumes "countNotFolded h = 2" and "a < 9" "inHandAt h a" "\<not> foldedAt h a"
    and "b < 9" "inHandAt h b" "\<not> foldedAt h b" and "a \<noteq> b" and "c < 9" "inHandAt h c" "\<not> foldedAt h c"
  shows "c = a \<or> c = b"
  by (rule filter_length_two [OF assms(1) [unfolded countNotFolded_def] distinct_upt]) (use assms in auto)

lemma countNotFolded_one:
  assumes "\<And>i. i < 9 \<Longrightarrow> inHandAt h i \<Longrightarrow> \<not> foldedAt h i \<Longrightarrow> i = w"
  shows "countNotFolded h \<le> 1"
proof -
  have "set (filter (\<lambda>i. inHandAt h i \<and> \<not> foldedAt h i) [0..<9]) \<subseteq> {w}" using assms by auto
  from card_mono [OF _ this] show ?thesis
    unfolding countNotFolded_def by (subst distinct_card [symmetric]) (rule distinct_filter [OF distinct_upt], simp)
qed

text \<open>
  C9: when all seats but one have folded the hand is over: the remaining seat is the winner,
  nothing stays in the pot, and all chips are back in the stacks.
\<close>

theorem last_fold_ends_hand:
  assumes "engine_reachable st" and "hand st = Some h" and "actionOn h = Some s" and "countNotFolded h = 2"
    and "w < 9" and "w \<noteq> s" and "inHandAt h w" and "\<not> foldedAt h w"
    and "applyAction st (Fold (int s)) now = Inr st'"
  shows "\<exists>h'. hand st' = Some h' \<and> phase h' = Complete \<and> winnerSeat h' = Some w \<and> actionOn h' = None
    \<and> escrow h' = 0 \<and> stacksTotal st' = totalChipsOnTable st"
  using assms(9)
proof (rule applyAction_InrE)
  fix g u st1 h1 st2 h2
  assume g: "hand st = Some g" "phase g = Betting" "action_seat (Fold (int s)) = int u" "u < 9" "inHandAt g u" "\<not> foldedAt g u"
    and d: "dispatchAction st g u (Fold (int s)) = Inr (st1, h1)"
    and m: "maybeAdvance st1 (h1\<lparr>events := events h1 @ [ActionApplied u (Fold (int s))]\<rparr>) now = (st2, h2)"
    and st': "st' = st2\<lparr>hand := Some h2\<rparr>"
  let ?h = "h1\<lparr>events := events h1 @ [ActionApplied u (Fold (int s))]\<rparr>"
  note hi = table_invD(1) [OF reachable_inv [OF assms(1)] assms(2)]
  have gh: "g = h" "u = s" and e: "st1 = st" "h1 = applyFold h s" using g d assms(2) by (auto simp: dispatchAction_def)
  have wf: "hand_wf h" and occ: "seatAt st w \<noteq> None"
    using hi assms(5,7) by (auto simp: hand_inv_def commits_ok_def)
  have live: "(inHandAt ?h i \<and> \<not> foldedAt ?h i) = (inHandAt h i \<and> \<not> foldedAt h i \<and> i \<noteq> s)" if "i < 9" for i
    using that wf by (simp add: e applyFold_def aget_list_update)
  have "s < 9" "inHandAt h s" "\<not> foldedAt h s" using g gh by simp_all
  then have only: "i = w" if "i < 9" "inHandAt ?h i" "\<not> foldedAt ?h i" for i
    using countNotFolded_two [OF assms(4), of s w i] assms(5-8) that live [OF that(1)] by blast
  have w: "inHandAt ?h w \<and> \<not> foldedAt ?h w" using assms(5-8) live [of w] by simp
  have f: "find (\<lambda>i. inHandAt ?h i \<and> \<not> foldedAt ?h i) [0..<9] = Some w"
  proof (rule find_unique)
    fix y assume "y \<in> set [0..<9]" and "inHandAt ?h y \<and> \<not> foldedAt ?h y"
    then show "y = w" using only [of y] by simp
  qed (use assms(5) w in simp_all)
  have "countNotFolded ?h \<le> 1" by (rule countNotFolded_one) (rule only)
  then have c: "(st2, h2) = completeByFolds st ?h" using m e by (simp add: maybeAdvance_def)
  obtain ss where ss: "seatAt (fst (returnUncalledStreetExcess st ?h)) w = Some ss" using occ by fastforce
  have "phase h2 = Complete \<and> winnerSeat h2 = Some w \<and> actionOn h2 = None \<and> totalCommit h2 = replicate 9 0"
    using c f ss by (simp add: completeByFolds_def split_beta Let_def)
  moreover have "totalChipsOnTable st' = totalChipsOnTable st"
    using act.run_chips [OF reachable_inv [OF assms(1)] assms(9)] .
  ultimately show ?thesis using st' by (simp add: totalChipsOnTable_def)
qed

theorem last_fold_ends_hand_witness:
  "\<exists>h'. hand (projr (scenario [100, 60] [Fold 0])) = Some h' \<and> winnerSeat h' = Some 1"
proof -
  let ?st = "projr (scenario [100, 60] [])" and ?st' = "projr (scenario [100, 60] [Fold 0])"
  have r: "engine_reachable ?st" by (rule scenario_reachable [of "[100, 60]" "[]"]) code_simp
  have e: "hand ?st = Some (the (hand ?st))" "actionOn (the (hand ?st)) = Some 0" "countNotFolded (the (hand ?st)) = 2"
    "(1::nat) < 9" "(1::nat) \<noteq> 0" "inHandAt (the (hand ?st)) 1" "\<not> foldedAt (the (hand ?st)) 1"
    "applyAction ?st (Fold (int 0)) 0 = Inr ?st'" by code_simp+
  from last_fold_ends_hand [OF r e] show ?thesis by blast
qed

subsection \<open>Behaviours the engine leaves open\<close>

definition livelock_state :: "EngineEvent list \<Rightarrow> TableState" where
  "livelock_state e =
     (let st = projr (scenario [100, 3] [Check 0]) in st\<lparr>hand := Some ((the (hand st))\<lparr>events := e\<rparr>)\<rparr>)"

lemma livelock_step: "applyAction (livelock_state e) (Check 0) 0 = Inr (livelock_state (e @ [ActionApplied 0 (Check 0)]))"
  by code_simp



text \<open>
  With the option of the big blind (nothing to call, a bet on the table), \<^verbatim>\<open>legalActions\<close> offers
  a bet of the big blind that the engine then refuses.
\<close>

theorem legalActions_offers_refused_bet:
  "rbind (scenario [100, 100] [Call 0]) (\<lambda>st. Inr (legalActions st, applyAction st (BetTo 1 10) 0)) =
   Inr ([Fold 1, Check 1, BetTo 1 10, BetTo 1 100], Inl INVALID_AMOUNT)"
  by code_simp

text \<open>
  The blinds go to the next occupied seats, funded or not: a seat without chips that is not in
  the hand can be the small blind, which then is not paid.
\<close>

theorem unfunded_small_blind:
  "rbind (scenario [100, 0, 100, 100] []) (\<lambda>st.
     let h = the (hand st) in Inr (smallBlindSeat h, inHandAt h 1, streetCommit h)) =
   Inr (1, False, [0, 0, 10, 0, 0, 0, 0, 0, 0])"
  by code_simp

end
