(* ===== verification/Cards.thy ===== *)
theory Cards
  imports OCP_Prelude
begin

text \<open>
  Playing cards as in \<^verbatim>\<open>packages/holdem-eval/src/cards.ts\<close>: ids 0..51, thirteen ranks per suit,
  and the two-character notation. Ids, ranks and suits are integers; a number that is not
  integral fails the same guard as one out of range. Of an error the model keeps the class.
\<close>

datatype JsError = RangeError | TypeError

definition RANK_CHARS :: string where "RANK_CHARS = ''23456789TJQKA''"

definition SUIT_CHARS :: string where "SUIT_CHARS = ''cdhs''"

definition assertValidCardId :: "int \<Rightarrow> JsError + unit" where
  "assertValidCardId c = guard_else (\<not> (c < 0 \<or> 51 < c)) RangeError"

definition cardSuit :: "int \<Rightarrow> JsError + int" where
  "cardSuit c = rbind (assertValidCardId c) (\<lambda>_. Inr (c div 13))"

definition cardRank :: "int \<Rightarrow> JsError + int" where
  "cardRank c = rbind (assertValidCardId c) (\<lambda>_. Inr (c mod 13 + 2))"

definition cardIdFromRankSuit :: "int \<Rightarrow> int \<Rightarrow> JsError + int" where
  "cardIdFromRankSuit rank suit =
     (if rank < 2 \<or> 14 < rank then Inl RangeError
      else if suit < 0 \<or> 3 < suit then Inl RangeError
      else Inr (suit * 13 + (rank - 2)))"

definition cardToString :: "int \<Rightarrow> JsError + string" where
  "cardToString c =
     rbind (cardSuit c) (\<lambda>suit. Inr [RANK_CHARS ! nat (c mod 13), SUIT_CHARS ! nat suit])"

text \<open>\<^verbatim>\<open>String.prototype.toLowerCase\<close> on one character; outside the letters it changes nothing
  that could become one of the suit characters.\<close>

definition toLowerCase :: "char \<Rightarrow> char" where
  "toLowerCase c =
     (let n = of_char c :: nat in if 65 \<le> n \<and> n \<le> 90 then char_of (n + 32) else c)"

fun indexOf :: "'a list \<Rightarrow> 'a \<Rightarrow> int" where
  "indexOf [] y = - 1"
| "indexOf (x # xs) y = (if x = y then 0 else let i = indexOf xs y in if i = - 1 then - 1 else i + 1)"

definition cardFromString :: "string \<Rightarrow> JsError + int" where
  "cardFromString s =
     (if length s \<noteq> 2 then Inl TypeError
      else let rankIndex = indexOf RANK_CHARS (s ! 0);
               suitIndex = indexOf SUIT_CHARS (toLowerCase (s ! 1))
           in if rankIndex = - 1 then Inl RangeError
              else if suitIndex = - 1 then Inl RangeError
              else Inr (suitIndex * 13 + rankIndex))"

subsection \<open>Lemmas\<close>

abbreviation valid_card :: "int \<Rightarrow> bool" where
  "valid_card c \<equiv> 0 \<le> c \<and> c \<le> 51"

lemma assertValidCardId_simps [simp]:
  "valid_card c \<Longrightarrow> assertValidCardId c = Inr ()"
  "\<not> valid_card c \<Longrightarrow> assertValidCardId c = Inl RangeError"
  by (auto simp: assertValidCardId_def)

lemma card_parts_valid [simp]:
  assumes "valid_card c"
  shows "cardSuit c = Inr (c div 13)" and "cardRank c = Inr (c mod 13 + 2)"
  using assms by (simp_all add: cardSuit_def cardRank_def)

lemma indexOf_bounds: "- 1 \<le> indexOf xs y \<and> indexOf xs y < int (length xs)"
  by (induction xs) (auto simp: Let_def)

lemma indexOf_nth: "indexOf xs y \<noteq> - 1 \<Longrightarrow> xs ! nat (indexOf xs y) = y"
proof (induction xs)
  case (Cons x xs)
  have "nat (1 + indexOf xs y) = Suc (nat (indexOf xs y))" if "indexOf xs y \<noteq> - 1"
    using indexOf_bounds [of xs y] that by linarith
  with Cons show ?case by (auto simp: Let_def add.commute split: if_splits)
qed simp

lemma all_cards_conv: "(\<forall>c. valid_card c \<longrightarrow> P c) \<longleftrightarrow> list_all P [0..51]"
  by (auto simp: list_all_iff)

lemma length_card_chars [simp]: "length RANK_CHARS = 13" "length SUIT_CHARS = 4"
  by (simp_all add: RANK_CHARS_def SUIT_CHARS_def)

lemma cardFromString_InrE:
  assumes "cardFromString s = Inr c"
  obtains i j where "length s = 2" and "indexOf RANK_CHARS (s ! 0) = i" and "indexOf SUIT_CHARS (toLowerCase (s ! 1)) = j"
    and "0 \<le> i" and "i < 13" and "0 \<le> j" and "j < 4" and "c = j * 13 + i"
  using assms indexOf_bounds [of RANK_CHARS "s ! 0"] indexOf_bounds [of SUIT_CHARS "toLowerCase (s ! 1)"]
  by (auto simp: cardFromString_def Let_def split: if_splits)

lemma cardFromString_printed:
  assumes "cardFromString s = Inr c"
  shows "valid_card c \<and> cardToString c = Inr [s ! 0, toLowerCase (s ! 1)]"
  using assms
proof (rule cardFromString_InrE)
  fix i j assume i: "indexOf RANK_CHARS (s ! 0) = i" "0 \<le> i" "i < 13"
    and j: "indexOf SUIT_CHARS (toLowerCase (s ! 1)) = j" "0 \<le> j" "j < 4" and c: "c = j * 13 + i"
  have "c div 13 = j" "c mod 13 = i" "valid_card c" using i j c by auto
  moreover have "RANK_CHARS ! nat i = s ! 0" "SUIT_CHARS ! nat j = toLowerCase (s ! 1)"
    using indexOf_nth [of RANK_CHARS "s ! 0"] indexOf_nth [of SUIT_CHARS "toLowerCase (s ! 1)"] i j by auto
  ultimately show ?thesis by (simp add: cardToString_def)
qed

text \<open>
  Printing a card and parsing the text gives the card back, splitting a card into rank and
  suit and reassembling it gives it back, and any text that parses to the card is the card's
  printed form up to the case of the suit letter.
\<close>

theorem card_round_trips:
  assumes "valid_card c"
  shows "rbind (cardToString c) cardFromString = Inr c
    \<and> rbind (cardRank c) (\<lambda>r. rbind (cardSuit c) (cardIdFromRankSuit r)) = Inr c
    \<and> (\<forall>s. cardFromString s = Inr c \<longrightarrow> cardToString c = Inr [s ! 0, toLowerCase (s ! 1)])"
proof -
  have "list_all (\<lambda>c. rbind (cardToString c) cardFromString = Inr c
      \<and> rbind (cardRank c) (\<lambda>r. rbind (cardSuit c) (cardIdFromRankSuit r)) = Inr c) [0..51]"
    by code_simp
  with assms cardFromString_printed show ?thesis unfolding all_cards_conv [symmetric] by blast
qed

theorem card_round_trips_witness:
  "cardToString 51 = Inr ''As'' \<and> cardFromString ''As'' = Inr 51 \<and> cardFromString ''AS'' = Inr 51"
proof -
  have e: "cardToString 51 = Inr ''As''" "cardFromString ''AS'' = Inr 51" by code_simp+
  have "rbind (cardToString 51) cardFromString = Inr 51"
    by (rule card_round_trips [THEN conjunct1]) simp
  with e show ?thesis by simp
qed

end
