(* ===== verification/Hand_Rank.thy ===== *)
theory Hand_Rank
  imports OCP_Prelude
begin

text \<open>
  Hand ranks and their comparison, \<^verbatim>\<open>packages/holdem-eval/src/handRank.ts\<close>, and the two loops
  of \<^verbatim>\<open>evaluate.ts\<close> that keep the best rank seen so far. The loops are correct for every
  three-way comparison that is antisymmetric and transitive; the locale \<open>comparator\<close> states
  that contract, and \<open>compareHandRank\<close> meets it.
\<close>

datatype HandCategory =
    HighCard | OnePair | TwoPair | Trips | Straight | Flush | FullHouse | Quads | StraightFlush

text \<open>The numeric values of the enum, and the order they induce.\<close>

primrec categoryIndex :: "HandCategory \<Rightarrow> nat" where
  "categoryIndex HighCard = 0"
| "categoryIndex OnePair = 1"
| "categoryIndex TwoPair = 2"
| "categoryIndex Trips = 3"
| "categoryIndex Straight = 4"
| "categoryIndex Flush = 5"
| "categoryIndex FullHouse = 6"
| "categoryIndex Quads = 7"
| "categoryIndex StraightFlush = 8"

lemma categoryIndex_inj: "categoryIndex a = categoryIndex b \<longleftrightarrow> a = b"
  by (cases a; cases b; simp)

instantiation HandCategory :: linorder
begin

definition less_eq_HandCategory :: "HandCategory \<Rightarrow> HandCategory \<Rightarrow> bool" where
  "less_eq_HandCategory a b \<longleftrightarrow> categoryIndex a \<le> categoryIndex b"

definition less_HandCategory :: "HandCategory \<Rightarrow> HandCategory \<Rightarrow> bool" where
  "less_HandCategory a b \<longleftrightarrow> categoryIndex a < categoryIndex b"

instance
  by standard (auto simp: less_eq_HandCategory_def less_HandCategory_def categoryIndex_inj)

end

record HandRank =
  category :: HandCategory
  tiebreakers :: "int list"

subsection \<open>The comparison\<close>

fun compareTies :: "int list \<Rightarrow> int list \<Rightarrow> nat list \<Rightarrow> int" where
  "compareTies a b [] = 0"
| "compareTies a b (i # is) =
     (let av = aget 0 a i; bv = aget 0 b i
      in if av \<noteq> bv then (if av < bv then - 1 else 1) else compareTies a b is)"

definition compareHandRank :: "HandRank \<Rightarrow> HandRank \<Rightarrow> int" where
  "compareHandRank a b =
     (if category a \<noteq> category b then (if category a < category b then - 1 else 1)
      else compareTies (tiebreakers a) (tiebreakers b)
             [0..<max (length (tiebreakers a)) (length (tiebreakers b))])"

text \<open>The bodies of the loops: the first keeps the best rank, the second also its seats.\<close>

definition keepBest :: "('r \<Rightarrow> 'r \<Rightarrow> int) \<Rightarrow> 'r option \<Rightarrow> 'r \<Rightarrow> 'r option" where
  "keepBest cmp best r =
     (case best of None \<Rightarrow> Some r | Some b \<Rightarrow> if cmp r b = 1 then Some r else best)"

definition collectBest :: "('r \<Rightarrow> 'r \<Rightarrow> int) \<Rightarrow> 'r option \<times> 's list \<Rightarrow> 's \<times> 'r \<Rightarrow> 'r option \<times> 's list" where
  "collectBest cmp acc e =
     (case acc of
        (None, _) \<Rightarrow> (Some (snd e), [fst e])
      | (Some b, bestSeats) \<Rightarrow>
          (let c = cmp (snd e) b
           in if c = 1 then (Some (snd e), [fst e])
              else if c = 0 then (Some b, bestSeats @ [fst e])
              else (Some b, bestSeats)))"

subsection \<open>The contract of a comparison\<close>

definition max_of :: "('r \<Rightarrow> 'r \<Rightarrow> int) \<Rightarrow> 'r \<Rightarrow> 'r set \<Rightarrow> bool" where
  "max_of cmp m R \<longleftrightarrow> m \<in> R \<and> (\<forall>r \<in> R. cmp r m \<le> 0)"

locale comparator =
  fixes cmp :: "'r \<Rightarrow> 'r \<Rightarrow> int"
  assumes cmp_range: "cmp a b \<in> {- 1, 0, 1}"
    and cmp_swap: "cmp b a = - cmp a b"
    and cmp_trans: "cmp a b \<le> 0 \<Longrightarrow> cmp b c \<le> 0 \<Longrightarrow> cmp a c \<le> 0"
begin

lemma cmp_refl [simp]: "cmp a a = 0"
  using cmp_swap [of a a] by simp

lemma cmp_not_1: "cmp a b \<noteq> 1 \<longleftrightarrow> cmp a b \<le> 0"
  using cmp_range [of a b] by auto

lemma cmp_flip: "cmp a b = 1 \<Longrightarrow> cmp b a \<le> 0"
  using cmp_swap [of b a] by simp

lemma cmp_eq_trans: "cmp a b = 0 \<Longrightarrow> cmp a c = cmp b c"
  using cmp_trans [of a b c] cmp_trans [of b a c] cmp_trans [of c a b] cmp_trans [of c b a]
    cmp_swap [of a b] cmp_swap [of a c] cmp_swap [of b c] cmp_range [of a c] cmp_range [of b c]
  by auto

lemma max_of_insert:
  assumes "max_of cmp b R"
  shows "max_of cmp (if cmp r b = 1 then r else b) (insert r R)"
proof (cases "cmp r b = 1")
  case True
  have "cmp x r \<le> 0" if "x \<in> R" for x
    using cmp_trans [of x b r] cmp_flip [OF True] assms that by (auto simp: max_of_def)
  with True show ?thesis by (simp add: max_of_def)
next
  case False
  with assms show ?thesis by (auto simp: max_of_def cmp_not_1)
qed

lemma keepBest_max:
  assumes "xs \<noteq> []"
  obtains m where "foldl (keepBest cmp) None xs = Some m" and "max_of cmp m (set xs)"
proof -
  have "\<exists>m. foldl (keepBest cmp) (Some b) ys = Some m \<and> max_of cmp m (R \<union> set ys)" if "max_of cmp b R" for b ys R
    using that
  proof (induction ys arbitrary: b R)
    case (Cons y ys)
    from Cons.IH [OF max_of_insert [OF Cons.prems, of y]] show ?case by (auto simp: keepBest_def)
  qed auto
  moreover obtain x ys where "xs = x # ys" using assms by (cases xs) auto
  moreover have "max_of cmp x {x}" by (simp add: max_of_def)
  ultimately show ?thesis using that by (fastforce simp: keepBest_def)
qed

lemma collectBest_max:
  assumes "es \<noteq> []"
  obtains m where "foldl (collectBest cmp) (None, []) es = (Some m, map fst (filter (\<lambda>e. cmp (snd e) m = 0) es))"
    and "max_of cmp m (snd ` set es)"
proof -
  have "\<exists>m. foldl (collectBest cmp) (Some b, map fst (filter (\<lambda>e. cmp (snd e) b = 0) xs)) ys =
        (Some m, map fst (filter (\<lambda>e. cmp (snd e) m = 0) (xs @ ys))) \<and> max_of cmp m (snd ` set (xs @ ys))"
    if "max_of cmp b (snd ` set xs)" for b xs ys
    using that
  proof (induction ys arbitrary: b xs)
    case (Cons y ys)
    let ?b = "if cmp (snd y) b = 1 then snd y else b"
    have "filter (\<lambda>e. cmp (snd e) (snd y) = 0) xs = []" if "cmp (snd y) b = 1"
    proof (clarsimp simp: filter_empty_conv)
      fix s r assume "(s, r) \<in> set xs" and "cmp r (snd y) = 0"
      then have "cmp r b \<le> 0" "cmp r b = cmp (snd y) b" 
        using Cons.prems cmp_eq_trans [of r "snd y" b] by (force simp: max_of_def)+
      with that show False by simp
    qed
    then have "collectBest cmp (Some b, map fst (filter (\<lambda>e. cmp (snd e) b = 0) xs)) y =
        (Some ?b, map fst (filter (\<lambda>e. cmp (snd e) ?b = 0) (xs @ [y])))"
      by (simp add: collectBest_def Let_def)
    with Cons.IH [of ?b "xs @ [y]"] max_of_insert [OF Cons.prems, of "snd y"] show ?case by simp
  qed auto
  note run = this
  obtain e ys where es: "es = e # ys" using assms by (cases es) auto
  have "max_of cmp (snd e) (snd ` set [e])" by (simp add: max_of_def)
  from run [OF this, of ys] that show ?thesis by (auto simp: es collectBest_def)
qed

end

subsection \<open>Comparing hand ranks\<close>

lemma compareTies_append:
  "compareTies a b (xs @ ys) = (if compareTies a b xs = 0 then compareTies a b ys else compareTies a b xs)"
  by (induction xs) (auto simp: Let_def)

lemma compareTies_0: "compareTies a b xs = 0 \<longleftrightarrow> (\<forall>i \<in> set xs. aget 0 a i = aget 0 b i)"
  by (induction xs) (auto simp: Let_def)

lemma compareTies_swap: "compareTies b a xs = - compareTies a b xs"
  by (induction xs) (auto simp: Let_def)

lemma compareTies_range: "compareTies a b xs \<in> {- 1, 0, 1}"
  by (induction xs) (auto simp: Let_def)

lemma compareTies_trans: "compareTies a b xs \<le> 0 \<Longrightarrow> compareTies b c xs \<le> 0 \<Longrightarrow> compareTies a c xs \<le> 0"
  by (induction xs) (auto simp: Let_def split: if_splits)

lemma compareTies_pad:
  assumes "max (length a) (length b) \<le> n"
  shows "compareTies a b [0..<n] = compareTies a b [0..<max (length a) (length b)]"
proof -
  let ?m = "max (length a) (length b)"
  have "[0..<n] = [0..<?m] @ [?m..<n]" using assms upt_add_eq_append [of 0 ?m "n - ?m"] by simp
  moreover have "compareTies a b [?m..<n] = 0" by (auto simp: compareTies_0 aget_def)
  ultimately show ?thesis by (simp add: compareTies_append)
qed

interpretation hand_order: comparator compareHandRank
proof
  fix a b c :: HandRank
  show "compareHandRank a b \<in> {- 1, 0, 1}"
    using compareTies_range by (auto simp: compareHandRank_def)
  show "compareHandRank b a = - compareHandRank a b"
    by (auto simp: compareHandRank_def max.commute compareTies_swap [of "tiebreakers b" "tiebreakers a"])
  assume le: "compareHandRank a b \<le> 0" "compareHandRank b c \<le> 0"
  show "compareHandRank a c \<le> 0"
  proof (cases "category a = category b \<and> category b = category c")
    case True
    let ?n = "length (tiebreakers a) + length (tiebreakers b) + length (tiebreakers c)"
    have "compareTies (tiebreakers a) (tiebreakers b) [0..<?n] \<le> 0" "compareTies (tiebreakers b) (tiebreakers c) [0..<?n] \<le> 0"
      using le True by (simp_all add: compareHandRank_def compareTies_pad [where n = ?n])
    from compareTies_trans [OF this] True show ?thesis by (simp add: compareHandRank_def compareTies_pad [where n = ?n])
  next
    case False
    have "category a \<le> category b" "category b \<le> category c"
      using le by (auto simp: compareHandRank_def split: if_splits)
    with False have "category a < category c" by auto
    then show ?thesis by (simp add: compareHandRank_def)
  qed
qed

lemma compareHandRank_0:
  "compareHandRank a b = 0 \<longleftrightarrow>
     category a = category b \<and> (\<forall>i. aget 0 (tiebreakers a) i = aget 0 (tiebreakers b) i)"
  by (auto simp: compareHandRank_def compareTies_0 less_max_iff_disj aget_def)

text \<open>
  Comparing hand ranks is a total order up to ties: it is antisymmetric and transitive, it
  ranks categories first, and two ranks tie exactly when they have the same category and the
  same tiebreakers (missing ones counting as 0).
\<close>

theorem compareHandRank_order:
  "compareHandRank b a = - compareHandRank a b
   \<and> (compareHandRank a b \<le> 0 \<and> compareHandRank b c \<le> 0 \<longrightarrow> compareHandRank a c \<le> 0)
   \<and> (category a < category b \<longrightarrow> compareHandRank a b = - 1)
   \<and> (compareHandRank a b = 0 \<longleftrightarrow>
        category a = category b \<and> (\<forall>i. aget 0 (tiebreakers a) i = aget 0 (tiebreakers b) i))"
proof (intro conjI impI)
  assume "category a < category b"
  then show "compareHandRank a b = - 1" by (simp add: compareHandRank_def)
qed (use hand_order.cmp_trans [of a b c] in \<open>simp_all only: hand_order.cmp_swap [of b a] compareHandRank_0\<close>)

theorem compareHandRank_order_witness:
  "compareHandRank \<lparr>category = Flush, tiebreakers = [9, 8, 7, 5, 2]\<rparr> \<lparr>category = Quads, tiebreakers = [2, 3]\<rparr> = - 1"
  using compareHandRank_order [of "\<lparr>category = Quads, tiebreakers = [2, 3]\<rparr>" "\<lparr>category = Flush, tiebreakers = [9, 8, 7, 5, 2]\<rparr>"]
  by (simp add: less_HandCategory_def)

end
