(* ===== verification/Hand_Eval.thy ===== *)
theory Hand_Eval
  imports Cards Hand_Rank "HOL-Library.AList" "HOL-Library.Product_Lexorder" "HOL-Library.Sublist"
begin

text \<open>
  Hand evaluation, \<^verbatim>\<open>packages/holdem-eval/src/evaluate.ts\<close>: five-card hands, the best five of
  seven, and the winning seats of a showdown. A JavaScript \<^verbatim>\<open>Map\<close> is the association list of
  its entries in insertion order; \<^verbatim>\<open>Array.prototype.sort\<close> is stable, so it is \<open>sort_key\<close> for
  the key its comparison function orders by.
\<close>

subsection \<open>The operations\<close>

fun assertDistinctFrom :: "int list \<Rightarrow> int list \<Rightarrow> JsError + unit" where
  "assertDistinctFrom seen [] = Inr ()"
| "assertDistinctFrom seen (c # cs) =
     rbind (assertValidCardId c) (\<lambda>_.
       if c \<in> set seen then Inl RangeError else assertDistinctFrom (c # seen) cs)"

definition assertDistinct :: "int list \<Rightarrow> JsError + unit" where
  "assertDistinct cs = assertDistinctFrom [] cs"

definition straightHighFromRanksDesc :: "int list \<Rightarrow> int option" where
  "straightHighFromRanksDesc u =
     (if length u \<noteq> 5 then None
      else let hasAce = (u ! 0 = 14);
               wheel = (hasAce \<and> u ! 1 = 5 \<and> u ! 2 = 4 \<and> u ! 3 = 3 \<and> u ! 4 = 2)
           in if wheel then Some 5
              else if list_all (\<lambda>i. u ! (i - 1) - 1 = u ! i) [1..<length u] then Some (u ! 0)
              else None)"

definition sortDesc :: "int list \<Rightarrow> int list" where
  "sortDesc = sort_key uminus"

definition ranksDesc :: "int list \<Rightarrow> JsError + int list" where
  "ranksDesc cs = rbind (rmap cardRank cs) (\<lambda>ranks. Inr (sortDesc ranks))"

definition countRanks :: "int list \<Rightarrow> (int \<times> int) list" where
  "countRanks ranks =
     foldl (\<lambda>counts r. AList.update r ((case map_of counts r of None \<Rightarrow> 0 | Some n \<Rightarrow> n) + 1) counts) [] ranks"

definition sortGroups :: "(int \<times> int) list \<Rightarrow> (int \<times> int) list" where
  "sortGroups = sort_key (\<lambda>g. (- snd g, - fst g))"

text \<open>The decision sequence of \<^verbatim>\<open>evaluate5\<close>; a group is a pair of rank and count.\<close>

definition classify :: "bool \<Rightarrow> int option \<Rightarrow> int list \<Rightarrow> (int \<times> int) list \<Rightarrow> JsError + HandRank" where
  "classify isFlush straightHigh ranks groups =
     (let g0 = aget (0, 0) groups 0; g1 = aget (0, 0) groups 1;
          isStraight = (straightHigh \<noteq> None);
          single = find (\<lambda>g. snd g = 1) groups;
          kickers = sortDesc (map fst (filter (\<lambda>g. snd g = 1) groups))
      in if isStraight \<and> isFlush then Inr \<lparr>category = StraightFlush, tiebreakers = [the straightHigh]\<rparr>
         else if snd g0 = 4 then
           (case single of None \<Rightarrow> Inl TypeError
            | Some k \<Rightarrow> Inr \<lparr>category = Quads, tiebreakers = [fst g0, fst k]\<rparr>)
         else if snd g0 = 3 \<and> snd g1 = 2 then Inr \<lparr>category = FullHouse, tiebreakers = [fst g0, fst g1]\<rparr>
         else if isFlush then Inr \<lparr>category = Flush, tiebreakers = ranks\<rparr>
         else if isStraight then Inr \<lparr>category = Straight, tiebreakers = [the straightHigh]\<rparr>
         else if snd g0 = 3 then Inr \<lparr>category = Trips, tiebreakers = fst g0 # kickers\<rparr>
         else if snd g0 = 2 \<and> snd g1 = 2 then
           (let pairRanks = sortDesc [fst g0, fst g1]
            in case single of None \<Rightarrow> Inl TypeError
               | Some k \<Rightarrow> Inr \<lparr>category = TwoPair, tiebreakers = [pairRanks ! 0, pairRanks ! 1, fst k]\<rparr>)
         else if snd g0 = 2 then Inr \<lparr>category = OnePair, tiebreakers = fst g0 # kickers\<rparr>
         else Inr \<lparr>category = HighCard, tiebreakers = ranks\<rparr>)"

definition evaluate5 :: "int list \<Rightarrow> JsError + HandRank" where
  "evaluate5 cards5 =
     (if length cards5 \<noteq> 5 then Inl RangeError
      else rbind (assertDistinct cards5) (\<lambda>_.
        rbind (rmap cardSuit cards5) (\<lambda>suits.
        rbind (ranksDesc cards5) (\<lambda>ranks.
          let isFlush = list_all (\<lambda>s. s = suits ! 0) suits;
              counts = countRanks ranks;
              uniqueRanksDesc = sortDesc (map fst counts);
              isStraight = (length uniqueRanksDesc = 5 \<and> straightHighFromRanksDesc uniqueRanksDesc \<noteq> None);
              straightHigh = (if isStraight then straightHighFromRanksDesc uniqueRanksDesc else None)
          in classify isFlush straightHigh ranks (sortGroups counts)))))"

definition COMBOS_7_CHOOSE_5 :: "nat list list" where
  "COMBOS_7_CHOOSE_5 =
     [[0, 1, 2, 3, 4], [0, 1, 2, 3, 5], [0, 1, 2, 3, 6], [0, 1, 2, 4, 5], [0, 1, 2, 4, 6],
      [0, 1, 2, 5, 6], [0, 1, 3, 4, 5], [0, 1, 3, 4, 6], [0, 1, 3, 5, 6], [0, 1, 4, 5, 6],
      [0, 2, 3, 4, 5], [0, 2, 3, 4, 6], [0, 2, 3, 5, 6], [0, 2, 4, 5, 6], [0, 3, 4, 5, 6],
      [1, 2, 3, 4, 5], [1, 2, 3, 4, 6], [1, 2, 3, 5, 6], [1, 2, 4, 5, 6], [1, 3, 4, 5, 6],
      [2, 3, 4, 5, 6]]"

definition evaluate7 :: "int list \<Rightarrow> JsError + HandRank" where
  "evaluate7 cards7 =
     (if length cards7 \<noteq> 7 then Inl RangeError
      else rbind (assertDistinct cards7) (\<lambda>_.
        rbind (foldl (\<lambda>acc combo. rbind acc (\<lambda>best.
                 rbind (evaluate5 (map ((!) cards7) combo)) (\<lambda>rank. Inr (keepBest compareHandRank best rank))))
               (Inr None) COMBOS_7_CHOOSE_5)
          (\<lambda>best. Inr (the best))))"

text \<open>\<^verbatim>\<open>holeCardsBySeat\<close> is the list of its entries, the key already converted by \<^verbatim>\<open>Number\<close>.\<close>

definition winners :: "int list \<Rightarrow> (js_number \<times> int list) list \<Rightarrow> JsError + js_number list" where
  "winners board5 holeCardsBySeat =
     (if length board5 \<noteq> 5 then Inl RangeError
      else rbind (assertDistinct board5) (\<lambda>_.
        rbind (foldl (\<lambda>acc (seat, hole). rbind acc (\<lambda>bests.
                 if length hole \<noteq> 2 then Inl TypeError
                 else rbind (assertDistinct (board5 @ [hole ! 0, hole ! 1])) (\<lambda>_.
                   rbind (evaluate7 (board5 @ [hole ! 0, hole ! 1])) (\<lambda>rank.
                     Inr (collectBest compareHandRank bests (seat, rank))))))
               (Inr (None, [])) (filter (\<lambda>e. isInteger (fst e)) holeCardsBySeat))
          (\<lambda>bests. Inr (sort (snd bests)))))"

subsection \<open>What a five-card hand is worth\<close>

text \<open>The rules of poker, stated on the ranks and suits of the cards.\<close>

definition rankOf :: "int \<Rightarrow> int" where "rankOf c = c mod 13 + 2"

definition suitOf :: "int \<Rightarrow> int" where "suitOf c = c div 13"

definition multiplicity :: "int list \<Rightarrow> int \<Rightarrow> int" where
  "multiplicity cs r = int (length (filter (\<lambda>c. rankOf c = r) cs))"

definition ranksWith :: "int \<Rightarrow> int list \<Rightarrow> int list" where
  "ranksWith n cs = filter (\<lambda>r. multiplicity cs r = n) [2..14]"

definition flushHand :: "int list \<Rightarrow> bool" where
  "flushHand cs \<longleftrightarrow> list_all (\<lambda>c. list_all (\<lambda>d. suitOf c = suitOf d) cs) cs"

definition straightRanks :: "int \<Rightarrow> int set" where
  "straightRanks h = (if h = 5 then {14, 2, 3, 4, 5} else {h - 4..h})"

definition straightTop :: "int list \<Rightarrow> int option" where
  "straightTop cs = find (\<lambda>h. rankOf ` set cs = straightRanks h) [5..14]"

definition ranksByCount :: "int list \<Rightarrow> int list" where
  "ranksByCount cs =
     sort_key (\<lambda>r. (- multiplicity cs r, - r)) (filter (\<lambda>r. 0 < multiplicity cs r) [2..14])"

definition handCategory :: "int list \<Rightarrow> HandCategory" where
  "handCategory cs =
     (if straightTop cs \<noteq> None \<and> flushHand cs then StraightFlush
      else if length (ranksWith 4 cs) = 1 then Quads
      else if length (ranksWith 3 cs) = 1 \<and> length (ranksWith 2 cs) = 1 then FullHouse
      else if flushHand cs then Flush
      else if straightTop cs \<noteq> None then Straight
      else if length (ranksWith 3 cs) = 1 then Trips
      else if length (ranksWith 2 cs) = 2 then TwoPair
      else if length (ranksWith 2 cs) = 1 then OnePair
      else HighCard)"

definition handValue :: "int list \<Rightarrow> HandRank" where
  "handValue cs =
     \<lparr>category = handCategory cs,
      tiebreakers = (case straightTop cs of Some h \<Rightarrow> [h] | None \<Rightarrow> ranksByCount cs)\<rparr>"

end
