(* ===== verification/Hand_Eval_Correct.thy ===== *)
theory Hand_Eval_Correct
  imports Hand_Eval
begin

text \<open>
  The hand evaluation of \<^verbatim>\<open>packages/holdem-eval/src/evaluate.ts\<close> is the ranking of poker hands:
  five cards get the category and tiebreakers of the declarative \<open>handValue\<close>, seven cards the
  value of their best five, and a showdown is won by exactly the seats that nobody beats. The
  maximum loops are covered by the contract of comparisons of theory \<open>Hand_Rank\<close>.
\<close>

subsection \<open>The steps of \<^verbatim>\<open>evaluate5\<close>\<close>

abbreviation valid_cards :: "int list \<Rightarrow> bool" where
  "valid_cards cs \<equiv> list_all valid_card cs"

lemma assertDistinctFrom_Inr:
  "assertDistinctFrom seen cs = Inr () \<longleftrightarrow> valid_cards cs \<and> distinct cs \<and> set cs \<inter> set seen = {}"
  by (induction cs arbitrary: seen) (auto simp: rbind_Inr_iff assertValidCardId_def)

lemma assertDistinctFrom_Inl: "assertDistinctFrom seen cs = Inl e \<Longrightarrow> e = RangeError"
  by (induction cs arbitrary: seen) (auto simp: rbind_def assertValidCardId_def split: sum.splits if_splits)

lemma assertDistinct_Inr [simp]: "assertDistinct cs = Inr u \<longleftrightarrow> valid_cards cs \<and> distinct cs"
  using assertDistinctFrom_Inr [of "[]" cs] by (simp add: assertDistinct_def)

lemma assertDistinct_ok [simp]: "valid_cards cs \<Longrightarrow> distinct cs \<Longrightarrow> assertDistinct cs = Inr ()"
  by simp

lemma rmap_card_parts [simp]:
  assumes "valid_cards cs"
  shows "rmap cardSuit cs = Inr (map suitOf cs)" and "rmap cardRank cs = Inr (map rankOf cs)"
  using assms by (auto intro!: rmap_Inr_map simp: list_all_iff suitOf_def rankOf_def)

lemma rankOf_range: "2 \<le> rankOf c" "rankOf c \<le> 14"
  by (auto simp: rankOf_def)

lemma countRanks_snoc:
  "countRanks (xs @ [x]) = AList.update x ((case map_of (countRanks xs) x of None \<Rightarrow> 0 | Some n \<Rightarrow> n) + 1) (countRanks xs)"
  by (simp add: countRanks_def)

lemma countRanks_props:
  "distinct (map fst (countRanks xs)) \<and> map_of (countRanks xs) r = (if r \<in> set xs then Some (int (count_list xs r)) else None)"
proof (induction xs arbitrary: r rule: rev_induct)
  case Nil
  then show ?case by (simp add: countRanks_def)
next
  case (snoc x xs)
  then show ?case
    by (auto simp: countRanks_snoc distinct_update update_conv' count_list_0_iff)
qed

lemma set_countRanks: "set (countRanks xs) = (\<lambda>r. (r, int (count_list xs r))) ` set xs"
proof -
  have d: "distinct (map fst (countRanks xs))" using countRanks_props by blast
  have "(r, n) \<in> set (countRanks xs) \<longleftrightarrow> r \<in> set xs \<and> n = int (count_list xs r)" for r n
    using countRanks_props [of xs r] map_of_eq_Some_iff [OF d, of r n] by (auto split: if_splits)
  then show ?thesis by auto
qed

lemma multiplicity_count: "multiplicity cs r = int (count_list (map rankOf cs) r)"
  by (induction cs) (auto simp: multiplicity_def)

lemma count_list_perm: "mset xs = mset ys \<Longrightarrow> count_list xs r = count_list ys r"
  by (metis count_mset)

lemma multiplicity_pos: "0 < multiplicity cs r \<longleftrightarrow> r \<in> rankOf ` set cs"
  by (auto simp: multiplicity_def filter_empty_conv)

lemma set_ranksByCount: "set (ranksByCount cs) = rankOf ` set cs"
  unfolding ranksByCount_def set_sort set_filter using rankOf_range multiplicity_pos [of cs]
  by (auto simp del: upto_rec_numeral)

text \<open>The groups are the ranks of the hand with their multiplicities, most frequent and highest first.\<close>

lemma sortGroups_countRanks:
  "sortGroups (countRanks (sortDesc (map rankOf cs))) = map (\<lambda>r. (r, multiplicity cs r)) (ranksByCount cs)"
  (is "sortGroups ?c = ?g")
proof -
  let ?key = "\<lambda>g :: int \<times> int. (- snd g, - fst g)"
  have m: "count_list (sortDesc (map rankOf cs)) = (\<lambda>r. nat (multiplicity cs r))"
    by (rule ext) (simp add: multiplicity_count sortDesc_def count_list_perm [of "sort_key uminus (map rankOf cs)" "map rankOf cs"])
  have pos: "0 \<le> multiplicity cs r" for r by (simp add: multiplicity_def)
  have "set ?c = set ?g"
    unfolding set_countRanks m set_map set_ranksByCount using pos by (simp add: sortDesc_def)
  moreover have "distinct ?c" using countRanks_props [of "sortDesc (map rankOf cs)"] by (simp add: distinct_map)
  moreover have dr: "distinct (ranksByCount cs)" by (simp add: ranksByCount_def del: upto_rec_numeral)
  then have "distinct ?g" by (simp add: distinct_map inj_on_def)
  ultimately have "mset ?c = mset ?g" using set_eq_iff_mset_eq_distinct by blast
  moreover have "sorted (map ?key ?g)"
    unfolding map_map comp_def fst_conv snd_conv by (simp add: ranksByCount_def del: upto_rec_numeral)
  moreover have "inj_on ?key (set ?c)" by (auto simp: inj_on_def)
  ultimately show ?thesis unfolding sortGroups_def by (intro sort_key_inj_key_eq)
qed


lemma distinct_ranksByCount: "distinct (ranksByCount cs)"
  by (simp add: ranksByCount_def del: upto_rec_numeral)

lemma length_ranksWith:
  assumes "0 < n"
  shows "length (ranksWith n cs) = length (filter (\<lambda>r. multiplicity cs r = n) (ranksByCount cs))"
proof -
  have "set (ranksWith n cs) = set (filter (\<lambda>r. multiplicity cs r = n) (ranksByCount cs))"
    unfolding ranksWith_def ranksByCount_def set_filter set_sort using assms by (auto simp del: upto_rec_numeral)
  moreover have "distinct (ranksWith n cs)" "distinct (filter (\<lambda>r. multiplicity cs r = n) (ranksByCount cs))"
    using distinct_ranksByCount by (auto simp: ranksWith_def simp del: upto_rec_numeral)
  ultimately show ?thesis by (metis distinct_card)
qed

lemma multiplicity_le_4:
  assumes "valid_cards cs" and "distinct cs"
  shows "multiplicity cs r \<le> 4"
proof -
  have "set (filter (\<lambda>c. rankOf c = r) cs) \<subseteq> {r - 2, r + 11, r + 24, r + 37}"
  proof
    fix c assume "c \<in> set (filter (\<lambda>c. rankOf c = r) cs)"
    then have "0 \<le> c" "c \<le> 51" "c mod 13 + 2 = r" using assms(1) by (auto simp: list_all_iff rankOf_def)
    then show "c \<in> {r - 2, r + 11, r + 24, r + 37}" by auto presburger
  qed
  from card_mono [OF _ this] have "card (set (filter (\<lambda>c. rankOf c = r) cs)) \<le> 4"
    using card_length [of "[r - 2, r + 11, r + 24, r + 37]"] by simp
  then show ?thesis
    unfolding multiplicity_def distinct_card [OF distinct_filter [OF assms(2)]] by simp
qed

lemma multiplicity_sum: "sum_list (map (multiplicity cs) (ranksByCount cs)) = int (length cs)"
proof -
  have "sum_list (map (multiplicity cs) (ranksByCount cs)) = (\<Sum>r \<in> rankOf ` set cs. multiplicity cs r)"
    using sum_list_distinct_conv_sum_set [OF distinct_ranksByCount] by (simp add: set_ranksByCount)
  also have "\<dots> = int (sum (count_list (map rankOf cs)) (set (map rankOf cs)))"
    by (simp add: multiplicity_count)
  also have "\<dots> = int (length cs)" using sum_count_set [of "map rankOf cs"] by simp
  finally show ?thesis .
qed

lemma sorted_counts: "sorted (map (\<lambda>r. - multiplicity cs r) (ranksByCount cs))"
proof -
  have "sorted (map (\<lambda>r. (- multiplicity cs r, - r)) (ranksByCount cs))"
    by (simp add: ranksByCount_def del: upto_rec_numeral)
  then show ?thesis by (auto simp: sorted_wrt_map elim!: sorted_wrt_mono_rel [rotated])
qed

lemma count_patterns:
  fixes ns :: "int list"
  assumes "sorted (map uminus ns)" and "\<forall>n \<in> set ns. 1 \<le> n \<and> n \<le> 4" and "sum_list ns = 5"
  shows "ns \<in> {[4, 1], [3, 2], [3, 1, 1], [2, 2, 1], [2, 1, 1, 1], [1, 1, 1, 1, 1]}"
proof -
  have "int (length ns) \<le> sum_list ns" using assms(2) by (induction ns) auto
  with assms(3) have "length ns = 0 \<or> length ns = 1 \<or> length ns = 2 \<or> length ns = 3 \<or> length ns = 4 \<or> length ns = 5"
    by linarith
  then consider "ns = []" | a where "ns = [a]" | a b where "ns = [a, b]" | a b c where "ns = [a, b, c]"
    | a b c d where "ns = [a, b, c, d]" | a b c d e where "ns = [a, b, c, d, e]"
    by (auto simp: length_Suc_conv numeral_eq_Suc)
  then show ?thesis
  proof cases
    case (3 a b)
    with assms have "b \<le> a" "a \<le> 4" "1 \<le> b" "a + b = 5" by auto
    then have "b = 1 \<or> b = 2" by linarith
    with \<open>a + b = 5\<close> 3 show ?thesis by auto
  next
    case (4 a b c)
    with assms have "b \<le> a" "c \<le> b" "1 \<le> c" "a + b + c = 5" by auto
    then have "c = 1" "b = 1 \<or> b = 2" by linarith+
    with \<open>a + b + c = 5\<close> 4 show ?thesis by auto
  next
    case (5 a b c d)
    with assms have "b \<le> a" "c \<le> b" "d \<le> c" "1 \<le> d" "a + b + c + d = 5" by auto
    then have "d = 1" "c = 1" "b = 1" "a = 2" by linarith+
    with 5 show ?thesis by simp
  next
    case (6 a b c d e)
    with assms have "1 \<le> a" "1 \<le> b" "1 \<le> c" "1 \<le> d" "1 \<le> e" "a + b + c + d + e = 5" by auto
    then have "a = 1" "b = 1" "c = 1" "d = 1" "e = 1" by linarith+
    with 6 show ?thesis by simp
  qed (use assms in auto)
qed

text \<open>A sorted hand is a straight exactly when its ranks are those of a straight.\<close>

lemma strict_desc_unique:
  fixes xs ys :: "int list"
  assumes "sorted_wrt (>) xs" and "sorted_wrt (>) ys" and "set xs = set ys"
  shows "xs = ys"
proof -
  have "sorted_wrt (<) (rev xs)" "sorted_wrt (<) (rev ys)" using assms by (simp_all add: sorted_wrt_rev)
  then have "rev xs = rev ys"
    using assms(3) by (intro sorted_distinct_set_unique) (auto simp: strict_sorted_iff)
  then show ?thesis by simp
qed

lemma straightRanks_list:
  assumes "sorted_wrt (>) u" and "h \<in> {5..14}"
  shows "set u = straightRanks h \<longleftrightarrow> u = (if h = 5 then [14, 5, 4, 3, 2] else [h, h - 1, h - 2, h - 3, h - 4])"
proof -
  let ?l = "if h = 5 then [14, 5, 4, 3, 2] else [h, h - 1, h - 2, h - 3, h - 4]"
  have "{h - 4..h} = {h, h - 1, h - 2, h - 3, h - 4}" by auto
  then have "straightRanks h = set ?l" by (auto simp: straightRanks_def)
  moreover have "sorted_wrt (>) ?l" by simp
  note strict_desc_unique [OF assms(1) this]
  ultimately show ?thesis by argo
qed

lemma straightHigh_five:
  "straightHighFromRanksDesc [a, b, c, d, e] =
     (if [a, b, c, d, e] = [14, 5, 4, 3, 2] then Some 5
      else if [a, b, c, d, e] = [a, a - 1, a - 2, a - 3, a - 4] then Some a else None)"
  by (auto simp: straightHighFromRanksDesc_def Let_def upt_rec)

lemma straightHigh_find:
  assumes "sorted_wrt (>) u" and "\<forall>r \<in> set u. 2 \<le> r \<and> r \<le> 14"
  shows "straightHighFromRanksDesc u = find (\<lambda>h. set u = straightRanks h) [5..14]"
proof -
  let ?Q = "\<lambda>h. u = (if h = 5 then [14, 5, 4, 3, 2] else [h, h - 1, h - 2, h - 3, h - 4])"
  have "find (\<lambda>h. set u = straightRanks h) [5..14] = find ?Q [5..14]"
    by (rule find_cong) (use straightRanks_list [OF assms(1)] in \<open>auto simp del: upto_rec_numeral\<close>)
  also have "\<dots> = straightHighFromRanksDesc u"
  proof (cases "length u = 5")
    case True
    then obtain a b c d e where u: "u = [a, b, c, d, e]" by (auto simp: length_Suc_conv numeral_eq_Suc)
    have r: "2 \<le> e" "a \<le> 14" using assms(2) u by auto
    consider "u = [14, 5, 4, 3, 2]" | "u \<noteq> [14, 5, 4, 3, 2]" "u = [a, a - 1, a - 2, a - 3, a - 4]"
      | "u \<noteq> [14, 5, 4, 3, 2]" "u \<noteq> [a, a - 1, a - 2, a - 3, a - 4]" by blast
    then show ?thesis
    proof cases
      case 1
      have "[5..14] = 5 # [6..14::int]" by (simp add: upto_rec1)
      with 1 show ?thesis by (simp add: straightHigh_five del: upto_rec_numeral)
    next
      case 2
      then have "find ?Q [5..14] = Some a"
        using r u by (intro find_unique) (auto simp del: upto_rec_numeral split: if_splits)
      with 2 u show ?thesis by (simp add: straightHigh_five del: upto_rec_numeral)
    next
      case 3
      then have "find ?Q [5..14] = None" using u by (auto simp: find_None_iff simp del: upto_rec_numeral)
      with 3 u show ?thesis by (simp add: straightHigh_five del: upto_rec_numeral)
    qed
  qed (auto simp: straightHighFromRanksDesc_def find_None_iff simp del: upto_rec_numeral)
  finally show ?thesis by simp
qed

lemma sortDesc_strict:
  assumes "distinct xs"
  shows "sorted_wrt (>) (sortDesc xs)"
proof -
  have "sorted_wrt (<) (map uminus (sortDesc xs))"
    using assms by (simp add: strict_sorted_iff sortDesc_def distinct_map)
  then show ?thesis by (simp add: sorted_wrt_map)
qed

lemma sortDesc_sorted: "sorted_wrt (>) xs \<Longrightarrow> sortDesc xs = xs"
  unfolding sortDesc_def
  by (rule sort_key_id_if_sorted) (auto simp: sorted_wrt_map elim!: sorted_wrt_mono_rel [rotated])

lemma uniqueRanks_straight:
  fixes cs
  defines "u \<equiv> sortDesc (map fst (countRanks (sortDesc (map rankOf cs))))"
  shows "(if length u = 5 \<and> straightHighFromRanksDesc u \<noteq> None then straightHighFromRanksDesc u else None) = straightTop cs"
proof -
  have s: "set u = rankOf ` set cs"
    unfolding u_def by (simp add: sortDesc_def set_countRanks image_image flip: set_map) (simp add: set_countRanks image_image)
  have "sorted_wrt (>) u" unfolding u_def by (rule sortDesc_strict) (use countRanks_props in blast)
  moreover have "\<forall>r \<in> set u. 2 \<le> r \<and> r \<le> 14" using s rankOf_range by auto
  ultimately have "straightHighFromRanksDesc u = straightTop cs"
    by (simp add: straightHigh_find straightTop_def s del: upto_rec_numeral)
  moreover have "length u \<noteq> 5 \<Longrightarrow> straightHighFromRanksDesc u = None" by (simp add: straightHighFromRanksDesc_def)
  ultimately show ?thesis by auto
qed

lemma flush_first:
  assumes "length cs = 5"
  shows "list_all (\<lambda>s. s = map suitOf cs ! 0) (map suitOf cs) = flushHand cs"
  using assms by (cases cs) (auto simp: flushHand_def list_all_iff)

lemma straightTop_distinct:
  assumes "straightTop cs = Some h"
  shows "length (ranksByCount cs) = 5"
proof -
  have "rankOf ` set cs = straightRanks h"
    using find_SomeD [OF assms [unfolded straightTop_def]] by blast
  moreover have "card (straightRanks h) = 5" by (auto simp: straightRanks_def)
  ultimately show ?thesis using distinct_card [OF distinct_ranksByCount, of cs] by (simp add: set_ranksByCount)
qed

lemma ranksByCount_pattern:
  assumes "valid_cards cs" and "distinct cs" and "length cs = 5"
  shows "map (multiplicity cs) (ranksByCount cs)
    \<in> {[4, 1], [3, 2], [3, 1, 1], [2, 2, 1], [2, 1, 1, 1], [1, 1, 1, 1, 1]}"
proof (rule count_patterns)
  show "sorted (map uminus (map (multiplicity cs) (ranksByCount cs)))" using sorted_counts by (simp add: comp_def)
  have "0 < multiplicity cs r" if "r \<in> set (ranksByCount cs)" for r
    using that by (simp add: set_ranksByCount multiplicity_pos)
  then show "\<forall>n \<in> set (map (multiplicity cs) (ranksByCount cs)). 1 \<le> n \<and> n \<le> 4"
    using multiplicity_le_4 [OF assms(1,2)] by force
  show "sum_list (map (multiplicity cs) (ranksByCount cs)) = 5" using assms(3) by (simp add: multiplicity_sum)
qed

lemma ranksByCount_desc:
  "sorted_wrt (\<lambda>r s. multiplicity cs s < multiplicity cs r \<or> multiplicity cs s = multiplicity cs r \<and> s < r) (ranksByCount cs)"
proof -
  have "sorted (map (\<lambda>r. (- multiplicity cs r, - r)) (ranksByCount cs))"
    by (simp add: ranksByCount_def del: upto_rec_numeral)
  moreover have "distinct (map (\<lambda>r. (- multiplicity cs r, - r)) (ranksByCount cs))"
    using distinct_ranksByCount by (auto simp: distinct_map inj_on_def)
  ultimately have "sorted_wrt (<) (map (\<lambda>r. (- multiplicity cs r, - r)) (ranksByCount cs))"
    by (simp add: strict_sorted_iff)
  then show ?thesis by (auto simp: sorted_wrt_map elim!: sorted_wrt_mono_rel [rotated])
qed

lemma ranks_all_single:
  assumes "length cs = 5" and "map (multiplicity cs) (ranksByCount cs) = [1, 1, 1, 1, 1]"
  shows "sortDesc (map rankOf cs) = ranksByCount cs"
proof (rule strict_desc_unique)
  have len: "length (ranksByCount cs) = 5" using arg_cong [OF assms(2), of length] by simp
  have "card (set (map rankOf cs)) = length (map rankOf cs)"
    using distinct_card [OF distinct_ranksByCount, of cs] len assms(1) by (simp add: set_ranksByCount)
  then show "sorted_wrt (>) (sortDesc (map rankOf cs))" using sortDesc_strict card_distinct by blast
  have "multiplicity cs r = 1" if "r \<in> set (ranksByCount cs)" for r
  proof -
    have "multiplicity cs r \<in> set (map (multiplicity cs) (ranksByCount cs))" using that by simp
    then show ?thesis unfolding assms(2) by simp
  qed
  then show "sorted_wrt (>) (ranksByCount cs)"
    by (intro sorted_wrt_mono_rel [OF _ ranksByCount_desc]) auto
qed (simp add: sortDesc_def set_ranksByCount)

lemma flush_single:
  assumes "distinct cs" and "flushHand cs"
  shows "multiplicity cs r \<le> 1"
proof -
  have "c = d" if "c \<in> set cs" "d \<in> set cs" "rankOf c = r" "rankOf d = r" for c d
  proof -
    have "suitOf c = suitOf d" using that(1,2) assms(2) unfolding flushHand_def list_all_iff by blast
    then have "c div 13 = d div 13" "c mod 13 = d mod 13" using that(3,4) by (auto simp: suitOf_def rankOf_def)
    then show ?thesis by (metis div_mult_mod_eq)
  qed
  then have "card (set (filter (\<lambda>c. rankOf c = r) cs)) \<le> 1" by (simp add: card_le_Suc0_iff_eq)
  then show ?thesis
    unfolding multiplicity_def distinct_card [OF distinct_filter [OF assms(1)]] by simp
qed

lemma evaluate5_value:
  assumes "valid_cards cs" and "distinct cs" and "length cs = 5"
  shows "evaluate5 cs = Inr (handValue cs)"
proof -
  let ?rs = "ranksByCount cs" and ?g = "map (\<lambda>r. (r, multiplicity cs r)) (ranksByCount cs)"
  have e: "evaluate5 cs = classify (flushHand cs) (straightTop cs) (sortDesc (map rankOf cs)) ?g"
    by (simp only: evaluate5_def ranksDesc_def Let_def rmap_card_parts [OF assms(1)] assertDistinct_ok [OF assms(1,2)]
        rbind_simps flush_first [OF assms(3)] uniqueRanks_straight sortGroups_countRanks assms(3) simp_thms if_False)
  have st: "straightTop cs = None" if "length ?rs \<noteq> 5" using straightTop_distinct [of cs] that by (cases "straightTop cs") auto
  have fl: "\<not> flushHand cs" if "1 < multiplicity cs r" for r using flush_single [OF assms(2), of r] that by linarith
  note w = length_ranksWith [of _ cs] and desc = ranksByCount_desc [of cs]
  from ranksByCount_pattern [OF assms] consider "map (multiplicity cs) ?rs = [4, 1]"
    | "map (multiplicity cs) ?rs = [3, 2]" | "map (multiplicity cs) ?rs = [3, 1, 1]"
    | "map (multiplicity cs) ?rs = [2, 2, 1]" | "map (multiplicity cs) ?rs = [2, 1, 1, 1]"
    | "map (multiplicity cs) ?rs = [1, 1, 1, 1, 1]" by auto
  then show ?thesis
  proof cases
    case 1
    then obtain a b where "?rs = [a, b]" "multiplicity cs a = 4" "multiplicity cs b = 1" by (auto simp: map_eq_Cons_conv)
    with st fl [of a] w desc show ?thesis by (simp add: e classify_def handValue_def handCategory_def)
  next
    case 2
    then obtain a b where "?rs = [a, b]" "multiplicity cs a = 3" "multiplicity cs b = 2" by (auto simp: map_eq_Cons_conv)
    with st fl [of a] w desc show ?thesis by (simp add: e classify_def handValue_def handCategory_def)
  next
    case 3
    then obtain a b c where "?rs = [a, b, c]" "multiplicity cs a = 3" "multiplicity cs b = 1" "multiplicity cs c = 1"
      by (auto simp: map_eq_Cons_conv)
    with st fl [of a] w desc show ?thesis by (simp add: e classify_def handValue_def handCategory_def sortDesc_sorted)
  next
    case 4
    then obtain a b c where "?rs = [a, b, c]" "multiplicity cs a = 2" "multiplicity cs b = 2" "multiplicity cs c = 1"
      by (auto simp: map_eq_Cons_conv)
    with st fl [of a] w desc show ?thesis by (simp add: e classify_def handValue_def handCategory_def sortDesc_sorted)
  next
    case 5
    then obtain a b c d where "?rs = [a, b, c, d]" "multiplicity cs a = 2" "multiplicity cs b = 1" "multiplicity cs c = 1" "multiplicity cs d = 1"
      by (auto simp: map_eq_Cons_conv)
    with st fl [of a] w desc show ?thesis by (simp add: e classify_def handValue_def handCategory_def sortDesc_sorted)
  next
    case 6
    note r = ranks_all_single [OF assms(3) 6]
    from 6 obtain a b c d x where "?rs = [a, b, c, d, x]" "multiplicity cs a = 1" "multiplicity cs b = 1" "multiplicity cs c = 1"
      "multiplicity cs d = 1" "multiplicity cs x = 1" by (auto simp: map_eq_Cons_conv)
    with w r show ?thesis by (cases "straightTop cs") (simp_all add: e classify_def handValue_def handCategory_def)
  qed
qed

lemma evaluate5_Inl:
  assumes "\<not> (valid_cards cs \<and> distinct cs \<and> length cs = 5)"
  shows "evaluate5 cs = Inl RangeError"
proof (cases "length cs = 5")
  case True
  then have "assertDistinct cs \<noteq> Inr ()" using assms by simp
  then have "assertDistinct cs = Inl RangeError"
    using assertDistinctFrom_Inl [of "[]" cs] by (cases "assertDistinct cs") (auto simp: assertDistinct_def)
  with True show ?thesis by (simp add: evaluate5_def)
qed (simp add: evaluate5_def)

text \<open>
  C15: five distinct cards are ranked by the rules of poker: the category and the tiebreakers
  are those of the declarative definition; every other input is a \<^verbatim>\<open>RangeError\<close>.
\<close>

theorem evaluate5_correct:
  "evaluate5 cs =
     (if length cs = 5 \<and> list_all valid_card cs \<and> distinct cs then Inr (handValue cs) else Inl RangeError)"
  using evaluate5_value [of cs] evaluate5_Inl [of cs] by (simp only: split: if_split) blast

lemma handValue_perm:
  assumes "mset cs = mset ds"
  shows "handValue cs = handValue ds"
proof -
  have m: "multiplicity cs = multiplicity ds"
    using assms by (auto simp: fun_eq_iff multiplicity_count intro: count_list_perm)
  have s: "set cs = set ds" using assms by (rule mset_eq_setD)
  have "flushHand cs = flushHand ds" "straightTop cs = straightTop ds" "ranksByCount cs = ranksByCount ds"
    "\<And>n. ranksWith n cs = ranksWith n ds"
    by (simp_all only: flushHand_def straightTop_def ranksByCount_def ranksWith_def list_all_iff m s)
  then show ?thesis by (simp only: handValue_def handCategory_def)
qed

subsection \<open>The best five of seven\<close>

lemma combos_complete: "list_all (\<lambda>I. length I = 5 \<longrightarrow> I \<in> set COMBOS_7_CHOOSE_5) (subseqs [0..<7])"
  by code_simp

lemma combos_wellformed: "list_all (\<lambda>I. length I = 5 \<and> distinct I \<and> list_all (\<lambda>i. i < 7) I) COMBOS_7_CHOOSE_5"
  by code_simp

lemma combo_of_subset:
  assumes "length cs = 7" and "distinct cs" and "distinct ds" and "length ds = 5" and "set ds \<subseteq> set cs"
  obtains I where "I \<in> set COMBOS_7_CHOOSE_5" and "mset (map ((!) cs) I) = mset ds"
proof -
  let ?I = "filter (\<lambda>i. cs ! i \<in> set ds) [0..<7]"
  have d: "distinct (map ((!) cs) ?I)"
    using assms(1,2) by (auto simp: distinct_map inj_on_def nth_eq_iff_index_eq simp del: upt_rec_numeral)
  have s: "set (map ((!) cs) ?I) = set ds"
    using assms(1,5) by (force simp: in_set_conv_nth subset_iff image_iff simp del: upt_rec_numeral)
  have "length ?I = 5" using distinct_card [OF d] distinct_card [OF assms(3)] assms(4) s by (simp del: upt_rec_numeral)
  moreover have "?I \<in> set (subseqs [0..<7])" unfolding set_subseqs_eq by (simp del: upt_rec_numeral)
  ultimately have "?I \<in> set COMBOS_7_CHOOSE_5" using combos_complete by (auto simp: list_all_iff simp del: upt_rec_numeral)
  moreover have "mset (map ((!) cs) ?I) = mset ds" using set_eq_iff_mset_eq_distinct [OF d assms(3)] s by blast
  ultimately show ?thesis using that by blast
qed

lemma combo_hand:
  assumes "length cs = 7" and "distinct cs" and "valid_cards cs" and "I \<in> set COMBOS_7_CHOOSE_5"
  shows "valid_cards (map ((!) cs) I)" and "distinct (map ((!) cs) I)" and "length (map ((!) cs) I) = 5"
    and "set (map ((!) cs) I) \<subseteq> set cs"
  using assms combos_wellformed
  by (auto simp: list_all_iff distinct_map inj_on_def nth_eq_iff_index_eq)

lemma foldl_rbind_pure:
  assumes "\<And>x. x \<in> set xs \<Longrightarrow> g x = Inr (f x)"
  shows "foldl (\<lambda>acc x. rbind acc (\<lambda>b. rbind (g x) (\<lambda>r. Inr (h b r)))) (Inr b) xs = Inr (foldl h b (map f xs))"
  using assms by (induction xs arbitrary: b) auto

lemma evaluate7_value:
  assumes "length cs = 7" and "valid_cards cs" and "distinct cs"
  obtains m where "evaluate7 cs = Inr m"
    and "max_of compareHandRank m (handValue ` {ds. distinct ds \<and> length ds = 5 \<and> set ds \<subseteq> set cs})"
proof -
  let ?hands = "map (\<lambda>I. map ((!) cs) I) COMBOS_7_CHOOSE_5"
  have "COMBOS_7_CHOOSE_5 \<noteq> []" by (simp add: COMBOS_7_CHOOSE_5_def)
  then obtain m where m: "foldl (keepBest compareHandRank) None (map handValue ?hands) = Some m"
    and mx: "max_of compareHandRank m (set (map handValue ?hands))"
    using hand_order.keepBest_max [of "map handValue ?hands"] by auto
  have "evaluate5 (map ((!) cs) I) = Inr (handValue (map ((!) cs) I))" if "I \<in> set COMBOS_7_CHOOSE_5" for I
    using combo_hand [OF assms(1,3,2) that] by (intro evaluate5_value)
  then have "evaluate7 cs = Inr m"
    using assms m by (simp add: evaluate7_def foldl_rbind_pure [where f = "\<lambda>I. handValue (map ((!) cs) I)"] comp_def)
  moreover have "set (map handValue ?hands) = handValue ` {ds. distinct ds \<and> length ds = 5 \<and> set ds \<subseteq> set cs}"
  proof (intro equalityI subsetI)
    fix v assume "v \<in> set (map handValue ?hands)"
    then obtain I where I: "I \<in> set COMBOS_7_CHOOSE_5" "v = handValue (map ((!) cs) I)" by auto
    then show "v \<in> handValue ` {ds. distinct ds \<and> length ds = 5 \<and> set ds \<subseteq> set cs}"
      using combo_hand [OF assms(1,3,2) I(1)] by blast
  next
    fix v assume "v \<in> handValue ` {ds. distinct ds \<and> length ds = 5 \<and> set ds \<subseteq> set cs}"
    then obtain ds where ds: "v = handValue ds" "distinct ds" "length ds = 5" "set ds \<subseteq> set cs" by blast
    then obtain I where I: "I \<in> set COMBOS_7_CHOOSE_5" "mset (map ((!) cs) I) = mset ds"
      using combo_of_subset [OF assms(1,3)] by metis
    from handValue_perm [OF I(2)] ds(1) have "v = handValue (map ((!) cs) I)" by simp
    with I(1) show "v \<in> set (map handValue ?hands)" by simp
  qed
  ultimately show ?thesis using that mx by simp
qed

text \<open>
  C16: of seven distinct cards the evaluation returns the value of one of the five-card hands
  that can be chosen from them, and no five-card hand chosen from them is worth more.
\<close>

theorem evaluate7_best_hand:
  assumes "length cs = 7" and "list_all valid_card cs" and "distinct cs"
  shows "\<exists>m best. evaluate7 cs = Inr m
    \<and> distinct best \<and> length best = 5 \<and> set best \<subseteq> set cs \<and> evaluate5 best = Inr m
    \<and> (\<forall>ds r. distinct ds \<and> length ds = 5 \<and> set ds \<subseteq> set cs \<and> evaluate5 ds = Inr r \<longrightarrow> compareHandRank r m \<le> 0)"
proof -
  have v: "evaluate5 ds = Inr (handValue ds)" if "distinct ds" "length ds = 5" "set ds \<subseteq> set cs" for ds
    using that assms(2) by (intro evaluate5_value) (auto simp: list_all_iff)
  from evaluate7_value [OF assms] obtain m where m: "evaluate7 cs = Inr m"
    and mx: "max_of compareHandRank m (handValue ` {ds. distinct ds \<and> length ds = 5 \<and> set ds \<subseteq> set cs})" .
  then obtain best where "m = handValue best" "distinct best" "length best = 5" "set best \<subseteq> set cs"
    by (auto simp: max_of_def)
  with m mx v show ?thesis
    by (intro exI [of _ m] exI [of _ best]) (auto simp: max_of_def)
qed

theorem evaluate7_best_hand_witness:
  "\<exists>m best. evaluate7 [0, 13, 26, 1, 2, 3, 4] = Inr m
    \<and> distinct best \<and> length best = 5 \<and> set best \<subseteq> set [0, 13, 26, 1, 2, 3, 4] \<and> evaluate5 best = Inr m
    \<and> (\<forall>ds r. distinct ds \<and> length ds = 5 \<and> set ds \<subseteq> set [0, 13, 26, 1, 2, 3, 4] \<and> evaluate5 ds = Inr r
         \<longrightarrow> compareHandRank r m \<le> 0)"
  by (rule evaluate7_best_hand) auto


subsection \<open>Showdown\<close>

definition seatValue :: "int list \<Rightarrow> int list \<Rightarrow> HandRank" where
  "seatValue board5 hole = projr (evaluate7 (board5 @ hole))"

lemma winners_fold:
  assumes "length board5 = 5" and "\<And>seat hole. (seat, hole) \<in> set es \<Longrightarrow>
    length hole = 2 \<and> valid_cards (board5 @ hole) \<and> distinct (board5 @ hole)"
  shows "foldl (\<lambda>acc (seat, hole). rbind acc (\<lambda>bests.
        if length hole \<noteq> 2 then Inl TypeError
        else rbind (assertDistinct (board5 @ [hole ! 0, hole ! 1])) (\<lambda>_.
          rbind (evaluate7 (board5 @ [hole ! 0, hole ! 1])) (\<lambda>rank.
            Inr (collectBest compareHandRank bests (seat, rank)))))) (Inr bests) es
    = Inr (foldl (collectBest compareHandRank) bests (map (\<lambda>e. (fst e, seatValue board5 (snd e))) es))"
  using assms(2)
proof (induction es arbitrary: bests)
  case (Cons e es)
  obtain seat hole where e: "e = (seat, hole)" by fastforce
  with Cons.prems have h: "length hole = 2" "valid_cards (board5 @ hole)" "distinct (board5 @ hole)" by auto
  then have l: "[hole ! 0, hole ! 1] = hole" by (auto simp: length_Suc_conv numeral_eq_Suc)
  obtain m where "evaluate7 (board5 @ hole) = Inr m"
    using evaluate7_value [of "board5 @ hole"] assms(1) h by auto
  then have "evaluate7 (board5 @ hole) = Inr (seatValue board5 hole)" by (simp add: seatValue_def)
  with h show ?case unfolding e
    by (simp add: l del: One_nat_def) (rule Cons.IH, use Cons.prems in auto)
qed simp

text \<open>
  C17: when the board and the hole cards of every seat are distinct cards, the winners are
  exactly the seats whose best hand is not beaten by any seat's, each listed once per entry
  and in ascending order.
\<close>

theorem winners_correct:
  assumes "length board5 = 5" and "list_all valid_card board5" and "distinct board5"
    and "\<And>seat hole. (seat, hole) \<in> set es \<Longrightarrow> isInteger seat \<Longrightarrow>
      length hole = 2 \<and> list_all valid_card (board5 @ hole) \<and> distinct (board5 @ hole)"
  shows "winners board5 es =
    Inr (sort (map fst (filter
      (\<lambda>(seat, hole). isInteger seat \<and>
         list_all (\<lambda>(t, hole'). isInteger t \<longrightarrow> compareHandRank (seatValue board5 hole') (seatValue board5 hole) \<le> 0) es)
      es)))"
proof -
  let ?es = "filter (\<lambda>e. isInteger (fst e)) es" and ?v = "\<lambda>e. (fst e, seatValue board5 (snd e))"
  let ?best = "\<lambda>(seat, hole). isInteger seat \<and>
    list_all (\<lambda>(t, hole'). isInteger t \<longrightarrow> compareHandRank (seatValue board5 hole') (seatValue board5 hole) \<le> 0) es"
  have w: "winners board5 es = Inr (sort (snd (foldl (collectBest compareHandRank) (None, []) (map ?v ?es))))"
  proof -
    have "length hole = 2 \<and> valid_cards (board5 @ hole) \<and> distinct (board5 @ hole)" if "(seat, hole) \<in> set ?es" for seat hole
      using assms(4) [of seat hole] that by simp
    note f = winners_fold [OF assms(1) this]
    show ?thesis unfolding winners_def by (simp only: f) (simp add: assms(1-3))
  qed
  show ?thesis
  proof (cases "?es = []")
    case True
    then have "filter ?best es = []" by (auto simp: filter_empty_conv)
    then show ?thesis using w True by simp
  next
    case False
    then obtain m where m: "foldl (collectBest compareHandRank) (None, []) (map ?v ?es) =
        (Some m, map fst (filter (\<lambda>e. compareHandRank (snd e) m = 0) (map ?v ?es)))"
      and mx: "max_of compareHandRank m (snd ` set (map ?v ?es))"
      using hand_order.collectBest_max [of "map ?v ?es"] by auto
    let ?val = "\<lambda>e. seatValue board5 (snd e)"
    have le: "compareHandRank (?val x) m \<le> 0" if "x \<in> set ?es" for x
      using mx that by (cases x) (auto simp: max_of_def)
    obtain y where y: "y \<in> set ?es" "m = ?val y" using mx by (auto simp: max_of_def)
    have tie: "compareHandRank (?val e) m = 0 \<longleftrightarrow> (\<forall>x \<in> set ?es. compareHandRank (?val x) (?val e) \<le> 0)"
      if "e \<in> set ?es" for e
    proof
      assume "compareHandRank (?val e) m = 0"
      then have "compareHandRank m (?val e) \<le> 0" using hand_order.cmp_swap [of "?val e" m] by simp
      then show "\<forall>x \<in> set ?es. compareHandRank (?val x) (?val e) \<le> 0" using hand_order.cmp_trans [OF le] by blast
    next
      assume "\<forall>x \<in> set ?es. compareHandRank (?val x) (?val e) \<le> 0"
      then have "compareHandRank m (?val e) \<le> 0" unfolding y(2) using y(1) by blast
      then show "compareHandRank (?val e) m = 0" using le [OF that] hand_order.cmp_swap [of "?val e" m] by simp
    qed
    have "map fst (filter (\<lambda>e. compareHandRank (snd e) m = 0) (map ?v ?es)) = map fst (filter (\<lambda>e. compareHandRank (seatValue board5 (snd e)) m = 0) ?es)"
      by (simp add: filter_map comp_def)
    also have "filter (\<lambda>e. compareHandRank (seatValue board5 (snd e)) m = 0) ?es = filter ?best es"
      unfolding filter_filter
    proof (rule filter_cong [OF refl])
      fix e assume e: "e \<in> set es"
      have "?best e \<longleftrightarrow> isInteger (fst e) \<and> (\<forall>x \<in> set ?es. compareHandRank (?val x) (?val e) \<le> 0)"
        by (cases e) (auto simp: list_all_iff)
      then show "(isInteger (fst e) \<and> compareHandRank (?val e) m = 0) = ?best e" using tie [of e] e by auto
    qed
    finally show ?thesis using w m by simp
  qed
qed

theorem winners_correct_witness:
  "winners [0, 14, 28, 42, 4] [(3, [51, 50]), (1 / 2, [])] = Inr [3]"
proof -
  define q :: js_number where "q = 1 / 2"
  let ?b = "[0, 14, 28, 42, 4]" and ?es = "[(3, [51, 50]), (q, [])] :: (js_number \<times> int list) list"
  have "isInteger (3 :: js_number)" "\<not> isInteger (1 / 2 :: js_number)" by code_simp+
  then have i: "isInteger (3 :: js_number)" "\<not> isInteger q" by (simp_all add: q_def)
  have "(seat, hole) \<in> set ?es \<Longrightarrow> isInteger seat \<Longrightarrow>
      length hole = 2 \<and> list_all valid_card (?b @ hole) \<and> distinct (?b @ hole)" for seat hole
    using i by auto
  then show ?thesis using winners_correct [of ?b ?es] i unfolding q_def [symmetric] by (simp add: hand_order.cmp_refl)
qed

end
