(* ===== verification/Crypto_Bytes.thy ===== *)
theory Crypto_Bytes
  imports OCP_Prelude "HOL-Library.Word" "HOL-Library.Signed_Division"
begin

unbundle bit_operations_syntax

text \<open>
  Bytes and scalars of \<^verbatim>\<open>packages/ocp-crypto/src/utils\<close> (\<^verbatim>\<open>bytes.ts\<close>, \<^verbatim>\<open>scalar.ts\<close>). A
  \<^verbatim>\<open>Uint8Array\<close> is a list of 8-bit words, a bigint an \<open>int\<close>; an \<^verbatim>\<open>Error\<close> is its message up to
  interpolated values. A codec of fixed width is the contract of the locale
  \<open>fixed_width_codec\<close>, which the scalar encoding meets.
\<close>

type_synonym byte = "8 word"
type_synonym 'a fallible = "string + 'a"

subsection \<open>Bytes\<close>

definition SCALAR_BYTES :: nat where "SCALAR_BYTES = 32"

definition GROUP_ELEMENT_BYTES :: nat where "GROUP_ELEMENT_BYTES = 32"

text \<open>The order of the Ristretto group, \<^verbatim>\<open>ed25519.CURVE.n\<close>.\<close>

definition CURVE_ORDER :: int where
  "CURVE_ORDER = 2 ^ 252 + 27742317777372353535851937790883648493"

definition u32le :: "js_number \<Rightarrow> byte list fallible" where
  "u32le x =
     (if \<not> isInteger x \<or> x < 0 \<or> 0xffffffff < x then Inl ''u32le: invalid value''
      else let n = \<lfloor>x\<rfloor>
           in Inr [word_of_int (n AND 255), word_of_int (drop_bit 8 n AND 255),
                   word_of_int (drop_bit 16 n AND 255), word_of_int (drop_bit 24 n AND 255)])"

text \<open>\<^verbatim>\<open>slice(a, b)\<close> of a byte array, and the decimal digits of a template literal.\<close>

definition slice :: "nat \<Rightarrow> nat \<Rightarrow> 'a list \<Rightarrow> 'a list" where
  "slice a b bs = take (b - a) (drop a bs)"

fun showNat :: "nat \<Rightarrow> string" where
  "showNat n = (if n < 10 then [char_of (48 + n)] else showNat (n div 10) @ [char_of (48 + n mod 10)])"

declare showNat.simps [simp del]

definition HEX_DIGITS :: string where "HEX_DIGITS = ''0123456789abcdef''"

text \<open>\<^verbatim>\<open>Number.prototype.toString(16)\<close> of a byte.\<close>

definition toString16 :: "nat \<Rightarrow> string" where
  "toString16 n = (if n < 16 then [HEX_DIGITS ! n] else [HEX_DIGITS ! (n div 16), HEX_DIGITS ! (n mod 16)])"

definition padStart2 :: "string \<Rightarrow> string" where
  "padStart2 s = replicate (2 - length s) CHR ''0'' @ s"

definition bytesToHex :: "byte list \<Rightarrow> string" where
  "bytesToHex bytes = foldl (\<lambda>hex b. hex @ padStart2 (toString16 (unat b))) [] bytes"

text \<open>
  \<^verbatim>\<open>Number.parseInt(s, 16)\<close>: leading white space, a sign and a \<open>0x\<close> prefix are skipped, then
  the longest run of hexadecimal digits counts; without a digit the result is NaN (\<open>None\<close>).
\<close>

definition hexValue :: "char \<Rightarrow> int option" where
  "hexValue c =
     (let n = int (of_char c) in
      if 48 \<le> n \<and> n \<le> 57 then Some (n - 48)
      else if 97 \<le> n \<and> n \<le> 102 then Some (n - 87)
      else if 65 \<le> n \<and> n \<le> 70 then Some (n - 55)
      else None)"

definition isWhitespace :: "char \<Rightarrow> bool" where
  "isWhitespace c = (let n = of_char c :: nat in 9 \<le> n \<and> n \<le> 13 \<or> n = 32 \<or> n = 160)"

definition parseInt16 :: "string \<Rightarrow> int option" where
  "parseInt16 s =
     (let s1 = dropWhile isWhitespace s;
          neg = (take 1 s1 = ''-'');
          s2 = (if take 1 s1 = ''-'' \<or> take 1 s1 = ''+'' then drop 1 s1 else s1);
          s3 = (if take 2 s2 = ''0x'' \<or> take 2 s2 = ''0X'' then drop 2 s2 else s2);
          digits = takeWhile (\<lambda>c. hexValue c \<noteq> None) s3
      in if digits = [] then None
         else let v = foldl (\<lambda>v c. v * 16 + the (hexValue c)) 0 digits
              in Some (if neg then - v else v))"

fun hexToBytesLoop :: "string \<Rightarrow> byte list fallible" where
  "hexToBytesLoop (a # b # h) =
     (case parseInt16 [a, b] of
        None \<Rightarrow> Inl ''hexToBytes: invalid hex''
      | Some v \<Rightarrow> rbind (hexToBytesLoop h) (\<lambda>out. Inr (word_of_int v # out)))"
| "hexToBytesLoop h = Inr []"

definition hexToBytes :: "string \<Rightarrow> byte list fallible" where
  "hexToBytes hex =
     (let h = (if take 2 hex = ''0x'' then drop 2 hex else hex)
      in if length h mod 2 \<noteq> 0 then Inl ''hexToBytes: invalid length'' else hexToBytesLoop h)"

text \<open>\<^verbatim>\<open>TextEncoder\<close> on characters up to \<^verbatim>\<open>U+00FF\<close>.\<close>

definition utf8Char :: "char \<Rightarrow> byte list" where
  "utf8Char c =
     (let n = of_char c :: nat
      in if n < 128 then [of_nat n] else [of_nat (192 + n div 64), of_nat (128 + n mod 64)])"

definition utf8 :: "string \<Rightarrow> byte list" where
  "utf8 s = concat (map utf8Char s)"

subsection \<open>Scalars\<close>

definition assertScalar :: "int \<Rightarrow> unit fallible" where
  "assertScalar s = guard_else (\<not> (s < 0 \<or> CURVE_ORDER \<le> s)) ''Scalar out of range''"

text \<open>The \<^verbatim>\<open>%\<close> of bigints takes the sign of the dividend.\<close>

definition scalarMod :: "int \<Rightarrow> int" where
  "scalarMod s = (let m = s smod CURVE_ORDER in if 0 \<le> m then m else m + CURVE_ORDER)"

definition scalarAdd :: "int \<Rightarrow> int \<Rightarrow> int" where "scalarAdd a b = scalarMod (a + b)"

definition scalarSub :: "int \<Rightarrow> int \<Rightarrow> int" where "scalarSub a b = scalarMod (a - b)"

definition scalarMul :: "int \<Rightarrow> int \<Rightarrow> int" where "scalarMul a b = scalarMod (a * b)"

definition scalarNeg :: "int \<Rightarrow> int" where
  "scalarNeg a = (if a = 0 then 0 else CURVE_ORDER - a)"

definition isScalarBytes :: "byte list \<Rightarrow> bool" where
  "isScalarBytes bytes \<longleftrightarrow> length bytes = SCALAR_BYTES"

definition bytesToBigintLE :: "byte list \<Rightarrow> int" where
  "bytesToBigintLE bytes = foldr (\<lambda>b x. push_bit 8 x + uint b) bytes 0"

fun bytesLELoop :: "int \<Rightarrow> nat \<Rightarrow> byte list \<times> int" where
  "bytesLELoop v 0 = ([], v)"
| "bytesLELoop v (Suc k) =
     (let (out, r) = bytesLELoop (drop_bit 8 v) k in (word_of_int (v AND 255) # out, r))"

definition bigintToBytesLE :: "int \<Rightarrow> nat \<Rightarrow> byte list fallible" where
  "bigintToBytesLE x len =
     (if x < 0 then Inl ''bigintToBytesLE: negative''
      else let (out, v) = bytesLELoop x len
           in if v \<noteq> 0 then Inl ''bigintToBytesLE: overflow'' else Inr out)"

definition scalarFromBytes :: "byte list \<Rightarrow> int fallible" where
  "scalarFromBytes bytes =
     (if \<not> isScalarBytes bytes then Inl ''scalarFromBytes: expected 32 bytes''
      else let x = bytesToBigintLE bytes
           in if CURVE_ORDER \<le> x then Inl ''scalarFromBytes: non-canonical (>= q)'' else Inr x)"

definition scalarFromBytesModOrder :: "byte list \<Rightarrow> int fallible" where
  "scalarFromBytesModOrder bytes =
     (if length bytes = 0 then Inl ''scalarFromBytesModOrder: expected bytes''
      else Inr (scalarMod (bytesToBigintLE bytes)))"

definition scalarToBytes :: "int \<Rightarrow> byte list fallible" where
  "scalarToBytes s = rbind (assertScalar s) (\<lambda>_. bigintToBytesLE s SCALAR_BYTES)"

subsection \<open>Arithmetic of scalars\<close>

lemma CURVE_ORDER_pos [simp]: "0 < CURVE_ORDER" "CURVE_ORDER \<noteq> 0" "1 < CURVE_ORDER" "0 \<le> CURVE_ORDER"
  by (simp_all add: CURVE_ORDER_def)

lemma CURVE_ORDER_bytes: "CURVE_ORDER < 256 ^ 32"
  by (simp add: CURVE_ORDER_def)

lemma scalarMod_eq: "scalarMod s = s mod CURVE_ORDER"
proof (cases "0 \<le> s")
  case True
  then have "s smod CURVE_ORDER = s mod CURVE_ORDER"
    by (simp add: signed_modulo_int_def signed_divide_int_def minus_div_mult_eq_mod sgn_if)
  then show ?thesis by (simp add: scalarMod_def Let_def)
next
  case False
  have "s smod CURVE_ORDER = - ((- s) mod CURVE_ORDER)"
    using False by (simp add: signed_modulo_int_def signed_divide_int_def sgn_if minus_mult_div_eq_mod [symmetric])
  then show ?thesis
    by (auto simp: scalarMod_def Let_def zmod_zminus1_eq_if) (use pos_mod_bound [OF CURVE_ORDER_pos(1), of s] in linarith)
qed

lemmas scalar_arith = scalarAdd_def scalarSub_def scalarMul_def scalarMod_eq

lemma scalar_range [simp]:
  "0 \<le> scalarMod s" "scalarMod s < CURVE_ORDER"
  "0 \<le> scalarAdd a b" "scalarAdd a b < CURVE_ORDER"
  "0 \<le> scalarSub a b" "scalarSub a b < CURVE_ORDER"
  "0 \<le> scalarMul a b" "scalarMul a b < CURVE_ORDER"
  by (simp_all add: scalar_arith)

subsection \<open>Little-endian encodings\<close>

lemma and_255: "x AND 255 = (x :: int) mod 256"
  using and_mask_dvd_nat [of 0] take_bit_eq_mask [of 8 x] by (simp add: take_bit_eq_mod mask_eq_exp_minus_1)

lemma drop_bit_8: "drop_bit 8 (x :: int) = x div 256"
  by (simp add: drop_bit_eq_div)

lemma uint_byte_mod: "uint (word_of_int (x mod 256) :: byte) = x mod 256"
  by (simp add: uint_word_of_int)

lemma bytesToBigintLE_simps [simp]:
  "bytesToBigintLE [] = 0"
  "bytesToBigintLE (b # bs) = bytesToBigintLE bs * 256 + uint b"
  by (simp_all add: bytesToBigintLE_def push_bit_eq_mult)

lemma bytesToBigintLE_range: "0 \<le> bytesToBigintLE bs \<and> bytesToBigintLE bs < 256 ^ length bs"
proof (induction bs)
  case (Cons b bs)
  have "uint b < 256" using uint_lt2p [of b] by simp
  moreover have "0 \<le> uint b" by simp
  ultimately show ?case using Cons by auto
qed simp

lemma bytesLELoop_props:
  "length (fst (bytesLELoop v k)) = k"
  "bytesToBigintLE (fst (bytesLELoop v k)) = v mod 256 ^ k"
  "snd (bytesLELoop v k) = v div 256 ^ k"
proof (induction k arbitrary: v)
  case (Suc k)
  { case 1 then show ?case using Suc(1) by (simp add: split_beta) }
  { case 2
    have "v mod (256 * 256 ^ k) = 256 * (v div 256 mod 256 ^ k) + v mod 256" by (rule zmod_zmult2_eq) simp
    then show ?case using Suc(2) by (simp add: split_beta and_255 drop_bit_8 uint_byte_mod) }
  { case 3 then show ?case using Suc(3) by (simp add: split_beta drop_bit_8 zdiv_zmult2_eq) }
qed simp_all

lemma bytesLELoop_bytes: "bytesLELoop (bytesToBigintLE bs) (length bs) = (bs, 0)"
proof (induction bs)
  case (Cons b bs)
  have "0 \<le> uint b" "uint b < 256" using uint_lt2p [of b] by simp_all
  then have "(bytesToBigintLE bs * 256 + uint b) div 256 = bytesToBigintLE bs"
    and "(bytesToBigintLE bs * 256 + uint b) mod 256 = uint b" by simp_all
  with Cons show ?case by (simp add: drop_bit_8 and_255)
qed simp

subsection \<open>Codecs of fixed width\<close>

locale fixed_width_codec =
  fixes enc :: "'a \<Rightarrow> byte list fallible" and dec :: "byte list \<Rightarrow> 'a fallible" and width :: nat and ok :: "'a \<Rightarrow> bool"
  assumes enc_width: "ok x \<Longrightarrow> \<exists>bs. enc x = Inr bs \<and> length bs = width"
    and dec_enc: "ok x \<Longrightarrow> enc x = Inr bs \<Longrightarrow> dec bs = Inr x"
    and dec_canonical: "dec bs = Inr x \<Longrightarrow> ok x \<and> enc x = Inr bs"
begin

lemma enc_inj:
  assumes "ok x" and "ok y" and "enc x = enc y"
  shows "x = y"
  using assms enc_width [of x] dec_enc [of x] dec_enc [of y] by force

lemma dec_inj: "dec bs = Inr x \<Longrightarrow> dec bs' = Inr x \<Longrightarrow> bs = bs'"
  using dec_canonical [of bs x] dec_canonical [of bs' x] by simp

lemma dec_width: "dec bs = Inr x \<Longrightarrow> length bs = width"
  using dec_canonical [of bs x] enc_width [of x] by auto

lemma dec_prefix:
  assumes "ok x" and "enc x = Inr bs"
  shows "dec (take width (bs @ rest)) = Inr x" and "drop width (bs @ rest) = rest"
  using assms enc_width [of x] dec_enc [of x] by auto

end

interpretation scalar_codec: fixed_width_codec scalarToBytes scalarFromBytes SCALAR_BYTES "\<lambda>s. 0 \<le> s \<and> s < CURVE_ORDER"
proof
  fix x :: int and bs
  have div: "x div 256 ^ 32 = 0" if "0 \<le> x \<and> x < CURVE_ORDER"
    using that CURVE_ORDER_bytes by (intro div_pos_pos_trivial) simp_all
  { assume x: "0 \<le> x \<and> x < CURVE_ORDER"
    then show "\<exists>bs. scalarToBytes x = Inr bs \<and> length bs = SCALAR_BYTES"
      using div by (simp add: scalarToBytes_def assertScalar_def bigintToBytesLE_def SCALAR_BYTES_def split_beta bytesLELoop_props)
    assume "scalarToBytes x = Inr bs"
    then have "bs = fst (bytesLELoop x 32)"
      by (auto simp: scalarToBytes_def bigintToBytesLE_def SCALAR_BYTES_def split_beta Let_def split: if_splits)
    moreover have "x mod 256 ^ 32 = x" using x CURVE_ORDER_bytes by (intro mod_pos_pos_trivial) simp_all
    ultimately show "scalarFromBytes bs = Inr x"
      using x by (simp add: scalarFromBytes_def isScalarBytes_def SCALAR_BYTES_def bytesLELoop_props) }
  { assume "scalarFromBytes bs = Inr x"
    then have "length bs = 32" "x = bytesToBigintLE bs" "x < CURVE_ORDER"
      by (auto simp: scalarFromBytes_def isScalarBytes_def SCALAR_BYTES_def Let_def split: if_splits)
    then show "(0 \<le> x \<and> x < CURVE_ORDER) \<and> scalarToBytes x = Inr bs"
      using bytesLELoop_bytes [of bs] bytesToBigintLE_range [of bs]
      by (simp add: scalarToBytes_def assertScalar_def bigintToBytesLE_def SCALAR_BYTES_def) }
qed

lemma u32le_ok:
  assumes "0 \<le> n" and "n < 2 ^ 32"
  shows "u32le (of_int n) = Inr (fst (bytesLELoop n 4))"
proof -
  have "(of_int n :: rat) \<le> of_int 0xffffffff" unfolding of_int_le_iff using assms by simp
  then show ?thesis using assms by (simp add: u32le_def Let_def numeral_eq_Suc drop_bit_drop_bit)
qed

lemma u32le_Inr:
  assumes "u32le x = Inr bs"
  obtains n where "x = of_int n" and "0 \<le> n" and "n < 2 ^ 32" and "bs = fst (bytesLELoop n 4)"
proof -
  from assms have x: "of_int \<lfloor>x\<rfloor> = x" "0 \<le> x" "x \<le> of_int 0xffffffff"
    by (auto simp: u32le_def isInteger_def split: if_splits)
  then have n: "0 \<le> \<lfloor>x\<rfloor>" "\<lfloor>x\<rfloor> < 2 ^ 32" by (simp_all add: floor_less_iff)
  then have "bs = fst (bytesLELoop \<lfloor>x\<rfloor> 4)" using u32le_ok [OF n] assms x(1) by simp
  then show thesis using that [OF x(1) [symmetric] n] by blast
qed

lemma u32le_inj:
  assumes "u32le x = Inr bs" and "u32le y = Inr bs"
  shows "x = y"
proof -
  obtain m where m: "x = of_int m" "0 \<le> m" "m < 2 ^ 32" "bs = fst (bytesLELoop m 4)" by (rule u32le_Inr [OF assms(1)])
  obtain n where n: "y = of_int n" "0 \<le> n" "n < 2 ^ 32" "bs = fst (bytesLELoop n 4)" by (rule u32le_Inr [OF assms(2)])
  have "m mod 256 ^ 4 = n mod 256 ^ 4" using bytesLELoop_props(2) [of _ 4] m(4) n(4) by metis
  moreover have "m mod 256 ^ 4 = m" "n mod 256 ^ 4 = n" using m n by (intro mod_pos_pos_trivial; simp)+
  ultimately show ?thesis using m(1) n(1) by simp
qed

lemma u32le_length: "u32le x = Inr bs \<Longrightarrow> length bs = 4"
  by (auto elim!: u32le_Inr simp: bytesLELoop_props)

lemma slice_append [simp]:
  "length xs = a \<Longrightarrow> slice a b (xs @ ys) = take (b - a) ys"
  "length xs = b \<Longrightarrow> slice 0 b (xs @ ys) = xs"
  by (auto simp: slice_def)

text \<open>
  The scalar encoding is canonical: it is a bijection between the scalars below the group
  order and the 32-byte strings that decode, and a byte string of a value at or above the
  order is refused.
\<close>

theorem scalar_encoding_canonical:
  "(0 \<le> s \<and> s < CURVE_ORDER \<longrightarrow> rbind (scalarToBytes s) scalarFromBytes = Inr s)
   \<and> (\<not> (0 \<le> s \<and> s < CURVE_ORDER) \<longrightarrow> scalarToBytes s = Inl ''Scalar out of range'')
   \<and> (scalarFromBytes bs = Inr s \<longrightarrow> scalarToBytes s = Inr bs)
   \<and> (length bs = 32 \<and> CURVE_ORDER \<le> bytesToBigintLE bs \<longrightarrow>
        scalarFromBytes bs = Inl ''scalarFromBytes: non-canonical (>= q)'')"
proof (intro conjI impI)
  assume "0 \<le> s \<and> s < CURVE_ORDER"
  then show "rbind (scalarToBytes s) scalarFromBytes = Inr s"
    using scalar_codec.enc_width [of s] scalar_codec.dec_enc [of s] by auto
next
  assume "\<not> (0 \<le> s \<and> s < CURVE_ORDER)"
  then have "assertScalar s = Inl ''Scalar out of range''" by (auto simp: assertScalar_def guard_else_def)
  then show "scalarToBytes s = Inl ''Scalar out of range''" by (simp add: scalarToBytes_def)
next
  assume "scalarFromBytes bs = Inr s"
  then show "scalarToBytes s = Inr bs" using scalar_codec.dec_canonical by blast
next
  assume "length bs = 32 \<and> CURVE_ORDER \<le> bytesToBigintLE bs"
  then show "scalarFromBytes bs = Inl ''scalarFromBytes: non-canonical (>= q)''"
    by (simp add: scalarFromBytes_def isScalarBytes_def SCALAR_BYTES_def)
qed

theorem scalar_encoding_canonical_witness:
  "rbind (scalarToBytes 5) scalarFromBytes = Inr 5"
  by (rule scalar_encoding_canonical [THEN conjunct1, THEN mp]) (simp add: CURVE_ORDER_def)

subsection \<open>Hexadecimal text\<close>

lemma hexDigit_table:
  "list_all (\<lambda>n. hexValue (HEX_DIGITS ! n) = Some (int n) \<and> \<not> isWhitespace (HEX_DIGITS ! n)
     \<and> HEX_DIGITS ! n \<notin> {CHR ''-'', CHR ''+'', CHR ''x'', CHR ''X''}) [0..<16]"
  by code_simp

lemma hexDigit:
  assumes "n < 16"
  shows "hexValue (HEX_DIGITS ! n) = Some (int n)" and "\<not> isWhitespace (HEX_DIGITS ! n)"
    and "HEX_DIGITS ! n \<noteq> CHR ''-''" and "HEX_DIGITS ! n \<noteq> CHR ''+''" and "HEX_DIGITS ! n \<noteq> CHR ''x''"
    and "HEX_DIGITS ! n \<noteq> CHR ''X''"
  using hexDigit_table assms unfolding list_all_iff set_upt by auto

lemma hexPair:
  assumes "n < 256"
  shows "padStart2 (toString16 n) = [HEX_DIGITS ! (n div 16), HEX_DIGITS ! (n mod 16)]"
  using assms by (simp add: padStart2_def toString16_def) (simp add: HEX_DIGITS_def)

lemma hexPair_round_trip:
  assumes "n < 256"
  shows "parseInt16 [HEX_DIGITS ! (n div 16), HEX_DIGITS ! (n mod 16)] = Some (int n)"
proof -
  have d: "n div 16 < 16" "n mod 16 < 16" using assms by auto
  have "int (n div 16) * 16 + int (n mod 16) = int n" by (metis div_mult_mod_eq of_nat_add of_nat_mult of_nat_numeral)
  then show ?thesis using hexDigit [OF d(1)] hexDigit [OF d(2)] by (simp add: parseInt16_def Let_def)
qed

lemma unat_byte: "unat (b :: byte) < 256"
proof -
  have "int (unat b) = uint b" by simp
  moreover have "uint b < 256" using uint_lt2p [of b] by simp
  ultimately show ?thesis by linarith
qed

lemma foldl_append_acc: "foldl (\<lambda>acc x. acc @ f x) acc xs = acc @ foldl (\<lambda>acc x. acc @ f x) [] xs"
proof (induction xs arbitrary: acc)
  case (Cons x xs)
  show ?case using Cons.IH [of "acc @ f x"] Cons.IH [of "f x"] by simp
qed simp

lemma bytesToHex_Cons: "bytesToHex (b # bs) = padStart2 (toString16 (unat b)) @ bytesToHex bs"
  unfolding bytesToHex_def using foldl_append_acc [of "\<lambda>b. padStart2 (toString16 (unat b))" "padStart2 (toString16 (unat b))" bs]
  by simp

lemma bytesToHex_loop: "hexToBytesLoop (bytesToHex bs) = Inr bs \<and> even (length (bytesToHex bs))"
proof (induction bs)
  case (Cons b bs)
  with hexPair_round_trip [OF unat_byte [of b]] show ?case by (simp add: bytesToHex_Cons hexPair [OF unat_byte])
qed (simp add: bytesToHex_def)

lemma bytesToHex_no_prefix: "take 2 (bytesToHex bs) \<noteq> ''0x''"
proof (cases bs)
  case (Cons b cs)
  have "unat b mod 16 < 16" by simp
  from hexDigit(5) [OF this] Cons show ?thesis by (simp add: bytesToHex_Cons hexPair [OF unat_byte])
qed (simp add: bytesToHex_def)

text \<open>
  Bytes printed as hexadecimal text, with or without the \<open>0x\<close> prefix, parse to the same bytes.
\<close>

theorem hex_round_trip:
  "hexToBytes (bytesToHex bs) = Inr bs \<and> hexToBytes (''0x'' @ bytesToHex bs) = Inr bs"
  using bytesToHex_loop [of bs] bytesToHex_no_prefix [of bs]
  by (simp add: hexToBytes_def even_iff_mod_2_eq_zero)

text \<open>Text that is not hexadecimal is accepted when a prefix of each pair of characters is a number.\<close>

lemma hexToBytes_accepts_garbage: "hexToBytes ''1g-1'' = Inr [1, 255]"
  by code_simp

end
