(* ===== verification/Crypto_Group.thy ===== *)
theory Crypto_Group
  imports Crypto_Bytes
begin

text \<open>
  Group elements, hashing, transcripts and ElGamal encryption of \<^verbatim>\<open>packages/ocp-crypto/src\<close>
  (\<^verbatim>\<open>utils/group.ts\<close>, \<^verbatim>\<open>utils/hash.ts\<close>, \<^verbatim>\<open>utils/transcript.ts\<close>, \<^verbatim>\<open>elgamal.ts\<close>). The point type
  and its operations come from \<^verbatim>\<open>@noble/curves\<close> and the hash from \<^verbatim>\<open>@noble/hashes\<close>: they are the
  parameters \<open>C\<close> (a record of operations) and \<open>sha512\<close>. What the code relies on is stated by
  \<open>ristretto\<close> (a cyclic group of order \<open>CURVE_ORDER\<close> generated by the base point, a
  multiplication that throws unless the scalar is in \<open>1..<CURVE_ORDER\<close>, canonical 32-byte
  encodings) and \<open>hash64\<close> (64-byte digests).
\<close>

subsection \<open>Group elements\<close>

record 'p curve =
  rp_base :: 'p
  rp_zero :: 'p
  rp_add :: "'p \<Rightarrow> 'p \<Rightarrow> 'p"
  rp_subtract :: "'p \<Rightarrow> 'p \<Rightarrow> 'p"
  rp_multiply :: "'p \<Rightarrow> int \<Rightarrow> 'p fallible"
  rp_equals :: "'p \<Rightarrow> 'p \<Rightarrow> bool"
  rp_toRawBytes :: "'p \<Rightarrow> byte list"
  rp_fromHex :: "byte list \<Rightarrow> 'p fallible"

definition groupElementFromBytes :: "'p curve \<Rightarrow> byte list \<Rightarrow> 'p fallible" where
  "groupElementFromBytes C bytes =
     (if length bytes \<noteq> GROUP_ELEMENT_BYTES then Inl ''GroupElement.fromBytes: expected 32 bytes''
      else rbind (rp_fromHex C bytes) (\<lambda>p.
        let rt = rp_toRawBytes C p
        in if list_ex (\<lambda>i. \<not> (i < length rt \<and> rt ! i = bytes ! i)) [0..<length bytes]
           then Inl ''GroupElement.fromBytes: non-canonical'' else Inr p))"

definition groupElementToBytes :: "'p curve \<Rightarrow> 'p \<Rightarrow> byte list" where
  "groupElementToBytes C p = rp_toRawBytes C p"

definition isGroupElementBytes :: "byte list \<Rightarrow> bool" where
  "isGroupElementBytes bytes \<longleftrightarrow> length bytes = GROUP_ELEMENT_BYTES"

definition basePoint :: "'p curve \<Rightarrow> 'p" where "basePoint C = rp_base C"

definition zeroPoint :: "'p curve \<Rightarrow> 'p" where "zeroPoint C = rp_zero C"

definition pointAdd :: "'p curve \<Rightarrow> 'p \<Rightarrow> 'p \<Rightarrow> 'p" where "pointAdd C a b = rp_add C a b"

definition pointSub :: "'p curve \<Rightarrow> 'p \<Rightarrow> 'p \<Rightarrow> 'p" where "pointSub C a b = rp_subtract C a b"

definition mulPoint :: "'p curve \<Rightarrow> 'p \<Rightarrow> int \<Rightarrow> 'p fallible" where "mulPoint C p k = rp_multiply C p k"

definition mulBase :: "'p curve \<Rightarrow> int \<Rightarrow> 'p fallible" where "mulBase C k = rp_multiply C (rp_base C) k"

definition pointEq :: "'p curve \<Rightarrow> 'p \<Rightarrow> 'p \<Rightarrow> bool" where "pointEq C a b = rp_equals C a b"

subsection \<open>Hashing and transcripts\<close>

text \<open>A hash state is the list of bytes fed to it; the digest is \<open>sha512\<close> of that list.\<close>

type_synonym hash = "byte list \<Rightarrow> byte list"

definition updateLenBytes :: "byte list \<Rightarrow> byte list \<Rightarrow> byte list fallible" where
  "updateLenBytes h bytes = rbind (u32le (of_nat (length bytes))) (\<lambda>l. Inr (h @ l @ bytes))"

definition hashToScalar :: "hash \<Rightarrow> string \<Rightarrow> byte list list \<Rightarrow> int fallible" where
  "hashToScalar sha512 domainSep msgs =
     rbind (foldl (\<lambda>acc m. rbind acc (\<lambda>h. updateLenBytes h m))
              (updateLenBytes (utf8 ''OCPv1|hash_to_scalar|'') (utf8 domainSep)) msgs)
       (\<lambda>h. scalarFromBytesModOrder (sha512 h))"

definition newTranscript :: "string \<Rightarrow> byte list fallible" where
  "newTranscript domainSep = updateLenBytes (utf8 ''OCPv1|transcript|'') (utf8 domainSep)"

definition appendMessage :: "byte list \<Rightarrow> string \<Rightarrow> byte list \<Rightarrow> byte list fallible" where
  "appendMessage h label msg =
     rbind (updateLenBytes (h @ utf8 ''msg'') (utf8 label)) (\<lambda>h1. updateLenBytes h1 msg)"

definition challengeScalar :: "hash \<Rightarrow> byte list \<Rightarrow> string \<Rightarrow> (int \<times> byte list) fallible" where
  "challengeScalar sha512 h label =
     rbind (updateLenBytes (h @ utf8 ''challenge'') (utf8 label)) (\<lambda>c.
       let digest = sha512 c in
       rbind (updateLenBytes (h @ utf8 ''chal'') (utf8 label)) (\<lambda>h1.
       rbind (updateLenBytes h1 digest) (\<lambda>h2.
       rbind (scalarFromBytesModOrder digest) (\<lambda>e. Inr (e, h2)))))"

text \<open>A sequence of \<open>appendMessage\<close> statements, and the challenge drawn after it.\<close>

definition appendAll :: "byte list \<Rightarrow> (string \<times> byte list) list \<Rightarrow> byte list fallible" where
  "appendAll h msgs = foldl (\<lambda>acc m. rbind acc (\<lambda>h. appendMessage h (fst m) (snd m))) (Inr h) msgs"

definition transcriptChallenge :: "hash \<Rightarrow> string \<Rightarrow> (string \<times> byte list) list \<Rightarrow> string \<Rightarrow> int fallible" where
  "transcriptChallenge sha512 domainSep msgs label =
     rbind (newTranscript domainSep) (\<lambda>h.
     rbind (appendAll h msgs) (\<lambda>h1.
     rbind (challengeScalar sha512 h1 label) (\<lambda>r. Inr (fst r))))"

subsection \<open>ElGamal encryption\<close>

record 'p ElGamalCiphertext =
  ct_c1 :: 'p
  ct_c2 :: 'p

definition elgamalEncrypt :: "'p curve \<Rightarrow> 'p \<Rightarrow> 'p \<Rightarrow> int \<Rightarrow> 'p ElGamalCiphertext fallible" where
  "elgamalEncrypt C pk m r =
     rbind (mulBase C r) (\<lambda>c1. rbind (mulPoint C pk r) (\<lambda>rp. Inr \<lparr>ct_c1 = c1, ct_c2 = pointAdd C m rp\<rparr>))"

definition elgamalDecrypt :: "'p curve \<Rightarrow> int \<Rightarrow> 'p ElGamalCiphertext \<Rightarrow> 'p fallible" where
  "elgamalDecrypt C sk ct = rbind (mulPoint C (ct_c1 ct) sk) (\<lambda>d. Inr (pointSub C (ct_c2 ct) d))"

subsection \<open>What the code relies on\<close>

abbreviation nonzero_scalar :: "int \<Rightarrow> bool" where
  "nonzero_scalar k \<equiv> 1 \<le> k \<and> k < CURVE_ORDER"

text \<open>\<open>dl\<close> is the discrete logarithm to the base point.\<close>

definition ristretto :: "'p curve \<Rightarrow> ('p \<Rightarrow> int) \<Rightarrow> bool" where
  "ristretto C dl \<longleftrightarrow>
     (\<forall>P. 0 \<le> dl P \<and> dl P < CURVE_ORDER)
   \<and> dl (rp_base C) = 1 \<and> dl (rp_zero C) = 0
   \<and> (\<forall>P Q. dl (rp_add C P Q) = (dl P + dl Q) mod CURVE_ORDER)
   \<and> (\<forall>P Q. dl (rp_subtract C P Q) = (dl P - dl Q) mod CURVE_ORDER)
   \<and> (\<forall>P k. nonzero_scalar k \<longrightarrow> (\<exists>R. rp_multiply C P k = Inr R \<and> dl R = (k * dl P) mod CURVE_ORDER))
   \<and> (\<forall>P k. \<not> nonzero_scalar k \<longrightarrow> (\<exists>e. rp_multiply C P k = Inl e))
   \<and> (\<forall>P Q. rp_equals C P Q \<longleftrightarrow> dl P = dl Q)
   \<and> (\<forall>P. length (rp_toRawBytes C P) = GROUP_ELEMENT_BYTES)
   \<and> (\<forall>P Q. rp_toRawBytes C P = rp_toRawBytes C Q \<longleftrightarrow> dl P = dl Q)
   \<and> (\<forall>P. \<exists>Q. rp_fromHex C (rp_toRawBytes C P) = Inr Q \<and> dl Q = dl P)"

definition hash64 :: "hash \<Rightarrow> bool" where
  "hash64 sha512 \<longleftrightarrow> (\<forall>x. length (sha512 x) = 64)"

lemma ristrettoD:
  assumes "ristretto C dl"
  shows ristretto_range: "0 \<le> dl P" "dl P < CURVE_ORDER"
    and ristretto_base: "dl (basePoint C) = 1" "dl (rp_base C) = 1"
    and ristretto_zero: "dl (zeroPoint C) = 0"
    and ristretto_add: "dl (pointAdd C P Q) = (dl P + dl Q) mod CURVE_ORDER"
    and ristretto_sub: "dl (pointSub C P Q) = (dl P - dl Q) mod CURVE_ORDER"
    and ristretto_eq: "pointEq C P Q \<longleftrightarrow> dl P = dl Q"
    and ristretto_width: "length (groupElementToBytes C P) = 32"
    and ristretto_bytes: "groupElementToBytes C P = groupElementToBytes C Q \<longleftrightarrow> dl P = dl Q"
  using assms
  by (auto simp: ristretto_def basePoint_def zeroPoint_def pointAdd_def pointSub_def pointEq_def
      groupElementToBytes_def GROUP_ELEMENT_BYTES_def)

lemma mulPoint_ok:
  assumes "ristretto C dl" and "nonzero_scalar k"
  obtains R where "mulPoint C P k = Inr R" and "dl R = (k * dl P) mod CURVE_ORDER"
  using assms unfolding ristretto_def mulPoint_def by blast

lemma mulPoint_Inr:
  assumes "ristretto C dl" and "mulPoint C P k = Inr R"
  shows "nonzero_scalar k" and "dl R = (k * dl P) mod CURVE_ORDER"
proof -
  show k: "nonzero_scalar k"
  proof (rule ccontr)
    assume "\<not> nonzero_scalar k"
    then obtain e where "mulPoint C P k = Inl e" using assms(1) unfolding ristretto_def mulPoint_def by blast
    with assms(2) show False by simp
  qed
  show "dl R = (k * dl P) mod CURVE_ORDER"
    using mulPoint_ok [OF assms(1) k, of P] assms(2) by auto
qed

lemma mulBase_mulPoint: "mulBase C k = mulPoint C (basePoint C) k"
  by (simp add: mulBase_def mulPoint_def basePoint_def)

lemma nonzero_scalar_mod: "nonzero_scalar k \<Longrightarrow> k mod CURVE_ORDER = k"
  by (simp add: mod_pos_pos_trivial)

lemma mulBase_ok:
  assumes "ristretto C dl" and "nonzero_scalar k"
  obtains R where "mulBase C k = Inr R" and "dl R = k"
  using mulPoint_ok [OF assms, of "basePoint C"] nonzero_scalar_mod [OF assms(2)]
  by (auto simp: mulBase_mulPoint ristretto_base [OF assms(1)])

lemma mulBase_Inr:
  assumes "ristretto C dl" and "mulBase C k = Inr R"
  shows "nonzero_scalar k" and "dl R = k"
proof -
  have m: "mulPoint C (basePoint C) k = Inr R" using assms(2) by (simp add: mulBase_mulPoint)
  show k: "nonzero_scalar k" by (rule mulPoint_Inr(1) [OF assms(1) m])
  show "dl R = k" using mulPoint_Inr(2) [OF assms(1) m] nonzero_scalar_mod [OF k]
    by (simp add: ristretto_base [OF assms(1)])
qed

lemma groupElement_round_trip:
  assumes "ristretto C dl"
  shows "\<exists>Q. groupElementFromBytes C (groupElementToBytes C P) = Inr Q \<and> pointEq C Q P"
proof -
  obtain Q where q: "rp_fromHex C (rp_toRawBytes C P) = Inr Q" "dl Q = dl P"
    using assms unfolding ristretto_def by blast
  then have "rp_toRawBytes C Q = rp_toRawBytes C P" using assms by (simp add: ristretto_def)
  moreover have "length (rp_toRawBytes C P) = GROUP_ELEMENT_BYTES" using assms by (simp add: ristretto_def)
  ultimately show ?thesis using q
    by (auto simp: groupElementFromBytes_def groupElementToBytes_def ristretto_eq [OF assms] list_ex_iff)
qed

lemma groupElement_canonical:
  assumes "groupElementFromBytes C bytes = Inr P" and "ristretto C dl"
  shows "groupElementToBytes C P = bytes"
proof (rule nth_equalityI)
  have l: "length bytes = 32" and n: "\<forall>i<length bytes. i < length (rp_toRawBytes C P) \<and> rp_toRawBytes C P ! i = bytes ! i"
    using assms(1) by (auto simp: groupElementFromBytes_def GROUP_ELEMENT_BYTES_def Let_def list_ex_iff split: if_splits)
  show "length (groupElementToBytes C P) = length bytes" using l ristretto_width [OF assms(2)] by simp
  then show "groupElementToBytes C P ! i = bytes ! i" if "i < length (groupElementToBytes C P)" for i
    using n that by (simp add: groupElementToBytes_def)
qed

text \<open>The additive group of integers modulo the order, an instance of the hypotheses.\<close>

definition zq_curve :: "int curve" where
  "zq_curve =
     \<lparr>rp_base = 1, rp_zero = 0, rp_add = (\<lambda>a b. (a + b) mod CURVE_ORDER),
      rp_subtract = (\<lambda>a b. (a - b) mod CURVE_ORDER),
      rp_multiply = (\<lambda>a k. if nonzero_scalar k then Inr ((k * a) mod CURVE_ORDER) else Inl ''invalid scalar''),
      rp_equals = (\<lambda>a b. a mod CURVE_ORDER = b mod CURVE_ORDER),
      rp_toRawBytes = (\<lambda>a. fst (bytesLELoop (a mod CURVE_ORDER) 32)),
      rp_fromHex = (\<lambda>bs. Inr (bytesToBigintLE bs))\<rparr>"

lemma zq_bytes: "bytesToBigintLE (fst (bytesLELoop (a mod CURVE_ORDER) 32)) = a mod CURVE_ORDER"
proof -
  have "(a mod CURVE_ORDER) mod 256 ^ 32 = a mod CURVE_ORDER"
    using less_trans [OF pos_mod_bound [OF CURVE_ORDER_pos(1), of a] CURVE_ORDER_bytes]
    by (intro mod_pos_pos_trivial) (simp_all add: CURVE_ORDER_pos(1))
  then show ?thesis by (simp only: bytesLELoop_props)
qed

lemma zq_ops:
  "rp_base zq_curve = 1" "rp_zero zq_curve = 0"
  "rp_add zq_curve a b = (a + b) mod CURVE_ORDER" "rp_subtract zq_curve a b = (a - b) mod CURVE_ORDER"
  "rp_multiply zq_curve a k = (if nonzero_scalar k then Inr ((k * a) mod CURVE_ORDER) else Inl ''invalid scalar'')"
  "rp_equals zq_curve a b \<longleftrightarrow> a mod CURVE_ORDER = b mod CURVE_ORDER"
  "rp_toRawBytes zq_curve a = fst (bytesLELoop (a mod CURVE_ORDER) 32)"
  "rp_fromHex zq_curve bs = Inr (bytesToBigintLE bs)"
  by (simp_all add: zq_curve_def)

lemma zq_ristretto: "ristretto zq_curve (\<lambda>a. a mod CURVE_ORDER)"
  unfolding ristretto_def
proof (intro conjI allI)
  show "0 \<le> P mod CURVE_ORDER" "P mod CURVE_ORDER < CURVE_ORDER" for P
    by (simp_all add: CURVE_ORDER_pos(1))
  show "(rp_toRawBytes zq_curve P = rp_toRawBytes zq_curve Q) = (P mod CURVE_ORDER = Q mod CURVE_ORDER)" for P Q
    using zq_bytes [of P] zq_bytes [of Q] by (metis zq_ops(7))
  show "\<exists>Q. rp_fromHex zq_curve (rp_toRawBytes zq_curve P) = Inr Q \<and> Q mod CURVE_ORDER = P mod CURVE_ORDER" for P
    by (simp only: zq_ops zq_bytes) simp
  show "length (rp_toRawBytes zq_curve P) = GROUP_ELEMENT_BYTES" for P
    by (simp only: zq_ops bytesLELoop_props GROUP_ELEMENT_BYTES_def)
  show "rp_base zq_curve mod CURVE_ORDER = 1" by (simp only: zq_ops) (simp add: CURVE_ORDER_def)
qed (simp_all add: zq_ops mod_simps)

definition constHash :: "byte \<Rightarrow> hash" where "constHash b x = b # replicate 63 0"

lemma constHash64: "hash64 (constHash b)"
  by (simp add: hash64_def constHash_def)

subsection \<open>Framing\<close>

text \<open>UTF-8 is a prefix code, so the byte string of a label determines the label.\<close>

lemma of_nat_byte_eq: "a < 256 \<Longrightarrow> b < 256 \<Longrightarrow> (of_nat a :: byte) = of_nat b \<longleftrightarrow> a = b"
  by (auto simp: word_of_nat_eq_iff take_bit_eq_mod)

lemma utf8Char_prefix:
  assumes "utf8Char c @ x = utf8Char d @ y"
  shows "c = d \<and> x = y"
proof -
  define m n where mn: "m = (of_char c :: nat)" "n = (of_char d :: nat)"
  define f where "f k = (if k < 128 then k else 192 + k div 64)" for k :: nat
  have le: "m < 256" "n < 256" unfolding mn by simp_all
  then have "f m < 256" "f n < 256" by (simp_all add: f_def less_mult_imp_div_less)
  moreover have "of_nat (f m) = (of_nat (f n) :: byte)"
    using arg_cong [OF assms, of hd] by (simp add: utf8Char_def Let_def f_def mn [symmetric] split: if_splits)
  ultimately have fe: "f m = f n" by (simp add: of_nat_byte_eq)
  have "m = n \<and> x = y"
  proof (cases "m < 128")
    case True
    then have "m = n" using fe le by (simp add: f_def split: if_splits)
    then show ?thesis using assms True by (simp add: utf8Char_def Let_def mn [symmetric])
  next
    case False
    then have n: "\<not> n < 128" "m div 64 = n div 64" using fe le by (simp_all add: f_def split: if_splits)
    have "[of_nat (128 + m mod 64)] @ x = [of_nat (128 + n mod 64) :: byte] @ y"
      using arg_cong [OF assms, of tl] False n by (simp add: utf8Char_def Let_def mn [symmetric] del: of_nat_add)
    then have e: "of_nat (128 + m mod 64) = (of_nat (128 + n mod 64) :: byte)" "x = y" by (simp_all del: of_nat_add)
    have "128 + m mod 64 < 256" "128 + n mod 64 < 256" by simp_all
    then have "m mod 64 = n mod 64" using e(1) by (simp only: of_nat_byte_eq)
    then have "m = n" using n(2) by (metis div_mult_mod_eq)
    then show ?thesis using e(2) by blast
  qed
  then show ?thesis by (simp add: mn)
qed

lemma utf8_inj: "utf8 s = utf8 t \<Longrightarrow> s = t"
proof (induction s arbitrary: t)
  case Nil
  then show ?case by (cases t) (auto simp: utf8_def utf8Char_def Let_def split: if_splits)
next
  case (Cons c s)
  show ?case
  proof (cases t)
    case Nil
    then show ?thesis using Cons.prems by (auto simp: utf8_def utf8Char_def Let_def split: if_splits)
  next
    case (Cons d t')
    then have "c = d \<and> utf8 s = utf8 t'"
      using Cons.prems utf8Char_prefix [of c "utf8 s" d "utf8 t'"] by (simp add: utf8_def)
    then show ?thesis using Cons.IH Cons by blast
  qed
qed

abbreviation lenFrame :: "byte list \<Rightarrow> byte list" where
  "lenFrame bs \<equiv> fst (bytesLELoop (int (length bs)) 4) @ bs"

lemma u32le_nat: "u32le (of_nat n) = Inr bs \<longleftrightarrow> int n < 2 ^ 32 \<and> bs = fst (bytesLELoop (int n) 4)"
proof
  assume "u32le (of_nat n) = Inr bs"
  then obtain m where "(of_nat n :: rat) = of_int m" "m < 2 ^ 32" "bs = fst (bytesLELoop m 4)" by (rule u32le_Inr)
  moreover from this(1) have "int n = m" by (metis of_int_eq_iff of_int_of_nat_eq)
  ultimately show "int n < 2 ^ 32 \<and> bs = fst (bytesLELoop (int n) 4)" by simp
next
  assume "int n < 2 ^ 32 \<and> bs = fst (bytesLELoop (int n) 4)"
  then show "u32le (of_nat n) = Inr bs" using u32le_ok [of "int n"] by simp
qed

lemma updateLenBytes_Inr:
  "updateLenBytes h bs = Inr h' \<longleftrightarrow> int (length bs) < 2 ^ 32 \<and> h' = h @ lenFrame bs"
  unfolding updateLenBytes_def rbind_Inr_iff u32le_nat by auto

lemma lenFrame_inj:
  assumes "lenFrame a @ x = lenFrame b @ y" and "int (length a) < 2 ^ 32" and "int (length b) < 2 ^ 32"
  shows "a = b" and "x = y"
proof -
  have e: "fst (bytesLELoop (int (length a)) 4) = fst (bytesLELoop (int (length b)) 4)" "a @ x = b @ y"
    using assms(1) bytesLELoop_props(1) [of _ 4] by (simp_all add: append_eq_append_conv)
  have "(of_nat (length a) :: rat) = of_nat (length b)"
    by (rule u32le_inj [of _ "fst (bytesLELoop (int (length a)) 4)"]) (use assms(2,3) e(1) in \<open>simp_all add: u32le_nat\<close>)
  then show "a = b" "x = y" using e(2) by simp_all
qed

primrec msgFrames :: "(string \<times> byte list) list \<Rightarrow> byte list" where
  "msgFrames [] = []"
| "msgFrames (m # ms) = utf8 ''msg'' @ lenFrame (utf8 (fst m)) @ lenFrame (snd m) @ msgFrames ms"

definition small_msg :: "string \<times> byte list \<Rightarrow> bool" where
  "small_msg m \<longleftrightarrow> int (length (utf8 (fst m))) < 2 ^ 32 \<and> int (length (snd m)) < 2 ^ 32"

lemma appendAll_Inl: "foldl (\<lambda>acc m. rbind acc (\<lambda>h. f h m)) (Inl e) ms = Inl e"
  by (induction ms) simp_all

lemma appendAll_Cons: "appendAll h (m # ms) = rbind (appendMessage h (fst m) (snd m)) (\<lambda>h1. appendAll h1 ms)"
  by (cases "appendMessage h (fst m) (snd m)") (simp_all add: appendAll_def appendAll_Inl)

lemma appendAll_Inr:
  "appendAll h ms = Inr h' \<longleftrightarrow> (\<forall>m \<in> set ms. small_msg m) \<and> h' = h @ msgFrames ms"
proof (induction ms arbitrary: h)
  case (Cons m ms)
  show ?case
    unfolding appendAll_Cons rbind_Inr_iff appendMessage_def updateLenBytes_Inr Cons.IH
    by (auto simp: small_msg_def)
qed (auto simp: appendAll_def)

lemma msgFrames_inj:
  "msgFrames ms = msgFrames ns \<Longrightarrow> \<forall>m \<in> set ms. small_msg m \<Longrightarrow> \<forall>n \<in> set ns. small_msg n \<Longrightarrow> ms = ns"
proof (induction ms arbitrary: ns)
  case Nil
  then show ?case by (cases ns) (simp_all add: utf8_def utf8Char_def)
next
  case (Cons m ms)
  show ?case
  proof (cases ns)
    case Nil
    then show ?thesis using Cons.prems by (simp add: utf8_def utf8Char_def)
  next
    case (Cons n ns')
    then have e: "lenFrame (utf8 (fst m)) @ (lenFrame (snd m) @ msgFrames ms) =
                  lenFrame (utf8 (fst n)) @ (lenFrame (snd n) @ msgFrames ns')"
      using Cons.prems(1) by simp
    have s: "small_msg m" "small_msg n" using Cons.prems(2,3) Cons by simp_all
    note l = lenFrame_inj [OF e] and s' = s [unfolded small_msg_def]
    note r = lenFrame_inj [OF l(2)]
    show ?thesis using l(1) r s' Cons.IH [of ns'] Cons.prems(2,3) Cons utf8_inj [of "fst m" "fst n"]
      by (auto intro: prod_eqI)
  qed
qed

text \<open>
  C23: a transcript binds everything it absorbs: two transcripts that reach the same hash input
  have the same domain separator and the same sequence of labelled messages.
\<close>

theorem transcript_binding:
  assumes "rbind (newTranscript d) (\<lambda>h. appendAll h ms) = Inr h"
    and "rbind (newTranscript d') (\<lambda>h. appendAll h ms') = Inr h"
  shows "d = d' \<and> ms = ms'"
proof -
  obtain p where h: "h = p @ lenFrame (utf8 d) @ msgFrames ms" "h = p @ lenFrame (utf8 d') @ msgFrames ms'"
    and s: "int (length (utf8 d)) < 2 ^ 32" "int (length (utf8 d')) < 2 ^ 32"
      "\<forall>m \<in> set ms. small_msg m" "\<forall>m \<in> set ms'. small_msg m"
    using assms unfolding rbind_Inr_iff newTranscript_def updateLenBytes_Inr appendAll_Inr by auto
  from h have "lenFrame (utf8 d) @ msgFrames ms = lenFrame (utf8 d') @ msgFrames ms'" by simp
  note i = lenFrame_inj [OF this s(1,2)]
  show ?thesis using utf8_inj [OF i(1)] msgFrames_inj [OF i(2) s(3,4)] by blast
qed

theorem transcript_binding_witness:
  "\<exists>h. {ms. rbind (newTranscript ''d'') (\<lambda>h. appendAll h ms) = Inr h} = {[(''x'', [1, 2])]}"
proof -
  have "\<exists>h. rbind (newTranscript ''d'') (\<lambda>h. appendAll h [(''x'', [1, 2])]) = Inr h"
    by (simp add: newTranscript_def appendAll_def appendMessage_def updateLenBytes_def u32le_def utf8_def utf8Char_def)
  then obtain h where h: "rbind (newTranscript ''d'') (\<lambda>h. appendAll h [(''x'', [1, 2])]) = Inr h" ..
  have "(rbind (newTranscript ''d'') (\<lambda>h. appendAll h ms) = Inr h) = (ms = [(''x'', [1, 2])])" for ms
  proof
    assume "rbind (newTranscript ''d'') (\<lambda>h. appendAll h ms) = Inr h"
    then show "ms = [(''x'', [1, 2])]" by (rule transcript_binding [OF _ h, THEN conjunct2])
  next
    assume "ms = [(''x'', [1, 2])]"
    with h show "rbind (newTranscript ''d'') (\<lambda>h. appendAll h ms) = Inr h" by (simp only:)
  qed
  then have "{ms. rbind (newTranscript ''d'') (\<lambda>h. appendAll h ms) = Inr h} = {ms. ms = [(''x'', [1, 2])]}"
    by (rule Collect_cong)
  then have "{ms. rbind (newTranscript ''d'') (\<lambda>h. appendAll h ms) = Inr h} = {[(''x'', [1, 2])]}"
    by (simp only: singleton_conv)
  then show ?thesis by (rule exI)
qed

text \<open>The challenge under a constant hash is the constant.\<close>

lemma bytesToBigintLE_zeros: "bytesToBigintLE (replicate n 0) = 0"
  by (induction n) simp_all

lemma constHash_scalar: "scalarFromBytesModOrder (constHash b x) = Inr (uint b)"
proof -
  have "bytesToBigintLE (b # replicate 63 0) = uint b"
    using bytesToBigintLE_zeros [of 63] by simp
  moreover have "uint b < CURVE_ORDER" using uint_bounded [of b] by (simp add: CURVE_ORDER_def)
  ultimately show ?thesis by (simp add: scalarFromBytesModOrder_def constHash_def scalarMod_eq)
qed

lemma constHash_challenge:
  assumes "length (utf8 l) < 100"
  shows "\<exists>h'. challengeScalar (constHash b) h l = Inr (uint b, h')"
proof -
  have u: "updateLenBytes h x = Inr (h @ lenFrame x)" if "length x < 100" for h x
    unfolding updateLenBytes_Inr using that by simp
  show ?thesis using assms
    by (simp add: challengeScalar_def u constHash_scalar Let_def) (simp add: u constHash_def)
qed

lemma constHash_transcript:
  assumes "length (utf8 d) < 100" and "\<forall>m \<in> set ms. small_msg m" and "length (utf8 l) < 100"
  shows "transcriptChallenge (constHash b) d ms l = Inr (uint b)"
proof -
  obtain h where "newTranscript d = Inr h" using assms(1) by (simp add: newTranscript_def updateLenBytes_Inr)
  moreover obtain h1 where "appendAll h ms = Inr h1" using assms(2) appendAll_Inr by blast
  moreover obtain h2 where "challengeScalar (constHash b) h1 l = Inr (uint b, h2)"
    using constHash_challenge [OF assms(3)] by blast
  ultimately show ?thesis by (simp add: transcriptChallenge_def)
qed

subsection \<open>ElGamal\<close>

text \<open>
  Decrypting an encryption under the matching key gives the message back, for every
  non-zero randomness and non-zero key.
\<close>

theorem elgamal_round_trip:
  assumes "ristretto C dl" and "nonzero_scalar sk" and "nonzero_scalar r" and "mulBase C sk = Inr pk"
  shows "\<exists>m'. rbind (elgamalEncrypt C pk m r) (elgamalDecrypt C sk) = Inr m' \<and> pointEq C m' m"
proof -
  note R = ristrettoD [OF assms(1)]
  have pk: "dl pk = sk" by (rule mulBase_Inr(2) [OF assms(1,4)])
  obtain c1 where c1: "mulBase C r = Inr c1" "dl c1 = r"
    by (rule mulBase_ok [OF assms(1,3)])
  obtain rp where rp: "mulPoint C pk r = Inr rp" "dl rp = (r * sk) mod CURVE_ORDER"
    using mulPoint_ok [OF assms(1,3), of pk] pk by auto
  obtain d where d: "mulPoint C c1 sk = Inr d" "dl d = (sk * r) mod CURVE_ORDER"
    using mulPoint_ok [OF assms(1,2), of c1] c1 by auto
  have "(dl m + r * sk mod CURVE_ORDER - sk * r mod CURVE_ORDER) mod CURVE_ORDER = dl m"
    using R(1,2) [of m] by (simp add: mult.commute)
  then show ?thesis
    by (simp add: elgamalEncrypt_def elgamalDecrypt_def c1 rp d R mod_simps)
qed

theorem elgamal_round_trip_witness:
  "\<exists>m'. rbind (elgamalEncrypt zq_curve 7 42 11) (elgamalDecrypt zq_curve 7) = Inr m' \<and> pointEq zq_curve m' 42"
proof -
  have "nonzero_scalar 7" "nonzero_scalar 11" by (simp_all add: CURVE_ORDER_def)
  moreover from this have "mulBase zq_curve 7 = Inr 7" by (simp add: mulBase_def zq_curve_def)
  ultimately show ?thesis by (intro elgamal_round_trip [OF zq_ristretto])
qed

end
