(* ===== verification/Sigma_Proofs.thy ===== *)
theory Sigma_Proofs
  imports Crypto_Group
begin

text \<open>
  The non-interactive proofs of \<^verbatim>\<open>packages/ocp-crypto/src/proofs\<close>: equality of discrete logarithms
  (\<^verbatim>\<open>chaumPedersen.ts\<close>), encrypted decryption shares (\<^verbatim>\<open>encShare.ts\<close>), Feldman-consistent encrypted
  key shares (\<^verbatim>\<open>dkgEncShare.ts\<close>) and the delivery of the share scalar (\<^verbatim>\<open>dkgScalarAead.ts\<close>). AES-GCM
  and SHA-256 are the parameters \<open>gcmEncrypt\<close>, \<open>gcmDecrypt\<close> and \<open>sha256\<close>. Shown: an honest proof
  verifies; two accepting proofs with the same commitment and two different challenges force the
  statement (special soundness, the two challenges being the answers of two hash functions);
  encodings round-trip; the recipient recovers the share.
\<close>

subsection \<open>Shared shapes\<close>

text \<open>
  \<^verbatim>\<open>pointEq(lhs, pointAdd(a, mulPoint(y, e)))\<close>, the comparison each verifier makes, and the sum
  \<^verbatim>\<open>pointAdd(mulPoint(p, k), mulPoint(q, l))\<close> (with \<open>p\<close> the base point where the code calls
  \<^verbatim>\<open>mulBase(k)\<close>). Scalar multiplication throws on the scalar 0.
\<close>

definition checkRelation :: "'p curve \<Rightarrow> 'p fallible \<Rightarrow> 'p \<Rightarrow> 'p \<Rightarrow> int \<Rightarrow> bool fallible" where
  "checkRelation C lhs a y e =
     rbind lhs (\<lambda>l. rbind (mulPoint C y e) (\<lambda>m. Inr (pointEq C l (pointAdd C a m))))"

definition mulAdd :: "'p curve \<Rightarrow> 'p \<Rightarrow> int \<Rightarrow> 'p \<Rightarrow> int \<Rightarrow> 'p fallible" where
  "mulAdd C p k q l = rbind (mulPoint C p k) (\<lambda>a. rbind (mulPoint C q l) (\<lambda>b. Inr (pointAdd C a b)))"

text \<open>\<^verbatim>\<open>if (!check) return false;\<close>\<close>

definition andThen :: "bool fallible \<Rightarrow> bool fallible \<Rightarrow> bool fallible" where
  "andThen c k = rbind c (\<lambda>ok. if ok then k else Inr False)"

subsection \<open>Chaum-Pedersen\<close>

record 'p ChaumPedersenProof =
  cp_a :: 'p
  cp_b :: 'p
  cp_s :: int

definition CP_DOMAIN :: string where "CP_DOMAIN = ''ocp/v1/chaum-pedersen-eqdl''"

definition cpChallenge :: "'p curve \<Rightarrow> hash \<Rightarrow> 'p \<Rightarrow> 'p \<Rightarrow> 'p \<Rightarrow> 'p \<Rightarrow> 'p \<Rightarrow> int fallible" where
  "cpChallenge C sha512 y c1 d a b =
     transcriptChallenge sha512 CP_DOMAIN
       [(''y'', groupElementToBytes C y), (''c1'', groupElementToBytes C c1),
        (''d'', groupElementToBytes C d), (''a'', groupElementToBytes C a),
        (''b'', groupElementToBytes C b)] ''e''"

definition chaumPedersenProve ::
  "'p curve \<Rightarrow> hash \<Rightarrow> 'p \<Rightarrow> 'p \<Rightarrow> 'p \<Rightarrow> int \<Rightarrow> int \<Rightarrow> 'p ChaumPedersenProof fallible" where
  "chaumPedersenProve C sha512 y c1 d x w =
     rbind (assertScalar x) (\<lambda>_. rbind (assertScalar w) (\<lambda>_.
     rbind (mulBase C w) (\<lambda>a. rbind (mulPoint C c1 w) (\<lambda>b.
     rbind (cpChallenge C sha512 y c1 d a b) (\<lambda>e.
     Inr \<lparr>cp_a = a, cp_b = b, cp_s = scalarAdd w (scalarMul e x)\<rparr>)))))"

definition chaumPedersenVerify ::
  "'p curve \<Rightarrow> hash \<Rightarrow> 'p \<Rightarrow> 'p \<Rightarrow> 'p \<Rightarrow> 'p ChaumPedersenProof \<Rightarrow> bool fallible" where
  "chaumPedersenVerify C sha512 y c1 d prf =
     (let a = cp_a prf; b = cp_b prf; s = cp_s prf in
      rbind (assertScalar s) (\<lambda>_.
      rbind (cpChallenge C sha512 y c1 d a b) (\<lambda>e.
      andThen (checkRelation C (mulBase C s) a y e)
     (andThen (checkRelation C (mulPoint C c1 s) b d e)
      (Inr True)))))"

definition encodeChaumPedersenProof :: "'p curve \<Rightarrow> 'p ChaumPedersenProof \<Rightarrow> byte list fallible" where
  "encodeChaumPedersenProof C p =
     rbind (scalarToBytes (cp_s p)) (\<lambda>s.
     Inr (groupElementToBytes C (cp_a p) @ groupElementToBytes C (cp_b p) @ s))"

definition decodeChaumPedersenProof :: "'p curve \<Rightarrow> byte list \<Rightarrow> 'p ChaumPedersenProof fallible" where
  "decodeChaumPedersenProof C bytes =
     (if length bytes \<noteq> 32 + 32 + 32 then Inl ''decodeChaumPedersenProof: expected 96 bytes''
      else
      rbind (groupElementFromBytes C (slice 0 32 bytes)) (\<lambda>a.
      rbind (groupElementFromBytes C (slice 32 64 bytes)) (\<lambda>b.
      rbind (scalarFromBytes (slice 64 96 bytes)) (\<lambda>s.
      Inr \<lparr>cp_a = a, cp_b = b, cp_s = s\<rparr>))))"

subsection \<open>Encrypted decryption shares\<close>

text \<open>Both share proofs carry three commitments and two responses (\<^verbatim>\<open>sx\<close> or \<^verbatim>\<open>ss\<close>, and \<^verbatim>\<open>sr\<close>).\<close>

record 'p EncShareProof =
  es_a1 :: 'p
  es_a2 :: 'p
  es_a3 :: 'p
  es_sx :: int
  es_sr :: int

definition ENC_SHARE_DOMAIN :: string where "ENC_SHARE_DOMAIN = ''ocp/v1/dealer/encshare''"

definition encShareChallenge ::
  "'p curve \<Rightarrow> hash \<Rightarrow> 'p \<Rightarrow> 'p \<Rightarrow> 'p \<Rightarrow> 'p \<Rightarrow> 'p \<Rightarrow> 'p \<Rightarrow> 'p \<Rightarrow> 'p \<Rightarrow> int fallible" where
  "encShareChallenge C sha512 y c1 pkP u v a1 a2 a3 =
     transcriptChallenge sha512 ENC_SHARE_DOMAIN
       [(''Y'', groupElementToBytes C y), (''C1'', groupElementToBytes C c1),
        (''PKP'', groupElementToBytes C pkP), (''U'', groupElementToBytes C u),
        (''V'', groupElementToBytes C v), (''A1'', groupElementToBytes C a1),
        (''A2'', groupElementToBytes C a2), (''A3'', groupElementToBytes C a3)] ''e''"

definition encShareProve ::
  "'p curve \<Rightarrow> hash \<Rightarrow> 'p \<Rightarrow> 'p \<Rightarrow> 'p \<Rightarrow> 'p \<Rightarrow> 'p \<Rightarrow> int \<Rightarrow> int \<Rightarrow> int \<Rightarrow> int \<Rightarrow> 'p EncShareProof fallible" where
  "encShareProve C sha512 y c1 pkP u v x r wx wr =
     rbind (assertScalar x) (\<lambda>_. rbind (assertScalar r) (\<lambda>_.
     rbind (assertScalar wx) (\<lambda>_. rbind (assertScalar wr) (\<lambda>_.
     if wx = 0 \<or> wr = 0 then Inl ''encShareProve: nonces must be non-zero''
     else
     rbind (mulBase C wx) (\<lambda>a1. rbind (mulBase C wr) (\<lambda>a2. rbind (mulAdd C c1 wx pkP wr) (\<lambda>a3.
     rbind (encShareChallenge C sha512 y c1 pkP u v a1 a2 a3) (\<lambda>e.
     Inr \<lparr>es_a1 = a1, es_a2 = a2, es_a3 = a3,
          es_sx = scalarAdd wx (scalarMul e x), es_sr = scalarAdd wr (scalarMul e r)\<rparr>))))))))"

definition encShareVerify ::
  "'p curve \<Rightarrow> hash \<Rightarrow> 'p \<Rightarrow> 'p \<Rightarrow> 'p \<Rightarrow> 'p \<Rightarrow> 'p \<Rightarrow> 'p EncShareProof \<Rightarrow> bool fallible" where
  "encShareVerify C sha512 y c1 pkP u v prf =
     (let a1 = es_a1 prf; a2 = es_a2 prf; a3 = es_a3 prf; sx = es_sx prf; sr = es_sr prf in
      rbind (assertScalar sx) (\<lambda>_. rbind (assertScalar sr) (\<lambda>_.
      rbind (encShareChallenge C sha512 y c1 pkP u v a1 a2 a3) (\<lambda>e.
      andThen (checkRelation C (mulBase C sx) a1 y e)
     (andThen (checkRelation C (mulBase C sr) a2 u e)
     (andThen (checkRelation C (mulAdd C c1 sx pkP sr) a3 v e)
      (Inr True)))))))"

definition encodeEncShareProof :: "'p curve \<Rightarrow> 'p EncShareProof \<Rightarrow> byte list fallible" where
  "encodeEncShareProof C p =
     rbind (scalarToBytes (es_sx p)) (\<lambda>sx. rbind (scalarToBytes (es_sr p)) (\<lambda>sr.
     Inr (groupElementToBytes C (es_a1 p) @ groupElementToBytes C (es_a2 p) @ groupElementToBytes C (es_a3 p)
          @ sx @ sr)))"

definition decodeEncShareProof :: "'p curve \<Rightarrow> byte list \<Rightarrow> 'p EncShareProof fallible" where
  "decodeEncShareProof C bytes =
     (if length bytes \<noteq> 160 then Inl ''decodeEncShareProof: expected 160 bytes''
      else
      rbind (groupElementFromBytes C (slice 0 32 bytes)) (\<lambda>a1.
      rbind (groupElementFromBytes C (slice 32 64 bytes)) (\<lambda>a2.
      rbind (groupElementFromBytes C (slice 64 96 bytes)) (\<lambda>a3.
      rbind (scalarFromBytes (slice 96 128 bytes)) (\<lambda>sx.
      rbind (scalarFromBytes (slice 128 160 bytes)) (\<lambda>sr.
      Inr \<lparr>es_a1 = a1, es_a2 = a2, es_a3 = a3, es_sx = sx, es_sr = sr\<rparr>))))))"

subsection \<open>Encrypted key shares\<close>

definition DKG_ENC_SHARE_DOMAIN :: string where "DKG_ENC_SHARE_DOMAIN = ''ocp/v1/dkg/encshare''"

definition validIndex :: "js_number \<Rightarrow> bool" where
  "validIndex j \<longleftrightarrow> \<not> (\<not> isInteger j \<or> j < 1 \<or> 0xffffffff < j)"

fun evalLoop :: "'p curve \<Rightarrow> int \<Rightarrow> 'p list \<Rightarrow> int \<Rightarrow> 'p \<Rightarrow> 'p fallible" where
  "evalLoop C jScalar [] pow acc = Inr acc"
| "evalLoop C jScalar (c # cs) pow acc =
     rbind (mulPoint C c pow) (\<lambda>m. evalLoop C jScalar cs (scalarMul pow jScalar) (pointAdd C acc m))"

definition evalCommitments :: "'p curve \<Rightarrow> 'p list \<Rightarrow> js_number \<Rightarrow> 'p fallible" where
  "evalCommitments C commitments j =
     (if commitments = [] then Inl ''evalCommitments: commitments must be a non-empty array''
      else if \<not> validIndex j then Inl ''evalCommitments: j must be a uint32 >= 1''
      else evalLoop C \<lfloor>j\<rfloor> commitments 1 (zeroPoint C))"

definition appendStatement ::
  "'p curve \<Rightarrow> byte list \<Rightarrow> 'p list \<Rightarrow> js_number \<Rightarrow> 'p \<Rightarrow> 'p \<Rightarrow> 'p \<Rightarrow> byte list fallible" where
  "appendStatement C tr commitments j pkR u v =
     rbind (u32le (of_nat (length commitments))) (\<lambda>t.
     rbind (appendMessage tr ''t'' t) (\<lambda>tr.
     rbind (appendAll tr (map (\<lambda>k. (''C'' @ showNat k, groupElementToBytes C (commitments ! k)))
                            [0..<length commitments])) (\<lambda>tr.
     rbind (u32le j) (\<lambda>jb.
     appendAll tr [(''j'', jb), (''pkR'', groupElementToBytes C pkR),
                   (''U'', groupElementToBytes C u), (''V'', groupElementToBytes C v)]))))"

definition dkgEncShareChallenge ::
  "'p curve \<Rightarrow> hash \<Rightarrow> 'p list \<Rightarrow> js_number \<Rightarrow> 'p \<Rightarrow> 'p \<Rightarrow> 'p \<Rightarrow> 'p \<Rightarrow> 'p \<Rightarrow> 'p \<Rightarrow> int fallible" where
  "dkgEncShareChallenge C sha512 commitments j pkR u v a1 a2 a3 =
     rbind (newTranscript DKG_ENC_SHARE_DOMAIN) (\<lambda>tr.
     rbind (appendStatement C tr commitments j pkR u v) (\<lambda>tr.
     rbind (appendAll tr [(''A1'', groupElementToBytes C a1), (''A2'', groupElementToBytes C a2),
                          (''A3'', groupElementToBytes C a3)]) (\<lambda>tr.
     rbind (challengeScalar sha512 tr ''e'') (\<lambda>r. Inr (fst r)))))"

definition dkgEncShareProve ::
  "'p curve \<Rightarrow> hash \<Rightarrow> 'p list \<Rightarrow> js_number \<Rightarrow> 'p \<Rightarrow> 'p \<Rightarrow> 'p \<Rightarrow> int \<Rightarrow> int \<Rightarrow> int \<Rightarrow> int \<Rightarrow> 'p EncShareProof fallible" where
  "dkgEncShareProve C sha512 commitments j pkR u v s r ws wr =
     rbind (assertScalar s) (\<lambda>_. rbind (assertScalar r) (\<lambda>_.
     rbind (assertScalar ws) (\<lambda>_. rbind (assertScalar wr) (\<lambda>_.
     if ws = 0 \<or> wr = 0 then Inl ''dkgEncShareProve: nonces must be non-zero''
     else if commitments = [] then Inl ''dkgEncShareProve: commitments must be a non-empty array''
     else if \<not> validIndex j then Inl ''dkgEncShareProve: j must be a uint32 >= 1''
     else
     rbind (mulBase C ws) (\<lambda>a1. rbind (mulBase C wr) (\<lambda>a2.
     rbind (mulAdd C (basePoint C) ws pkR wr) (\<lambda>a3.
     rbind (dkgEncShareChallenge C sha512 commitments j pkR u v a1 a2 a3) (\<lambda>e.
     Inr \<lparr>es_a1 = a1, es_a2 = a2, es_a3 = a3,
          es_sx = scalarAdd ws (scalarMul e s), es_sr = scalarAdd wr (scalarMul e r)\<rparr>))))))))"

definition dkgEncShareVerify ::
  "'p curve \<Rightarrow> hash \<Rightarrow> 'p list \<Rightarrow> js_number \<Rightarrow> 'p \<Rightarrow> 'p \<Rightarrow> 'p \<Rightarrow> 'p EncShareProof \<Rightarrow> bool fallible" where
  "dkgEncShareVerify C sha512 commitments j pkR u v prf =
     (let a1 = es_a1 prf; a2 = es_a2 prf; a3 = es_a3 prf; ss = es_sx prf; sr = es_sr prf in
      rbind (assertScalar ss) (\<lambda>_. rbind (assertScalar sr) (\<lambda>_.
      if commitments = [] then Inr False
      else if \<not> validIndex j then Inr False
      else case evalCommitments C commitments j of
        Inl _ \<Rightarrow> Inr False
      | Inr evalJ \<Rightarrow>
          rbind (dkgEncShareChallenge C sha512 commitments j pkR u v a1 a2 a3) (\<lambda>e.
          andThen (checkRelation C (mulBase C ss) a1 evalJ e)
         (andThen (checkRelation C (mulBase C sr) a2 u e)
         (andThen (checkRelation C (mulAdd C (basePoint C) ss pkR sr) a3 v e)
          (Inr True)))))))"

definition DKG_ENC_SHARE_PROOF_BYTES :: nat where "DKG_ENC_SHARE_PROOF_BYTES = 160"

definition encodeDkgEncShareProof :: "'p curve \<Rightarrow> 'p EncShareProof \<Rightarrow> byte list fallible" where
  "encodeDkgEncShareProof C p =
     rbind (scalarToBytes (es_sx p)) (\<lambda>ss. rbind (scalarToBytes (es_sr p)) (\<lambda>sr.
     Inr (groupElementToBytes C (es_a1 p) @ groupElementToBytes C (es_a2 p) @ groupElementToBytes C (es_a3 p)
          @ ss @ sr)))"

definition decodeDkgEncShareProof :: "'p curve \<Rightarrow> byte list \<Rightarrow> 'p EncShareProof fallible" where
  "decodeDkgEncShareProof C bytes =
     (if length bytes \<noteq> DKG_ENC_SHARE_PROOF_BYTES then Inl ''decodeDkgEncShareProof: expected 160 bytes''
      else
      rbind (groupElementFromBytes C (slice 0 32 bytes)) (\<lambda>a1.
      rbind (groupElementFromBytes C (slice 32 64 bytes)) (\<lambda>a2.
      rbind (groupElementFromBytes C (slice 64 96 bytes)) (\<lambda>a3.
      rbind (scalarFromBytes (slice 96 128 bytes)) (\<lambda>ss.
      rbind (scalarFromBytes (slice 128 160 bytes)) (\<lambda>sr.
      Inr \<lparr>es_a1 = a1, es_a2 = a2, es_a3 = a3, es_sx = ss, es_sr = sr\<rparr>))))))"

subsection \<open>Delivery of the share scalar\<close>

definition DKG_SCALAR_AEAD_KEY_DOMAIN :: string where
  "DKG_SCALAR_AEAD_KEY_DOMAIN = ''ocp/v1/dkg/scalar-aead/v1''"

definition DKG_SCALAR_AEAD_CT_BYTES :: nat where "DKG_SCALAR_AEAD_CT_BYTES = 48"

definition AEAD_IV :: "byte list" where "AEAD_IV = replicate 12 0"

definition deriveAeadKey :: "'p curve \<Rightarrow> hash \<Rightarrow> 'p \<Rightarrow> byte list" where
  "deriveAeadKey C sha256 dh = sha256 (utf8 DKG_SCALAR_AEAD_KEY_DOMAIN @ groupElementToBytes C dh)"

definition encryptShareScalar ::
  "'p curve \<Rightarrow> hash \<Rightarrow> (byte list \<Rightarrow> byte list \<Rightarrow> byte list \<Rightarrow> byte list \<Rightarrow> byte list)
   \<Rightarrow> 'p \<Rightarrow> int \<Rightarrow> int \<Rightarrow> byte list \<Rightarrow> byte list fallible" where
  "encryptShareScalar C sha256 gcmEncrypt pkR r s proofBytes =
     rbind (mulPoint C pkR r) (\<lambda>dh.
     rbind (scalarToBytes s) (\<lambda>pt.
     let ct = gcmEncrypt (deriveAeadKey C sha256 dh) AEAD_IV proofBytes pt in
     if length ct \<noteq> DKG_SCALAR_AEAD_CT_BYTES then Inl ''encryptShareScalar: unexpected ct length''
     else Inr ct))"

definition decryptShareScalar ::
  "'p curve \<Rightarrow> hash \<Rightarrow> (byte list \<Rightarrow> byte list \<Rightarrow> byte list \<Rightarrow> byte list \<Rightarrow> byte list fallible)
   \<Rightarrow> int \<Rightarrow> 'p \<Rightarrow> byte list \<Rightarrow> byte list \<Rightarrow> int fallible" where
  "decryptShareScalar C sha256 gcmDecrypt skR u proofBytes ct =
     (if length ct \<noteq> DKG_SCALAR_AEAD_CT_BYTES then Inl ''decryptShareScalar: ct must be 48 bytes''
      else rbind (mulPoint C u skR) (\<lambda>dh.
      rbind (gcmDecrypt (deriveAeadKey C sha256 dh) AEAD_IV proofBytes ct) (\<lambda>pt.
      if length pt \<noteq> 32 then Inl ''decryptShareScalar: unexpected plaintext length''
      else scalarFromBytes pt)))"

subsection \<open>The algebra of the checks\<close>

abbreviation eqmod :: "int \<Rightarrow> int \<Rightarrow> bool" where
  "eqmod a b \<equiv> a mod CURVE_ORDER = b mod CURVE_ORDER"

lemma andThen_True: "andThen c k = Inr True \<longleftrightarrow> c = Inr True \<and> k = Inr True"
  by (auto simp: andThen_def rbind_Inr_iff split: if_splits)

lemma checkRelation_True:
  assumes "ristretto C dl"
  shows "checkRelation C lhs a y e = Inr True \<longleftrightarrow>
    nonzero_scalar e \<and> (\<exists>l. lhs = Inr l \<and> eqmod (dl l) (dl a + e * dl y))"
proof -
  note R = ristrettoD [OF assms]
  have l: "dl P mod CURVE_ORDER = dl P" for P using R(1,2) by (simp add: mod_pos_pos_trivial)
  show ?thesis
  proof (cases "nonzero_scalar e")
    case True
    then obtain m where "mulPoint C y e = Inr m" "dl m = (e * dl y) mod CURVE_ORDER"
      using mulPoint_ok [OF assms] by blast
    then show ?thesis using True by (auto simp: checkRelation_def rbind_Inr_iff R l mod_simps)
  next
    case False
    then show ?thesis using mulPoint_Inr(1) [OF assms] by (fastforce simp: checkRelation_def rbind_Inr_iff)
  qed
qed

lemma mulAdd_Inr:
  assumes "ristretto C dl" and "mulAdd C p k q l = Inr R"
  shows "nonzero_scalar k" and "nonzero_scalar l" and "eqmod (dl R) (k * dl p + l * dl q)"
proof -
  obtain a b where ab: "mulPoint C p k = Inr a" "mulPoint C q l = Inr b" "R = pointAdd C a b"
    using assms(2) by (auto simp: mulAdd_def rbind_Inr_iff)
  show "nonzero_scalar k" "nonzero_scalar l" by (rule mulPoint_Inr [OF assms(1) ab(1)], rule mulPoint_Inr [OF assms(1) ab(2)])
  show "eqmod (dl R) (k * dl p + l * dl q)"
    using mulPoint_Inr(2) [OF assms(1) ab(1)] mulPoint_Inr(2) [OF assms(1) ab(2)]
    by (simp add: ab(3) ristretto_add [OF assms(1)] mod_simps)
qed

lemma mulAdd_ok:
  assumes "ristretto C dl" and "nonzero_scalar k" and "nonzero_scalar l"
  obtains R where "mulAdd C p k q l = Inr R" and "eqmod (dl R) (k * dl p + l * dl q)"
proof -
  obtain a b where "mulPoint C p k = Inr a" "mulPoint C q l = Inr b"
    using mulPoint_ok [OF assms(1,2)] mulPoint_ok [OF assms(1,3)] by metis
  then have m: "mulAdd C p k q l = Inr (pointAdd C a b)" by (simp add: mulAdd_def)
  show thesis by (rule that [OF m mulAdd_Inr(3) [OF assms(1) m]])
qed

lemma scalar_response: "scalarAdd w (scalarMul e x) = (w + e * x) mod CURVE_ORDER"
  by (simp add: scalar_arith mod_simps)

lemma challengeScalar_range:
  assumes "challengeScalar H h l = Inr r"
  shows "0 \<le> fst r" and "fst r < CURVE_ORDER"
  using assms by (auto simp: challengeScalar_def Let_def scalarFromBytesModOrder_def split: if_splits)

lemma challenge_range:
  assumes "transcriptChallenge H d ms l = Inr e"
  shows "0 \<le> e" and "e < CURVE_ORDER"
  using assms challengeScalar_range unfolding transcriptChallenge_def rbind_Inr_iff by blast+

lemma nonzero_scalarI:
  "scalarAdd a b \<noteq> 0 \<Longrightarrow> nonzero_scalar (scalarAdd a b)" "scalarMul a b \<noteq> 0 \<Longrightarrow> nonzero_scalar (scalarMul a b)"
  using scalar_range(3,4) [of a b] scalar_range(7,8) [of a b] by linarith+

lemma sigma_response:
  assumes "eqmod b (w * c + v * p)" and "eqmod d (x * c + r * p)"
    and "s = (w + e * x) mod CURVE_ORDER" and "t = (v + e * r) mod CURVE_ORDER"
  shows "eqmod (s * c + t * p) (b + e * d)"
proof -
  have "eqmod (s * c + t * p) ((w + e * x) * c + (v + e * r) * p)"
    unfolding assms(3,4) by (intro mod_add_cong mod_mult_cong mod_mod_trivial refl)
  also have "(w + e * x) * c + (v + e * r) * p = (w * c + v * p) + e * (x * c + r * p)" by (simp add: algebra_simps)
  also have "eqmod \<dots> (b + e * d)" using assms(1,2) by (intro mod_add_cong mod_mult_cong) simp_all
  finally show ?thesis .
qed

text \<open>Special soundness: subtracting two accepting transcripts and cancelling the challenge difference.\<close>

lemma coprime_cancel:
  assumes "coprime k CURVE_ORDER" and "CURVE_ORDER dvd k * z"
  shows "CURVE_ORDER dvd z"
  using assms by (simp add: coprime_commute coprime_dvd_mult_right_iff)

lemma sigma_extract:
  assumes "coprime (e - e') CURVE_ORDER"
    and "eqmod s (a1 + e * y)" and "eqmod s' (a1 + e' * y)"
    and "eqmod r (a2 + e * u)" and "eqmod r' (a2 + e' * u)"
    and "eqmod (s * c + r * p) (a3 + e * v)" and "eqmod (s' * c + r' * p) (a3 + e' * v)"
  shows "eqmod v (y * c + u * p)"
proof -
  let ?q = CURVE_ORDER
  have d: "?q dvd s - (a1 + e * y)" "?q dvd s' - (a1 + e' * y)" "?q dvd r - (a2 + e * u)" "?q dvd r' - (a2 + e' * u)"
    "?q dvd (s * c + r * p) - (a3 + e * v)" "?q dvd (s' * c + r' * p) - (a3 + e' * v)"
    using assms(2-7) by (simp_all add: mod_eq_dvd_iff)
  have "?q dvd ((s - (a1 + e * y)) - (s' - (a1 + e' * y))) * c + ((r - (a2 + e * u)) - (r' - (a2 + e' * u))) * p
      - (((s * c + r * p) - (a3 + e * v)) - ((s' * c + r' * p) - (a3 + e' * v)))"
    by (intro dvd_diff dvd_add dvd_mult2 d)
  also have "\<dots> = (e - e') * (v - (y * c + u * p))" by (simp add: algebra_simps)
  finally have "?q dvd v - (y * c + u * p)" by (rule coprime_cancel [OF assms(1)])
  then show ?thesis by (simp only: mod_eq_dvd_iff)
qed

subsection \<open>Chaum-Pedersen: completeness and soundness\<close>

lemma cpVerify_True:
  assumes "ristretto C dl"
  shows "chaumPedersenVerify C H y c1 d p = Inr True \<longleftrightarrow>
    nonzero_scalar (cp_s p) \<and> (\<exists>e. cpChallenge C H y c1 d (cp_a p) (cp_b p) = Inr e \<and> nonzero_scalar e
      \<and> eqmod (cp_s p) (dl (cp_a p) + e * dl y) \<and> eqmod (cp_s p * dl c1) (dl (cp_b p) + e * dl d))"
    (is "?l \<longleftrightarrow> ?r")
proof
  assume ?l
  then obtain e l m where "cpChallenge C H y c1 d (cp_a p) (cp_b p) = Inr e" "nonzero_scalar e"
    and l: "mulBase C (cp_s p) = Inr l" "eqmod (dl l) (dl (cp_a p) + e * dl y)"
    and m: "mulPoint C c1 (cp_s p) = Inr m" "eqmod (dl m) (dl (cp_b p) + e * dl d)"
    unfolding chaumPedersenVerify_def Let_def rbind_Inr_iff andThen_True checkRelation_True [OF assms] by blast
  then show ?r using mulBase_Inr [OF assms l(1)] mulPoint_Inr [OF assms m(1)] by simp
next
  assume r: ?r
  then obtain e where e: "cpChallenge C H y c1 d (cp_a p) (cp_b p) = Inr e" "nonzero_scalar e"
     "eqmod (cp_s p) (dl (cp_a p) + e * dl y)" "eqmod (cp_s p * dl c1) (dl (cp_b p) + e * dl d)" by blast
  obtain l where l: "mulBase C (cp_s p) = Inr l" "dl l = cp_s p" using r mulBase_ok [OF assms] by blast
  obtain m where m: "mulPoint C c1 (cp_s p) = Inr m" "dl m = (cp_s p * dl c1) mod CURVE_ORDER"
    using r mulPoint_ok [OF assms] by blast
  have "assertScalar (cp_s p) = Inr ()" using r by (simp add: assertScalar_def)
  moreover have "checkRelation C (mulBase C (cp_s p)) (cp_a p) y e = Inr True"
      "checkRelation C (mulPoint C c1 (cp_s p)) (cp_b p) d e = Inr True"
    unfolding checkRelation_True [OF assms] using e l m by auto
  ultimately show ?l by (simp add: chaumPedersenVerify_def e(1) andThen_def)
qed

lemma zq_cpChallenge: "cpChallenge zq_curve (constHash b) y c1 d a a' = Inr (uint b)"
  unfolding cpChallenge_def
  by (rule constHash_transcript)
    (simp_all add: small_msg_def CP_DOMAIN_def utf8_def utf8Char_def ristretto_width [OF zq_ristretto])

lemma zq_challenges: "coprime (uint (1 :: byte) - uint (2 :: byte)) CURVE_ORDER"
proof -
  have "uint (1 :: byte) - uint (2 :: byte) = - 1" by simp
  then show ?thesis by (simp only: coprime_minus_left_iff coprime_1_left)
qed

lemma zq_cpVerify:
  "chaumPedersenVerify zq_curve (constHash 1) 3 5 15 \<lparr>cp_a = 2, cp_b = 10, cp_s = 5\<rparr> = Inr True"
  "chaumPedersenVerify zq_curve (constHash 2) 3 5 15 \<lparr>cp_a = 2, cp_b = 10, cp_s = 8\<rparr> = Inr True"
  unfolding cpVerify_True [OF zq_ristretto] zq_cpChallenge by (simp_all add: CURVE_ORDER_def)

text \<open>
  A Chaum-Pedersen proof made by the prover for a true statement is accepted by the verifier,
  unless the challenge or the response is the scalar 0.
\<close>

theorem chaumPedersen_complete:
  assumes "ristretto C dl" and "mulBase C x = Inr y" and "mulPoint C c1 x = Inr d"
    and "chaumPedersenProve C H y c1 d x w = Inr p"
    and "cpChallenge C H y c1 d (cp_a p) (cp_b p) \<noteq> Inr 0" and "cp_s p \<noteq> 0"
  shows "chaumPedersenVerify C H y c1 d p = Inr True"
proof -
  obtain a b e where p: "mulBase C w = Inr a" "mulPoint C c1 w = Inr b" "cpChallenge C H y c1 d a b = Inr e"
    and p': "p = \<lparr>cp_a = a, cp_b = b, cp_s = scalarAdd w (scalarMul e x)\<rparr>"
    using assms(4) unfolding chaumPedersenProve_def rbind_Inr_iff by blast
  have s: "cp_s p = (w + e * x) mod CURVE_ORDER" by (simp add: p' scalar_response)
  have e: "0 \<le> e" "e < CURVE_ORDER" using challenge_range [OF p(3) [unfolded cpChallenge_def]] by simp_all
  show ?thesis
    unfolding cpVerify_True [OF assms(1)]
  proof (intro conjI exI)
    show "1 \<le> cp_s p" using assms(6) s CURVE_ORDER_pos pos_mod_sign [of CURVE_ORDER "w + e * x"] by linarith
    show "cp_s p < CURVE_ORDER" unfolding s by (rule pos_mod_bound [OF CURVE_ORDER_pos(1)])
    show "cpChallenge C H y c1 d (cp_a p) (cp_b p) = Inr e" using p(3) by (simp add: p')
    show "1 \<le> e" using assms(5) p(3) e(1) by (cases "e = 0") (simp_all add: p')
    show "e < CURVE_ORDER" by (rule e(2))
    show "eqmod (cp_s p) (dl (cp_a p) + e * dl y)"
      using s mulBase_Inr(2) [OF assms(1) p(1)] mulBase_Inr(2) [OF assms(1,2)] by (simp add: p')
    show "eqmod (cp_s p * dl c1) (dl (cp_b p) + e * dl d)"
      using sigma_response [of "dl b" w "dl c1" 0 0 "dl d" x 0 "cp_s p" e 0] s
        mulPoint_Inr(2) [OF assms(1) p(2)] mulPoint_Inr(2) [OF assms(1,3)] by (simp add: p')
  qed
qed

theorem chaumPedersen_complete_witness:
  "\<exists>p. chaumPedersenProve zq_curve (constHash 1) 3 5 15 3 2 = Inr p
     \<and> chaumPedersenVerify zq_curve (constHash 1) 3 5 15 p = Inr True"
proof -
  have p: "chaumPedersenProve zq_curve (constHash 1) 3 5 15 3 2 = Inr \<lparr>cp_a = 2, cp_b = 10, cp_s = 5\<rparr>"
    by (simp add: chaumPedersenProve_def zq_cpChallenge assertScalar_def mulBase_def mulPoint_def zq_ops
        scalar_response) (simp add: CURVE_ORDER_def)
  then show ?thesis
    using chaumPedersen_complete [OF zq_ristretto _ _ p] zq_cpChallenge [of 1]
    by (simp add: mulBase_def mulPoint_def zq_ops CURVE_ORDER_def)
qed

text \<open>
  C22: special soundness of the Chaum-Pedersen verifier: if it accepts two proofs with the same
  commitments under two hash functions whose challenges differ by a unit of the scalar field, then the
  statement holds: \<open>d\<close> is the same multiple of \<open>c1\<close> as \<open>y\<close> is of the base point.
\<close>

theorem chaumPedersen_sound:
  assumes "ristretto C dl"
    and "chaumPedersenVerify C H y c1 d p = Inr True" and "chaumPedersenVerify C H' y c1 d p' = Inr True"
    and "cp_a p' = cp_a p" and "cp_b p' = cp_b p"
    and "cpChallenge C H y c1 d (cp_a p) (cp_b p) = Inr e" and "cpChallenge C H' y c1 d (cp_a p) (cp_b p) = Inr e'"
    and "coprime (e - e') CURVE_ORDER"
  shows "dl d = (dl y * dl c1) mod CURVE_ORDER"
proof -
  have "eqmod (cp_s p) (dl (cp_a p) + e * dl y)" "eqmod (cp_s p * dl c1) (dl (cp_b p) + e * dl d)"
    "eqmod (cp_s p') (dl (cp_a p) + e' * dl y)" "eqmod (cp_s p' * dl c1) (dl (cp_b p) + e' * dl d)"
    using assms(2-7) unfolding cpVerify_True [OF assms(1)] by auto
  then have "eqmod (dl d) (dl y * dl c1 + 0 * 0)"
    by (intro sigma_extract [OF assms(8), of "cp_s p" "dl (cp_a p)" _ "cp_s p'" 0 0 _ 0 _ _ "dl (cp_b p)"]) simp_all
  then show ?thesis using ristretto_range [OF assms(1), of d] by simp
qed

theorem chaumPedersen_sound_witness:
  "(15 :: int) mod CURVE_ORDER = (3 mod CURVE_ORDER * (5 mod CURVE_ORDER)) mod CURVE_ORDER"
  by (rule chaumPedersen_sound [OF zq_ristretto zq_cpVerify _ _ _ _ zq_challenges]) (simp_all only: zq_cpChallenge ChaumPedersenProof.simps)

subsection \<open>The share proofs\<close>

text \<open>
  The last part of both share verifiers, on the statement \<open>(y, c, pk, u, v)\<close>: for \<^verbatim>\<open>encShare.ts\<close> it is the
  statement itself, for \<^verbatim>\<open>dkgEncShare.ts\<close> \<open>y\<close> is the evaluated commitment and \<open>c\<close> the base point.
\<close>

definition shareChecks :: "'p curve \<Rightarrow> 'p \<Rightarrow> 'p \<Rightarrow> 'p \<Rightarrow> 'p \<Rightarrow> 'p \<Rightarrow> 'p EncShareProof \<Rightarrow> int \<Rightarrow> bool fallible" where
  "shareChecks C y c pk u v p e =
     andThen (checkRelation C (mulBase C (es_sx p)) (es_a1 p) y e)
    (andThen (checkRelation C (mulBase C (es_sr p)) (es_a2 p) u e)
    (andThen (checkRelation C (mulAdd C c (es_sx p) pk (es_sr p)) (es_a3 p) v e) (Inr True)))"

lemma shareChecks_True:
  assumes "ristretto C dl"
  shows "shareChecks C y c pk u v p e = Inr True \<longleftrightarrow>
    nonzero_scalar e \<and> nonzero_scalar (es_sx p) \<and> nonzero_scalar (es_sr p)
    \<and> eqmod (es_sx p) (dl (es_a1 p) + e * dl y) \<and> eqmod (es_sr p) (dl (es_a2 p) + e * dl u)
    \<and> eqmod (es_sx p * dl c + es_sr p * dl pk) (dl (es_a3 p) + e * dl v)" (is "?l \<longleftrightarrow> ?r")
proof
  assume ?l
  then obtain l m n where "nonzero_scalar e"
    and l: "mulBase C (es_sx p) = Inr l" "eqmod (dl l) (dl (es_a1 p) + e * dl y)"
    and m: "mulBase C (es_sr p) = Inr m" "eqmod (dl m) (dl (es_a2 p) + e * dl u)"
    and n: "mulAdd C c (es_sx p) pk (es_sr p) = Inr n" "eqmod (dl n) (dl (es_a3 p) + e * dl v)"
    unfolding shareChecks_def andThen_True checkRelation_True [OF assms] by blast
  then show ?r using mulBase_Inr [OF assms l(1)] mulBase_Inr [OF assms m(1)] mulAdd_Inr [OF assms n(1)] by simp
next
  assume r: ?r
  obtain l m n where "mulBase C (es_sx p) = Inr l" "dl l = es_sx p" "mulBase C (es_sr p) = Inr m" "dl m = es_sr p"
    "mulAdd C c (es_sx p) pk (es_sr p) = Inr n" "eqmod (dl n) (es_sx p * dl c + es_sr p * dl pk)"
    using r mulBase_ok [OF assms] mulAdd_ok [OF assms] by metis
  then show ?l unfolding shareChecks_def andThen_True checkRelation_True [OF assms] using r by auto
qed

lemma encShareVerify_shape:
  "encShareVerify C H y c1 pkP u v p =
     rbind (assertScalar (es_sx p)) (\<lambda>_. rbind (assertScalar (es_sr p)) (\<lambda>_.
     rbind (encShareChallenge C H y c1 pkP u v (es_a1 p) (es_a2 p) (es_a3 p)) (shareChecks C y c1 pkP u v p)))"
  by (simp add: encShareVerify_def shareChecks_def [abs_def] Let_def)

lemma dkgEncShareVerify_shape:
  assumes "evalCommitments C cs j = Inr z"
  shows "dkgEncShareVerify C H cs j pkR u v p =
     rbind (assertScalar (es_sx p)) (\<lambda>_. rbind (assertScalar (es_sr p)) (\<lambda>_.
     rbind (dkgEncShareChallenge C H cs j pkR u v (es_a1 p) (es_a2 p) (es_a3 p)) (shareChecks C z (basePoint C) pkR u v p)))"
  using assms by (auto simp: dkgEncShareVerify_def shareChecks_def [abs_def] Let_def evalCommitments_def split: if_splits)

text \<open>What the responses of an honest prover satisfy.\<close>

lemma share_complete:
  assumes R: "ristretto C dl" and "mulBase C x = Inr y" and "mulBase C r = Inr u" and "mulAdd C c x pk r = Inr v"
    and "mulBase C wx = Inr a1" and "mulBase C wr = Inr a2" and "mulAdd C c wx pk wr = Inr a3"
    and p: "p = \<lparr>es_a1 = a1, es_a2 = a2, es_a3 = a3, es_sx = scalarAdd wx (scalarMul e x), es_sr = scalarAdd wr (scalarMul e r)\<rparr>"
    and "nonzero_scalar e" and "es_sx p \<noteq> 0" and "es_sr p \<noteq> 0"
  shows "shareChecks C y c pk u v p e = Inr True"
proof -
  have s: "es_sx p = (wx + e * x) mod CURVE_ORDER" "es_sr p = (wr + e * r) mod CURVE_ORDER"
    by (simp_all add: p scalar_response)
  have n: "nonzero_scalar (es_sx p)" "nonzero_scalar (es_sr p)"
    using assms(10,11) by (simp_all only: p EncShareProof.simps nonzero_scalarI simp_thms)
  have "eqmod (dl v) (x * dl c + r * dl pk)" "eqmod (dl a3) (wx * dl c + wr * dl pk)"
    by (rule mulAdd_Inr(3) [OF R assms(4)], rule mulAdd_Inr(3) [OF R assms(7)])
  note sigma_response [OF this(2,1) s]
  moreover have "eqmod (es_sx p) (dl a1 + e * dl y)" "eqmod (es_sr p) (dl a2 + e * dl u)"
    using s mulBase_Inr(2) [OF R] assms(2,3,5,6) by simp_all
  ultimately show ?thesis unfolding shareChecks_True [OF R] using n assms(9) by (simp add: p)
qed

lemma share_sound:
  assumes "ristretto C dl" and "shareChecks C y c pk u v p e = Inr True" and "shareChecks C y c pk u v p' e' = Inr True"
    and "es_a1 p' = es_a1 p" and "es_a2 p' = es_a2 p" and "es_a3 p' = es_a3 p" and "coprime (e - e') CURVE_ORDER"
  shows "dl v = (dl y * dl c + dl u * dl pk) mod CURVE_ORDER"
proof -
  have "eqmod (dl v) (dl y * dl c + dl u * dl pk)"
    using assms(2-6) unfolding shareChecks_True [OF assms(1)]
    by (intro sigma_extract [OF assms(7), of "es_sx p" "dl (es_a1 p)" _ "es_sx p'" "es_sr p" "dl (es_a2 p)" _ "es_sr p'" _ _ "dl (es_a3 p)"]) simp_all
  then show ?thesis using ristretto_range [OF assms(1), of v] by simp
qed

subsection \<open>Feldman commitments\<close>

lemma evalLoop_Inr:
  assumes R: "ristretto C dl"
  shows "evalLoop C j cs pow acc = Inr z \<Longrightarrow>
    dl z = (dl acc + (\<Sum>k<length cs. dl (cs ! k) * (pow * j ^ k))) mod CURVE_ORDER"
proof (induction cs arbitrary: pow acc)
  case Nil
  then show ?case using ristretto_range [OF R, of z] by simp
next
  case (Cons c cs)
  then obtain m where m: "mulPoint C c pow = Inr m" "evalLoop C j cs (scalarMul pow j) (pointAdd C acc m) = Inr z"
    by (auto simp: rbind_Inr_iff)
  let ?S = "\<lambda>w. \<Sum>k<length cs. dl (cs ! k) * (w * j ^ k)"
  have lin: "?S w = w * ?S 1" for w by (simp add: sum_distrib_left mult.left_commute)
  have "dl z = (dl acc + pow * dl c + (pow * j) mod CURVE_ORDER * ?S 1) mod CURVE_ORDER"
    using Cons.IH [OF m(2)] mulPoint_Inr(2) [OF R m(1)] lin [of "scalarMul pow j"]
    by (simp add: ristretto_add [OF R] scalar_arith mod_simps)
  also have "\<dots> = (dl acc + pow * dl c + pow * j * ?S 1) mod CURVE_ORDER"
    by (intro mod_add_cong mod_mult_cong mod_mod_trivial refl)
  also have "pow * j * ?S 1 = (\<Sum>k<length cs. dl (cs ! k) * (pow * j ^ Suc k))"
    by (simp add: sum_distrib_left mult_ac)
  also have "dl acc + pow * dl c + (\<Sum>k<length cs. dl (cs ! k) * (pow * j ^ Suc k))
      = dl acc + (\<Sum>k<length (c # cs). dl ((c # cs) ! k) * (pow * j ^ k))"
    by (simp add: sum.lessThan_Suc_shift del: sum.lessThan_Suc)
  finally show ?case .
qed

lemma evalCommitments_Inr:
  assumes "ristretto C dl" and "evalCommitments C cs j = Inr z"
  shows "dl z = (\<Sum>k<length cs. dl (cs ! k) * \<lfloor>j\<rfloor> ^ k) mod CURVE_ORDER"
  using assms(2) evalLoop_Inr [OF assms(1), of "\<lfloor>j\<rfloor>" cs 1 "zeroPoint C" z]
  by (simp add: evalCommitments_def ristretto_zero [OF assms(1)] split: if_splits)

lemma evalLoop_ok:
  assumes R: "ristretto C dl" and j: "coprime j CURVE_ORDER"
  shows "coprime pow CURVE_ORDER \<Longrightarrow> nonzero_scalar pow \<Longrightarrow> \<exists>z. evalLoop C j cs pow acc = Inr z"
proof (induction cs arbitrary: pow acc)
  case (Cons c cs)
  obtain m where m: "mulPoint C c pow = Inr m" using mulPoint_ok [OF R Cons.prems(2)] by blast
  have c: "coprime (scalarMul pow j) CURVE_ORDER" using Cons.prems(1) j by (simp add: scalar_arith)
  moreover have "scalarMul pow j \<noteq> 0" using c by (auto simp: CURVE_ORDER_def)
  ultimately show ?case using m Cons.IH [OF c nonzero_scalarI(2), of "pointAdd C acc m"] by simp
qed simp

lemma zq_dkgChallenge:
  assumes "validIndex j" and "length cs < 10"
  shows "dkgEncShareChallenge zq_curve (constHash b) cs j pkR u v a1 a2 a3 = Inr (uint b)"
proof -
  note w = ristretto_width [OF zq_ristretto]
  obtain jb where jb: "u32le j = Inr jb" "length jb = 4"
    using assms(1) u32le_length [of j] by (auto simp: validIndex_def u32le_def Let_def)
  have t: "u32le (of_nat (length cs)) = Inr (fst (bytesLELoop (int (length cs)) 4))"
    unfolding u32le_nat using assms(2) by simp
  obtain h0 where h0: "newTranscript DKG_ENC_SHARE_DOMAIN = Inr h0"
    by (simp add: newTranscript_def updateLenBytes_Inr DKG_ENC_SHARE_DOMAIN_def utf8_def utf8Char_def)
  obtain h1 where h1: "appendMessage h0 ''t'' (fst (bytesLELoop (int (length cs)) 4)) = Inr h1"
    by (simp add: appendMessage_def rbind_Inr_iff updateLenBytes_Inr utf8_def utf8Char_def bytesLELoop_props)
  have "int (length (utf8 (''C'' @ showNat k))) < 2 ^ 32" if "k < 10" for k
    using that by (simp add: showNat.simps utf8_def utf8Char_def Let_def)
  then have "small_msg (''C'' @ showNat k, groupElementToBytes zq_curve (cs ! k))" if "k < length cs" for k
    using assms(2) that by (simp add: small_msg_def w)
  then obtain h2 where h2: "appendAll h1 (map (\<lambda>k. (''C'' @ showNat k, groupElementToBytes zq_curve (cs ! k))) [0..<length cs]) = Inr h2"
    by (simp add: appendAll_Inr)
  obtain h3 where h3: "appendAll h2 [(''j'', jb), (''pkR'', groupElementToBytes zq_curve pkR),
      (''U'', groupElementToBytes zq_curve u), (''V'', groupElementToBytes zq_curve v)] = Inr h3"
    by (simp add: appendAll_Inr small_msg_def w jb utf8_def utf8Char_def)
  obtain h4 where h4: "appendAll h3 [(''A1'', groupElementToBytes zq_curve a1), (''A2'', groupElementToBytes zq_curve a2),
      (''A3'', groupElementToBytes zq_curve a3)] = Inr h4"
    by (simp add: appendAll_Inr small_msg_def w utf8_def utf8Char_def)
  obtain h5 where "challengeScalar (constHash b) h4 ''e'' = Inr (uint b, h5)"
    using constHash_challenge [of "''e''"] by (auto simp: utf8_def utf8Char_def)
  then show ?thesis using h0 h1 h2 h3 h4 t jb(1) by (simp add: dkgEncShareChallenge_def appendStatement_def)
qed

lemma zq_dkgVerify:
  "dkgEncShareVerify zq_curve (constHash 1) [4, 6] 3 7 2 36 \<lparr>es_a1 = 1, es_a2 = 1, es_a3 = 8, es_sx = 23, es_sr = 3\<rparr> = Inr True"
  "dkgEncShareVerify zq_curve (constHash 2) [4, 6] 3 7 2 36 \<lparr>es_a1 = 1, es_a2 = 1, es_a3 = 8, es_sx = 45, es_sr = 5\<rparr> = Inr True"
proof -
  have j: "validIndex 3" by (simp add: validIndex_def)
  have e: "evalCommitments zq_curve [4, 6] 3 = Inr 22"
    by (simp add: evalCommitments_def j mulPoint_def pointAdd_def zeroPoint_def zq_ops scalar_arith) (simp add: CURVE_ORDER_def)
  have "shareChecks zq_curve 22 (basePoint zq_curve) 7 2 36 \<lparr>es_a1 = 1, es_a2 = 1, es_a3 = 8, es_sx = 23, es_sr = 3\<rparr> 1 = Inr True"
    "shareChecks zq_curve 22 (basePoint zq_curve) 7 2 36 \<lparr>es_a1 = 1, es_a2 = 1, es_a3 = 8, es_sx = 45, es_sr = 5\<rparr> 2 = Inr True"
    unfolding shareChecks_True [OF zq_ristretto] by (simp_all add: basePoint_def zq_ops CURVE_ORDER_def)
  then show "dkgEncShareVerify zq_curve (constHash 1) [4, 6] 3 7 2 36 \<lparr>es_a1 = 1, es_a2 = 1, es_a3 = 8, es_sx = 23, es_sr = 3\<rparr> = Inr True"
    "dkgEncShareVerify zq_curve (constHash 2) [4, 6] 3 7 2 36 \<lparr>es_a1 = 1, es_a2 = 1, es_a3 = 8, es_sx = 45, es_sr = 5\<rparr> = Inr True"
    unfolding dkgEncShareVerify_shape [OF e]
    by (simp_all add: zq_dkgChallenge j assertScalar_def) (simp_all add: CURVE_ORDER_def)
qed

text \<open>
  C21: an accepted key-share ciphertext delivers the committed share. If the verifier accepts two proofs
  with the same commitments under two hash functions whose challenges differ by a unit, the
  holder of the recipient key decrypts \<open>(U, V)\<close> to the point of the polynomial committed to by
  \<open>C_0, ..., C_{t-1}\<close>, evaluated at \<open>j\<close>.
\<close>

theorem dkgEncShare_sound:
  assumes "ristretto C dl" and "nonzero_scalar skR" and "mulBase C skR = Inr pkR"
    and "dkgEncShareVerify C H cs j pkR u v p = Inr True" and "dkgEncShareVerify C H' cs j pkR u v p' = Inr True"
    and "es_a1 p' = es_a1 p" and "es_a2 p' = es_a2 p" and "es_a3 p' = es_a3 p"
    and "dkgEncShareChallenge C H cs j pkR u v (es_a1 p) (es_a2 p) (es_a3 p) = Inr e"
    and "dkgEncShareChallenge C H' cs j pkR u v (es_a1 p) (es_a2 p) (es_a3 p) = Inr e'"
    and "coprime (e - e') CURVE_ORDER"
  shows "\<exists>m. elgamalDecrypt C skR \<lparr>ct_c1 = u, ct_c2 = v\<rparr> = Inr m
    \<and> dl m = (\<Sum>k<length cs. dl (cs ! k) * \<lfloor>j\<rfloor> ^ k) mod CURVE_ORDER"
proof -
  note R = ristrettoD [OF assms(1)]
  obtain z where z: "evalCommitments C cs j = Inr z"
    using assms(4) by (auto simp: dkgEncShareVerify_def Let_def split: if_splits sum.splits)
  have "shareChecks C z (basePoint C) pkR u v p e = Inr True" "shareChecks C z (basePoint C) pkR u v p' e' = Inr True"
    using assms(4-10) unfolding dkgEncShareVerify_shape [OF z] rbind_Inr_iff by auto
  from share_sound [OF assms(1) this assms(6-8,11)]
  have v: "dl v = (dl z + dl u * skR) mod CURVE_ORDER"
    using mulBase_Inr(2) [OF assms(1,3)] by (simp add: R)
  obtain n where n: "mulPoint C u skR = Inr n" "dl n = (skR * dl u) mod CURVE_ORDER"
    by (rule mulPoint_ok [OF assms(1,2)])
  have "dl (pointSub C v n) = dl z" using R(1,2) [of z] by (simp add: R v n(2) mod_simps mult.commute)
  then show ?thesis using evalCommitments_Inr [OF assms(1) z] n(1) by (simp add: elgamalDecrypt_def)
qed

theorem dkgEncShare_sound_witness:
  "\<exists>m. elgamalDecrypt zq_curve 7 \<lparr>ct_c1 = 2, ct_c2 = 36\<rparr> = Inr m
     \<and> m mod CURVE_ORDER = (\<Sum>k<length [4, 6 :: int]. ([4, 6] ! k) mod CURVE_ORDER * \<lfloor>3 :: js_number\<rfloor> ^ k) mod CURVE_ORDER"
  by (rule dkgEncShare_sound [OF zq_ristretto _ _ zq_dkgVerify _ _ _ _ _ zq_challenges])
    (simp_all add: zq_dkgChallenge validIndex_def mulBase_def zq_ops CURVE_ORDER_def)

subsection \<open>Proof encodings\<close>

lemma slice_cat: "a \<le> b \<Longrightarrow> b \<le> c \<Longrightarrow> slice a b xs @ slice b c xs = slice a c xs"
  using take_add [of "b - a" "c - b" "drop a xs"] by (simp add: slice_def)

lemma scalarToBytes_ok:
  assumes "0 \<le> s" and "s < CURVE_ORDER"
  obtains bs where "scalarToBytes s = Inr bs" and "length bs = 32" and "scalarFromBytes bs = Inr s"
  using scalar_codec.enc_width [of s] scalar_codec.dec_enc [of s] assms by (auto simp: SCALAR_BYTES_def)

lemma decodeChaumPedersen_canonical:
  assumes "ristretto C dl" and "decodeChaumPedersenProof C bs = Inr p"
  shows "encodeChaumPedersenProof C p = Inr bs"
proof -
  obtain a b s where "length bs = 96" and p: "p = \<lparr>cp_a = a, cp_b = b, cp_s = s\<rparr>"
    and d: "groupElementFromBytes C (slice 0 32 bs) = Inr a" "groupElementFromBytes C (slice 32 64 bs) = Inr b"
      "scalarFromBytes (slice 64 96 bs) = Inr s"
    using assms(2) by (auto simp: decodeChaumPedersenProof_def split: if_splits)
  then have "slice 0 32 bs @ slice 32 64 bs @ slice 64 96 bs = bs"
    by (simp add: slice_cat) (simp add: slice_def)
  then show ?thesis
    using scalar_codec.dec_canonical [OF d(3)] groupElement_canonical [OF d(1) assms(1)] groupElement_canonical [OF d(2) assms(1)]
    by (simp add: encodeChaumPedersenProof_def p)
qed

lemma decodeEncShare_canonical:
  assumes "ristretto C dl" and "decodeEncShareProof C bs = Inr p"
  shows "encodeEncShareProof C p = Inr bs"
proof -
  obtain a b c s t where "length bs = 160" and p: "p = \<lparr>es_a1 = a, es_a2 = b, es_a3 = c, es_sx = s, es_sr = t\<rparr>"
    and d: "groupElementFromBytes C (slice 0 32 bs) = Inr a" "groupElementFromBytes C (slice 32 64 bs) = Inr b"
      "groupElementFromBytes C (slice 64 96 bs) = Inr c"
      "scalarFromBytes (slice 96 128 bs) = Inr s" "scalarFromBytes (slice 128 160 bs) = Inr t"
    using assms(2) by (auto simp: decodeEncShareProof_def split: if_splits)
  then have "slice 0 32 bs @ slice 32 64 bs @ slice 64 96 bs @ slice 96 128 bs @ slice 128 160 bs = bs"
    by (simp add: slice_cat) (simp add: slice_def)
  then show ?thesis
    using scalar_codec.dec_canonical [OF d(4)] scalar_codec.dec_canonical [OF d(5)]
      groupElement_canonical [OF d(1) assms(1)] groupElement_canonical [OF d(2) assms(1)] groupElement_canonical [OF d(3) assms(1)]
    by (simp add: encodeEncShareProof_def p)
qed

lemma encodeEncShare_decodes:
  assumes "ristretto C dl" and "0 \<le> es_sx p" "es_sx p < CURVE_ORDER" and "0 \<le> es_sr p" "es_sr p < CURVE_ORDER"
  shows "\<exists>bs p'. encodeEncShareProof C p = Inr bs \<and> decodeEncShareProof C bs = Inr p'
    \<and> pointEq C (es_a1 p') (es_a1 p) \<and> pointEq C (es_a2 p') (es_a2 p) \<and> pointEq C (es_a3 p') (es_a3 p)
    \<and> es_sx p' = es_sx p \<and> es_sr p' = es_sr p"
proof -
  note R = ristrettoD [OF assms(1)]
  obtain x where x: "scalarToBytes (es_sx p) = Inr x" "length x = 32" "scalarFromBytes x = Inr (es_sx p)"
    by (rule scalarToBytes_ok [OF assms(2,3)])
  obtain y where y: "scalarToBytes (es_sr p) = Inr y" "length y = 32" "scalarFromBytes y = Inr (es_sr p)"
    by (rule scalarToBytes_ok [OF assms(4,5)])
  obtain a b c where "groupElementFromBytes C (groupElementToBytes C (es_a1 p)) = Inr a" "pointEq C a (es_a1 p)"
    "groupElementFromBytes C (groupElementToBytes C (es_a2 p)) = Inr b" "pointEq C b (es_a2 p)"
    "groupElementFromBytes C (groupElementToBytes C (es_a3 p)) = Inr c" "pointEq C c (es_a3 p)"
    using groupElement_round_trip [OF assms(1)] by metis
  then show ?thesis
    using x y R(9) [of "es_a1 p"] R(9) [of "es_a2 p"] R(9) [of "es_a3 p"]
    by (simp add: encodeEncShareProof_def decodeEncShareProof_def slice_def)
qed

lemma dkg_proof_codec:
  "encodeDkgEncShareProof = encodeEncShareProof"
  "decodeDkgEncShareProof C bs = Inr p \<longleftrightarrow> decodeEncShareProof C bs = Inr p"
  by (simp_all add: fun_eq_iff encodeDkgEncShareProof_def encodeEncShareProof_def decodeDkgEncShareProof_def
      decodeEncShareProof_def DKG_ENC_SHARE_PROOF_BYTES_def)



subsection \<open>Share delivery\<close>

text \<open>What the code relies on of AES-GCM: decryption inverts encryption, the tag adds 16 bytes.\<close>

definition gcm_ok where
  "gcm_ok gcmEncrypt gcmDecrypt \<longleftrightarrow>
     (\<forall>key iv aad pt. gcmDecrypt key iv aad (gcmEncrypt key iv aad pt) = Inr pt
        \<and> length (gcmEncrypt key iv aad pt) = length pt + 16)"

lemma share_scalar_transport:
  assumes R: "ristretto C dl" and G: "gcm_ok gcmEncrypt gcmDecrypt" and k: "nonzero_scalar skR" "nonzero_scalar r"
    and dl: "dl pkR = skR" "dl u = r" and s: "0 \<le> s" "s < CURVE_ORDER"
  obtains ct where "encryptShareScalar C sha256 gcmEncrypt pkR r s proofBytes = Inr ct"
    and "decryptShareScalar C sha256 gcmDecrypt skR u proofBytes ct = Inr s"
proof -
  obtain d where d: "mulPoint C pkR r = Inr d" "dl d = (r * skR) mod CURVE_ORDER"
    using mulPoint_ok [OF R k(2)] dl(1) by metis
  obtain d' where d': "mulPoint C u skR = Inr d'" "dl d' = (skR * r) mod CURVE_ORDER"
    using mulPoint_ok [OF R k(1)] dl(2) by metis
  have key: "deriveAeadKey C sha256 d' = deriveAeadKey C sha256 d"
    using ristretto_bytes [OF R, of d' d] d(2) d'(2) by (simp add: deriveAeadKey_def mult.commute)
  obtain b where b: "scalarToBytes s = Inr b" "length b = 32" "scalarFromBytes b = Inr s"
    by (rule scalarToBytes_ok [OF s])
  show thesis
    by (rule that [of "gcmEncrypt (deriveAeadKey C sha256 d) AEAD_IV proofBytes b"])
      (use G [unfolded gcm_ok_def, rule_format, of "deriveAeadKey C sha256 d" AEAD_IV proofBytes b] d(1) d'(1) key b in
        \<open>simp_all add: encryptShareScalar_def decryptShareScalar_def Let_def DKG_SCALAR_AEAD_CT_BYTES_def\<close>)
qed

text \<open>
  The holder of the recipient key decrypts what the dealer encrypted: with \<open>pkR = skR * G\<close> and
  \<open>u = r * G\<close>, both sides derive the same key and the share scalar comes back.
\<close>

theorem share_scalar_delivered:
  assumes "ristretto C dl" and "gcm_ok gcmEncrypt gcmDecrypt"
    and "mulBase C skR = Inr pkR" and "mulBase C r = Inr u" and "0 \<le> s" and "s < CURVE_ORDER"
  shows "rbind (encryptShareScalar C sha256 gcmEncrypt pkR r s proofBytes)
           (decryptShareScalar C sha256 gcmDecrypt skR u proofBytes) = Inr s"
  by (rule share_scalar_transport [OF assms(1,2) mulBase_Inr(1) [OF assms(1,3)] mulBase_Inr(1) [OF assms(1,4)]
        mulBase_Inr(2) [OF assms(1,3)] mulBase_Inr(2) [OF assms(1,4)] assms(5,6), of sha256 proofBytes]) simp

theorem share_scalar_delivered_witness:
  "rbind (encryptShareScalar zq_curve (constHash 1) (\<lambda>key iv aad pt. pt @ replicate 16 0) 5 9 77 [1])
     (decryptShareScalar zq_curve (constHash 1) (\<lambda>key iv aad ct. Inr (take (length ct - 16) ct)) 5 9 [1]) = Inr 77"
  by (rule share_scalar_delivered [OF zq_ristretto])
    (simp_all add: gcm_ok_def mulBase_def zq_ops CURVE_ORDER_def)

end
