(* ===== verification/Shuffle_Proofs.thy ===== *)
theory Shuffle_Proofs
  imports Sigma_Proofs
begin

text \<open>
  The building blocks of the verifiable shuffle, \<^verbatim>\<open>packages/ocp-shuffle/src\<close>: fixed-width encodings and
  the byte reader (\<^verbatim>\<open>encoding.ts\<close>), re-encryption (\<^verbatim>\<open>elgamal.ts\<close>), the counter-mode scalar generator
  (\<^verbatim>\<open>rng.ts\<close>), the equality-of-logarithms proof (\<^verbatim>\<open>eqdlog.ts\<close>) and the switch proof, which shows in
  zero knowledge that two ciphertexts were re-encrypted in order or swapped (\<^verbatim>\<open>switch_or.ts\<close>). The
  generator is passed as a state and returned updated.
\<close>

subsection \<open>Encodings\<close>

definition u16ToBytesLE :: "js_number \<Rightarrow> byte list fallible" where
  "u16ToBytesLE x =
     (if \<not> isInteger x \<or> x < 0 \<or> 0xffff < x then Inl ''u16ToBytesLE: out of range''
      else let n = \<lfloor>x\<rfloor> in Inr [word_of_int (n AND 255), word_of_int (drop_bit 8 n AND 255)])"

definition u16FromBytesLE :: "byte list \<Rightarrow> nat fallible" where
  "u16FromBytesLE bytes =
     (if length bytes \<noteq> 2 then Inl ''u16FromBytesLE: expected 2 bytes''
      else Inr (unat (bytes ! 0) OR push_bit 8 (unat (bytes ! 1))))"

definition encodePoint :: "'p curve \<Rightarrow> 'p \<Rightarrow> byte list" where "encodePoint C p = groupElementToBytes C p"

definition decodePoint :: "'p curve \<Rightarrow> byte list \<Rightarrow> 'p fallible" where "decodePoint C bytes = groupElementFromBytes C bytes"

definition encodeScalar :: "int \<Rightarrow> byte list fallible" where "encodeScalar s = scalarToBytes s"

definition decodeScalar :: "byte list \<Rightarrow> int fallible" where "decodeScalar bytes = scalarFromBytes bytes"

definition encodeCiphertext :: "'p curve \<Rightarrow> 'p ElGamalCiphertext \<Rightarrow> byte list" where
  "encodeCiphertext C ct = encodePoint C (ct_c1 ct) @ encodePoint C (ct_c2 ct)"

definition decodeCiphertext :: "'p curve \<Rightarrow> byte list \<Rightarrow> 'p ElGamalCiphertext fallible" where
  "decodeCiphertext C bytes =
     (if length bytes \<noteq> 64 then Inl ''decodeCiphertext: expected 64 bytes''
      else rbind (decodePoint C (slice 0 32 bytes)) (\<lambda>c1.
           rbind (decodePoint C (slice 32 64 bytes)) (\<lambda>c2. Inr \<lparr>ct_c1 = c1, ct_c2 = c2\<rparr>)))"

record Reader =
  rd_bytes :: "byte list"
  rd_off :: nat

definition newReader :: "byte list \<Rightarrow> Reader" where
  "newReader bytes = \<lparr>rd_bytes = bytes, rd_off = 0\<rparr>"

text \<open>The length asked for is a natural number in every call.\<close>

definition takeBytes :: "nat \<Rightarrow> Reader \<Rightarrow> (byte list \<times> Reader) fallible" where
  "takeBytes n rd =
     (if rd_off rd + n > length (rd_bytes rd) then Inl ''Reader: out of bounds''
      else Inr (slice (rd_off rd) (rd_off rd + n) (rd_bytes rd), rd\<lparr>rd_off := rd_off rd + n\<rparr>))"

definition takeU8 :: "Reader \<Rightarrow> (nat \<times> Reader) fallible" where
  "takeU8 rd = rbind (takeBytes 1 rd) (\<lambda>(b, rd). Inr (unat (b ! 0), rd))"

definition takeU16LE :: "Reader \<Rightarrow> (nat \<times> Reader) fallible" where
  "takeU16LE rd = rbind (takeBytes 2 rd) (\<lambda>(b, rd). rbind (u16FromBytesLE b) (\<lambda>x. Inr (x, rd)))"

definition doneReader :: "Reader \<Rightarrow> bool" where
  "doneReader rd \<longleftrightarrow> rd_off rd = length (rd_bytes rd)"

subsection \<open>Re-encryption\<close>

definition elgamalKeygen :: "'p curve \<Rightarrow> int \<Rightarrow> (int \<times> 'p) fallible" where
  "elgamalKeygen C sk = rbind (mulBase C sk) (\<lambda>pk. Inr (sk, pk))"

definition elgamalReencrypt :: "'p curve \<Rightarrow> 'p \<Rightarrow> 'p ElGamalCiphertext \<Rightarrow> int \<Rightarrow> 'p ElGamalCiphertext fallible" where
  "elgamalReencrypt C pk ct rho =
     rbind (mulBase C rho) (\<lambda>a. rbind (mulPoint C pk rho) (\<lambda>b.
     Inr \<lparr>ct_c1 = pointAdd C (ct_c1 ct) a, ct_c2 = pointAdd C (ct_c2 ct) b\<rparr>))"

subsection \<open>The scalar generator\<close>

record DeterministicRng =
  rng_seed :: "byte list"
  rng_counter :: nat

definition newRng :: "byte list \<Rightarrow> DeterministicRng fallible" where
  "newRng seed = (if seed = [] then Inl ''DeterministicRng: empty seed'' else Inr \<lparr>rng_seed = seed, rng_counter = 0\<rparr>)"

definition nextScalar :: "hash \<Rightarrow> DeterministicRng \<Rightarrow> (int \<times> DeterministicRng) fallible" where
  "nextScalar sha512 rng =
     rbind (u32le (of_nat (rng_counter rng))) (\<lambda>c.
     rbind (hashToScalar sha512 ''ocp/v1/shuffle/rng'' [rng_seed rng, c]) (\<lambda>s.
     Inr (s, rng\<lparr>rng_counter := rng_counter rng + 1\<rparr>)))"

lemma rbind_cong [fundef_cong]:
  "m = m' \<Longrightarrow> (\<And>x. m' = Inr x \<Longrightarrow> k x = k' x) \<Longrightarrow> rbind m k = rbind m' k'"
  by (cases m') simp_all

lemma scalarToBytes_length: "scalarToBytes s = Inr b \<Longrightarrow> length b = 32"
  by (auto simp: scalarToBytes_def bigintToBytesLE_def SCALAR_BYTES_def split_beta Let_def bytesLELoop_props split: if_splits)

function nextBytesLoop :: "hash \<Rightarrow> nat \<Rightarrow> byte list \<Rightarrow> DeterministicRng \<Rightarrow> (byte list \<times> DeterministicRng) fallible" where
  "nextBytesLoop sha512 len out rng =
     (if length out < len
      then rbind (nextScalar sha512 rng) (\<lambda>(s, rng).
           rbind (scalarToBytes s) (\<lambda>b.
           nextBytesLoop sha512 len (out @ take (min (length b) (len - length out)) b) rng))
      else Inr (out, rng))"
  by pat_completeness auto
termination
  by (relation "measure (\<lambda>(H, len, out, rng). len - length out)") (auto dest!: scalarToBytes_length)

declare nextBytesLoop.simps [simp del]

definition nextBytes :: "hash \<Rightarrow> nat \<Rightarrow> DeterministicRng \<Rightarrow> (byte list \<times> DeterministicRng) fallible" where
  "nextBytes sha512 len rng = nextBytesLoop sha512 len [] rng"

subsection \<open>Equality of logarithms\<close>

record 'p EqDlogProof =
  eq_t1 :: 'p
  eq_t2 :: 'p
  eq_z :: int

fun ctxMessages :: "byte list option \<Rightarrow> (string \<times> byte list) list" where
  "ctxMessages None = []"
| "ctxMessages (Some context) = [(''ctx'', context)]"

definition eqDlogChallenge ::
  "'p curve \<Rightarrow> hash \<Rightarrow> string \<Rightarrow> byte list option \<Rightarrow> 'p \<Rightarrow> 'p \<Rightarrow> 'p \<Rightarrow> 'p \<Rightarrow> 'p \<Rightarrow> 'p \<Rightarrow> int fallible" where
  "eqDlogChallenge C sha512 domain context A B X Y t1 t2 =
     transcriptChallenge sha512 domain
       (ctxMessages context @
        [(''A'', groupElementToBytes C A), (''B'', groupElementToBytes C B),
         (''X'', groupElementToBytes C X), (''Y'', groupElementToBytes C Y),
         (''t1'', groupElementToBytes C t1), (''t2'', groupElementToBytes C t2)]) ''e''"

definition proveEqDlog ::
  "'p curve \<Rightarrow> hash \<Rightarrow> string \<Rightarrow> 'p \<Rightarrow> 'p \<Rightarrow> 'p \<Rightarrow> 'p \<Rightarrow> int \<Rightarrow> byte list option \<Rightarrow> DeterministicRng
   \<Rightarrow> ('p EqDlogProof \<times> DeterministicRng) fallible" where
  "proveEqDlog C sha512 domain A B X Y x context rng =
     rbind (nextScalar sha512 rng) (\<lambda>(w, rng).
     rbind (mulPoint C A w) (\<lambda>t1. rbind (mulPoint C B w) (\<lambda>t2.
     rbind (eqDlogChallenge C sha512 domain context A B X Y t1 t2) (\<lambda>e.
     Inr (\<lparr>eq_t1 = t1, eq_t2 = t2, eq_z = scalarAdd w (scalarMul e x)\<rparr>, rng)))))"

text \<open>The two comparisons of a relation, shared by both verifiers.\<close>

definition relationChecks :: "'p curve \<Rightarrow> 'p \<Rightarrow> 'p \<Rightarrow> 'p \<Rightarrow> 'p \<Rightarrow> 'p \<Rightarrow> 'p \<Rightarrow> int \<Rightarrow> int \<Rightarrow> bool fallible" where
  "relationChecks C A B X Y t1 t2 z e =
     andThen (checkRelation C (mulPoint C A z) t1 X e)
    (andThen (checkRelation C (mulPoint C B z) t2 Y e) (Inr True))"

definition verifyEqDlog ::
  "'p curve \<Rightarrow> hash \<Rightarrow> string \<Rightarrow> 'p \<Rightarrow> 'p \<Rightarrow> 'p \<Rightarrow> 'p \<Rightarrow> 'p EqDlogProof \<Rightarrow> byte list option \<Rightarrow> bool fallible" where
  "verifyEqDlog C sha512 domain A B X Y prf context =
     rbind (eqDlogChallenge C sha512 domain context A B X Y (eq_t1 prf) (eq_t2 prf)) (\<lambda>e.
     relationChecks C A B X Y (eq_t1 prf) (eq_t2 prf) (eq_z prf) e)"

definition simulateEqDlogCommitments ::
  "'p curve \<Rightarrow> 'p \<Rightarrow> 'p \<Rightarrow> 'p \<Rightarrow> 'p \<Rightarrow> int \<Rightarrow> int \<Rightarrow> ('p \<times> 'p) fallible" where
  "simulateEqDlogCommitments C A B X Y e z =
     rbind (mulPoint C A z) (\<lambda>a. rbind (mulPoint C X e) (\<lambda>x.
     rbind (mulPoint C B z) (\<lambda>b. rbind (mulPoint C Y e) (\<lambda>y.
     Inr (pointSub C a x, pointSub C b y)))))"

definition encodeEqDlogProof :: "'p curve \<Rightarrow> 'p EqDlogProof \<Rightarrow> byte list fallible" where
  "encodeEqDlogProof C p =
     rbind (scalarToBytes (eq_z p)) (\<lambda>z.
     Inr (groupElementToBytes C (eq_t1 p) @ groupElementToBytes C (eq_t2 p) @ z))"

definition decodeEqDlogProof :: "'p curve \<Rightarrow> byte list \<Rightarrow> 'p EqDlogProof fallible" where
  "decodeEqDlogProof C bytes =
     (if length bytes \<noteq> 96 then Inl ''decodeEqDlogProof: expected 96 bytes''
      else
      rbind (groupElementFromBytes C (slice 0 32 bytes)) (\<lambda>t1.
      rbind (groupElementFromBytes C (slice 32 64 bytes)) (\<lambda>t2.
      rbind (scalarFromBytes (slice 64 96 bytes)) (\<lambda>z.
      Inr \<lparr>eq_t1 = t1, eq_t2 = t2, eq_z = z\<rparr>))))"

definition readPoint :: "'p curve \<Rightarrow> Reader \<Rightarrow> ('p \<times> Reader) fallible" where
  "readPoint C rd = rbind (takeBytes 32 rd) (\<lambda>(b, rd). rbind (decodePoint C b) (\<lambda>p. Inr (p, rd)))"

definition readScalar :: "Reader \<Rightarrow> (int \<times> Reader) fallible" where
  "readScalar rd = rbind (takeBytes 32 rd) (\<lambda>(b, rd). rbind (decodeScalar b) (\<lambda>s. Inr (s, rd)))"

definition decodeEqDlogProofFromReader :: "'p curve \<Rightarrow> Reader \<Rightarrow> ('p EqDlogProof \<times> Reader) fallible" where
  "decodeEqDlogProofFromReader C rd =
     rbind (readPoint C rd) (\<lambda>(t1, rd).
     rbind (readPoint C rd) (\<lambda>(t2, rd).
     rbind (readScalar rd) (\<lambda>(z, rd).
     Inr (\<lparr>eq_t1 = t1, eq_t2 = t2, eq_z = z\<rparr>, rd))))"

definition encodeEqDlogProofV1 :: "'p curve \<Rightarrow> 'p EqDlogProof \<Rightarrow> byte list fallible" where
  "encodeEqDlogProofV1 C p =
     rbind (encodeScalar (eq_z p)) (\<lambda>z. Inr (encodePoint C (eq_t1 p) @ encodePoint C (eq_t2 p) @ z))"

subsection \<open>Switch proofs\<close>

text \<open>
  The three quadruples are lists of length 4: relation 0 and 1 compare the outputs with the inputs in
  order, 2 and 3 with the inputs swapped.
\<close>

record 'p SwitchProof =
  sp_e0 :: int
  sp_t1 :: "'p list"
  sp_t2 :: "'p list"
  sp_z :: "int list"

definition DOMAIN_SWITCH :: string where "DOMAIN_SWITCH = ''ocp/v1/shuffle/switch-or''"

definition T1_LABELS :: "string list" where "T1_LABELS = [''t1.0'', ''t1.1'', ''t1.2'', ''t1.3'']"

definition T2_LABELS :: "string list" where "T2_LABELS = [''t2.0'', ''t2.1'', ''t2.2'', ''t2.3'']"

definition dlogDiff :: "'p curve \<Rightarrow> 'p ElGamalCiphertext \<Rightarrow> 'p ElGamalCiphertext \<Rightarrow> 'p \<times> 'p" where
  "dlogDiff C inCt outCt = (pointSub C (ct_c1 outCt) (ct_c1 inCt), pointSub C (ct_c2 outCt) (ct_c2 inCt))"

definition switchChallenge ::
  "'p curve \<Rightarrow> hash \<Rightarrow> 'p \<Rightarrow> 'p ElGamalCiphertext \<Rightarrow> 'p ElGamalCiphertext \<Rightarrow> 'p ElGamalCiphertext \<Rightarrow> 'p ElGamalCiphertext
   \<Rightarrow> 'p list \<Rightarrow> 'p list \<Rightarrow> byte list option \<Rightarrow> int fallible" where
  "switchChallenge C sha512 pk in0 in1 out0 out1 t1 t2 context =
     transcriptChallenge sha512 DOMAIN_SWITCH
       (ctxMessages context @
        [(''pk'', groupElementToBytes C pk),
         (''in0.c1'', groupElementToBytes C (ct_c1 in0)), (''in0.c2'', groupElementToBytes C (ct_c2 in0)),
         (''in1.c1'', groupElementToBytes C (ct_c1 in1)), (''in1.c2'', groupElementToBytes C (ct_c2 in1)),
         (''out0.c1'', groupElementToBytes C (ct_c1 out0)), (''out0.c2'', groupElementToBytes C (ct_c2 out0)),
         (''out1.c1'', groupElementToBytes C (ct_c1 out1)), (''out1.c2'', groupElementToBytes C (ct_c2 out1))]
        @ map (\<lambda>i. (T1_LABELS ! i, groupElementToBytes C (t1 ! i))) [0, 1, 2, 3]
        @ map (\<lambda>i. (T2_LABELS ! i, groupElementToBytes C (t2 ! i))) [0, 1, 2, 3]) ''e''"

text \<open>One iteration of the loop over the simulated relations.\<close>

definition simulateRelation ::
  "'p curve \<Rightarrow> hash \<Rightarrow> 'p \<Rightarrow> 'p ElGamalCiphertext \<Rightarrow> 'p ElGamalCiphertext \<Rightarrow> int \<Rightarrow> DeterministicRng
   \<Rightarrow> ((int \<times> 'p \<times> 'p) \<times> DeterministicRng) fallible" where
  "simulateRelation C sha512 pk inCt outCt eSim rng =
     (let (X, Y) = dlogDiff C inCt outCt in
      rbind (nextScalar sha512 rng) (\<lambda>(zSim, rng).
      rbind (simulateEqDlogCommitments C (basePoint C) pk X Y eSim zSim) (\<lambda>(tt1, tt2).
      Inr ((zSim, tt1, tt2), rng))))"

definition proveSwitch ::
  "'p curve \<Rightarrow> hash \<Rightarrow> 'p \<Rightarrow> 'p ElGamalCiphertext \<Rightarrow> 'p ElGamalCiphertext \<Rightarrow> 'p ElGamalCiphertext \<Rightarrow> 'p ElGamalCiphertext
   \<Rightarrow> bool \<Rightarrow> int \<Rightarrow> int \<Rightarrow> byte list option \<Rightarrow> DeterministicRng \<Rightarrow> ('p SwitchProof \<times> DeterministicRng) fallible" where
  "proveSwitch C sha512 pk in0 in1 out0 out1 swapped rho0 rho1 context rng =
     rbind (nextScalar sha512 rng) (\<lambda>(eSim, rng).
     rbind (simulateRelation C sha512 pk (if swapped then in0 else in1) out0 eSim rng) (\<lambda>((zA, t1A, t2A), rng).
     rbind (simulateRelation C sha512 pk (if swapped then in1 else in0) out1 eSim rng) (\<lambda>((zB, t1B, t2B), rng).
     rbind (nextScalar sha512 rng) (\<lambda>(w0, rng).
     rbind (nextScalar sha512 rng) (\<lambda>(w1, rng).
     rbind (mulPoint C (basePoint C) w0) (\<lambda>r10. rbind (mulPoint C pk w0) (\<lambda>r20.
     rbind (mulPoint C (basePoint C) w1) (\<lambda>r11. rbind (mulPoint C pk w1) (\<lambda>r21.
     let t1 = (if swapped then [t1A, t1B, r10, r11] else [r10, r11, t1A, t1B]);
         t2 = (if swapped then [t2A, t2B, r20, r21] else [r20, r21, t2A, t2B]) in
     rbind (switchChallenge C sha512 pk in0 in1 out0 out1 t1 t2 context) (\<lambda>e.
     let eReal = scalarSub e eSim;
         z0 = scalarAdd w0 (scalarMul eReal rho0);
         z1 = scalarAdd w1 (scalarMul eReal rho1) in
     Inr (\<lparr>sp_e0 = (if swapped then eSim else eReal), sp_t1 = t1, sp_t2 = t2,
           sp_z = (if swapped then [zA, zB, z0, z1] else [z0, z1, zA, zB])\<rparr>, rng)))))))))))"

definition switchRelation ::
  "'p curve \<Rightarrow> 'p \<Rightarrow> 'p ElGamalCiphertext \<Rightarrow> 'p ElGamalCiphertext \<Rightarrow> 'p SwitchProof \<Rightarrow> nat \<Rightarrow> int \<Rightarrow> bool fallible" where
  "switchRelation C pk inCt outCt prf i e =
     (let (X, Y) = dlogDiff C inCt outCt
      in relationChecks C (basePoint C) pk X Y (sp_t1 prf ! i) (sp_t2 prf ! i) (sp_z prf ! i) e)"

definition verifySwitch ::
  "'p curve \<Rightarrow> hash \<Rightarrow> 'p \<Rightarrow> 'p ElGamalCiphertext \<Rightarrow> 'p ElGamalCiphertext \<Rightarrow> 'p ElGamalCiphertext \<Rightarrow> 'p ElGamalCiphertext
   \<Rightarrow> 'p SwitchProof \<Rightarrow> byte list option \<Rightarrow> bool fallible" where
  "verifySwitch C sha512 pk in0 in1 out0 out1 prf context =
     (if pointEq C (ct_c1 out0) (ct_c1 in0) \<or> pointEq C (ct_c1 out0) (ct_c1 in1) then Inr False
      else if pointEq C (ct_c1 out1) (ct_c1 in0) \<or> pointEq C (ct_c1 out1) (ct_c1 in1) then Inr False
      else rbind (switchChallenge C sha512 pk in0 in1 out0 out1 (sp_t1 prf) (sp_t2 prf) context) (\<lambda>e.
      let e1 = scalarSub e (sp_e0 prf) in
      andThen (switchRelation C pk in0 out0 prf 0 (sp_e0 prf))
     (andThen (switchRelation C pk in1 out1 prf 1 (sp_e0 prf))
     (andThen (switchRelation C pk in1 out0 prf 2 e1)
     (andThen (switchRelation C pk in0 out1 prf 3 e1)
      (Inr True))))))"

definition encodeSwitchProof :: "'p curve \<Rightarrow> 'p SwitchProof \<Rightarrow> byte list fallible" where
  "encodeSwitchProof C p =
     rbind (encodeScalar (sp_e0 p)) (\<lambda>e0.
     rbind (rmap (\<lambda>i. rbind (encodeScalar (sp_z p ! i)) (\<lambda>z.
              Inr (encodePoint C (sp_t1 p ! i) @ encodePoint C (sp_t2 p ! i) @ z))) [0, 1, 2, 3]) (\<lambda>chunks.
     Inr (e0 @ concat chunks)))"

text \<open>The loop of \<open>decodeSwitchProofFromReader\<close>, with the number of relations left to read.\<close>

fun readRelations :: "'p curve \<Rightarrow> nat \<Rightarrow> Reader \<Rightarrow> (('p \<times> 'p \<times> int) list \<times> Reader) fallible" where
  "readRelations C 0 rd = Inr ([], rd)"
| "readRelations C (Suc k) rd =
     rbind (readPoint C rd) (\<lambda>(t1, rd).
     rbind (readPoint C rd) (\<lambda>(t2, rd).
     rbind (readScalar rd) (\<lambda>(z, rd).
     rbind (readRelations C k rd) (\<lambda>(rels, rd).
     Inr ((t1, t2, z) # rels, rd)))))"

definition decodeSwitchProofFromReader :: "'p curve \<Rightarrow> Reader \<Rightarrow> ('p SwitchProof \<times> Reader) fallible" where
  "decodeSwitchProofFromReader C rd =
     rbind (readScalar rd) (\<lambda>(e0, rd).
     rbind (readRelations C 4 rd) (\<lambda>(rels, rd).
     Inr (\<lparr>sp_e0 = e0, sp_t1 = map fst rels, sp_t2 = map (fst \<circ> snd) rels, sp_z = map (snd \<circ> snd) rels\<rparr>, rd)))"

subsection \<open>Plaintexts\<close>

text \<open>The discrete logarithm of what a ciphertext decrypts to under the key \<open>sk\<close>.\<close>

definition plain :: "('p \<Rightarrow> int) \<Rightarrow> int \<Rightarrow> 'p ElGamalCiphertext \<Rightarrow> int" where
  "plain dl sk ct = (dl (ct_c2 ct) - sk * dl (ct_c1 ct)) mod CURVE_ORDER"

lemma plain_decrypt:
  assumes "ristretto C dl" and "elgamalDecrypt C sk ct = Inr m"
  shows "dl m = plain dl sk ct"
proof -
  obtain d where "mulPoint C (ct_c1 ct) sk = Inr d" "m = pointSub C (ct_c2 ct) d"
    using assms(2) by (auto simp: elgamalDecrypt_def)
  then show ?thesis using mulPoint_Inr(2) [OF assms(1)] by (simp add: plain_def ristretto_sub [OF assms(1)] mod_simps)
qed

lemma elgamalReencrypt_Inr:
  assumes "ristretto C dl" and "elgamalReencrypt C pk ct rho = Inr ct'"
  shows "nonzero_scalar rho" and "dl (ct_c1 ct') = (dl (ct_c1 ct) + rho) mod CURVE_ORDER"
    and "dl (ct_c2 ct') = (dl (ct_c2 ct) + rho * dl pk) mod CURVE_ORDER"
    and "plain dl (dl pk) ct' = plain dl (dl pk) ct"
proof -
  obtain a b where ab: "mulBase C rho = Inr a" "mulPoint C pk rho = Inr b"
    "ct' = \<lparr>ct_c1 = pointAdd C (ct_c1 ct) a, ct_c2 = pointAdd C (ct_c2 ct) b\<rparr>"
    using assms(2) by (auto simp: elgamalReencrypt_def)
  show "nonzero_scalar rho" by (rule mulBase_Inr(1) [OF assms(1) ab(1)])
  show c1: "dl (ct_c1 ct') = (dl (ct_c1 ct) + rho) mod CURVE_ORDER"
    using mulBase_Inr(2) [OF assms(1) ab(1)] by (simp add: ab(3) ristretto_add [OF assms(1)])
  show c2: "dl (ct_c2 ct') = (dl (ct_c2 ct) + rho * dl pk) mod CURVE_ORDER"
    using mulPoint_Inr(2) [OF assms(1) ab(2)] by (simp add: ab(3) ristretto_add [OF assms(1)] mod_simps)
  have "eqmod (dl (ct_c2 ct') - dl pk * dl (ct_c1 ct')) ((dl (ct_c2 ct) + rho * dl pk) - dl pk * (dl (ct_c1 ct) + rho))"
    unfolding c1 c2 by (intro mod_diff_cong mod_mult_cong mod_mod_trivial refl)
  then show "plain dl (dl pk) ct' = plain dl (dl pk) ct"
    unfolding plain_def by (simp add: algebra_simps)
qed

text \<open>An output whose difference to the input is a multiple of \<open>(G, pk)\<close> has the same plaintext.\<close>

lemma plain_diff:
  assumes "ristretto C dl" and "dlogDiff C inCt outCt = (X, Y)" and "eqmod (dl Y) (dl X * dl pk)"
  shows "plain dl (dl pk) outCt = plain dl (dl pk) inCt"
proof -
  note R = ristrettoD [OF assms(1)]
  have "eqmod (dl (ct_c2 outCt) - dl (ct_c2 inCt)) (dl Y)" "eqmod (dl X) (dl (ct_c1 outCt) - dl (ct_c1 inCt))"
    using assms(2) by (auto simp: dlogDiff_def R mod_simps)
  moreover from this(2) have "eqmod (dl X * dl pk) ((dl (ct_c1 outCt) - dl (ct_c1 inCt)) * dl pk)"
    by (intro mod_mult_cong refl)
  ultimately have "eqmod (dl (ct_c2 outCt) - dl (ct_c2 inCt)) ((dl (ct_c1 outCt) - dl (ct_c1 inCt)) * dl pk)"
    using assms(3) by simp
  then show ?thesis unfolding plain_def by (simp add: mod_eq_dvd_iff algebra_simps)
qed

subsection \<open>Relations\<close>

lemma relationChecks_True:
  assumes "ristretto C dl"
  shows "relationChecks C A B X Y t1 t2 z e = Inr True \<longleftrightarrow> nonzero_scalar z \<and> nonzero_scalar e
    \<and> eqmod (z * dl A) (dl t1 + e * dl X) \<and> eqmod (z * dl B) (dl t2 + e * dl Y)" (is "?l \<longleftrightarrow> ?r")
proof
  assume ?l
  then obtain l m where "nonzero_scalar e" and l: "mulPoint C A z = Inr l" "eqmod (dl l) (dl t1 + e * dl X)"
    and m: "mulPoint C B z = Inr m" "eqmod (dl m) (dl t2 + e * dl Y)"
    unfolding relationChecks_def andThen_True checkRelation_True [OF assms] by blast
  then show ?r using mulPoint_Inr [OF assms l(1)] mulPoint_Inr [OF assms m(1)] by simp
next
  assume r: ?r
  obtain l m where "mulPoint C A z = Inr l" "dl l = (z * dl A) mod CURVE_ORDER"
      "mulPoint C B z = Inr m" "dl m = (z * dl B) mod CURVE_ORDER"
    using r mulPoint_ok [OF assms] by metis
  then show ?l unfolding relationChecks_def andThen_True checkRelation_True [OF assms] using r by auto
qed

lemma relation_extract:
  assumes "ristretto C dl" and "relationChecks C (basePoint C) pk X Y t1 t2 z e = Inr True"
    and "relationChecks C (basePoint C) pk X Y t1 t2 z' e' = Inr True" and "coprime (e - e') CURVE_ORDER"
  shows "eqmod (dl Y) (dl X * dl pk)"
proof -
  have "eqmod (dl Y) (dl X * dl pk + 0 * 0)"
    using assms(2,3) unfolding relationChecks_True [OF assms(1)] ristretto_base [OF assms(1)]
    by (intro sigma_extract [OF assms(4), of z "dl t1" _ z' 0 0 _ 0 _ _ "dl t2"]) simp_all
  then show ?thesis by simp
qed

lemma switch_extract:
  assumes "ristretto C dl" and "switchRelation C pk inCt outCt p i e = Inr True"
    and "switchRelation C pk inCt outCt p' i e' = Inr True" and "coprime (e - e') CURVE_ORDER"
    and "sp_t1 p' = sp_t1 p" and "sp_t2 p' = sp_t2 p"
  shows "plain dl (dl pk) outCt = plain dl (dl pk) inCt"
proof -
  obtain X Y where d: "dlogDiff C inCt outCt = (X, Y)" by (cases "dlogDiff C inCt outCt")
  then show ?thesis
    using assms(2,3,5,6) by (intro plain_diff [OF assms(1) d] relation_extract [OF assms(1) _ _ assms(4)]) (simp_all add: switchRelation_def)
qed

lemma verifySwitch_True:
  assumes "verifySwitch C H pk in0 in1 out0 out1 p ctx = Inr True"
  obtains e where "switchChallenge C H pk in0 in1 out0 out1 (sp_t1 p) (sp_t2 p) ctx = Inr e"
    and "switchRelation C pk in0 out0 p 0 (sp_e0 p) = Inr True"
    and "switchRelation C pk in1 out1 p 1 (sp_e0 p) = Inr True"
    and "switchRelation C pk in1 out0 p 2 (scalarSub e (sp_e0 p)) = Inr True"
    and "switchRelation C pk in0 out1 p 3 (scalarSub e (sp_e0 p)) = Inr True"
  using assms unfolding verifySwitch_def Let_def rbind_Inr_iff andThen_True
  by (auto split: if_splits simp: rbind_Inr_iff andThen_True)

text \<open>
  C19: special soundness of the switch proof: if the verifier accepts two proofs with the same commitments
  under two hash functions and one of the two branch challenges changes by a unit, the outputs
  decrypt, under the key of \<open>pk\<close>, to the inputs in order or to the inputs swapped.
\<close>

theorem switch_sound:
  assumes "ristretto C dl"
    and "verifySwitch C H pk in0 in1 out0 out1 p ctx = Inr True"
    and "verifySwitch C H' pk in0 in1 out0 out1 p' ctx = Inr True"
    and "sp_t1 p' = sp_t1 p" and "sp_t2 p' = sp_t2 p"
    and "switchChallenge C H pk in0 in1 out0 out1 (sp_t1 p) (sp_t2 p) ctx = Inr e"
    and "switchChallenge C H' pk in0 in1 out0 out1 (sp_t1 p) (sp_t2 p) ctx = Inr e'"
    and "coprime (sp_e0 p - sp_e0 p') CURVE_ORDER
       \<or> coprime (scalarSub e (sp_e0 p) - scalarSub e' (sp_e0 p')) CURVE_ORDER"
  shows "(plain dl (dl pk) out0, plain dl (dl pk) out1) \<in>
     {(plain dl (dl pk) in0, plain dl (dl pk) in1), (plain dl (dl pk) in1, plain dl (dl pk) in0)}"
proof -
  have r: "switchRelation C pk in0 out0 p 0 (sp_e0 p) = Inr True" "switchRelation C pk in1 out1 p 1 (sp_e0 p) = Inr True"
      "switchRelation C pk in1 out0 p 2 (scalarSub e (sp_e0 p)) = Inr True" "switchRelation C pk in0 out1 p 3 (scalarSub e (sp_e0 p)) = Inr True"
    using verifySwitch_True [OF assms(2)] assms(6) by auto
  have r': "switchRelation C pk in0 out0 p' 0 (sp_e0 p') = Inr True" "switchRelation C pk in1 out1 p' 1 (sp_e0 p') = Inr True"
      "switchRelation C pk in1 out0 p' 2 (scalarSub e' (sp_e0 p')) = Inr True" "switchRelation C pk in0 out1 p' 3 (scalarSub e' (sp_e0 p')) = Inr True"
    using verifySwitch_True [OF assms(3)] assms(4,5,7) by auto
  note x = switch_extract [OF assms(1) _ _ _ assms(4,5)]
  from assms(8) show ?thesis
  proof
    assume u: "coprime (sp_e0 p - sp_e0 p') CURVE_ORDER"
    show ?thesis using x [OF r(1) r'(1) u] x [OF r(2) r'(2) u] by simp
  next
    assume u: "coprime (scalarSub e (sp_e0 p) - scalarSub e' (sp_e0 p')) CURVE_ORDER"
    show ?thesis using x [OF r(3) r'(3) u] x [OF r(4) r'(4) u] by simp
  qed
qed

lemma small_point: "ristretto C dl \<Longrightarrow> small_msg (l, groupElementToBytes C P) \<longleftrightarrow> int (length (utf8 l)) < 2 ^ 32"
  by (simp add: small_msg_def ristretto_width)

lemma zq_switchChallenge:
  "switchChallenge zq_curve (constHash b) pk in0 in1 out0 out1 t1 t2 None = Inr (uint b)"
  unfolding switchChallenge_def
  by (rule constHash_transcript)
    (simp_all add: small_point [OF zq_ristretto] DOMAIN_SWITCH_def T1_LABELS_def T2_LABELS_def utf8_def utf8Char_def)

lemma mod_add_mult: "(a + e * (x mod CURVE_ORDER)) mod CURVE_ORDER = (a + e * x) mod CURVE_ORDER"
  by (intro mod_add_cong mod_mult_cong mod_mod_trivial refl)

lemma zq_switchRelation:
  "switchRelation zq_curve pk inCt outCt p i e = Inr True \<longleftrightarrow>
     nonzero_scalar (sp_z p ! i) \<and> nonzero_scalar e
     \<and> eqmod (sp_z p ! i) (sp_t1 p ! i + e * (ct_c1 outCt - ct_c1 inCt))
     \<and> eqmod (sp_z p ! i * pk) (sp_t2 p ! i + e * (ct_c2 outCt - ct_c2 inCt))"
  by (simp add: switchRelation_def dlogDiff_def relationChecks_True [OF zq_ristretto] basePoint_def pointSub_def zq_ops mod_simps mod_add_mult)

abbreviation zq_switch_proof :: "int \<Rightarrow> int \<Rightarrow> int \<Rightarrow> int SwitchProof" where
  "zq_switch_proof e0 z0 z1 \<equiv> \<lparr>sp_e0 = CURVE_ORDER - e0, sp_t1 = [6, 8, 44, CURVE_ORDER - 59], sp_t2 = [42, 56, 458, CURVE_ORDER - 563],
     sp_z = [CURVE_ORDER - z0, CURVE_ORDER - z1, 9, 11]\<rparr>"

lemma zq_verifySwitch:
  "verifySwitch zq_curve (constHash 1) 7 \<lparr>ct_c1 = 10, ct_c2 = 100\<rparr> \<lparr>ct_c1 = 20, ct_c2 = 200\<rparr>
     \<lparr>ct_c1 = 13, ct_c2 = 121\<rparr> \<lparr>ct_c1 = 24, ct_c2 = 228\<rparr> (zq_switch_proof 4 6 8) None = Inr True"
  "verifySwitch zq_curve (constHash 2) 7 \<lparr>ct_c1 = 10, ct_c2 = 100\<rparr> \<lparr>ct_c1 = 20, ct_c2 = 200\<rparr>
     \<lparr>ct_c1 = 13, ct_c2 = 121\<rparr> \<lparr>ct_c1 = 24, ct_c2 = 228\<rparr> (zq_switch_proof 3 3 4) None = Inr True"
  by (simp_all add: verifySwitch_def pointEq_def zq_ops zq_switchChallenge andThen_True zq_switchRelation scalar_arith CURVE_ORDER_def)

theorem switch_sound_witness:
  "(plain (\<lambda>a. a mod CURVE_ORDER) (7 mod CURVE_ORDER) \<lparr>ct_c1 = 13, ct_c2 = 121\<rparr>,
    plain (\<lambda>a. a mod CURVE_ORDER) (7 mod CURVE_ORDER) \<lparr>ct_c1 = 24, ct_c2 = 228\<rparr>) \<in>
     {(plain (\<lambda>a. a mod CURVE_ORDER) (7 mod CURVE_ORDER) \<lparr>ct_c1 = 10, ct_c2 = 100\<rparr>,
       plain (\<lambda>a. a mod CURVE_ORDER) (7 mod CURVE_ORDER) \<lparr>ct_c1 = 20, ct_c2 = 200\<rparr>),
      (plain (\<lambda>a. a mod CURVE_ORDER) (7 mod CURVE_ORDER) \<lparr>ct_c1 = 20, ct_c2 = 200\<rparr>,
       plain (\<lambda>a. a mod CURVE_ORDER) (7 mod CURVE_ORDER) \<lparr>ct_c1 = 10, ct_c2 = 100\<rparr>)}"
proof (rule switch_sound [OF zq_ristretto zq_verifySwitch])
  have "CURVE_ORDER - 4 - (CURVE_ORDER - 3) = - 1" by simp
  then show "coprime (sp_e0 (zq_switch_proof 4 6 8) - sp_e0 (zq_switch_proof 3 3 4)) CURVE_ORDER
      \<or> coprime (scalarSub (uint 1) (sp_e0 (zq_switch_proof 4 6 8)) - scalarSub (uint 2) (sp_e0 (zq_switch_proof 3 3 4))) CURVE_ORDER"
    by (simp only: SwitchProof.simps coprime_minus_left_iff coprime_1_left simp_thms)
qed (simp_all only: zq_switchChallenge SwitchProof.simps)

subsection \<open>Honest switches are accepted\<close>

lemma nextScalar_Inr:
  assumes "nextScalar H rng = Inr (s, rng')"
  shows "0 \<le> s" and "s < CURVE_ORDER" and "rng_counter rng' = Suc (rng_counter rng)" and "rng_counter rng < 2 ^ 32"
    and "rng_seed rng' = rng_seed rng"
  using assms
  by (auto simp: nextScalar_def hashToScalar_def scalarFromBytesModOrder_def u32le_nat split: if_splits)

lemma simulateRelation_ok:
  assumes R: "ristretto C dl" and "simulateRelation C H pk inCt outCt e rng = Inr ((z, t1, t2), rng')"
    and "dlogDiff C inCt outCt = (X, Y)"
  shows "relationChecks C (basePoint C) pk X Y t1 t2 z e = Inr True"
proof -
  obtain a x b y where m: "mulPoint C (basePoint C) z = Inr a" "mulPoint C X e = Inr x" "mulPoint C pk z = Inr b" "mulPoint C Y e = Inr y"
    and t: "t1 = pointSub C a x" "t2 = pointSub C b y"
    using assms(2,3) by (auto simp: simulateRelation_def simulateEqDlogCommitments_def)
  note M = mulPoint_Inr [OF R m(1)] mulPoint_Inr [OF R m(2)] mulPoint_Inr [OF R m(3)] mulPoint_Inr [OF R m(4)]
  show ?thesis
    unfolding relationChecks_True [OF R] using M by (auto simp: t ristretto_sub [OF R] mod_simps)
qed

lemma honest_relation:
  assumes R: "ristretto C dl" and "elgamalReencrypt C pk inCt rho = Inr outCt"
    and "mulPoint C (basePoint C) w = Inr t1" and "mulPoint C pk w = Inr t2"
    and "dlogDiff C inCt outCt = (X, Y)" and "nonzero_scalar e"
    and z: "z = scalarAdd w (scalarMul e rho)" and "z \<noteq> 0"
  shows "relationChecks C (basePoint C) pk X Y t1 t2 z e = Inr True"
proof -
  note E = elgamalReencrypt_Inr [OF R assms(2)] and B = ristrettoD [OF R]
  have d: "eqmod (dl X) (rho * 1 + 0 * 0)" "eqmod (dl Y) (rho * dl pk + 0 * 0)"
    using assms(5) E(2,3) by (auto simp: dlogDiff_def B mod_simps)
  have t: "eqmod (dl t1) (w * 1 + 0 * 0)" "eqmod (dl t2) (w * dl pk + 0 * 0)"
    using mulPoint_Inr(2) [OF R assms(3)] mulPoint_Inr(2) [OF R assms(4)] by (simp_all add: B)
  have z': "z = (w + e * rho) mod CURVE_ORDER" "0 = (0 + e * 0) mod CURVE_ORDER" by (simp_all add: z scalar_response)
  note sigma_response [OF t(1) d(1) z'] sigma_response [OF t(2) d(2) z']
  moreover have "nonzero_scalar z" using assms(8) unfolding z by (rule nonzero_scalarI)
  ultimately show ?thesis unfolding relationChecks_True [OF R] using assms(6) by (simp add: B)
qed

lemma proveSwitch_Inr:
  assumes "proveSwitch C H pk in0 in1 out0 out1 swapped rho0 rho1 ctx rng = Inr (p, rng')"
  obtains eSim zA t1A t2A zB t1B t2B w0 w1 r10 r20 r11 r21 e rng1 rng2 rng3 rng4
  where "nextScalar H rng = Inr (eSim, rng1)"
    and "simulateRelation C H pk (if swapped then in0 else in1) out0 eSim rng1 = Inr ((zA, t1A, t2A), rng2)"
    and "simulateRelation C H pk (if swapped then in1 else in0) out1 eSim rng2 = Inr ((zB, t1B, t2B), rng3)"
    and "nextScalar H rng3 = Inr (w0, rng4)" and "nextScalar H rng4 = Inr (w1, rng')"
    and "mulPoint C (basePoint C) w0 = Inr r10" and "mulPoint C pk w0 = Inr r20"
    and "mulPoint C (basePoint C) w1 = Inr r11" and "mulPoint C pk w1 = Inr r21"
    and "sp_t1 p = (if swapped then [t1A, t1B, r10, r11] else [r10, r11, t1A, t1B])"
    and "sp_t2 p = (if swapped then [t2A, t2B, r20, r21] else [r20, r21, t2A, t2B])"
    and "switchChallenge C H pk in0 in1 out0 out1 (sp_t1 p) (sp_t2 p) ctx = Inr e"
    and "sp_e0 p = (if swapped then eSim else scalarSub e eSim)"
    and "sp_z p = (let z0 = scalarAdd w0 (scalarMul (scalarSub e eSim) rho0);
                       z1 = scalarAdd w1 (scalarMul (scalarSub e eSim) rho1)
                   in if swapped then [zA, zB, z0, z1] else [z0, z1, zA, zB])"
  using assms unfolding proveSwitch_def Let_def rbind_Inr_iff split_paired_Ex prod.case
    sum.inject prod.inject
  by (elim exE conjE) (hypsubst, rule that, assumption+, simp_all)

lemma switchRelation_prf:
  "switchRelation C pk inCt outCt p i e = Inr True \<longleftrightarrow>
     (\<exists>X Y. dlogDiff C inCt outCt = (X, Y)
        \<and> relationChecks C (basePoint C) pk X Y (sp_t1 p ! i) (sp_t2 p ! i) (sp_z p ! i) e = Inr True)"
  by (cases "dlogDiff C inCt outCt") (simp add: switchRelation_def)

lemma scalarSub_twice: "0 \<le> b \<Longrightarrow> b < CURVE_ORDER \<Longrightarrow> scalarSub a (scalarSub a b) = b"
  by (simp add: scalar_arith mod_simps mod_pos_pos_trivial)

text \<open>The commitments, branch challenges and responses of an honest proof pass the four relations.\<close>

lemma proveSwitch_relations:
  assumes R: "ristretto C dl"
    and P: "proveSwitch C H pk in0 in1 out0 out1 swapped rho0 rho1 ctx rng = Inr (p, rng')"
    and o: "elgamalReencrypt C pk (if swapped then in1 else in0) rho0 = Inr out0"
       "elgamalReencrypt C pk (if swapped then in0 else in1) rho1 = Inr out1"
    and e: "switchChallenge C H pk in0 in1 out0 out1 (sp_t1 p) (sp_t2 p) ctx = Inr e"
    and nz: "sp_e0 p \<noteq> 0" "scalarSub e (sp_e0 p) \<noteq> 0" "\<forall>z \<in> set (sp_z p). z \<noteq> 0"
  shows "switchRelation C pk in0 out0 p 0 (sp_e0 p) = Inr True" "switchRelation C pk in1 out1 p 1 (sp_e0 p) = Inr True"
    "switchRelation C pk in1 out0 p 2 (scalarSub e (sp_e0 p)) = Inr True"
    "switchRelation C pk in0 out1 p 3 (scalarSub e (sp_e0 p)) = Inr True"
proof -
  from P obtain eSim zA t1A t2A zB t1B t2B w0 w1 r10 r20 r11 r21 e' rng1 rng2 rng3 rng4
    where S: "nextScalar H rng = Inr (eSim, rng1)"
      and A: "simulateRelation C H pk (if swapped then in0 else in1) out0 eSim rng1 = Inr ((zA, t1A, t2A), rng2)"
      and B: "simulateRelation C H pk (if swapped then in1 else in0) out1 eSim rng2 = Inr ((zB, t1B, t2B), rng3)"
      and m: "mulPoint C (basePoint C) w0 = Inr r10" "mulPoint C pk w0 = Inr r20"
        "mulPoint C (basePoint C) w1 = Inr r11" "mulPoint C pk w1 = Inr r21"
      and t1: "sp_t1 p = (if swapped then [t1A, t1B, r10, r11] else [r10, r11, t1A, t1B])"
      and t2: "sp_t2 p = (if swapped then [t2A, t2B, r20, r21] else [r20, r21, t2A, t2B])"
      and e': "switchChallenge C H pk in0 in1 out0 out1 (sp_t1 p) (sp_t2 p) ctx = Inr e'"
      and e0: "sp_e0 p = (if swapped then eSim else scalarSub e' eSim)"
      and z: "sp_z p = (let z0 = scalarAdd w0 (scalarMul (scalarSub e' eSim) rho0);
                            z1 = scalarAdd w1 (scalarMul (scalarSub e' eSim) rho1)
                        in if swapped then [zA, zB, z0, z1] else [z0, z1, zA, zB])"
    by (rule proveSwitch_Inr)
  let ?er = "scalarSub e eSim"
  have ee: "e' = e" using e e' by simp
  note s = nextScalar_Inr(1,2) [OF S]
  have "?er \<noteq> 0" using nz(1,2) by (auto simp: e0 ee split: if_splits)
  then have er: "nonzero_scalar ?er" using scalar_range(5,6) [of e eSim] by linarith
  have sim: "relationChecks C (basePoint C) pk (fst (dlogDiff C (if swapped then in0 else in1) out0))
      (snd (dlogDiff C (if swapped then in0 else in1) out0)) t1A t2A zA eSim = Inr True"
    "relationChecks C (basePoint C) pk (fst (dlogDiff C (if swapped then in1 else in0) out1))
      (snd (dlogDiff C (if swapped then in1 else in0) out1)) t1B t2B zB eSim = Inr True"
    by (rule simulateRelation_ok [OF R A], simp) (rule simulateRelation_ok [OF R B], simp)
  have zz: "scalarAdd w0 (scalarMul ?er rho0) \<noteq> 0" "scalarAdd w1 (scalarMul ?er rho1) \<noteq> 0"
    using nz(3) by (auto simp: z ee Let_def split: if_splits)
  have real: "relationChecks C (basePoint C) pk (fst (dlogDiff C (if swapped then in1 else in0) out0))
      (snd (dlogDiff C (if swapped then in1 else in0) out0)) r10 r20 (scalarAdd w0 (scalarMul ?er rho0)) ?er = Inr True"
    "relationChecks C (basePoint C) pk (fst (dlogDiff C (if swapped then in0 else in1) out1))
      (snd (dlogDiff C (if swapped then in0 else in1) out1)) r11 r21 (scalarAdd w1 (scalarMul ?er rho1)) ?er = Inr True"
    by (rule honest_relation [OF R o(1) m(1,2) _ er refl zz(1)], simp)
      (rule honest_relation [OF R o(2) m(3,4) _ er refl zz(2)], simp)
  show "switchRelation C pk in0 out0 p 0 (sp_e0 p) = Inr True" "switchRelation C pk in1 out1 p 1 (sp_e0 p) = Inr True"
    "switchRelation C pk in1 out0 p 2 (scalarSub e (sp_e0 p)) = Inr True"
    "switchRelation C pk in0 out1 p 3 (scalarSub e (sp_e0 p)) = Inr True"
    using sim real by (cases swapped; simp add: switchRelation_def split_beta t1 t2 e0 z ee Let_def scalarSub_twice s)+
qed

text \<open>
  An honest switch proof is accepted: for outputs that re-encrypt the inputs in the claimed order
  without repeating an input's first component, the verifier accepts the prover's proof unless one
  of its scalars is 0.
\<close>

lemma switch_complete:
  assumes "ristretto C dl"
    and "proveSwitch C H pk in0 in1 out0 out1 swapped rho0 rho1 ctx rng = Inr (p, rng')"
    and "elgamalReencrypt C pk (if swapped then in1 else in0) rho0 = Inr out0"
    and "elgamalReencrypt C pk (if swapped then in0 else in1) rho1 = Inr out1"
    and "\<forall>a \<in> {out0, out1}. \<forall>b \<in> {in0, in1}. \<not> pointEq C (ct_c1 a) (ct_c1 b)"
    and "switchChallenge C H pk in0 in1 out0 out1 (sp_t1 p) (sp_t2 p) ctx = Inr e"
    and "sp_e0 p \<noteq> 0" and "scalarSub e (sp_e0 p) \<noteq> 0" and "\<forall>z \<in> set (sp_z p). z \<noteq> 0"
  shows "verifySwitch C H pk in0 in1 out0 out1 p ctx = Inr True"
  using proveSwitch_relations [OF assms(1-4,6-9)] assms(5,6)
  by (simp add: verifySwitch_def andThen_True Let_def)

subsection \<open>Reading back what was written\<close>

text \<open>The reader is at the start of \<open>bs\<close>, followed by \<open>rest\<close>.\<close>

definition reads :: "Reader \<Rightarrow> byte list \<Rightarrow> bool" where
  "reads rd bs \<longleftrightarrow> rd_off rd \<le> length (rd_bytes rd) \<and> drop (rd_off rd) (rd_bytes rd) = bs"

lemma takeBytes_at:
  assumes "reads rd (bs @ rest)" and "length bs = n"
  obtains rd' where "takeBytes n rd = Inr (bs, rd')" and "reads rd' rest"
proof -
  have d: "drop (rd_off rd) (rd_bytes rd) = bs @ rest" and le: "rd_off rd \<le> length (rd_bytes rd)"
    using assms(1) by (simp_all add: reads_def)
  have l: "length (rd_bytes rd) = rd_off rd + n + length rest"
    using arg_cong [OF d, of length] le assms(2) by simp
  have "drop (rd_off rd + n) (rd_bytes rd) = rest"
    using arg_cong [OF d, of "drop n"] assms(2) by (simp add: add.commute)
  then have "reads (rd\<lparr>rd_off := rd_off rd + n\<rparr>) rest" using l by (simp add: reads_def)
  moreover have "takeBytes n rd = Inr (bs, rd\<lparr>rd_off := rd_off rd + n\<rparr>)"
    using l d assms(2) by (simp add: takeBytes_def slice_def)
  ultimately show thesis by (rule that [rotated])
qed

lemma takeBytes_Inr:
  assumes "takeBytes n rd = Inr (bs, rd')" and "reads rd all"
  shows "length bs = n" and "\<exists>rest. all = bs @ rest \<and> reads rd' rest"
proof -
  have l: "rd_off rd + n \<le> length (rd_bytes rd)" and r: "rd' = rd\<lparr>rd_off := rd_off rd + n\<rparr>"
    and b: "bs = take n (drop (rd_off rd) (rd_bytes rd))"
    using assms(1) by (auto simp: takeBytes_def slice_def split: if_splits)
  show "length bs = n" using l by (simp add: b)
  have "all = bs @ drop n all" using assms(2) by (simp add: reads_def b)
  moreover have "reads rd' (drop n all)" using assms(2) l by (auto simp: reads_def r add.commute)
  ultimately show "\<exists>rest. all = bs @ rest \<and> reads rd' rest" by blast
qed

lemma readScalar_at:
  assumes "reads rd (bs @ rest)" and "encodeScalar s = Inr bs" and "0 \<le> s" and "s < CURVE_ORDER"
  obtains rd' where "readScalar rd = Inr (s, rd')" and "reads rd' rest"
proof -
  obtain b where "scalarToBytes s = Inr b" "length b = 32" "scalarFromBytes b = Inr s"
    by (rule scalarToBytes_ok [OF assms(3,4)])
  then have b: "length bs = 32" "scalarFromBytes bs = Inr s" using assms(2) by (simp_all add: encodeScalar_def)
  obtain rd' where "takeBytes 32 rd = Inr (bs, rd')" "reads rd' rest" by (rule takeBytes_at [OF assms(1) b(1)])
  then show thesis using that b(2) by (simp add: readScalar_def decodeScalar_def)
qed

lemma readPoint_at:
  assumes "ristretto C dl" and "reads rd (encodePoint C P @ rest)"
  obtains Q rd' where "readPoint C rd = Inr (Q, rd')" and "dl Q = dl P" and "reads rd' rest"
proof -
  have l: "length (encodePoint C P) = 32" using ristretto_width [OF assms(1)] by (simp add: encodePoint_def)
  obtain rd' where "takeBytes 32 rd = Inr (encodePoint C P, rd')" "reads rd' rest" by (rule takeBytes_at [OF assms(2) l])
  moreover obtain Q where "groupElementFromBytes C (groupElementToBytes C P) = Inr Q" "pointEq C Q P"
    using groupElement_round_trip [OF assms(1)] by blast
  ultimately show thesis
    using that by (simp add: readPoint_def decodePoint_def encodePoint_def ristretto_eq [OF assms(1)])
qed

text \<open>A point is canonical when its encoding decodes to it; every point a decoder returns is.\<close>

definition canonicalPoint :: "'p curve \<Rightarrow> 'p \<Rightarrow> bool" where
  "canonicalPoint C P \<longleftrightarrow> groupElementFromBytes C (groupElementToBytes C P) = Inr P"

lemma decoded_canonical: "ristretto C dl \<Longrightarrow> groupElementFromBytes C bs = Inr P \<Longrightarrow> canonicalPoint C P"
  using groupElement_canonical [of C bs P dl] by (simp add: canonicalPoint_def)

lemma readPoint_canonical:
  assumes "ristretto C dl" and "canonicalPoint C P" and "reads rd (encodePoint C P @ rest)"
  obtains rd' where "readPoint C rd = Inr (P, rd')" and "reads rd' rest"
proof -
  obtain rd' where "takeBytes 32 rd = Inr (encodePoint C P, rd')" "reads rd' rest"
    by (rule takeBytes_at [OF assms(3)]) (simp_all add: encodePoint_def ristretto_width [OF assms(1)])
  then show thesis using that assms(2) by (simp add: readPoint_def decodePoint_def encodePoint_def canonicalPoint_def)
qed

definition relBytes :: "'p curve \<Rightarrow> 'p \<times> 'p \<times> int \<Rightarrow> byte list" where
  "relBytes C r = encodePoint C (fst r) @ encodePoint C (fst (snd r)) @ fst (bytesLELoop (snd (snd r)) 32)"

definition goodRel :: "'p curve \<Rightarrow> 'p \<times> 'p \<times> int \<Rightarrow> bool" where
  "goodRel C r \<longleftrightarrow> canonicalPoint C (fst r) \<and> canonicalPoint C (fst (snd r)) \<and> 0 \<le> snd (snd r) \<and> snd (snd r) < CURVE_ORDER"

lemma encodeScalar_ok:
  assumes "0 \<le> s" and "s < CURVE_ORDER"
  shows "encodeScalar s = Inr (fst (bytesLELoop s 32))"
proof -
  obtain bs where "scalarToBytes s = Inr bs" by (rule scalarToBytes_ok [OF assms])
  then show ?thesis
    by (auto simp: encodeScalar_def scalarToBytes_def bigintToBytesLE_def SCALAR_BYTES_def split_beta Let_def split: if_splits)
qed

lemma readRelations_at:
  assumes R: "ristretto C dl"
  shows "reads rd (concat (map (relBytes C) rels) @ rest) \<Longrightarrow> \<forall>r \<in> set rels. goodRel C r \<Longrightarrow>
    \<exists>rd'. readRelations C (length rels) rd = Inr (rels, rd') \<and> reads rd' rest"
proof (induction rels arbitrary: rd)
  case (Cons r rels)
  obtain t1 t2 z where r: "r = (t1, t2, z)" by (cases r)
  have g: "canonicalPoint C t1" "canonicalPoint C t2" "0 \<le> z" "z < CURVE_ORDER" using Cons.prems(2) by (simp_all add: r goodRel_def)
  let ?rest = "concat (map (relBytes C) rels) @ rest"
  have rd: "reads rd (encodePoint C t1 @ encodePoint C t2 @ fst (bytesLELoop z 32) @ ?rest)"
    using Cons.prems(1) by (simp add: r relBytes_def [of C "(t1, t2, z)"])
  obtain rd1 where 1: "readPoint C rd = Inr (t1, rd1)" "reads rd1 (encodePoint C t2 @ fst (bytesLELoop z 32) @ ?rest)"
    by (rule readPoint_canonical [OF R g(1) rd])
  obtain rd2 where 2: "readPoint C rd1 = Inr (t2, rd2)" "reads rd2 (fst (bytesLELoop z 32) @ ?rest)"
    by (rule readPoint_canonical [OF R g(2) 1(2)])
  obtain rd3 where 3: "readScalar rd2 = Inr (z, rd3)" "reads rd3 ?rest"
    by (rule readScalar_at [OF 2(2) encodeScalar_ok [OF g(3,4)] g(3,4)])
  obtain rd4 where "readRelations C (length rels) rd3 = Inr (rels, rd4)" "reads rd4 rest"
    using Cons.IH [OF 3(2)] Cons.prems(2) by auto
  then show ?case using 1 2 3 by (simp add: r)
qed simp

definition goodProof :: "'p curve \<Rightarrow> 'p SwitchProof \<Rightarrow> bool" where
  "goodProof C p \<longleftrightarrow> length (sp_t1 p) = 4 \<and> length (sp_t2 p) = 4 \<and> length (sp_z p) = 4
     \<and> 0 \<le> sp_e0 p \<and> sp_e0 p < CURVE_ORDER
     \<and> (\<forall>P \<in> set (sp_t1 p @ sp_t2 p). canonicalPoint C P) \<and> (\<forall>z \<in> set (sp_z p). 0 \<le> z \<and> z < CURVE_ORDER)"

lemma zq_canonical: "0 \<le> P \<Longrightarrow> P < CURVE_ORDER \<Longrightarrow> canonicalPoint zq_curve P"
  using zq_bytes [of P]
  by (simp add: canonicalPoint_def groupElementFromBytes_def groupElementToBytes_def zq_ops GROUP_ELEMENT_BYTES_def
      bytesLELoop_props(1) list_ex_iff mod_pos_pos_trivial)

text \<open>Reading back an encoded switch proof gives the proof and leaves the reader right after it.\<close>

lemma switch_proof_round_trip:
  assumes R: "ristretto C dl" and g: "goodProof C p"
  shows "\<exists>bs. encodeSwitchProof C p = Inr bs \<and> (\<forall>rd rest. reads rd (bs @ rest) \<longrightarrow>
    (\<exists>rd'. decodeSwitchProofFromReader C rd = Inr (p, rd') \<and> reads rd' rest))"
proof -
  obtain a0 a1 a2 a3 b0 b1 b2 b3 z0 z1 z2 z3 where
    p: "sp_t1 p = [a0, a1, a2, a3]" "sp_t2 p = [b0, b1, b2, b3]" "sp_z p = [z0, z1, z2, z3]"
    using g by (auto simp: goodProof_def numeral_eq_Suc length_Suc_conv)
  let ?rels = "[(a0, b0, z0), (a1, b1, z1), (a2, b2, z2), (a3, b3, z3)]"
  have gr: "\<forall>r \<in> set ?rels. goodRel C r" and e0: "0 \<le> sp_e0 p" "sp_e0 p < CURVE_ORDER"
    using g by (auto simp: goodProof_def goodRel_def p)
  have enc: "encodeSwitchProof C p = Inr (fst (bytesLELoop (sp_e0 p) 32) @ concat (map (relBytes C) ?rels))"
    using gr e0 by (simp add: encodeSwitchProof_def encodeScalar_ok goodRel_def p relBytes_def)
  have "\<exists>rd'. decodeSwitchProofFromReader C rd = Inr (p, rd') \<and> reads rd' rest"
    if rd: "reads rd (fst (bytesLELoop (sp_e0 p) 32) @ concat (map (relBytes C) ?rels) @ rest)" for rd rest
  proof -
    obtain rd1 where 1: "readScalar rd = Inr (sp_e0 p, rd1)" "reads rd1 (concat (map (relBytes C) ?rels) @ rest)"
      by (rule readScalar_at [OF rd encodeScalar_ok [OF e0] e0])
    obtain rd2 where 2: "readRelations C (length ?rels) rd1 = Inr (?rels, rd2)" "reads rd2 rest"
      using readRelations_at [OF R 1(2) gr] by blast
    have "p = \<lparr>sp_e0 = sp_e0 p, sp_t1 = [a0, a1, a2, a3], sp_t2 = [b0, b1, b2, b3], sp_z = [z0, z1, z2, z3]\<rparr>"
      using p by (cases p) simp
    moreover have "readRelations C 4 rd1 = Inr (?rels, rd2)" using 2(1) by (simp add: numeral_eq_Suc)
    ultimately show ?thesis using 1(1) 2(2) by (simp add: decodeSwitchProofFromReader_def)
  qed
  then show ?thesis using enc by simp
qed

end
