(* ===== verification/Shuffle_V1.thy ===== *)
theory Shuffle_V1
  imports Shuffle_Proofs
begin

text \<open>
  The verifiable shuffle of a deck of ciphertexts, \<^verbatim>\<open>packages/ocp-shuffle/src/shuffle_v1.ts\<close>: the context
  bound into a proof, the sampling helpers, the prover (a random permutation applied by rounds of an
  odd-even transposition network, every comparator re-encrypting and proving its switch) and the
  verifier, which reads the proof back. The sampling loops end because the generator throws once its
  32-bit counter is exhausted. \<^verbatim>\<open>process.env\<close> and \<^verbatim>\<open>randomBytes\<close> are parameters of the prover.
\<close>

definition SHUFFLE_PROOF_V1_VERSION :: nat where "SHUFFLE_PROOF_V1_VERSION = 1"

definition SHUFFLE_PROOF_V2_VERSION :: nat where "SHUFFLE_PROOF_V2_VERSION = 2"

definition DOMAIN_REENC :: string where "DOMAIN_REENC = ''ocp/v1/shuffle/reenc-eqdlog''"

text \<open>\<^verbatim>\<open>setBigUint64\<close> and \<^verbatim>\<open>setUint16\<close>, little-endian, are \<open>bytesLELoop\<close> of width 8 and 2.\<close>

definition buildShuffleContext :: "int \<Rightarrow> int \<Rightarrow> js_number \<Rightarrow> string \<Rightarrow> byte list fallible" where
  "buildShuffleContext tableId handId rnd shuffler =
     (let shufflerBytes = utf8 shuffler in
      if tableId < 0 \<or> 0xffffffffffffffff < tableId then Inl ''buildShuffleContext: tableId out of range''
      else if handId < 0 \<or> 0xffffffffffffffff < handId then Inl ''buildShuffleContext: handId out of range''
      else if \<not> isInteger rnd \<or> rnd < 0 \<or> 0xffff < rnd then Inl ''buildShuffleContext: round out of range''
      else if 0xffff < length shufflerBytes then Inl ''buildShuffleContext: shuffler too long''
      else Inr (fst (bytesLELoop tableId 8) @ fst (bytesLELoop handId 8) @ fst (bytesLELoop \<lfloor>rnd\<rfloor> 2)
                @ fst (bytesLELoop (int (length shufflerBytes)) 2) @ shufflerBytes))"

subsection \<open>Sampling\<close>

lemma nextScalar_counter:
  "nextScalar H rng = Inr (s, rng') \<Longrightarrow> rng_counter rng' = Suc (rng_counter rng) \<and> rng_counter rng < 2 ^ 32"
  using nextScalar_Inr(3,4) by blast

function sampleNonzeroScalar :: "hash \<Rightarrow> DeterministicRng \<Rightarrow> (int \<times> DeterministicRng) fallible" where
  "sampleNonzeroScalar sha512 rng =
     rbind (nextScalar sha512 rng) (\<lambda>(s, rng). if s \<noteq> 0 then Inr (s, rng) else sampleNonzeroScalar sha512 rng)"
  by pat_completeness auto
termination
  by (relation "measure (\<lambda>(H, rng). 2 ^ 32 + 1 - rng_counter rng)")
    (auto dest!: nextScalar_counter)

declare sampleNonzeroScalar.simps [simp del]

lemma sampleNonzeroScalar_Inr:
  "sampleNonzeroScalar H rng = Inr (s, rng') \<Longrightarrow>
     s \<noteq> 0 \<and> rng_counter rng < rng_counter rng' \<and> rng_counter rng' \<le> 2 ^ 32"
proof (induction H rng rule: sampleNonzeroScalar.induct)
  case (1 H rng)
  from "1.prems" obtain s1 rng1 where n: "nextScalar H rng = Inr (s1, rng1)"
    and r: "(if s1 \<noteq> 0 then Inr (s1, rng1) else sampleNonzeroScalar H rng1) = Inr (s, rng')"
    by (subst (asm) sampleNonzeroScalar.simps) (auto simp: rbind_Inr_iff)
  show ?case
    using "1.IH" [OF n refl] r nextScalar_Inr(3,4) [OF n] by (cases "s1 = 0") auto
qed

function reencryptAvoidingC1Collisions ::
  "'p curve \<Rightarrow> hash \<Rightarrow> 'p \<Rightarrow> 'p ElGamalCiphertext \<Rightarrow> 'p list \<Rightarrow> DeterministicRng
   \<Rightarrow> (('p ElGamalCiphertext \<times> int) \<times> DeterministicRng) fallible" where
  "reencryptAvoidingC1Collisions C sha512 pk src avoidC1s rng =
     rbind (sampleNonzeroScalar sha512 rng) (\<lambda>(rho, rng).
     rbind (elgamalReencrypt C pk src rho) (\<lambda>ct.
     if \<not> list_ex (pointEq C (ct_c1 ct)) avoidC1s then Inr ((ct, rho), rng)
     else reencryptAvoidingC1Collisions C sha512 pk src avoidC1s rng))"
  by pat_completeness auto
termination
  by (relation "measure (\<lambda>(C, H, pk, src, avoid, rng). 2 ^ 32 + 1 - rng_counter rng)")
    (auto dest!: sampleNonzeroScalar_Inr)

declare reencryptAvoidingC1Collisions.simps [simp del]

text \<open>
  One exchange of the Fisher-Yates loop and the loop, \<open>i\<close> counting down to 1. The index sampled is the
  32-bit little-endian value of four generator bytes.
\<close>

definition swapAt :: "nat \<Rightarrow> nat \<Rightarrow> 'a list \<Rightarrow> 'a list" where
  "swapAt i j xs = xs[i := xs ! j, j := xs ! i]"

fun permLoop :: "hash \<Rightarrow> nat \<Rightarrow> nat list \<Rightarrow> DeterministicRng \<Rightarrow> (nat list \<times> DeterministicRng) fallible" where
  "permLoop sha512 0 perm rng = Inr (perm, rng)"
| "permLoop sha512 (Suc i) perm rng =
     rbind (nextBytes sha512 4 rng) (\<lambda>(b, rng).
     let x = nat (bytesToBigintLE b); j = x mod (Suc i + 1)
     in permLoop sha512 i (swapAt (Suc i) j perm) rng)"

definition randomPermutation :: "hash \<Rightarrow> nat \<Rightarrow> DeterministicRng \<Rightarrow> (nat list \<times> DeterministicRng) fallible" where
  "randomPermutation sha512 n rng = permLoop sha512 (n - 1) [0..<n] rng"

subsection \<open>Rounds\<close>

function pairsFrom :: "nat \<Rightarrow> nat \<Rightarrow> (nat \<times> nat) list" where
  "pairsFrom n i = (if i + 1 < n then (i, i + 1) # pairsFrom n (i + 2) else [])"
  by pat_completeness auto
termination by (relation "measure (\<lambda>(n, i). n - i)") auto

declare pairsFrom.simps [simp del]

definition markUsed :: "(nat \<times> nat) list \<Rightarrow> bool list \<Rightarrow> bool list" where
  "markUsed pairs used = foldl (\<lambda>used (i, j). used[i := True, j := True]) used pairs"

definition roundPairs :: "nat \<Rightarrow> nat \<Rightarrow> (nat \<times> nat) list \<times> nat list" where
  "roundPairs n rnd =
     (let start = rnd mod 2;
          pairs = pairsFrom n start;
          used = markUsed pairs (replicate n False);
          singles = filter (\<lambda>i. \<not> used ! i) [0..<n]
      in (pairs, singles))"

subsection \<open>The prover\<close>

record ShuffleProveOpts =
  opt_seedUnsafeForTestsOnly :: "byte list option"
  opt_rounds :: "js_number option"
  opt_context :: "byte list option"

type_synonym 'p item = "'p ElGamalCiphertext \<times> nat"

record 'p round_state =
  rs_rng :: DeterministicRng
  rs_next :: "'p item list"
  rs_deckOut :: "'p ElGamalCiphertext list"
  rs_proofs :: "byte list list"

definition provePair ::
  "'p curve \<Rightarrow> hash \<Rightarrow> 'p \<Rightarrow> byte list option \<Rightarrow> 'p item list \<Rightarrow> nat \<times> nat \<Rightarrow> 'p round_state \<Rightarrow> 'p round_state fallible" where
  "provePair C sha512 pk context items p st =
     (let i = fst p; j = snd p;
          left0 = fst (items ! i); left1 = fst (items ! j);
          swap = snd (items ! i) > snd (items ! j);
          src0 = (if swap then left1 else left0);
          src1 = (if swap then left0 else left1) in
      rbind (reencryptAvoidingC1Collisions C sha512 pk src0 [ct_c1 left0, ct_c1 left1] (rs_rng st)) (\<lambda>((out0, rho0), rng).
      rbind (reencryptAvoidingC1Collisions C sha512 pk src1 [ct_c1 left0, ct_c1 left1] rng) (\<lambda>((out1, rho1), rng).
      rbind (proveSwitch C sha512 pk left0 left1 out0 out1 swap rho0 rho1 context rng) (\<lambda>(sp, rng).
      rbind (encodeSwitchProof C sp) (\<lambda>bytes.
      let nxt = (rs_next st)[i := (out0, snd (rs_next st ! i)), j := (out1, snd (rs_next st ! j))];
          nxt = (if swap then nxt[i := (fst (nxt ! i), snd (nxt ! j)), j := (fst (nxt ! j), snd (nxt ! i))] else nxt) in
      Inr \<lparr>rs_rng = rng, rs_next = nxt, rs_deckOut = (rs_deckOut st)[i := out0, j := out1],
           rs_proofs = rs_proofs st @ [bytes]\<rparr>)))))"

definition proveSingle ::
  "'p curve \<Rightarrow> hash \<Rightarrow> 'p \<Rightarrow> byte list option \<Rightarrow> 'p item list \<Rightarrow> nat \<Rightarrow> 'p round_state \<Rightarrow> 'p round_state fallible" where
  "proveSingle C sha512 pk context items idx st =
     (let inCt = fst (items ! idx) in
      rbind (sampleNonzeroScalar sha512 (rs_rng st)) (\<lambda>(rho, rng).
      rbind (elgamalReencrypt C pk inCt rho) (\<lambda>outCt.
      let X = pointSub C (ct_c1 outCt) (ct_c1 inCt); Y = pointSub C (ct_c2 outCt) (ct_c2 inCt) in
      rbind (proveEqDlog C sha512 DOMAIN_REENC (basePoint C) pk X Y rho context rng) (\<lambda>(p, rng).
      rbind (encodeEqDlogProofV1 C p) (\<lambda>bytes.
      Inr \<lparr>rs_rng = rng, rs_next = (rs_next st)[idx := (outCt, snd (rs_next st ! idx))],
           rs_deckOut = (rs_deckOut st)[idx := outCt], rs_proofs = rs_proofs st @ [bytes]\<rparr>)))))"

definition proveRound ::
  "'p curve \<Rightarrow> hash \<Rightarrow> 'p \<Rightarrow> byte list option \<Rightarrow> nat \<Rightarrow> 'p item list \<times> DeterministicRng \<times> byte list
   \<Rightarrow> ('p item list \<times> DeterministicRng \<times> byte list) fallible" where
  "proveRound C sha512 pk context rnd st =
     (let (items, rng, prf) = st;
          (pairs, singles) = roundPairs (length items) rnd in
      rbind (rfold (provePair C sha512 pk context items) pairs
               \<lparr>rs_rng = rng, rs_next = items, rs_deckOut = map fst items, rs_proofs = []\<rparr>) (\<lambda>s1.
      rbind (rfold (proveSingle C sha512 pk context items) singles s1) (\<lambda>s2.
      Inr (rs_next s2, rs_rng s2,
           prf @ concat (map (encodeCiphertext C) (rs_deckOut s2)) @ concat (rs_proofs s2)))))"

definition shuffleHeader :: "nat \<Rightarrow> js_number \<Rightarrow> byte list option \<Rightarrow> byte list fallible" where
  "shuffleHeader n rounds context =
     (case context of
        Some ctx \<Rightarrow>
          if 0xffff < length ctx then Inl ''shuffleProveV1: context too long (>65535 bytes)''
          else rbind (u16ToBytesLE (of_nat n)) (\<lambda>a. rbind (u16ToBytesLE rounds) (\<lambda>b.
               rbind (u16ToBytesLE (of_nat (length ctx))) (\<lambda>c.
               Inr ([of_nat SHUFFLE_PROOF_V2_VERSION] @ a @ b @ c @ ctx))))
      | None \<Rightarrow>
          rbind (u16ToBytesLE (of_nat n)) (\<lambda>a. rbind (u16ToBytesLE rounds) (\<lambda>b.
          Inr ([of_nat SHUFFLE_PROOF_V1_VERSION] @ a @ b))))"

definition shuffleProveV1 ::
  "'p curve \<Rightarrow> hash \<Rightarrow> bool \<Rightarrow> byte list \<Rightarrow> 'p \<Rightarrow> 'p ElGamalCiphertext list \<Rightarrow> ShuffleProveOpts
   \<Rightarrow> ('p ElGamalCiphertext list \<times> byte list) fallible" where
  "shuffleProveV1 C sha512 unsafeSeedAllowed randomSeed pk deckIn opts =
     (let n = length deckIn;
          rounds = (case opt_rounds opts of Some r \<Rightarrow> r | None \<Rightarrow> of_nat n) in
      if n < 2 then Inl ''shuffleProveV1: deck too small''
      else if \<not> isInteger rounds \<or> rounds \<le> 0 then Inl ''shuffleProveV1: rounds must be > 0''
      else if opt_seedUnsafeForTestsOnly opts \<noteq> None \<and> \<not> unsafeSeedAllowed
      then Inl ''seedUnsafeForTestsOnly is a test hook; set NODE_ENV=test or OCP_ALLOW_UNSAFE_SEED=1 to enable''
      else
      rbind (newRng (case opt_seedUnsafeForTestsOnly opts of Some s \<Rightarrow> s | None \<Rightarrow> randomSeed)) (\<lambda>rng.
      if opt_context opts = Some [] then Inl ''shuffleProveV1: context must be non-empty for v2''
      else
      rbind (randomPermutation sha512 n rng) (\<lambda>(perm, rng).
      rbind (shuffleHeader n rounds (opt_context opts)) (\<lambda>header.
      rbind (rfold (proveRound C sha512 pk (opt_context opts)) [0..<nat \<lfloor>rounds\<rfloor>] (zip deckIn perm, rng, header)) (\<lambda>(items, rng, prf).
      Inr (map fst items, prf))))))"

subsection \<open>The verifier\<close>

text \<open>
  A result \<^verbatim>\<open>{ ok: false, error }\<close> is \<open>Inl error\<close>, and so is an exception, which the verifier catches and
  turns into such a result; \<^verbatim>\<open>{ ok: true, deckOut }\<close> is \<open>Inr deckOut\<close>.
\<close>

function verifyPairs ::
  "'p curve \<Rightarrow> hash \<Rightarrow> 'p \<Rightarrow> byte list option \<Rightarrow> nat \<Rightarrow> 'p ElGamalCiphertext list \<Rightarrow> 'p ElGamalCiphertext list
   \<Rightarrow> nat \<Rightarrow> nat \<Rightarrow> Reader \<Rightarrow> Reader fallible" where
  "verifyPairs C sha512 pk ctx rnd cur nxt n i rd =
     (if i + 1 < n
      then rbind (decodeSwitchProofFromReader C rd) (\<lambda>(sp, rd).
           rbind (verifySwitch C sha512 pk (cur ! i) (cur ! (i + 1)) (nxt ! i) (nxt ! (i + 1)) sp ctx) (\<lambda>ok.
           if \<not> ok
           then Inl (''invalid switch proof at round='' @ showNat rnd @ '' pair=('' @ showNat i @ '','' @ showNat (i + 1) @ '')'')
           else verifyPairs C sha512 pk ctx rnd cur nxt n (i + 2) rd))
      else Inr rd)"
  by pat_completeness auto
termination by (relation "measure (\<lambda>(C, H, pk, ctx, rnd, cur, nxt, n, i, rd). n - i)") auto

declare verifyPairs.simps [simp del]

definition verifySingle ::
  "'p curve \<Rightarrow> hash \<Rightarrow> 'p \<Rightarrow> byte list option \<Rightarrow> nat \<Rightarrow> 'p ElGamalCiphertext list \<Rightarrow> 'p ElGamalCiphertext list
   \<Rightarrow> nat \<Rightarrow> Reader \<Rightarrow> Reader fallible" where
  "verifySingle C sha512 pk ctx rnd cur nxt idx rd =
     rbind (decodeEqDlogProofFromReader C rd) (\<lambda>(p, rd).
     if pointEq C (ct_c1 (nxt ! idx)) (ct_c1 (cur ! idx))
     then Inl (''single not rerandomized at round='' @ showNat rnd @ '' idx='' @ showNat idx)
     else
     let X = pointSub C (ct_c1 (nxt ! idx)) (ct_c1 (cur ! idx)); Y = pointSub C (ct_c2 (nxt ! idx)) (ct_c2 (cur ! idx)) in
     rbind (verifyEqDlog C sha512 DOMAIN_REENC (basePoint C) pk X Y p ctx) (\<lambda>ok.
     if \<not> ok then Inl (''invalid single proof at round='' @ showNat rnd @ '' idx='' @ showNat idx)
     else Inr rd))"

definition verifySingles ::
  "'p curve \<Rightarrow> hash \<Rightarrow> 'p \<Rightarrow> byte list option \<Rightarrow> nat \<Rightarrow> 'p ElGamalCiphertext list \<Rightarrow> 'p ElGamalCiphertext list
   \<Rightarrow> nat \<Rightarrow> nat \<Rightarrow> Reader \<Rightarrow> Reader fallible" where
  "verifySingles C sha512 pk ctx rnd cur nxt n start rd =
     (if n mod 2 = 1
      then verifySingle C sha512 pk ctx rnd cur nxt (if start = 0 then n - 1 else 0) rd
      else if start = 1
      then rbind (verifySingle C sha512 pk ctx rnd cur nxt 0 rd) (\<lambda>rd.
           verifySingle C sha512 pk ctx rnd cur nxt (n - 1) rd)
      else Inr rd)"

definition verifyRound ::
  "'p curve \<Rightarrow> hash \<Rightarrow> 'p \<Rightarrow> byte list option \<Rightarrow> nat \<Rightarrow> nat \<Rightarrow> 'p ElGamalCiphertext list \<times> Reader
   \<Rightarrow> ('p ElGamalCiphertext list \<times> Reader) fallible" where
  "verifyRound C sha512 pk ctx n rnd st =
     (let (cur, rd) = st; start = rnd mod 2 in
      rbind (takeBytes (n * 64) rd) (\<lambda>(deckBytes, rd).
      rbind (rmap (\<lambda>i. decodeCiphertext C (slice (i * 64) (i * 64 + 64) deckBytes)) [0..<n]) (\<lambda>nxt.
      rbind (verifyPairs C sha512 pk ctx rnd cur nxt n start rd) (\<lambda>rd.
      rbind (verifySingles C sha512 pk ctx rnd cur nxt n start rd) (\<lambda>rd.
      Inr (nxt, rd))))))"

definition checkVersion :: "nat \<Rightarrow> byte list option \<Rightarrow> byte list option fallible" where
  "checkVersion version context =
     (if version = SHUFFLE_PROOF_V1_VERSION
      then if context \<noteq> None then Inl ''context supplied for v1 proof; v1 must omit context'' else Inr None
      else if version = SHUFFLE_PROOF_V2_VERSION
      then (case context of
              None \<Rightarrow> Inl ''context required for v2 proof''
            | Some c \<Rightarrow> if c = [] then Inl ''context must be non-empty for v2'' else Inr (Some c))
      else Inl (''unsupported version '' @ showNat version))"

definition checkContext :: "nat \<Rightarrow> byte list option \<Rightarrow> Reader \<Rightarrow> Reader fallible" where
  "checkContext version ctx rd =
     (if version = SHUFFLE_PROOF_V2_VERSION
      then rbind (takeU16LE rd) (\<lambda>(ctxLen, rd).
           rbind (takeBytes ctxLen rd) (\<lambda>(ctxBytes, rd).
           if length ctxBytes \<noteq> length (the ctx) then Inl ''context length mismatch''
           else if list_ex (\<lambda>i. ctxBytes ! i \<noteq> the ctx ! i) [0..<length ctxBytes] then Inl ''context mismatch''
           else Inr rd))
      else Inr rd)"

definition shuffleVerifyV1 ::
  "'p curve \<Rightarrow> hash \<Rightarrow> 'p \<Rightarrow> 'p ElGamalCiphertext list \<Rightarrow> byte list \<Rightarrow> byte list option
   \<Rightarrow> 'p ElGamalCiphertext list fallible" where
  "shuffleVerifyV1 C sha512 pk deckIn proofBytes context =
     rbind (takeU8 (newReader proofBytes)) (\<lambda>(version, rd).
     rbind (checkVersion version context) (\<lambda>ctx.
     rbind (takeU16LE rd) (\<lambda>(n, rd).
     rbind (takeU16LE rd) (\<lambda>(rounds, rd).
     rbind (checkContext version ctx rd) (\<lambda>rd.
     if n \<noteq> length deckIn then Inl (''n mismatch: proof n='' @ showNat n @ '', deck n='' @ showNat (length deckIn))
     else if n < 2 then Inl ''deck too small''
     else if rounds \<le> 0 then Inl ''rounds must be > 0''
     else rbind (rfold (verifyRound C sha512 pk ctx n) [0..<rounds] (deckIn, rd)) (\<lambda>(cur, rd).
          if \<not> doneReader rd then Inl ''trailing bytes in proof'' else Inr cur))))))"

end
