(* ===== verification/Odd_Even_Sort.thy ===== *)
theory Odd_Even_Sort
  imports Shuffle_V1 "HOL-Library.Multiset"
begin

text \<open>
  The network the shuffle prover runs, on plain data: a round compares and exchanges the pairs
  \<^verbatim>\<open>roundPairs\<close> lists, by key. As many rounds as there are items sort any keys (odd-even
  transposition sort). The proof is by thresholds: for every \<open>t\<close> the number of keys \<open>\<ge> t\<close> in a
  suffix never drops, and the \<open>m\<close>-th of them from the right advances in every round in which its
  bound is tight, because the bound has the parity of the round.
\<close>

definition cmpExchange :: "('a \<times> nat) list \<Rightarrow> nat \<times> nat \<Rightarrow> ('a \<times> nat) list" where
  "cmpExchange xs p = (if snd (xs ! fst p) > snd (xs ! snd p) then swapAt (fst p) (snd p) xs else xs)"

definition oeRound :: "('a \<times> nat) list \<Rightarrow> nat \<Rightarrow> ('a \<times> nat) list" where
  "oeRound xs rnd = foldl cmpExchange xs (pairsFrom (length xs) (rnd mod 2))"

lemma cmpExchange_length [simp]: "length (cmpExchange xs p) = length xs"
  by (simp add: cmpExchange_def swapAt_def)

lemma cmpExchange_fold_length [simp]: "length (foldl cmpExchange xs ps) = length xs"
  by (induction ps arbitrary: xs) simp_all

lemma oeRound_length [simp]: "length (oeRound xs r) = length xs"
  by (simp add: oeRound_def)

lemma oeRounds_length [simp]: "length (foldl oeRound xs rs) = length xs"
  by (induction rs arbitrary: xs) simp_all

lemma cmpExchange_nth:
  assumes "Suc i < length xs"
  shows "cmpExchange xs (i, Suc i) ! k =
    (if k = i then (if snd (xs ! i) > snd (xs ! Suc i) then xs ! Suc i else xs ! i)
     else if k = Suc i then (if snd (xs ! i) > snd (xs ! Suc i) then xs ! i else xs ! Suc i) else xs ! k)"
  using assms by (simp add: cmpExchange_def swapAt_def nth_list_update)

lemma pairs_fold_nth:
  "length xs = n \<Longrightarrow> k < n \<Longrightarrow> foldl cmpExchange xs (pairsFrom n i) ! k =
    (if k < i then xs ! k
     else if even (k - i) then (if Suc k < n \<and> snd (xs ! k) > snd (xs ! Suc k) then xs ! Suc k else xs ! k)
     else (if snd (xs ! (k - 1)) > snd (xs ! k) then xs ! (k - 1) else xs ! k))"
proof (induction n i arbitrary: xs rule: pairsFrom.induct)
  case (1 n i)
  show ?case
  proof (cases "Suc i < n")
    case True
    let ?ys = "cmpExchange xs (i, Suc i)"
    have step: "foldl cmpExchange xs (pairsFrom n i) ! k = foldl cmpExchange ?ys (pairsFrom n (i + 2)) ! k"
      using True by (subst pairsFrom.simps) simp
    have ih: "foldl cmpExchange ?ys (pairsFrom n (i + 2)) ! k =
      (if k < i + 2 then ?ys ! k
       else if even (k - (i + 2)) then (if Suc k < n \<and> snd (?ys ! k) > snd (?ys ! Suc k) then ?ys ! Suc k else ?ys ! k)
       else (if snd (?ys ! (k - 1)) > snd (?ys ! k) then ?ys ! (k - 1) else ?ys ! k))"
      using 1 True by (intro "1.IH") simp_all
    have nth: "?ys ! k' = (if k' = i then (if snd (xs ! i) > snd (xs ! Suc i) then xs ! Suc i else xs ! i)
       else if k' = Suc i then (if snd (xs ! i) > snd (xs ! Suc i) then xs ! i else xs ! Suc i) else xs ! k')" for k'
      using True "1.prems" by (intro cmpExchange_nth) simp
    consider "k < i" | "k = i" | "k = Suc i" | "k \<ge> i + 2" by linarith
    then show ?thesis
    proof cases
      case 4
      then have "even (k - (i + 2)) = even (k - i)" "\<not> k < i" by auto
      moreover have "k - 1 \<noteq> Suc i" if "odd (k - i)"
      proof
        assume "k - 1 = Suc i"
        then have "k - i = 2" using 4 by simp
        then show False using that by simp
      qed
      ultimately show ?thesis unfolding step ih using 4 by (auto simp: nth)
    qed (unfold step ih, auto simp: nth True)
  next
    case False
    then have "pairsFrom n i = []" by (subst pairsFrom.simps) simp
    then show ?thesis using "1.prems" False by auto
  qed
qed

lemma oeRound_nth:
  assumes "k < length xs"
  shows "oeRound xs r ! k =
    (if even (k + r) then (if Suc k < length xs \<and> snd (xs ! k) > snd (xs ! Suc k) then xs ! Suc k else xs ! k)
     else (if 0 < k \<and> snd (xs ! (k - 1)) > snd (xs ! k) then xs ! (k - 1) else xs ! k))"
proof (cases "even r")
  case True
  then have "r mod 2 = 0" by presburger
  then show ?thesis using pairs_fold_nth [OF refl assms, of 0] True by (auto simp: oeRound_def)
next
  case False
  then have r: "r mod 2 = 1" by presburger
  show ?thesis using pairs_fold_nth [OF refl assms, of 1] False by (cases k) (auto simp: oeRound_def r)
qed

text \<open>Counting the keys \<open>\<ge> t\<close> from position \<open>x\<close> on.\<close>

definition cnt :: "nat \<Rightarrow> ('a \<times> nat) list \<Rightarrow> nat \<Rightarrow> nat" where
  "cnt t xs x = length (filter (\<lambda>p. t \<le> snd p) (drop x xs))"

lemma cnt_Suc: "x < length xs \<Longrightarrow> cnt t xs x = (if t \<le> snd (xs ! x) then 1 else 0) + cnt t xs (Suc x)"
  by (simp add: cnt_def Cons_nth_drop_Suc [symmetric])

lemma cnt_out: "length xs \<le> x \<Longrightarrow> cnt t xs x = 0"
  by (simp add: cnt_def)

lemma cnt_le: "cnt t xs x \<le> length xs - x"
  unfolding cnt_def using length_filter_le [of _ "drop x xs"] by simp

lemma cnt_anti:
  assumes "x \<le> y"
  shows "cnt t xs y \<le> cnt t xs x"
proof -
  have "drop x xs = take (y - x) (drop x xs) @ drop y xs"
    using assms append_take_drop_id [of "y - x" "drop x xs"] by simp
  then have "filter P (drop x xs) = filter P (take (y - x) (drop x xs)) @ filter P (drop y xs)" for P
    by (metis filter_append)
  then show ?thesis by (simp add: cnt_def)
qed

text \<open>A round keeps the counts at the borders of its pairs.\<close>

lemma cnt_border:
  assumes "even (x + r)"
  shows "cnt t (oeRound xs r) x = cnt t xs x"
  using assms
proof (induction "length xs - x" arbitrary: x rule: less_induct)
  case less
  let ?ys = "oeRound xs r"
  consider "length xs \<le> x" | "Suc x = length xs" | "Suc x < length xs" by linarith
  then show ?case
  proof cases
    case 1
    then show ?thesis by (simp add: cnt_out)
  next
    case 2
    then have "?ys ! x = xs ! x" using oeRound_nth [of x xs r] less.prems by simp
    then show ?thesis using 2 by (simp add: cnt_Suc cnt_out)
  next
    case 3
    have "cnt t ?ys (x + 2) = cnt t xs (x + 2)" using less.prems 3 by (intro less.hyps) simp_all
    moreover have "?ys ! x = (if snd (xs ! x) > snd (xs ! Suc x) then xs ! Suc x else xs ! x)"
      "?ys ! Suc x = (if snd (xs ! x) > snd (xs ! Suc x) then xs ! x else xs ! Suc x)"
      using oeRound_nth [of x xs r] oeRound_nth [of "Suc x" xs r] less.prems 3 by simp_all
    ultimately show ?thesis using 3 by (simp add: cnt_Suc [of x] cnt_Suc [of "Suc x"])
  qed
qed

lemma cnt_inside:
  assumes "even (x + r)" and "Suc x < length xs"
  shows "cnt t (oeRound xs r) (Suc x) = cnt t xs (x + 2) + (if cnt t xs (x + 2) < cnt t xs x then 1 else 0)"
proof -
  have "cnt t (oeRound xs r) (x + 2) = cnt t xs (x + 2)" using assms(1) by (intro cnt_border) simp
  moreover have "oeRound xs r ! Suc x = (if snd (xs ! x) > snd (xs ! Suc x) then xs ! x else xs ! Suc x)"
    using oeRound_nth [of "Suc x" xs r] assms by simp
  ultimately show ?thesis using assms(2) by (auto simp: cnt_Suc [of x] cnt_Suc [of "Suc x"])
qed

lemma cnt_mono: "cnt t xs x \<le> cnt t (oeRound xs r) x"
proof (cases "even (x + r)")
  case False
  show ?thesis
  proof (cases x)
    case 0
    consider "xs = []" | "xs \<noteq> []" by blast
    then show ?thesis
    proof cases
      case 2
      then have "oeRound xs r ! 0 = xs ! 0" using oeRound_nth [of 0 xs r] False 0 by simp
      moreover have "cnt t (oeRound xs r) 1 = cnt t xs 1" using False 0 by (intro cnt_border) simp
      moreover have "0 < length xs" "0 < length (oeRound xs r)" using 2 by simp_all
      ultimately show ?thesis using 0 by (simp add: cnt_Suc [of 0])
    qed (simp add: cnt_def)
  next
    case (Suc y)
    then have y: "even (y + r)" using False by simp
    show ?thesis
    proof (cases "Suc y < length xs")
      case True
      show ?thesis unfolding Suc cnt_inside [OF y True]
        using True by (auto simp: cnt_Suc [of y] cnt_Suc [of "Suc y"])
    qed (simp add: Suc cnt_out)
  qed
qed (simp add: cnt_border)

lemma cnt_prefix: "cnt t xs 0 \<le> x + cnt t xs x"
proof (induction x)
  case (Suc x)
  then show ?case by (cases "x < length xs") (auto simp: cnt_Suc [of x] cnt_out split: if_splits)
qed simp

text \<open>
  With \<open>k\<close> keys \<open>\<ge> t\<close> among \<open>n\<close>, the position the \<open>m\<close>-th of them from the right has reached at least
  after \<open>r\<close> rounds: it waits for the ones to its right (and for the parity), then moves every round.
\<close>

definition reached :: "nat \<Rightarrow> nat \<Rightarrow> nat \<Rightarrow> nat \<Rightarrow> nat" where
  "reached n k m r = min (n - 1 - m) (k - 1 - m + (r - (if even k then 1 else 0) - m))"

lemma reached_step:
  assumes "m < k" and "k \<le> n" and "reached n k m (Suc r) \<noteq> reached n k m r"
  shows "reached n k m (Suc r) = Suc (reached n k m r)" and "even (reached n k m r + r)"
    and "Suc (reached n k m r) < n" and "0 < m \<Longrightarrow> reached n k m r + 2 \<le> reached n k (m - 1) r"
proof -
  let ?d = "if even k then 1 else 0 :: nat"
  have r: "?d + m \<le> r" and x: "reached n k m r = k - 1 - m + (r - ?d - m)" "reached n k m r < n - 1 - m"
    using assms by (auto simp: reached_def min_def split: if_splits)
  show "reached n k m (Suc r) = Suc (reached n k m r)" using r x by (auto simp: reached_def)
  show "Suc (reached n k m r) < n" using x(2) by simp
  have "even k \<longrightarrow> 2 \<le> k" using assms(1) by presburger
  then have "reached n k m r + r + 2 * m = k - 1 - ?d + 2 * r" using r x(1) assms(1) by (auto split: if_splits)
  moreover have "even (k - 1 - ?d)" using assms(1) by auto
  ultimately show "even (reached n k m r + r)" by (metis dvd_triv_left even_add)
  assume "0 < m"
  then have e: "k - 1 - (m - 1) = Suc (k - 1 - m)" "r - ?d - (m - 1) = Suc (r - ?d - m)" "n - 1 - (m - 1) = Suc (n - 1 - m)"
    using assms(1,2) r by auto
  have "reached n k (m - 1) r = min (Suc (n - 1 - m)) (reached n k m r + 2)"
    unfolding reached_def [of n k "m - 1"] x(1) e by (simp only: add_Suc add_Suc_right add_2_eq_Suc')
  then show "reached n k m r + 2 \<le> reached n k (m - 1) r" using x(2) by simp
qed

lemma thresholds:
  assumes "cnt t xs 0 = k" and "length xs = n"
  shows "m < k \<Longrightarrow> m < cnt t (foldl oeRound xs [0..<r]) (reached n k m r)"
proof (induction r arbitrary: m)
  case 0
  have "cnt t xs (k - 1 - m) \<ge> k - (k - 1 - m)" using cnt_prefix [of t xs "k - 1 - m"] assms(1) by simp
  moreover have "cnt t xs (k - 1 - m) \<le> cnt t xs (reached n k m 0)"
    by (intro cnt_anti) (simp add: reached_def)
  ultimately show ?case using 0 by simp
next
  case (Suc r)
  let ?ys = "foldl oeRound xs [0..<r]" and ?x = "reached n k m r"
  have kn: "k \<le> n" using cnt_le [of t xs 0] assms by simp
  show ?case
  proof (cases "reached n k m (Suc r) = ?x")
    case True
    then show ?thesis using Suc.IH [OF Suc.prems] cnt_mono [of t ?ys ?x r] by simp
  next
    case False
    note s = reached_step [OF Suc.prems kn False]
    have "m \<le> cnt t ?ys (?x + 2)"
    proof (cases m)
      case (Suc m')
      have "m' < cnt t ?ys (reached n k m' r)" using Suc.IH [of m'] Suc.prems Suc by simp
      also have "\<dots> \<le> cnt t ?ys (?x + 2)" using s(4) Suc by (intro cnt_anti) simp
      finally show ?thesis using Suc by simp
    qed simp
    moreover have "m < cnt t ?ys ?x" by (rule Suc.IH [OF Suc.prems])
    moreover have "cnt t (oeRound ?ys r) (Suc ?x) = cnt t ?ys (?x + 2) + (if cnt t ?ys (?x + 2) < cnt t ?ys ?x then 1 else 0)"
      using s(2,3) assms(2) by (intro cnt_inside) simp_all
    ultimately show ?thesis using s(1) by (simp split: if_splits)
  qed
qed

text \<open>After \<open>n\<close> rounds the last positions hold the large keys, for every threshold.\<close>

lemma oe_suffix:
  assumes "length xs = n" and "cnt t xs 0 = n - t" and "t \<le> i" and "i < n" and "n \<le> r"
  shows "t \<le> snd (foldl oeRound xs [0..<r] ! i)"
proof -
  let ?k = "n - t" and ?ys = "foldl oeRound xs [0..<r]"
  have k: "0 < ?k" using assms(3,4) by simp
  have "even ?k \<longrightarrow> 2 \<le> ?k" using k by presburger
  then have "reached n ?k (?k - 1) r = t" using k assms(3,4,5) by (auto simp: reached_def min_def)
  then have "?k - 1 < cnt t ?ys t" using thresholds [OF assms(2,1), of "?k - 1" r] k by simp
  then have "?k \<le> cnt t ?ys t" by linarith
  then have "length (filter (\<lambda>p. t \<le> snd p) (drop t ?ys)) = length (drop t ?ys)"
    using cnt_le [of t ?ys t] assms(1) by (simp add: cnt_def)
  then have "\<forall>p \<in> set (drop t ?ys). t \<le> snd p" by (metis filter_id_conv length_filter_less less_irrefl)
  moreover have "?ys ! i \<in> set (drop t ?ys)"
    using assms(1,3,4) nth_mem [of "i - t" "drop t ?ys"] by simp
  ultimately show ?thesis by blast
qed

lemma cmpExchange_mset:
  "fst p < length xs \<Longrightarrow> snd p < length xs \<Longrightarrow> mset (cmpExchange xs p) = mset xs"
  using mset_swap [of "snd p" xs "fst p"] by (auto simp: cmpExchange_def swapAt_def list_update_swap [of "fst p" "snd p"])

lemma pairsFrom_bounds: "(i, j) \<in> set (pairsFrom n k) \<Longrightarrow> k \<le> i \<and> j = Suc i \<and> j < n"
  by (induction n k rule: pairsFrom.induct) (subst (asm) (2) pairsFrom.simps, auto split: if_splits)

lemma cmpExchange_fold_mset:
  "\<forall>p \<in> set ps. fst p < length xs \<and> snd p < length xs \<Longrightarrow> mset (foldl cmpExchange xs ps) = mset xs"
  by (induction ps arbitrary: xs) (simp_all add: cmpExchange_mset)

lemma oeRounds_mset: "mset (foldl oeRound xs rs) = mset xs"
proof (induction rs arbitrary: xs)
  case (Cons r rs)
  have "mset (oeRound xs r) = mset xs"
    unfolding oeRound_def by (intro cmpExchange_fold_mset ballI) (auto dest: pairsFrom_bounds)
  then show ?case using Cons [of "oeRound xs r"] by simp
qed simp

text \<open>With keys a permutation of the positions, every item ends at its key.\<close>

lemma oe_sorts:
  assumes "mset (map snd xs) = mset [0..<n]" and "n \<le> r"
  shows "map snd (foldl oeRound xs [0..<r]) = [0..<n]"
proof -
  let ?ys = "foldl oeRound xs [0..<r]"
  have len: "length xs = n" using arg_cong [OF assms(1), of size] by simp
  have m: "mset (map snd ?ys) = mset [0..<n]" using assms(1) oeRounds_mset [of xs "[0..<r]"] by (metis mset_map)
  have c: "cnt t xs 0 = n - t" for t
  proof -
    have "cnt t xs 0 = size (filter_mset (\<lambda>k. t \<le> k) (mset (map snd xs)))"
      by (simp add: cnt_def filter_mset_image_mset flip: mset_filter)
    also have "\<dots> = length (filter (\<lambda>k. t \<le> k) [0..<n])" by (simp only: assms(1) size_mset flip: mset_filter)
    also have "filter (\<lambda>k. t \<le> k) [0..<n] = [t..<n]" by (induction n) (auto simp: not_less_eq_eq)
    finally show ?thesis by simp
  qed
  have ge: "t \<le> snd (?ys ! i)" if "t \<le> i" "i < n" for t i by (rule oe_suffix [OF len c that assms(2)])
  have "snd (?ys ! i) = i" if "i < n" for i
  using that
  proof (induction "n - i" arbitrary: i rule: less_induct)
    case less
    have "snd (?ys ! i) < n"
      using m less.prems len by (metis atLeastLessThan_iff length_map nth_map nth_mem oeRounds_length set_mset_mset set_upt)
    moreover have "i \<le> snd (?ys ! i)" using ge [of i i] less.prems by simp
    moreover have "snd (?ys ! i) \<noteq> j" if "i < j" "j < n" for j
    proof
      assume "snd (?ys ! i) = j"
      moreover have "snd (?ys ! j) = j" using less.hyps [of j] that by simp
      moreover have "distinct (map snd ?ys)" using m by (metis distinct_upt mset_eq_imp_distinct_iff)
      ultimately show False using that less.prems len by (auto simp: distinct_conv_nth)
    qed
    ultimately show ?case by (metis le_neq_implies_less)
  qed
  then show ?thesis using len by (intro nth_equalityI) simp_all
qed

end
