(* ===== verification/Shuffle_Runs.thy ===== *)
theory Shuffle_Runs
  imports Shuffle_V1
begin

text \<open>
  Two runs of the shuffle on a deck of two cards over the integers modulo the group order: the prover
  returns, and the verifier accepts a one-round proof, which is put together by hand.
\<close>

definition two_cards :: "int ElGamalCiphertext list" where
  "two_cards = [\<lparr>ct_c1 = 10, ct_c2 = 100\<rparr>, \<lparr>ct_c1 = 20, ct_c2 = 200\<rparr>]"

definition two_cards_out :: "int ElGamalCiphertext list" where
  "two_cards_out = [\<lparr>ct_c1 = 13, ct_c2 = 121\<rparr>, \<lparr>ct_c1 = 24, ct_c2 = 228\<rparr>]"

lemma prover_run:
  "\<exists>deckOut proofBytes. shuffleProveV1 zq_curve (constHash 2) False [5] 7 two_cards
     \<lparr>opt_seedUnsafeForTestsOnly = None, opt_rounds = None, opt_context = None\<rparr> = Inr (deckOut, proofBytes)"
proof -
  let ?run = "shuffleProveV1 zq_curve (constHash 2) False [5] 7 two_cards
     \<lparr>opt_seedUnsafeForTestsOnly = None, opt_rounds = None, opt_context = None\<rparr>"
  have "case ?run of Inr _ \<Rightarrow> True | Inl _ \<Rightarrow> False" by code_simp
  then show ?thesis by (cases ?run) auto
qed

lemma decodeCiphertext_at:
  assumes "ristretto C dl" and "canonicalPoint C (ct_c1 ct)" and "canonicalPoint C (ct_c2 ct)"
  shows "length (encodeCiphertext C ct) = 64" and "decodeCiphertext C (encodeCiphertext C ct) = Inr ct"
  using assms ristretto_width [OF assms(1)]
  by (simp_all add: encodeCiphertext_def decodeCiphertext_def encodePoint_def decodePoint_def canonicalPoint_def slice_def)

lemma takeU16LE_at: "reads rd ([a, b] @ rest) \<Longrightarrow> \<exists>rd'. takeU16LE rd = Inr (unat a OR push_bit 8 (unat b), rd') \<and> reads rd' rest"
  by (erule takeBytes_at [of _ _ _ 2]) (auto simp: takeU16LE_def u16FromBytesLE_def)

lemma zq_goodProof: "goodProof zq_curve (zq_switch_proof 4 6 8)"
  by (simp add: goodProof_def zq_canonical CURVE_ORDER_def)

lemma verifier_run:
  "\<exists>proofBytes. shuffleVerifyV1 zq_curve (constHash 1) 7 two_cards proofBytes None = Inr two_cards_out"
proof -
  let ?e = "encodeCiphertext zq_curve" and ?o0 = "two_cards_out ! 0" and ?o1 = "two_cards_out ! Suc 0"
  obtain bs where bs: "\<And>rd rest. reads rd (bs @ rest) \<Longrightarrow>
      \<exists>rd'. decodeSwitchProofFromReader zq_curve rd = Inr (zq_switch_proof 4 6 8, rd') \<and> reads rd' rest"
    using switch_proof_round_trip [OF zq_ristretto zq_goodProof] by blast
  have c: "decodeCiphertext zq_curve (?e ?o0) = Inr ?o0" "decodeCiphertext zq_curve (?e ?o1) = Inr ?o1"
      "length (?e ?o0) = 64" "length (?e ?o1) = 64"
    by (intro decodeCiphertext_at [OF zq_ristretto] zq_canonical; simp add: two_cards_out_def CURVE_ORDER_def)+
  let ?rest = "(?e ?o0 @ ?e ?o1) @ bs @ []"
  let ?pb = "[1] @ [2, 0] @ [1, 0] @ ?rest"
  have "reads (newReader ?pb) ?pb" by (simp add: reads_def newReader_def)
  then obtain rd1 where 1: "takeBytes 1 (newReader ?pb) = Inr ([1], rd1)" "reads rd1 ([2, 0] @ [1, 0] @ ?rest)"
    by (rule takeBytes_at) simp_all
  obtain rd2 where 2: "takeU16LE rd1 = Inr (2, rd2)" "reads rd2 ([1, 0] @ ?rest)"
    using takeU16LE_at [OF 1(2)] by auto
  obtain rd3 where 3: "takeU16LE rd2 = Inr (1, rd3)" "reads rd3 ?rest" using takeU16LE_at [OF 2(2)] by auto
  have l: "length (?e ?o0 @ ?e ?o1) = 2 * 64" by (simp add: c(3,4))
  obtain rd4 where 4: "takeBytes (2 * 64) rd3 = Inr (?e ?o0 @ ?e ?o1, rd4)" "reads rd4 (bs @ [])"
    by (rule takeBytes_at [OF 3(2) l])
  obtain rd5 where 5: "decodeSwitchProofFromReader zq_curve rd4 = Inr (zq_switch_proof 4 6 8, rd5)" "reads rd5 []"
    using bs [OF 4(2)] by blast
  have m: "rmap (\<lambda>i. decodeCiphertext zq_curve (slice (i * 64) (i * 64 + 64) (?e ?o0 @ ?e ?o1))) [0..<2] = Inr two_cards_out"
    using c by (simp add: numeral_2_eq_2 upt_rec slice_def two_cards_out_def)
  have v: "verifySwitch zq_curve (constHash 1) 7 (two_cards ! 0) (two_cards ! 1) (two_cards_out ! 0) (two_cards_out ! 1)
      (zq_switch_proof 4 6 8) None = Inr True"
    using zq_verifySwitch(1) by (simp add: two_cards_def two_cards_out_def)
  have "verifyPairs zq_curve (constHash 1) 7 None 0 two_cards two_cards_out 2 0 rd4 = Inr rd5"
    using 5(1) v by (subst verifyPairs.simps) (simp add: verifyPairs.simps [of _ _ _ _ _ _ _ _ "Suc (Suc 0)"])
  then have "verifyRound zq_curve (constHash 1) 7 None 2 0 (two_cards, rd3) = Inr (two_cards_out, rd5)"
    using 4(1) m by (simp add: verifyRound_def verifySingles_def)
  moreover have "doneReader rd5" using 5(2) by (simp add: reads_def doneReader_def)
  moreover have "takeU8 (newReader ?pb) = Inr (1, rd1)" using 1(1) by (simp add: takeU8_def)
  ultimately have "shuffleVerifyV1 zq_curve (constHash 1) 7 two_cards ?pb None = Inr two_cards_out"
    using 2(1) 3(1)
    by (simp add: shuffleVerifyV1_def checkVersion_def checkContext_def SHUFFLE_PROOF_V1_VERSION_def
        SHUFFLE_PROOF_V2_VERSION_def two_cards_def)
  then show ?thesis by (rule exI)
qed

end
