(* ===== verification/Shuffle_Correct.thy ===== *)
theory Shuffle_Correct
  imports Odd_Even_Sort Shuffle_Runs
begin

text \<open>
  What the shuffle does to the plaintexts: a prover round refines a round of the sorting network on
  (plaintext, key) pairs, so the deck put out is the input deck permuted by the sampled permutation;
  what the verifier has checked when it accepts; the context encoding determines its parameters.
\<close>

subsection \<open>The sampled permutation\<close>

lemma permLoop_mset:
  "permLoop H i perm rng = Inr (perm', rng') \<Longrightarrow> i < length perm \<Longrightarrow> mset perm' = mset perm"
proof (induction i arbitrary: perm rng)
  case (Suc i)
  from Suc.prems(1) obtain b rng1
    where l: "permLoop H i (swapAt (Suc i) (nat (bytesToBigintLE b) mod (Suc i + 1)) perm) rng1 = Inr (perm', rng')"
    unfolding permLoop.simps rbind_Inr_iff split_paired_Ex prod.case Let_def by blast
  let ?j = "nat (bytesToBigintLE b) mod (Suc i + 1)"
  have "?j < Suc i + 1" by (rule mod_less_divisor) simp
  then have "?j < length perm" using Suc.prems(2) by linarith
  then have "mset (swapAt (Suc i) ?j perm) = mset perm"
    using Suc.prems(2) mset_swap [of ?j perm "Suc i"] by (simp add: swapAt_def)
  then show ?case using Suc.IH [OF l] Suc.prems(2) by (simp add: swapAt_def)
qed simp

lemma randomPermutation_mset:
  assumes "randomPermutation H n rng = Inr (perm, rng')" and "0 < n"
  shows "mset perm = mset [0..<n]"
  using assms permLoop_mset [of H "n - 1" "[0..<n]"] by (simp add: randomPermutation_def)

subsection \<open>A round of the prover refines a round of the network\<close>

definition absItems :: "('p \<Rightarrow> int) \<Rightarrow> int \<Rightarrow> 'p item list \<Rightarrow> (int \<times> nat) list" where
  "absItems dl sk items = map (\<lambda>it. (plain dl sk (fst it), snd it)) items"

lemma absItems_length [simp]: "length (absItems dl sk items) = length items"
  by (simp add: absItems_def)

lemma absItems_nth [simp]: "i < length items \<Longrightarrow> absItems dl sk items ! i = (plain dl sk (fst (items ! i)), snd (items ! i))"
  by (simp add: absItems_def)

lemma absItems_update: "absItems dl sk (items[i := it]) = (absItems dl sk items)[i := (plain dl sk (fst it), snd it)]"
  by (simp add: absItems_def map_update)

lemma reencryptAvoiding_Inr:
  "reencryptAvoidingC1Collisions C H pk src avoid rng = Inr ((ct, rho), rng') \<Longrightarrow>
     elgamalReencrypt C pk src rho = Inr ct \<and> (\<forall>a \<in> set avoid. \<not> pointEq C (ct_c1 ct) a)"
proof (induction C H pk src avoid rng rule: reencryptAvoidingC1Collisions.induct)
  case (1 C H pk src avoid rng)
  from "1.prems" obtain rho1 rng1 ct1 where s: "sampleNonzeroScalar H rng = Inr (rho1, rng1)" "elgamalReencrypt C pk src rho1 = Inr ct1"
    and r: "(if \<not> list_ex (pointEq C (ct_c1 ct1)) avoid then Inr ((ct1, rho1), rng1)
             else reencryptAvoidingC1Collisions C H pk src avoid rng1) = Inr ((ct, rho), rng')"
    by (subst (asm) reencryptAvoidingC1Collisions.simps) (auto simp: rbind_Inr_iff)
  show ?case
  proof (cases "list_ex (pointEq C (ct_c1 ct1)) avoid")
    case True
    then show ?thesis using "1.IH" [OF s(1) refl s(2)] r by simp
  next
    case False
    then show ?thesis using r s(2) by (auto simp: list_ex_iff)
  qed
qed

lemma provePair_next:
  assumes R: "ristretto C dl" and P: "provePair C H pk ctx items (i, Suc i) st = Inr st'"
    and n: "length (rs_next st) = length items" "Suc i < length items"
    and s: "rs_next st ! i = items ! i" "rs_next st ! Suc i = items ! Suc i"
  shows "absItems dl (dl pk) (rs_next st') = cmpExchange (absItems dl (dl pk) (rs_next st)) (i, Suc i)"
    and "length (rs_next st') = length items" and "k \<noteq> i \<Longrightarrow> k \<noteq> Suc i \<Longrightarrow> rs_next st' ! k = rs_next st ! k"
proof -
  let ?sw = "snd (items ! i) > snd (items ! Suc i)"
  obtain out0 rho0 rng0 out1 rho1 rng1 where
      o0: "reencryptAvoidingC1Collisions C H pk (if ?sw then fst (items ! Suc i) else fst (items ! i))
             [ct_c1 (fst (items ! i)), ct_c1 (fst (items ! Suc i))] (rs_rng st) = Inr ((out0, rho0), rng0)"
    and o1: "reencryptAvoidingC1Collisions C H pk (if ?sw then fst (items ! i) else fst (items ! Suc i))
             [ct_c1 (fst (items ! i)), ct_c1 (fst (items ! Suc i))] rng0 = Inr ((out1, rho1), rng1)"
    and nx: "rs_next st' = (let nxt = (rs_next st)[i := (out0, snd (rs_next st ! i)), Suc i := (out1, snd (rs_next st ! Suc i))]
       in if ?sw then nxt[i := (fst (nxt ! i), snd (nxt ! Suc i)), Suc i := (fst (nxt ! Suc i), snd (nxt ! i))] else nxt)"
    using P unfolding provePair_def Let_def rbind_Inr_iff split_paired_Ex prod.case fst_conv snd_conv
    by (elim exE conjE) auto
  have p: "plain dl (dl pk) out0 = plain dl (dl pk) (if ?sw then fst (items ! Suc i) else fst (items ! i))"
    "plain dl (dl pk) out1 = plain dl (dl pk) (if ?sw then fst (items ! i) else fst (items ! Suc i))"
    using reencryptAvoiding_Inr [OF o0] reencryptAvoiding_Inr [OF o1] elgamalReencrypt_Inr(4) [OF R] by blast+
  show "length (rs_next st') = length items" using n(1) by (simp add: nx Let_def)
  show "k \<noteq> i \<Longrightarrow> k \<noteq> Suc i \<Longrightarrow> rs_next st' ! k = rs_next st ! k" by (simp add: nx Let_def)
  show "absItems dl (dl pk) (rs_next st') = cmpExchange (absItems dl (dl pk) (rs_next st)) (i, Suc i)"
  proof (rule nth_equalityI)
    fix k
    assume "k < length (absItems dl (dl pk) (rs_next st'))"
    then have k: "k < length (rs_next st)" using n(1) by (simp add: nx Let_def split: if_splits)
    show "absItems dl (dl pk) (rs_next st') ! k = cmpExchange (absItems dl (dl pk) (rs_next st)) (i, Suc i) ! k"
      using n s p k by (subst cmpExchange_nth) (auto simp: nx Let_def nth_list_update)
  qed (simp add: nx Let_def)
qed

lemma provePairs_next:
  assumes R: "ristretto C dl"
  shows "rfold (provePair C H pk ctx items) (pairsFrom n i) st = Inr st' \<Longrightarrow> length (rs_next st) = n \<Longrightarrow> length items = n
    \<Longrightarrow> \<forall>k. i \<le> k \<longrightarrow> k < n \<longrightarrow> rs_next st ! k = items ! k
    \<Longrightarrow> length (rs_next st') = n
      \<and> absItems dl (dl pk) (rs_next st') = foldl cmpExchange (absItems dl (dl pk) (rs_next st)) (pairsFrom n i)"
proof (induction n i arbitrary: st rule: pairsFrom.induct)
  case (1 n i)
  show ?case
  proof (cases "i + 1 < n")
    case True
    then have pf: "pairsFrom n i = (i, Suc i) # pairsFrom n (i + 2)" by (subst pairsFrom.simps) simp
    obtain st1 where s1: "provePair C H pk ctx items (i, Suc i) st = Inr st1"
      and s2: "rfold (provePair C H pk ctx items) (pairsFrom n (i + 2)) st1 = Inr st'"
      using "1.prems"(1) unfolding pf rfold.simps rbind_Inr_iff by blast
    have st: "rs_next st ! i = items ! i" "rs_next st ! Suc i = items ! Suc i" "Suc i < length items" "length (rs_next st) = length items"
      using "1.prems" True by simp_all
    note a = provePair_next [OF R s1 st(4,3,1,2)]
    have "rs_next st1 ! k = items ! k" if "i + 2 \<le> k" "k < n" for k
      using a(3) [of k] "1.prems"(4) that by simp
    then show ?thesis using "1.IH" [OF True s2] a(1,2) "1.prems"(3) by (simp add: pf)
  next
    case False
    then have "pairsFrom n i = []" by (subst pairsFrom.simps) simp
    then show ?thesis using "1.prems" by simp
  qed
qed

lemma proveSingle_next:
  assumes R: "ristretto C dl" and P: "proveSingle C H pk ctx items idx st = Inr st'"
    and "length (rs_next st) = length items" and "idx < length items"
    and "absItems dl (dl pk) (rs_next st) ! idx = absItems dl (dl pk) items ! idx"
  shows "absItems dl (dl pk) (rs_next st') = absItems dl (dl pk) (rs_next st)" and "length (rs_next st') = length items"
proof -
  obtain rho rng ct where e: "elgamalReencrypt C pk (fst (items ! idx)) rho = Inr ct"
    and nx: "rs_next st' = (rs_next st)[idx := (ct, snd (rs_next st ! idx))]"
    using P unfolding proveSingle_def Let_def rbind_Inr_iff split_paired_Ex prod.case by (elim exE conjE) auto
  show "length (rs_next st') = length items" using assms(3) by (simp add: nx)
  have "absItems dl (dl pk) (rs_next st') = (absItems dl (dl pk) (rs_next st))[idx := absItems dl (dl pk) (rs_next st) ! idx]"
    using elgamalReencrypt_Inr(4) [OF R e] assms(3-5) by (simp add: nx absItems_update)
  then show "absItems dl (dl pk) (rs_next st') = absItems dl (dl pk) (rs_next st)" by simp
qed

lemma proveSingles_next:
  assumes R: "ristretto C dl"
  shows "rfold (proveSingle C H pk ctx items) is st = Inr st' \<Longrightarrow> length (rs_next st) = length items
    \<Longrightarrow> \<forall>k \<in> set is. k < length items \<and> absItems dl (dl pk) (rs_next st) ! k = absItems dl (dl pk) items ! k
    \<Longrightarrow> absItems dl (dl pk) (rs_next st') = absItems dl (dl pk) (rs_next st)"
proof (induction "is" arbitrary: st)
  case (Cons i "is")
  obtain st1 where s: "proveSingle C H pk ctx items i st = Inr st1" "rfold (proveSingle C H pk ctx items) is st1 = Inr st'"
    using Cons.prems(1) unfolding rfold.simps rbind_Inr_iff by blast
  have i: "i < length items" "absItems dl (dl pk) (rs_next st) ! i = absItems dl (dl pk) items ! i" using Cons.prems(3) by simp_all
  note a = proveSingle_next [OF R s(1) Cons.prems(2) i]
  show ?case using Cons.IH [OF s(2)] a Cons.prems(3) by simp
qed simp

lemma markUsed_nth:
  "\<forall>p \<in> set ps. fst p < length u \<and> snd p < length u \<Longrightarrow> k < length u \<Longrightarrow>
     markUsed ps u ! k = (u ! k \<or> (\<exists>p \<in> set ps. k = fst p \<or> k = snd p))"
proof (induction ps arbitrary: u)
  case (Cons p ps)
  have "markUsed (p # ps) u = markUsed ps (u[fst p := True, snd p := True])"
    by (simp add: markUsed_def split_beta)
  then show ?case using Cons.IH [of "u[fst p := True, snd p := True]"] Cons.prems by (auto simp: nth_list_update)
qed (simp add: markUsed_def)

lemma cmpExchange_fold_other:
  "\<forall>p \<in> set ps. k \<noteq> fst p \<and> k \<noteq> snd p \<Longrightarrow> foldl cmpExchange xs ps ! k = xs ! k"
  by (induction ps arbitrary: xs) (auto simp: cmpExchange_def swapAt_def)

lemma roundPairs_singles:
  assumes "roundPairs n r = (ps, ss)"
  shows "ps = pairsFrom n (r mod 2)" and "k \<in> set ss \<longleftrightarrow> k < n \<and> (\<forall>p \<in> set ps. k \<noteq> fst p \<and> k \<noteq> snd p)"
proof -
  show ps: "ps = pairsFrom n (r mod 2)" using assms by (simp add: roundPairs_def Let_def)
  have "\<forall>p \<in> set ps. fst p < n \<and> snd p < n" unfolding ps by (auto dest: pairsFrom_bounds)
  then have u: "k < n \<Longrightarrow> markUsed ps (replicate n False) ! k \<longleftrightarrow> (\<exists>p \<in> set ps. k = fst p \<or> k = snd p)"
    using markUsed_nth [of ps "replicate n False" k] by simp
  have ss: "ss = filter (\<lambda>i. \<not> markUsed ps (replicate n False) ! i) [0..<n]"
    using assms by (simp add: roundPairs_def Let_def ps)
  show "k \<in> set ss \<longleftrightarrow> k < n \<and> (\<forall>p \<in> set ps. k \<noteq> fst p \<and> k \<noteq> snd p)"
    unfolding ss using u by (simp add: conj_commute) blast
qed

lemma proveRound_refines:
  assumes R: "ristretto C dl" and P: "proveRound C H pk ctx r (items, rng, pb) = Inr (items', rng', pb')"
  shows "absItems dl (dl pk) items' = oeRound (absItems dl (dl pk) items) r"
proof -
  obtain ps ss where rp: "roundPairs (length items) r = (ps, ss)" by (cases "roundPairs (length items) r")
  note rs = roundPairs_singles [OF rp]
  let ?s0 = "\<lparr>rs_rng = rng, rs_next = items, rs_deckOut = map fst items, rs_proofs = []\<rparr>"
  obtain s1 s2 where s: "rfold (provePair C H pk ctx items) ps ?s0 = Inr s1"
      "rfold (proveSingle C H pk ctx items) ss s1 = Inr s2" "items' = rs_next s2"
    using P unfolding proveRound_def Let_def prod.case rp rbind_Inr_iff by blast
  have p: "length (rs_next s1) = length items"
    "absItems dl (dl pk) (rs_next s1) = foldl cmpExchange (absItems dl (dl pk) items) ps"
    using provePairs_next [OF R s(1) [unfolded rs(1)]] rs(1) by simp_all
  have "absItems dl (dl pk) (rs_next s1) ! k = absItems dl (dl pk) items ! k" if "k \<in> set ss" for k
    unfolding p(2) using rs(2) [of k] that by (intro cmpExchange_fold_other) simp
  then have "absItems dl (dl pk) (rs_next s2) = absItems dl (dl pk) (rs_next s1)"
    using rs(2) p(1) by (intro proveSingles_next [OF R s(2)]) simp_all
  then show ?thesis using p(2) s(3) rs(1) by (simp add: oeRound_def)
qed

lemma proveRounds_refine:
  assumes R: "ristretto C dl"
  shows "rfold (proveRound C H pk ctx) rs (items, rng, pb) = Inr (items', rng', pb') \<Longrightarrow>
    absItems dl (dl pk) items' = foldl oeRound (absItems dl (dl pk) items) rs"
proof (induction rs arbitrary: items rng pb)
  case (Cons r rs)
  obtain items1 rng1 pb1 where s: "proveRound C H pk ctx r (items, rng, pb) = Inr (items1, rng1, pb1)"
    "rfold (proveRound C H pk ctx) rs (items1, rng1, pb1) = Inr (items', rng', pb')"
    using Cons.prems unfolding rfold.simps rbind_Inr_iff split_paired_Ex by blast
  show ?case using Cons.IH [OF s(2)] proveRound_refines [OF R s(1)] by simp
qed simp

text \<open>
  C18: the shuffle permutes the plaintexts as sampled. When the prover returns with the default number of
  rounds, the card at position \<open>i\<close> of the input deck ends, re-encrypted, at position \<open>perm ! i\<close> of the
  output deck, where \<open>perm\<close> is the permutation sampled from the generator; with any number of
  rounds the output deck holds the same plaintexts.
\<close>

theorem shuffle_permutes:
  assumes "ristretto C dl" and "shuffleProveV1 C H unsafeOk seed pk deckIn opts = Inr (deckOut, proofBytes)"
  shows "mset (map (plain dl (dl pk)) deckOut) = mset (map (plain dl (dl pk)) deckIn)
    \<and> (opt_rounds opts = None \<longrightarrow>
        (\<exists>rng perm rng'. newRng (case opt_seedUnsafeForTestsOnly opts of Some s \<Rightarrow> s | None \<Rightarrow> seed) = Inr rng
           \<and> randomPermutation H (length deckIn) rng = Inr (perm, rng')
           \<and> mset perm = mset [0..<length deckIn]
           \<and> (\<forall>i < length deckIn. plain dl (dl pk) (deckOut ! (perm ! i)) = plain dl (dl pk) (deckIn ! i))))"
proof -
  let ?n = "length deckIn" and ?rounds = "case opt_rounds opts of Some r \<Rightarrow> r | None \<Rightarrow> of_nat (length deckIn)"
  obtain rng perm rng1 header items rng2 where n: "\<not> ?n < 2"
    and rg: "newRng (case opt_seedUnsafeForTestsOnly opts of Some s \<Rightarrow> s | None \<Rightarrow> seed) = Inr rng"
    and pm: "randomPermutation H ?n rng = Inr (perm, rng1)"
    and it: "rfold (proveRound C H pk (opt_context opts)) [0..<nat \<lfloor>?rounds\<rfloor>] (zip deckIn perm, rng1, header) = Inr (items, rng2, proofBytes)"
    and out: "deckOut = map fst items"
    using assms(2) unfolding shuffleProveV1_def Let_def rbind_Inr_iff split_paired_Ex prod.case
    by (auto simp: rbind_Inr_iff split: if_splits)
  have m: "mset perm = mset [0..<?n]" using n by (intro randomPermutation_mset [OF pm]) linarith
  then have l: "length perm = ?n" by (metis diff_zero length_upt mset_eq_length)
  let ?a = "absItems dl (dl pk) (zip deckIn perm)"
  have a: "map fst ?a = map (plain dl (dl pk)) deckIn" "map snd ?a = perm" "length ?a = ?n"
    using l by (auto simp: absItems_def intro!: nth_equalityI)
  have r: "absItems dl (dl pk) items = foldl oeRound ?a [0..<nat \<lfloor>?rounds\<rfloor>]" by (rule proveRounds_refine [OF assms(1) it])
  have fo: "map (plain dl (dl pk)) deckOut = map fst (absItems dl (dl pk) items)" by (simp add: out absItems_def)
  have ms: "mset (absItems dl (dl pk) items) = mset ?a" unfolding r by (rule oeRounds_mset)
  then have "mset (map (plain dl (dl pk)) deckOut) = mset (map (plain dl (dl pk)) deckIn)"
    unfolding fo a(1) [symmetric] by (simp only: mset_map)
  moreover have "plain dl (dl pk) (deckOut ! (perm ! i)) = plain dl (dl pk) (deckIn ! i)"
    if "opt_rounds opts = None" "i < ?n" for i
  proof -
    have s: "map snd (absItems dl (dl pk) items) = [0..<?n]"
      unfolding r using that(1) by (intro oe_sorts) (simp_all add: a(2) m)
    then have li: "length items = ?n" by (metis absItems_length diff_zero length_map length_upt)
    have "?a ! i \<in> set (absItems dl (dl pk) items)" using ms a(3) that(2) by (metis nth_mem mset_eq_setD)
    then obtain j where j: "j < ?n" "absItems dl (dl pk) items ! j = ?a ! i" using li by (metis absItems_length in_set_conv_nth)
    have "snd (absItems dl (dl pk) items ! j) = j" using arg_cong [OF s, of "\<lambda>xs. xs ! j"] j(1) li by simp
    then have "perm ! i = j" using j(2) that(2) l by simp
    moreover have "plain dl (dl pk) (deckOut ! j) = plain dl (dl pk) (deckIn ! i)"
      using arg_cong [OF j(2), of fst] j(1) li that(2) l by (simp add: out)
    ultimately show ?thesis by simp
  qed
  ultimately show ?thesis using rg pm m by blast
qed

theorem shuffle_permutes_witness:
  "\<exists>deckOut proofBytes. shuffleProveV1 zq_curve (constHash 2) False [5] 7 two_cards
       \<lparr>opt_seedUnsafeForTestsOnly = None, opt_rounds = None, opt_context = None\<rparr> = Inr (deckOut, proofBytes)
     \<and> mset (map (plain (\<lambda>a. a mod CURVE_ORDER) (7 mod CURVE_ORDER)) deckOut) =
       mset (map (plain (\<lambda>a. a mod CURVE_ORDER) (7 mod CURVE_ORDER)) two_cards)"
  using prover_run shuffle_permutes [OF zq_ristretto, THEN conjunct1] by fastforce

subsection \<open>What an accepted proof has checked\<close>

lemma pairsFrom_iff: "(i, j) \<in> set (pairsFrom n s) \<longleftrightarrow> s \<le> i \<and> even (i - s) \<and> j = Suc i \<and> j < n"
proof (induction n s rule: pairsFrom.induct)
  case (1 n s)
  show ?case
  proof (cases "s + 1 < n")
    case True
    then have "pairsFrom n s = (s, s + 1) # pairsFrom n (s + 2)" by (subst pairsFrom.simps) simp
    moreover have "s \<le> i \<and> even (i - s) \<longleftrightarrow> i = s \<or> (s + 2 \<le> i \<and> even (i - (s + 2)))" by presburger
    ultimately show ?thesis using "1.IH" [OF True] True by auto
  next
    case False
    then show ?thesis by (subst pairsFrom.simps) auto
  qed
qed

lemma singles_cases:
  assumes "roundPairs n r = (ps, ss)" and "k \<in> set ss"
  shows "if n mod 2 = 1 then k = (if r mod 2 = 0 then n - 1 else 0) else r mod 2 = 1 \<and> (k = 0 \<or> k = n - 1)"
proof -
  note rs = roundPairs_singles [OF assms(1)]
  have k: "k < n" "(k, Suc k) \<notin> set (pairsFrom n (r mod 2))" "k = Suc j \<Longrightarrow> (j, k) \<notin> set (pairsFrom n (r mod 2))" for j
    using rs(2) [of k] assms(2) unfolding rs(1) by force+
  consider "r mod 2 = 0" | "r mod 2 = 1" using mod_less_divisor [of 2 r] by linarith
  then show ?thesis
  proof cases
    case 1
    have "even k" using k(1) k(3) [of "k - 1"] 1 by (cases k) (auto simp: pairsFrom_iff)
    then have "Suc k = n" using k(1,2) 1 by (auto simp: pairsFrom_iff)
    then show ?thesis using \<open>even k\<close> 1 by (auto simp: even_iff_mod_2_eq_zero)
  next
    case 2
    show ?thesis
    proof (cases "k = 0")
      case False
      have "odd k" using k(1) k(3) [of "k - 1"] False 2 by (cases k) (auto simp: pairsFrom_iff not_le)
      then have "Suc k = n" using k(1,2) False 2 by (auto simp: pairsFrom_iff)
      then show ?thesis using \<open>odd k\<close> 2 by (auto simp: odd_iff_mod_2_eq_one)
    qed (use 2 in simp)
  qed
qed

definition pairChecked where
  "pairChecked C H pk ctx cur nxt p \<longleftrightarrow>
     (\<exists>sp. verifySwitch C H pk (cur ! fst p) (cur ! snd p) (nxt ! fst p) (nxt ! snd p) sp ctx = Inr True)"

definition singleChecked where
  "singleChecked C H pk ctx cur nxt k \<longleftrightarrow>
     \<not> pointEq C (ct_c1 (nxt ! k)) (ct_c1 (cur ! k))
     \<and> (\<exists>p. verifyEqDlog C H DOMAIN_REENC (basePoint C) pk (pointSub C (ct_c1 (nxt ! k)) (ct_c1 (cur ! k)))
             (pointSub C (ct_c2 (nxt ! k)) (ct_c2 (cur ! k))) p ctx = Inr True)"

lemma verifyPairs_checked:
  "verifyPairs C H pk ctx r cur nxt n i rd = Inr rd' \<Longrightarrow> \<forall>p \<in> set (pairsFrom n i). pairChecked C H pk ctx cur nxt p"
proof (induction C H pk ctx r cur nxt n i rd rule: verifyPairs.induct)
  case (1 C H pk ctx r cur nxt n i rd)
  show ?case
  proof (cases "i + 1 < n")
    case True
    obtain sp rd1 ok where d: "decodeSwitchProofFromReader C rd = Inr (sp, rd1)"
      "verifySwitch C H pk (cur ! i) (cur ! (i + 1)) (nxt ! i) (nxt ! (i + 1)) sp ctx = Inr ok"
      and r: "ok" "verifyPairs C H pk ctx r cur nxt n (i + 2) rd1 = Inr rd'"
      using "1.prems" True
      by (subst (asm) verifyPairs.simps) (auto simp: rbind_Inr_iff split: if_splits)
    have "\<forall>p \<in> set (pairsFrom n (i + 2)). pairChecked C H pk ctx cur nxt p"
      by (rule "1.IH" [OF True d(1) refl d(2)]) (use r in simp_all)
    moreover have "pairsFrom n i = (i, i + 1) # pairsFrom n (i + 2)" using True by (subst pairsFrom.simps) simp
    moreover have "pairChecked C H pk ctx cur nxt (i, i + 1)" using d(2) r(1) by (auto simp: pairChecked_def)
    ultimately show ?thesis by simp
  next
    case False
    then show ?thesis by (subst pairsFrom.simps) simp
  qed
qed

lemma verifySingle_checked: "verifySingle C H pk ctx r cur nxt k rd = Inr rd' \<Longrightarrow> singleChecked C H pk ctx cur nxt k"
  by (auto simp: verifySingle_def singleChecked_def Let_def rbind_Inr_iff split: if_splits)

lemma verifyRound_checked:
  assumes "verifyRound C H pk ctx n r (cur, rd) = Inr (nxt, rd')" and "roundPairs n r = (ps, ss)"
  shows "length nxt = n" and "\<forall>p \<in> set ps. pairChecked C H pk ctx cur nxt p" and "\<forall>k \<in> set ss. singleChecked C H pk ctx cur nxt k"
proof -
  obtain deckBytes rd1 rd2 where
      m: "rmap (\<lambda>i. decodeCiphertext C (slice (i * 64) (i * 64 + 64) deckBytes)) [0..<n] = Inr nxt"
    and p: "verifyPairs C H pk ctx r cur nxt n (r mod 2) rd1 = Inr rd2"
    and s: "verifySingles C H pk ctx r cur nxt n (r mod 2) rd2 = Inr rd'"
    using assms(1) unfolding verifyRound_def Let_def prod.case rbind_Inr_iff split_paired_Ex by auto
  show "length nxt = n" using rmap_length [OF m] by simp
  show "\<forall>p \<in> set ps. pairChecked C H pk ctx cur nxt p"
    using verifyPairs_checked [OF p] roundPairs_singles(1) [OF assms(2)] by simp
  show "\<forall>k \<in> set ss. singleChecked C H pk ctx cur nxt k"
  proof
    fix k
    assume "k \<in> set ss"
    from singles_cases [OF assms(2) this] show "singleChecked C H pk ctx cur nxt k"
      using s by (auto simp: verifySingles_def rbind_Inr_iff split: if_splits dest: verifySingle_checked)
  qed
qed

lemma verifyRounds_checked:
  "rfold (verifyRound C H pk ctx n) rs (cur, rd) = Inr (cur', rd') \<Longrightarrow> length cur = n \<Longrightarrow>
    \<exists>decks. length decks = Suc (length rs) \<and> decks ! 0 = cur \<and> decks ! length rs = cur' \<and> (\<forall>d \<in> set decks. length d = n)
      \<and> (\<forall>i < length rs. \<forall>ps ss. roundPairs n (rs ! i) = (ps, ss) \<longrightarrow>
           (\<forall>p \<in> set ps. pairChecked C H pk ctx (decks ! i) (decks ! Suc i) p)
         \<and> (\<forall>k \<in> set ss. singleChecked C H pk ctx (decks ! i) (decks ! Suc i) k))"
proof (induction rs arbitrary: cur rd)
  case Nil
  then show ?case by (intro exI [of _ "[cur]"]) simp
next
  case (Cons r rs)
  obtain nxt rd1 where v: "verifyRound C H pk ctx n r (cur, rd) = Inr (nxt, rd1)"
    and rest: "rfold (verifyRound C H pk ctx n) rs (nxt, rd1) = Inr (cur', rd')"
    using Cons.prems(1) unfolding rfold.simps rbind_Inr_iff split_paired_Ex by blast
  obtain ps ss where rp: "roundPairs n r = (ps, ss)" by (cases "roundPairs n r")
  note c = verifyRound_checked [OF v rp]
  obtain decks where d: "length decks = Suc (length rs)" "decks ! 0 = nxt" "decks ! length rs = cur'" "\<forall>d \<in> set decks. length d = n"
    and ih: "\<forall>i < length rs. \<forall>ps ss. roundPairs n (rs ! i) = (ps, ss) \<longrightarrow>
           (\<forall>p \<in> set ps. pairChecked C H pk ctx (decks ! i) (decks ! Suc i) p)
         \<and> (\<forall>k \<in> set ss. singleChecked C H pk ctx (decks ! i) (decks ! Suc i) k)"
    using Cons.IH [OF rest c(1)] by blast
  show ?case
  proof (intro exI [of _ "cur # decks"] conjI allI impI)
    fix i ps' ss'
    assume i: "i < length (r # rs)" and r': "roundPairs n ((r # rs) ! i) = (ps', ss')"
    show "\<forall>p \<in> set ps'. pairChecked C H pk ctx ((cur # decks) ! i) ((cur # decks) ! Suc i) p"
      "\<forall>k \<in> set ss'. singleChecked C H pk ctx ((cur # decks) ! i) ((cur # decks) ! Suc i) k"
      using i r' ih c(2,3) rp d(2) by (cases i; auto)+
  qed (use d Cons.prems(2) in simp_all)
qed

text \<open>
  C20: what the shuffle verifier has checked when it accepts: there is a sequence of decks from the input
  deck to the deck it returns, all of the same size, such that in every round every pair of the round
  passes the switch verifier and every position the pairs leave out is re-randomised and passes
  the equality-of-logarithms verifier, all under the caller's context.
\<close>

theorem shuffleVerify_covers:
  assumes "shuffleVerifyV1 C H pk deckIn proofBytes context = Inr deckOut"
  shows "\<exists>decks. 2 \<le> length decks \<and> decks ! 0 = deckIn \<and> last decks = deckOut \<and> (\<forall>d \<in> set decks. length d = length deckIn)
    \<and> (\<forall>r ps ss. Suc r < length decks \<longrightarrow> roundPairs (length deckIn) r = (ps, ss) \<longrightarrow>
         (\<forall>p \<in> set ps. pairChecked C H pk context (decks ! r) (decks ! Suc r) p)
       \<and> (\<forall>k \<in> set ss. singleChecked C H pk context (decks ! r) (decks ! Suc r) k))"
proof -
  obtain version ctx rounds rd rd' where cv: "checkVersion version context = Inr ctx" and r: "0 < rounds"
    and f: "rfold (verifyRound C H pk ctx (length deckIn)) [0..<rounds] (deckIn, rd) = Inr (deckOut, rd')"
    using assms unfolding shuffleVerifyV1_def rbind_Inr_iff split_paired_Ex prod.case
    by (auto simp: rbind_Inr_iff split: if_splits)
  have ctx: "ctx = context" using cv by (auto simp: checkVersion_def split: if_splits option.splits)
  obtain decks where d: "length decks = Suc rounds" "decks ! 0 = deckIn" "decks ! rounds = deckOut"
      "\<forall>d \<in> set decks. length d = length deckIn"
    and c: "\<forall>i < rounds. \<forall>ps ss. roundPairs (length deckIn) ([0..<rounds] ! i) = (ps, ss) \<longrightarrow>
           (\<forall>p \<in> set ps. pairChecked C H pk context (decks ! i) (decks ! Suc i) p)
         \<and> (\<forall>k \<in> set ss. singleChecked C H pk context (decks ! i) (decks ! Suc i) k)"
    using verifyRounds_checked [OF f refl] unfolding ctx by auto
  have "last decks = deckOut" using d(1,3) by (metis diff_Suc_1 last_conv_nth length_0_conv nat.distinct(1))
  then show ?thesis using d c r by (intro exI [of _ decks]) auto
qed

theorem shuffleVerify_covers_witness:
  "\<exists>decks. 2 \<le> length decks \<and> decks ! 0 = two_cards \<and> last decks = two_cards_out
     \<and> pairChecked zq_curve (constHash 1) 7 None (decks ! 0) (decks ! 1) (0, 1)"
proof -
  obtain pb where r: "shuffleVerifyV1 zq_curve (constHash 1) 7 two_cards pb None = Inr two_cards_out"
    using verifier_run by blast
  have rp: "roundPairs 2 0 = ([(0, 1)], [])" by code_simp
  obtain decks where d: "2 \<le> length decks" "decks ! 0 = two_cards" "last decks = two_cards_out"
    and c: "\<forall>r ps ss. Suc r < length decks \<longrightarrow> roundPairs (length two_cards) r = (ps, ss) \<longrightarrow>
         (\<forall>p \<in> set ps. pairChecked zq_curve (constHash 1) 7 None (decks ! r) (decks ! Suc r) p)
       \<and> (\<forall>k \<in> set ss. singleChecked zq_curve (constHash 1) 7 None (decks ! r) (decks ! Suc r) k)"
    using shuffleVerify_covers [OF r] by blast
  have "length two_cards = 2" by (simp add: two_cards_def)
  then show ?thesis using d c [rule_format, of 0 "[(0, 1)]" "[]"] rp by auto
qed

subsection \<open>The context\<close>

lemma bytesLE_inj:
  assumes "fst (bytesLELoop a k) = fst (bytesLELoop b k)" and "0 \<le> a" "a < 256 ^ k" and "0 \<le> b" "b < 256 ^ k"
  shows "a = b"
proof -
  have "a mod 256 ^ k = b mod 256 ^ k" using assms(1) bytesLELoop_props(2) by metis
  then show ?thesis using assms(2-5) by simp
qed

lemma buildShuffleContext_Inr:
  assumes "buildShuffleContext t h r s = Inr bs"
  shows "0 \<le> t" "t < 256 ^ 8" "0 \<le> h" "h < 256 ^ 8" "of_int \<lfloor>r\<rfloor> = r" "0 \<le> \<lfloor>r\<rfloor>" "\<lfloor>r\<rfloor> < 256 ^ 2"
    and "bs = fst (bytesLELoop t 8) @ fst (bytesLELoop h 8) @ fst (bytesLELoop \<lfloor>r\<rfloor> 2)
              @ fst (bytesLELoop (int (length (utf8 s))) 2) @ utf8 s"
  using assms by (auto simp: buildShuffleContext_def Let_def isInteger_def floor_less_iff split: if_splits)

text \<open>
  The shuffle context determines what it binds: two calls of the context builder that return the same
  bytes were made for the same table, hand, round and shuffler.
\<close>

theorem shuffle_context_binding:
  assumes "buildShuffleContext t h r s = Inr bs" and "buildShuffleContext t' h' r' s' = Inr bs"
  shows "t = t' \<and> h = h' \<and> r = r' \<and> s = s'"
proof -
  note a = buildShuffleContext_Inr [OF assms(1)] and b = buildShuffleContext_Inr [OF assms(2)]
  have l: "length (fst (bytesLELoop x k)) = k" for x k by (rule bytesLELoop_props)
  have e: "fst (bytesLELoop t 8) = fst (bytesLELoop t' 8)" "fst (bytesLELoop h 8) = fst (bytesLELoop h' 8)"
    "fst (bytesLELoop \<lfloor>r\<rfloor> 2) = fst (bytesLELoop \<lfloor>r'\<rfloor> 2)" "utf8 s = utf8 s'"
    using a(8) b(8) by (simp_all add: append_eq_append_conv l)
  have "\<lfloor>r\<rfloor> = \<lfloor>r'\<rfloor>" by (rule bytesLE_inj [OF e(3) a(6,7) b(6,7)])
  then have "r = r'" using a(5) b(5) by metis
  then show ?thesis
    using bytesLE_inj [OF e(1) a(1,2) b(1,2)] bytesLE_inj [OF e(2) a(3,4) b(3,4)] utf8_inj [OF e(4)] by blast
qed

theorem shuffle_context_binding_witness:
  "\<exists>bs. buildShuffleContext 1 2 3 ''val'' = Inr bs
     \<and> {t. buildShuffleContext t 2 3 ''val'' = Inr bs} = {1}"
proof -
  obtain bs where bs: "buildShuffleContext 1 2 3 ''val'' = Inr bs"
    by (simp add: buildShuffleContext_def utf8_def utf8Char_def)
  have "t = 1" if "buildShuffleContext t 2 3 ''val'' = Inr bs" for t
    using shuffle_context_binding [OF that bs] by (rule conjunct1)
  then have "{t. buildShuffleContext t 2 3 ''val'' = Inr bs} = {1}" using bs by blast
  then show ?thesis using bs by blast
qed

end
