(* ===== verification/Bot_Strategies.thy ===== *)
theory Bot_Strategies
  imports Hand_Eval Poker_Engine "HOL-Library.Signed_Division"
begin

text \<open>
  The poker bot, \<^verbatim>\<open>apps/bot/src\<close>: preflop hand tiers, postflop strength, the three strategies
  (\<^verbatim>\<open>strategies/\<close>), the coercion of a decision into an action the chain accepts (\<^verbatim>\<open>sanitizeAction.ts\<close>)
  and the part of \<^verbatim>\<open>bot.ts\<close> that turns the hand on the table into an action. Bigint division and
  remainder truncate towards zero (\<open>sdiv\<close>, \<open>smod\<close>). Polling, seating, rebuying, logging and the network
  client of \<^verbatim>\<open>bot.ts\<close> are not modelled.
\<close>

subsection \<open>Game state and actions\<close>

datatype Position = Early | Middle | Late | Blinds

record GameState =
  gs_street :: Street
  gs_holeCards :: "(int \<times> int) option"
  gs_board :: "int list"
  gs_myStack :: int
  gs_pot :: int
  gs_betTo :: int
  gs_myStreetCommit :: int
  gs_toCall :: int
  gs_minRaise :: int
  gs_bigBlind :: int
  gs_position :: Position
  gs_playersInHand :: nat
  gs_isLastToAct :: bool

datatype BotVerb = DoFold | DoCheck | DoCall | DoBet | DoRaise

record BotAction =
  ba_action :: BotVerb
  ba_amount :: "int option"

abbreviation plainAction :: "BotVerb \<Rightarrow> BotAction" where
  "plainAction v \<equiv> \<lparr>ba_action = v, ba_amount = None\<rparr>"

abbreviation sizedAction :: "BotVerb \<Rightarrow> int \<Rightarrow> BotAction" where
  "sizedAction v a \<equiv> \<lparr>ba_action = v, ba_amount = Some a\<rparr>"

subsection \<open>Preflop tiers\<close>

datatype PreflopTier = Premium | StrongHand | Playable | Marginal | Trash

definition rankNames :: "string list" where
  "rankNames = [[], [], ''2'', ''3'', ''4'', ''5'', ''6'', ''7'', ''8'', ''9'', ''T'', ''J'', ''Q'', ''K'', ''A'']"

definition handKey :: "int \<Rightarrow> int \<Rightarrow> JsError + string" where
  "handKey c1 c2 =
     rbind (cardRank c1) (\<lambda>r1. rbind (cardRank c2) (\<lambda>r2.
     let hi = max r1 r2; lo = min r1 r2 in
     if hi = lo then Inr (rankNames ! nat hi @ rankNames ! nat lo)
     else rbind (cardSuit c1) (\<lambda>s1. rbind (cardSuit c2) (\<lambda>s2.
          Inr (rankNames ! nat hi @ rankNames ! nat lo @ (if s1 = s2 then ''s'' else ''o''))))))"

text \<open>The table the four calls of \<^verbatim>\<open>t\<close> fill; no hand is listed twice.\<close>

definition TIERS :: "(string \<times> PreflopTier) list" where
  "TIERS =
     map (\<lambda>h. (h, Premium)) [''AA'', ''KK'', ''QQ'', ''AKs'']
   @ map (\<lambda>h. (h, StrongHand)) [''JJ'', ''TT'', ''AKo'', ''AQs'', ''AJs'', ''KQs'']
   @ map (\<lambda>h. (h, Playable))
       [''99'', ''88'', ''77'', ''66'', ''ATs'', ''A5s'', ''A4s'', ''A3s'', ''A2s'',
        ''KJs'', ''KTs'', ''QJs'', ''QTs'', ''JTs'', ''T9s'', ''98s'', ''87s'', ''76s'', ''AQo'', ''AJo'']
   @ map (\<lambda>h. (h, Marginal))
       [''55'', ''44'', ''33'', ''22'', ''A9s'', ''A8s'', ''A7s'', ''A6s'', ''K9s'', ''Q9s'', ''J9s'', ''T8s'',
        ''97s'', ''86s'', ''75s'', ''65s'', ''54s'', ''KQo'', ''KJo'', ''QJo'', ''JTo'', ''ATo'']"

definition preflopTier :: "int \<Rightarrow> int \<Rightarrow> JsError + PreflopTier" where
  "preflopTier c1 c2 =
     rbind (handKey c1 c2) (\<lambda>k. Inr (case map_of TIERS k of Some t \<Rightarrow> t | None \<Rightarrow> Trash))"

subsection \<open>Postflop strength\<close>

definition evaluateBest :: "int list \<Rightarrow> JsError + HandRank" where
  "evaluateBest cards =
     (if length cards = 7 then evaluate7 cards
      else if length cards = 5 then evaluate5 cards
      else if length cards = 6
      then rbind (foldl (\<lambda>acc skip. rbind acc (\<lambda>best.
                    rbind (evaluate5 (take skip cards @ drop (skip + 1) cards)) (\<lambda>rank.
                    Inr (keepBest compareHandRank best rank)))) (Inr None) [0..<6])
             (\<lambda>best. Inr (the best))
      else Inl RangeError)"

definition hasFlushDraw :: "int \<times> int \<Rightarrow> int list \<Rightarrow> JsError + bool" where
  "hasFlushDraw hole board =
     rbind (rmap cardSuit ([fst hole, snd hole] @ board)) (\<lambda>ss.
     let suits = foldl (\<lambda>suits s. suits[nat s := suits ! nat s + 1]) [0, 0, 0, 0 :: nat] ss
     in Inr (list_ex (\<lambda>n. n = 4) suits))"

definition hasStraightDraw :: "int \<times> int \<Rightarrow> int list \<Rightarrow> JsError + bool" where
  "hasStraightDraw hole board =
     rbind (rmap cardRank ([fst hole, snd hole] @ board)) (\<lambda>rs.
     let ranks = (if 14 \<in> set rs then insert 1 (set rs) else set rs)
     in Inr (list_ex (\<lambda>high. length (filter (\<lambda>r. r \<in> ranks) [high - 4..high]) = 4) [5..14]))"

datatype PostflopStrength = Monster | Strong | Medium | Draw | Weak

definition categorizePostflop :: "int \<times> int \<Rightarrow> int list \<Rightarrow> JsError + PostflopStrength" where
  "categorizePostflop hole board =
     (let cards = [fst hole, snd hole] @ board in
      if length cards < 5 then Inr Weak
      else rbind (evaluateBest cards) (\<lambda>handRank.
      if category handRank \<ge> TwoPair then Inr Monster
      else if category handRank = OnePair
      then rbind (rmap cardRank board) (\<lambda>rs.
           let pairRank = aget 0 (tiebreakers handRank) 0;
               topBoardRank = aget 0 (sortDesc rs) 0 in
           Inr (if pairRank > topBoardRank then Strong
                else if pairRank = topBoardRank
                then (if aget 0 (tiebreakers handRank) 1 \<ge> 12 then Strong else Medium)
                else Medium))
      else rbind (hasFlushDraw hole board) (\<lambda>fd.
           if fd then Inr Draw
           else rbind (hasStraightDraw hole board) (\<lambda>sd. Inr (if sd then Draw else Weak)))))"

subsection \<open>Bet sizing\<close>

definition clampBet :: "int \<Rightarrow> int \<Rightarrow> int \<Rightarrow> int" where
  "clampBet desired minRaise stk =
     (if desired > stk then stk
      else if desired < minRaise then (if minRaise > stk then stk else minRaise)
      else desired)"

definition potFraction :: "int \<Rightarrow> int \<Rightarrow> int \<Rightarrow> int" where
  "potFraction pot num den = (pot * num) sdiv den"

text \<open>The amount \<^verbatim>\<open>clampBet(desired, state.minRaise, state.myStack + state.myStreetCommit)\<close>.\<close>

definition sized :: "GameState \<Rightarrow> int \<Rightarrow> int" where
  "sized state desired = clampBet desired (gs_minRaise state) (gs_myStack state + gs_myStreetCommit state)"

definition raiseBy :: "GameState \<Rightarrow> int \<Rightarrow> BotAction" where
  "raiseBy state desired = sizedAction DoRaise (sized state desired)"

definition betOrCheck :: "GameState \<Rightarrow> int \<Rightarrow> BotAction" where
  "betOrCheck state desired =
     (let betAmt = sized state desired in if betAmt = 0 then plainAction DoCheck else sizedAction DoBet betAmt)"

definition bluffOrCheck :: "GameState \<Rightarrow> int \<Rightarrow> BotAction" where
  "bluffOrCheck state desired =
     (let betAmt = sized state desired in if betAmt > 0 then sizedAction DoBet betAmt else plainAction DoCheck)"

definition openBlind :: "GameState \<Rightarrow> int" where
  "openBlind state = (if gs_bigBlind state > 0 then gs_bigBlind state else gs_minRaise state)"

abbreviation callIf :: "bool \<Rightarrow> BotAction" where
  "callIf c \<equiv> (if c then plainAction DoCall else plainAction DoFold)"

abbreviation checkOrCall :: "GameState \<Rightarrow> BotAction" where
  "checkOrCall state \<equiv> (if gs_toCall state = 0 then plainAction DoCheck else plainAction DoCall)"

abbreviation checkOrFold :: "GameState \<Rightarrow> BotAction" where
  "checkOrFold state \<equiv> (if gs_toCall state = 0 then plainAction DoCheck else plainAction DoFold)"

subsection \<open>Strategies\<close>

definition callingStation :: "GameState \<Rightarrow> JsError + BotAction" where
  "callingStation state = Inr (checkOrCall state)"

definition tagPreflopTier :: "GameState \<Rightarrow> PreflopTier \<Rightarrow> BotAction" where
  "tagPreflopTier state tier =
     (let facingBet = (gs_toCall state > 0); bb = openBlind state in
      case tier of
        Premium \<Rightarrow>
          if facingBet then raiseBy state (gs_betTo state * 3) else raiseBy state (bb * 3)
      | StrongHand \<Rightarrow>
          if facingBet
          then (if gs_toCall state \<le> potFraction (gs_pot state) 1 3 then raiseBy state (gs_betTo state * 3)
                else plainAction DoCall)
          else raiseBy state ((bb * 5) sdiv 2)
      | Playable \<Rightarrow>
          if facingBet
          then (if gs_position state = Early \<and> gs_toCall state > potFraction (gs_pot state) 1 4
                then plainAction DoFold else plainAction DoCall)
          else if gs_position state = Blinds then plainAction DoCheck
          else raiseBy state ((bb * 5) sdiv 2)
      | Marginal \<Rightarrow>
          if facingBet then callIf (gs_position state = Late \<and> gs_toCall state \<le> potFraction (gs_pot state) 1 5)
          else plainAction DoCheck
      | Trash \<Rightarrow> if facingBet then plainAction DoFold else plainAction DoCheck)"

definition tagPreflop :: "GameState \<Rightarrow> JsError + BotAction" where
  "tagPreflop state =
     (case gs_holeCards state of
        None \<Rightarrow> Inr (checkOrCall state)
      | Some (c1, c2) \<Rightarrow> rbind (preflopTier c1 c2) (\<lambda>tier. Inr (tagPreflopTier state tier)))"

definition tagPostflopStrength :: "GameState \<Rightarrow> PostflopStrength \<Rightarrow> BotAction" where
  "tagPostflopStrength state strength =
     (let facingBet = (gs_toCall state > 0) in
      case strength of
        Monster \<Rightarrow>
          if facingBet then raiseBy state ((gs_betTo state * 5) sdiv 2)
          else betOrCheck state (potFraction (gs_pot state) 2 3)
      | Strong \<Rightarrow>
          if facingBet then plainAction DoCall else betOrCheck state (potFraction (gs_pot state) 1 2)
      | Medium \<Rightarrow>
          if facingBet then callIf (gs_toCall state \<le> potFraction (gs_pot state) 1 3) else plainAction DoCheck
      | Draw \<Rightarrow>
          if facingBet then callIf (gs_toCall state \<le> potFraction (gs_pot state) 2 5)
          else if gs_pot state smod 3 = 0 then bluffOrCheck state (potFraction (gs_pot state) 1 2)
          else plainAction DoCheck
      | Weak \<Rightarrow> if facingBet then plainAction DoFold else plainAction DoCheck)"

definition tagPostflop :: "GameState \<Rightarrow> JsError + BotAction" where
  "tagPostflop state =
     (case gs_holeCards state of
        None \<Rightarrow> Inr (checkOrFold state)
      | Some hole \<Rightarrow> rbind (categorizePostflop hole (gs_board state)) (\<lambda>strength. Inr (tagPostflopStrength state strength)))"

definition tagStrategy :: "GameState \<Rightarrow> JsError + BotAction" where
  "tagStrategy state = (if gs_street state = Preflop then tagPreflop state else tagPostflop state)"

primrec lagPreflopTier :: "PreflopTier \<Rightarrow> PreflopTier" where
  "lagPreflopTier Premium = Premium"
| "lagPreflopTier StrongHand = StrongHand"
| "lagPreflopTier Playable = Playable"
| "lagPreflopTier Marginal = Playable"
| "lagPreflopTier Trash = Marginal"

definition lagPreflopAction :: "GameState \<Rightarrow> PreflopTier \<Rightarrow> BotAction" where
  "lagPreflopAction state tier =
     (let facingBet = (gs_toCall state > 0); bb = openBlind state in
      case tier of
        Premium \<Rightarrow>
          if facingBet then raiseBy state ((gs_betTo state * 7) sdiv 2) else raiseBy state ((bb * 7) sdiv 2)
      | StrongHand \<Rightarrow>
          if facingBet then raiseBy state (gs_betTo state * 3) else raiseBy state (bb * 3)
      | Playable \<Rightarrow>
          if facingBet
          then (if gs_toCall state \<le> potFraction (gs_pot state) 1 4 then raiseBy state (gs_betTo state * 3)
                else plainAction DoCall)
          else raiseBy state ((bb * 5) sdiv 2)
      | Marginal \<Rightarrow>
          if facingBet
          then (if gs_position state = Late \<and> gs_toCall state \<le> potFraction (gs_pot state) 1 3 then plainAction DoCall
                else callIf (gs_position state \<noteq> Early \<and> gs_toCall state \<le> potFraction (gs_pot state) 1 5))
          else if gs_position state = Early then plainAction DoCheck
          else raiseBy state ((bb * 5) sdiv 2)
      | Trash \<Rightarrow> if facingBet then plainAction DoFold else plainAction DoCheck)"

definition lagPreflop :: "GameState \<Rightarrow> JsError + BotAction" where
  "lagPreflop state =
     (case gs_holeCards state of
        None \<Rightarrow> Inr (checkOrCall state)
      | Some (c1, c2) \<Rightarrow> rbind (preflopTier c1 c2) (\<lambda>rawTier. Inr (lagPreflopAction state (lagPreflopTier rawTier))))"

definition lagPostflopStrength :: "GameState \<Rightarrow> PostflopStrength \<Rightarrow> BotAction" where
  "lagPostflopStrength state strength =
     (let facingBet = (gs_toCall state > 0) in
      case strength of
        Monster \<Rightarrow>
          if facingBet then raiseBy state (gs_betTo state * 3)
          else betOrCheck state (potFraction (gs_pot state) 4 5)
      | Strong \<Rightarrow>
          if facingBet then raiseBy state ((gs_betTo state * 5) sdiv 2)
          else betOrCheck state (potFraction (gs_pot state) 7 10)
      | Medium \<Rightarrow>
          if facingBet then callIf (gs_toCall state \<le> potFraction (gs_pot state) 1 2)
          else betOrCheck state (potFraction (gs_pot state) 1 2)
      | Draw \<Rightarrow>
          if gs_street state = River
          then (if facingBet then plainAction DoFold
                else if gs_pot state smod 10 < 3 then bluffOrCheck state (potFraction (gs_pot state) 3 4)
                else plainAction DoCheck)
          else if facingBet
          then (if gs_pot state smod 5 < 2 then raiseBy state ((gs_betTo state * 5) sdiv 2)
                else callIf (gs_toCall state \<le> potFraction (gs_pot state) 1 2))
          else bluffOrCheck state (potFraction (gs_pot state) 7 10)
      | Weak \<Rightarrow> if facingBet then plainAction DoFold else plainAction DoCheck)"

definition lagPostflop :: "GameState \<Rightarrow> JsError + BotAction" where
  "lagPostflop state =
     (case gs_holeCards state of
        None \<Rightarrow> Inr (checkOrFold state)
      | Some hole \<Rightarrow> rbind (categorizePostflop hole (gs_board state)) (\<lambda>strength. Inr (lagPostflopStrength state strength)))"

definition lagStrategy :: "GameState \<Rightarrow> JsError + BotAction" where
  "lagStrategy state = (if gs_street state = Preflop then lagPreflop state else lagPostflop state)"

subsection \<open>Coercing a decision\<close>

record SanitizeContext =
  sc_allIn :: int
  sc_betTo :: int
  sc_toCall :: int
  sc_minRaise :: int

definition sanitizeAction :: "BotAction \<Rightarrow> SanitizeContext \<Rightarrow> BotVerb \<times> int" where
  "sanitizeAction decision ctx =
     (let action = ba_action decision;
          amount = (case ba_amount decision of Some a \<Rightarrow> a | None \<Rightarrow> 0);
          amount = (if (action = DoBet \<or> action = DoRaise) \<and> amount > sc_allIn ctx then sc_allIn ctx else amount)
      in if (action = DoBet \<or> action = DoRaise) \<and> sc_allIn ctx \<le> sc_betTo ctx
         then (if sc_toCall ctx > 0 then DoCall else DoCheck, 0)
         else if action = DoRaise \<and> amount < sc_minRaise ctx
         then (action, if sc_allIn ctx \<ge> sc_minRaise ctx then sc_minRaise ctx else sc_allIn ctx)
         else (action, amount))"

subsection \<open>From the table to an action\<close>

text \<open>\<^verbatim>\<open>Math.ceil(x / 3)\<close> of a natural number \<open>x\<close> is \<open>(x + 2) div 3\<close>.\<close>

definition getPosition :: "int \<Rightarrow> int \<Rightarrow> int \<Rightarrow> int \<Rightarrow> Position" where
  "getPosition mySeat buttonSeat sbSeat bbSeat =
     (if mySeat = sbSeat \<or> mySeat = bbSeat then Blinds
      else let fromBB = (mySeat - bbSeat + 9) smod 9; btnFromBB = (buttonSeat - bbSeat + 9) smod 9 in
      if fromBB \<ge> btnFromBB then Late
      else if btnFromBB \<le> 2 then Late
      else if fromBB \<le> (btnFromBB + 2) div 3 then Early
      else if fromBB \<le> (2 * btnFromBB + 2) div 3 then Middle
      else Late)"

text \<open>
  The game state \<^verbatim>\<open>pollOnce\<close> builds for the seat on turn from the table and the cards it has
  decrypted and read off the board, and the action it sends. The chain's table has the fields of the
  engine's.
\<close>

definition botGameState :: "TableState \<Rightarrow> HandState \<Rightarrow> nat \<Rightarrow> (int \<times> int) option \<Rightarrow> int list \<Rightarrow> GameState" where
  "botGameState st h mySeat holeCards board =
     (let myStreetCommit = streetCommitAt h mySeat;
          toCall = (if betTo h > myStreetCommit then betTo h - myStreetCommit else 0);
          playersInHand = length (filter (\<lambda>b. b) (inHand h)) in
      \<lparr>gs_street = street h, gs_holeCards = holeCards, gs_board = filter (\<lambda>c. c \<ge> 0 \<and> c < 52) board,
       gs_myStack = stackAt st mySeat, gs_pot = sum_list (totalCommit h), gs_betTo = betTo h,
       gs_myStreetCommit = myStreetCommit, gs_toCall = toCall, gs_minRaise = betTo h + minRaiseSize h,
       gs_bigBlind = bigBlind (params st),
       gs_position = getPosition (int mySeat) (int (button h)) (int (smallBlindSeat h)) (int (bigBlindSeat h)),
       gs_playersInHand = playersInHand, gs_isLastToAct = (playersInHand \<le> 2 \<and> toCall = 0)\<rparr>)"

definition botAct ::
  "(GameState \<Rightarrow> JsError + BotAction) \<Rightarrow> TableState \<Rightarrow> HandState \<Rightarrow> nat \<Rightarrow> (int \<times> int) option \<Rightarrow> int list
   \<Rightarrow> JsError + (BotVerb \<times> int)" where
  "botAct strategy st h mySeat holeCards board =
     (let gs = botGameState st h mySeat holeCards board in
      rbind (strategy gs) (\<lambda>decision.
      Inr (sanitizeAction decision
        \<lparr>sc_allIn = gs_myStack gs + gs_myStreetCommit gs, sc_betTo = gs_betTo gs, sc_toCall = gs_toCall gs,
         sc_minRaise = gs_minRaise gs\<rparr>)))"

end
