(* ===== verification/Bot_Correct.thy ===== *)
theory Bot_Correct
  imports Bot_Strategies Engine_Theorems Hand_Eval_Correct
begin

text \<open>
  The bot plays legally: its strategies keep the sizing contract stated by a locale, and on every
  table the engine can reach the action the bot sends is one the engine accepts, as long as the
  betting interval is open to the seat.
\<close>

subsection \<open>Strength of a deal\<close>

definition legal_deal :: "(int \<times> int) option \<Rightarrow> int list \<Rightarrow> bool" where
  "legal_deal hole board \<longleftrightarrow> length board \<le> 5 \<and>
     (case hole of None \<Rightarrow> True
      | Some (c1, c2) \<Rightarrow> valid_cards (c1 # c2 # board) \<and> distinct (c1 # c2 # board))"

lemma evaluateBest_six:
  assumes "length cs = 6" and "valid_cards cs" and "distinct cs"
  obtains m where "evaluateBest cs = Inr m"
    and "max_of compareHandRank m ((\<lambda>skip. handValue (take skip cs @ drop (skip + 1) cs)) ` {..<6})"
proof -
  let ?five = "\<lambda>skip. take skip cs @ drop (skip + 1) cs"
  have sub: "valid_cards (?five k) \<and> distinct (?five k) \<and> length (?five k) = 5" if "k \<in> set [0..<6]" for k
  proof -
    have e: "cs = take k cs @ cs ! k # drop (k + 1) cs" using that assms(1) by (simp add: id_take_nth_drop)
    then have "set (?five k) \<subseteq> set cs" by (metis set_append set_subset_Cons Un_mono subset_refl)
    moreover have "distinct (take k cs @ cs ! k # drop (k + 1) cs)" using assms(3) e by simp
    ultimately show ?thesis using assms that by (auto simp: list_all_iff)
  qed
  have "foldl (\<lambda>acc skip. rbind acc (\<lambda>best. rbind (evaluate5 (?five skip)) (\<lambda>rank.
          Inr (keepBest compareHandRank best rank)))) (Inr None) [0..<6]
      = Inr (foldl (keepBest compareHandRank) None (map (\<lambda>k. handValue (?five k)) [0..<6]))"
    by (rule foldl_rbind_pure) (use sub evaluate5_value in blast)
  moreover obtain m where "foldl (keepBest compareHandRank) None (map (\<lambda>k. handValue (?five k)) [0..<6]) = Some m"
    and mx: "max_of compareHandRank m (set (map (\<lambda>k. handValue (?five k)) [0..<6]))"
    using hand_order.keepBest_max [of "map (\<lambda>k. handValue (?five k)) [0..<6]"] by auto
  ultimately have "evaluateBest cs = Inr m" using assms(1) by (simp add: evaluateBest_def)
  moreover have "set (map (\<lambda>k. handValue (?five k)) [0..<6]) = (\<lambda>k. handValue (?five k)) ` {..<6}"
    by (simp only: set_map set_upt atLeast0LessThan)
  ultimately show ?thesis using that mx by metis
qed

lemma evaluateBest_total:
  assumes "5 \<le> length cs" and "length cs \<le> 7" and "valid_cards cs" and "distinct cs"
  shows "\<exists>m. evaluateBest cs = Inr m"
proof -
  consider "length cs = 5" | "length cs = 6" | "length cs = 7" using assms by linarith
  then show ?thesis
  proof cases
    case 1
    then show ?thesis using evaluate5_value assms by (simp add: evaluateBest_def)
  next
    case 2
    then show ?thesis using evaluateBest_six [of cs] assms by metis
  next
    case 3
    then show ?thesis using evaluate7_value [of cs] assms by (simp add: evaluateBest_def) metis
  qed
qed

lemma categorizePostflop_total:
  assumes "legal_deal (Some (c1, c2)) board"
  shows "\<exists>p. categorizePostflop (c1, c2) board = Inr p"
proof -
  have c: "valid_cards (c1 # c2 # board)" "distinct (c1 # c2 # board)" "length board \<le> 5"
    using assms by (auto simp: legal_deal_def)
  then have b: "rmap cardRank board = Inr (map rankOf board)" by (intro rmap_card_parts) simp
  show ?thesis
  proof (cases "length board < 3")
    case False
    then obtain m where "evaluateBest (c1 # c2 # board) = Inr m"
      using evaluateBest_total [of "c1 # c2 # board"] c by auto
    then show ?thesis using rmap_card_parts [OF c(1)] b
      by (simp add: categorizePostflop_def hasFlushDraw_def hasStraightDraw_def Let_def)
  qed (simp add: categorizePostflop_def)
qed

lemma preflopTier_total: "legal_deal (Some (c1, c2)) board \<Longrightarrow> \<exists>t. preflopTier c1 c2 = Inr t"
  by (simp add: legal_deal_def preflopTier_def handKey_def Let_def)

subsection \<open>The contract of a strategy\<close>

text \<open>
  A decision fits the state: a bet or raise carries an amount between the smaller of the minimum
  raise and the all-in total, and the all-in total; a check is played only when nothing is owed, a
  call and a fold only when something is.
\<close>

definition well_sized :: "GameState \<Rightarrow> BotAction \<Rightarrow> bool" where
  "well_sized gs d \<longleftrightarrow>
     (case ba_action d of
        DoFold \<Rightarrow> 0 < gs_toCall gs
      | DoCheck \<Rightarrow> gs_toCall gs = 0
      | DoCall \<Rightarrow> 0 < gs_toCall gs
      | _ \<Rightarrow> (case ba_amount d of None \<Rightarrow> False
            | Some a \<Rightarrow> min (gs_minRaise gs) (gs_myStack gs + gs_myStreetCommit gs) \<le> a
                \<and> a \<le> gs_myStack gs + gs_myStreetCommit gs))"

lemma clampBet_bounds: "min lo stk \<le> clampBet x lo stk \<and> clampBet x lo stk \<le> stk"
  by (simp add: clampBet_def)

lemma sized_well [simp]:
  "well_sized gs (raiseBy gs x)"
  "gs_toCall gs = 0 \<Longrightarrow> well_sized gs (betOrCheck gs x)"
  "gs_toCall gs = 0 \<Longrightarrow> well_sized gs (bluffOrCheck gs x)"
  using clampBet_bounds [of "gs_minRaise gs" "gs_myStack gs + gs_myStreetCommit gs" x]
  by (simp_all add: well_sized_def raiseBy_def betOrCheck_def bluffOrCheck_def sized_def Let_def)

lemma plain_well [simp]:
  "0 < gs_toCall gs \<Longrightarrow> well_sized gs (plainAction DoFold)"
  "gs_toCall gs = 0 \<Longrightarrow> well_sized gs (plainAction DoCheck)"
  "0 < gs_toCall gs \<Longrightarrow> well_sized gs (plainAction DoCall)"
  by (simp_all add: well_sized_def)

lemma tier_actions_well:
  assumes "0 \<le> gs_toCall gs"
  shows "well_sized gs (tagPreflopTier gs t) \<and> well_sized gs (lagPreflopAction gs t)"
  using assms by (cases t; simp add: tagPreflopTier_def lagPreflopAction_def Let_def)

lemma strength_actions_well:
  assumes "0 \<le> gs_toCall gs"
  shows "well_sized gs (tagPostflopStrength gs p) \<and> well_sized gs (lagPostflopStrength gs p)"
  using assms by (cases p; simp add: tagPostflopStrength_def lagPostflopStrength_def Let_def)

locale strategy_contract =
  fixes decide :: "GameState \<Rightarrow> JsError + BotAction"
  assumes decides: "legal_deal (gs_holeCards gs) (gs_board gs) \<Longrightarrow> \<exists>d. decide gs = Inr d"
    and fits: "0 \<le> gs_toCall gs \<Longrightarrow> decide gs = Inr d \<Longrightarrow> well_sized gs d"

interpretation station: strategy_contract callingStation
  by unfold_locales (auto simp: callingStation_def)

interpretation tag: strategy_contract tagStrategy
proof
  fix gs :: GameState assume "legal_deal (gs_holeCards gs) (gs_board gs)"
  then show "\<exists>d. tagStrategy gs = Inr d"
    using preflopTier_total categorizePostflop_total
    by (fastforce simp: tagStrategy_def tagPreflop_def tagPostflop_def split: option.splits)
next
  fix gs :: GameState and d assume "0 \<le> gs_toCall gs" "tagStrategy gs = Inr d"
  then show "well_sized gs d" using tier_actions_well [of gs] strength_actions_well [of gs]
    by (auto simp: tagStrategy_def tagPreflop_def tagPostflop_def rbind_Inr_iff split: if_splits option.splits)
qed

interpretation lag: strategy_contract lagStrategy
proof
  fix gs :: GameState assume "legal_deal (gs_holeCards gs) (gs_board gs)"
  then show "\<exists>d. lagStrategy gs = Inr d"
    using preflopTier_total categorizePostflop_total
    by (fastforce simp: lagStrategy_def lagPreflop_def lagPostflop_def split: option.splits)
next
  fix gs :: GameState and d assume "0 \<le> gs_toCall gs" "lagStrategy gs = Inr d"
  then show "well_sized gs d" using tier_actions_well [of gs] strength_actions_well [of gs]
    by (auto simp: lagStrategy_def lagPreflop_def lagPostflop_def rbind_Inr_iff split: if_splits option.splits)
qed

subsection \<open>The minimum raise\<close>

text \<open>On every reachable table the minimum raise is at least the big blind.\<close>

definition min_raise_ok :: "TableState \<Rightarrow> bool" where
  "min_raise_ok st \<longleftrightarrow> (\<forall>h. hand st = Some h \<longrightarrow> bigBlind (params st) \<le> minRaiseSize h)"

lemma returnUncalled_min [simp]:
  "minRaiseSize (snd (returnUncalledStreetExcess st h)) = minRaiseSize h"
  "params (fst (returnUncalledStreetExcess st h)) = params st"
  by (rule returnUncalled_cases [of st h]; simp)+

lemma maybeAdvance_min:
  "bigBlind (params st) \<le> minRaiseSize h \<Longrightarrow> bigBlind (params st) \<le> minRaiseSize (snd (maybeAdvance st h now))"
  by (auto simp: maybeAdvance_def completeByFolds_def reachShowdown_def advanceStreet_def split_beta Let_def
      split: option.splits)

lemma dispatchAction_min:
  assumes "dispatchAction st h s act = Inr (st1, h1)" and "bigBlind (params st) \<le> minRaiseSize h"
  shows "bigBlind (params st1) \<le> minRaiseSize h1 \<and> params st1 = params st"
proof (cases act)
  case (BetTo x a)
  then have "applyBetTo st h s a = Inr (st1, h1)" using assms(1) by (simp add: dispatchAction_def)
  then show ?thesis
    using assms(2) by (cases rule: applyBetTo_InrE) (auto simp: payIn_def Let_def)
qed (use assms in \<open>auto simp: dispatchAction_def applyFold_def applyCheck_def applyCall_def payIn_def Let_def split: if_splits\<close>)

lemma applyAction_min:
  assumes "applyAction st act now = Inr st'" and "min_raise_ok st"
  shows "min_raise_ok st'"
  using assms(1)
proof (rule applyAction_InrE)
  fix h s st1 h1 st2 h2
  assume h: "hand st = Some h" and d: "dispatchAction st h s act = Inr (st1, h1)"
    and m: "maybeAdvance st1 (h1\<lparr>events := events h1 @ [ActionApplied s act]\<rparr>) now = (st2, h2)"
    and st': "st' = st2\<lparr>hand := Some h2\<rparr>"
  have "bigBlind (params st1) \<le> minRaiseSize h1"
    using dispatchAction_min [OF d] h assms(2) by (auto simp: min_raise_ok_def)
  then have "bigBlind (params st1) \<le> minRaiseSize h2"
    using maybeAdvance_min [of st1 "h1\<lparr>events := events h1 @ [ActionApplied s act]\<rparr>" now] m by simp
  moreover have "params st2 = params st1"
    using maybeAdvance_fst(1) [of st1 "h1\<lparr>events := events h1 @ [ActionApplied s act]\<rparr>" now] m by simp
  ultimately show ?thesis by (simp add: st' min_raise_ok_def)
qed

lemma refundSeat_min [simp]: "minRaiseSize (snd (refundSeat i sh)) = minRaiseSize (snd sh)"
  by (auto simp: refundSeat_def split_beta Let_def split: option.splits)

lemma fold_refundSeat_min:
  "minRaiseSize (snd (fold refundSeat is sh)) = minRaiseSize (snd sh) \<and> params (fst (fold refundSeat is sh)) = params (fst sh)"
  by (induction "is" arbitrary: sh) simp_all

lemma play_step_min:
  assumes "play_step st st'" and "min_raise_ok st"
  shows "min_raise_ok st'"
  using assms(1)
proof (rule play_stepE)
  fix act now assume "applyAction st act now = Inr st'"
  then show ?thesis using applyAction_min assms(2) by blast
next
  fix now assume "applyTick st now = Inr st'"
  then show ?thesis
  proof (rule applyTick_InrE)
    fix h s st1
    assume "applyAction st (timeoutAction h s) now = Inr st1"
      and "st' = pushEvent (TimeoutApplied s (if toCall h s = 0 then ''Check'' else ''Fold'')) st1"
    then show ?thesis using applyAction_min [OF _ assms(2)]
      by (auto simp: min_raise_ok_def pushEvent_def split: option.splits)
  qed (use assms(2) in simp)
next
  fix reason now assume "abortHand st reason now = Inr st'"
  then show ?thesis using assms(2) fold_refundSeat_min [of "[0..<9]"]
    by (auto simp: abortHand_def min_raise_ok_def split_beta Let_def rbind_Inr_iff split: option.splits if_splits)
qed

lemma startHand_min: "startHand st now = Inr st' \<Longrightarrow> min_raise_ok st'"
  by (erule startHand_InrE) (simp add: min_raise_ok_def dealtHand_def reachShowdown_def Let_def)

lemma reachable_min_raise: "engine_reachable st \<Longrightarrow> min_raise_ok st"
proof (induction rule: engine_reachable.induct)
  case (reach_create ps st)
  then show ?case by (auto simp: createTableState_def min_raise_ok_def split: if_splits)
next
  case (reach_sit st seat pid stk st')
  then show ?case by (auto simp: sit_def min_raise_ok_def rbind_Inr_iff split: if_splits)
qed (auto dest: startHand_min play_step_min)

subsection \<open>The action sent is accepted\<close>

text \<open>The engine's action for what the bot sends: the chain takes a bet and a raise as a raise-to total.\<close>

fun engineAction :: "nat \<Rightarrow> BotVerb \<times> int \<Rightarrow> Action" where
  "engineAction s (DoFold, _) = Fold (int s)"
| "engineAction s (DoCheck, _) = Check (int s)"
| "engineAction s (DoCall, _) = Call (int s)"
| "engineAction s (DoBet, a) = BetTo (int s) a"
| "engineAction s (DoRaise, a) = BetTo (int s) a"

lemma bot_toCall: "gs_toCall (botGameState st h s hole board) = toCall h s"
  by (auto simp: botGameState_def toCall_def Let_def)

lemma bot_board: "legal_deal hole board \<Longrightarrow> legal_deal hole (gs_board (botGameState st h s hole board))"
  by (auto simp: botGameState_def legal_deal_def Let_def list_all_iff split: option.splits
      intro: order_trans [OF length_filter_le])

lemma raise_in_range_accepted:
  assumes "hand_inv st h" and "phase h = Betting" and "actionOn h = Some s" and "min_raise_ok st" and "hand st = Some h"
    and "streetCommitAt h s \<le> betTo h" and "lastActedAt h s \<noteq> intervalId h"
    and "betTo h < stackAt st s + streetCommitAt h s"
    and "min (betTo h + minRaiseSize h) (stackAt st s + streetCommitAt h s) \<le> a" and "a \<le> stackAt st s + streetCommitAt h s"
  shows "\<exists>sh. applyBetTo st h s a = Inr sh"
proof -
  have "0 < minRaiseSize h" using assms(1,2) by (simp add: hand_inv_def interval_ok_def)
  then have "betTo h < a" using assms(8,9) by linarith
  moreover have "bigBlind (params st) \<le> minRaiseSize h" using assms(4,5) by (simp add: min_raise_ok_def)
  ultimately show ?thesis using applyBetTo_ok [of h s a st] assms(6-10)
    by (smt (verit) min_def)
qed

lemma sanitized_accepted:
  assumes "hand_inv st h" and "phase h = Betting" and "actionOn h = Some s" and "min_raise_ok st" and "hand st = Some h"
    and "streetCommitAt h s \<le> betTo h" and "lastActedAt h s \<noteq> intervalId h"
    and w: "well_sized (botGameState st h s hole board) d"
  shows "\<exists>sh. dispatchAction st h s (engineAction s (sanitizeAction d
      \<lparr>sc_allIn = stackAt st s + streetCommitAt h s, sc_betTo = betTo h, sc_toCall = toCall h s,
       sc_minRaise = betTo h + minRaiseSize h\<rparr>)) = Inr sh" (is "\<exists>sh. dispatchAction st h s (engineAction s (sanitizeAction d ?ctx)) = Inr sh")
proof -
  let ?max = "stackAt st s + streetCommitAt h s"
  note gs = w [unfolded well_sized_def bot_toCall]
  show ?thesis
  proof (cases "ba_action d = DoBet \<or> ba_action d = DoRaise")
    case True
    then obtain a where a: "ba_amount d = Some a" "min (betTo h + minRaiseSize h) ?max \<le> a" "a \<le> ?max"
      using gs by (auto simp: botGameState_def Let_def split: option.splits)
    show ?thesis
    proof (cases "?max \<le> betTo h")
      case short: True
      have "sanitizeAction d ?ctx = (if toCall h s > 0 then DoCall else DoCheck, 0)"
        using True short by (auto simp: sanitizeAction_def Let_def)
      moreover have "0 \<le> toCall h s" by (simp add: toCall_def Let_def)
      ultimately show ?thesis using call_allowed [of h s st "int s"] check_allowed [of h s st "int s"]
        by (cases "toCall h s = 0") auto
    next
      case False
      have "sanitizeAction d ?ctx = (ba_action d, a)"
        using True False a by (auto simp: sanitizeAction_def Let_def)
      then have "engineAction s (sanitizeAction d ?ctx) = BetTo (int s) a" using True by auto
      then show ?thesis using raise_in_range_accepted [OF assms(1-7) _ a(2,3)] False
        by (simp add: dispatchAction_def)
    qed
  next
    case False
    then have "sanitizeAction d ?ctx = (ba_action d, case ba_amount d of Some a \<Rightarrow> a | None \<Rightarrow> 0)"
      by (simp add: sanitizeAction_def Let_def)
    then show ?thesis
      using False gs fold_allowed call_allowed [of h s st "int s"] check_allowed [of h s st "int s"]
      by (cases "ba_action d") auto
  qed
qed

context strategy_contract begin

lemma bot_accepted:
  assumes "engine_reachable st" and "hand st = Some h" and "phase h = Betting" and "actionOn h = Some s"
    and "isInteger now" and "0 \<le> now"
    and "streetCommitAt h s \<le> betTo h" and "lastActedAt h s \<noteq> intervalId h" and "legal_deal hole board"
  shows "\<exists>act st'. botAct decide st h s hole board = Inr act \<and> applyAction st (engineAction s act) now = Inr st'"
proof -
  let ?gs = "botGameState st h s hole board"
  note inv = reachable_inv [OF assms(1)]
  have "legal_deal (gs_holeCards ?gs) (gs_board ?gs)"
    using bot_board [OF assms(9)] by (simp add: botGameState_def Let_def)
  then obtain d where d: "decide ?gs = Inr d" using decides by blast
  have "0 \<le> gs_toCall ?gs" unfolding bot_toCall by (simp add: toCall_def Let_def)
  note w = fits [OF this d]
  let ?act = "sanitizeAction d \<lparr>sc_allIn = stackAt st s + streetCommitAt h s, sc_betTo = betTo h, sc_toCall = toCall h s,
       sc_minRaise = betTo h + minRaiseSize h\<rparr>"
  have b: "botAct decide st h s hole board = Inr ?act"
    using d bot_toCall [of st h s hole board] by (simp add: botAct_def botGameState_def Let_def)
  obtain sh where sh: "dispatchAction st h s (engineAction s ?act) = Inr sh"
    using sanitized_accepted [OF table_invD(1) [OF inv assms(2)] assms(3,4) reachable_min_raise [OF assms(1)] assms(2,7,8) w]
    by blast
  have "action_seat (engineAction s ?act) = int s" by (cases "(s, ?act)" rule: engineAction.cases) simp_all
  with applyAction_turn [OF inv assms(2-6)] sh b show ?thesis by (metis surj_pair)
qed

end

text \<open>
  C31: on every table the engine can reach, when it is the bot's turn, the betting interval is still
  open to its seat and it has put in no more than the bet to match, then with any legal cards (or
  none known) each of the three strategies returns a decision, and the action the bot sends after
  coercing it is accepted by the engine.
\<close>

theorem bot_plays_legally:
  assumes "engine_reachable st" and "hand st = Some h" and "phase h = Betting" and "actionOn h = Some s"
    and "isInteger now" and "0 \<le> now"
    and "streetCommitAt h s \<le> betTo h" and "lastActedAt h s \<noteq> intervalId h" and "legal_deal hole board"
    and "strategy = callingStation \<or> strategy = tagStrategy \<or> strategy = lagStrategy"
  shows "\<exists>act st'. botAct strategy st h s hole board = Inr act \<and> applyAction st (engineAction s act) now = Inr st'"
  using assms(10) station.bot_accepted [OF assms(1-9)] tag.bot_accepted [OF assms(1-9)] lag.bot_accepted [OF assms(1-9)]
  by blast

theorem bot_plays_legally_witness:
  "botAct lagStrategy demo_start demo_hand 0 (Some (12, 25)) [] = Inr (DoRaise, 35)
   \<and> (\<exists>st'. applyAction demo_start (BetTo 0 35) 0 = Inr st')"
proof -
  have e: "streetCommitAt demo_hand 0 \<le> betTo demo_hand" "lastActedAt demo_hand 0 \<noteq> intervalId demo_hand" by code_simp+
  have l: "legal_deal (Some (12, 25)) []" by (simp add: legal_deal_def)
  have b: "botAct lagStrategy demo_start demo_hand 0 (Some (12, 25)) [] = Inr (DoRaise, 35)" by code_simp
  from bot_plays_legally [OF demo_start_reachable demo_hand_eq demo_hand_facts now0 e l, of lagStrategy] b
  show ?thesis by auto
qed

text \<open>
  Whatever the state, a bet or raise of the tight and of the loose strategy is sized between the
  smaller of the minimum raise and the all-in total, and the all-in total; the strategies check only
  when nothing is owed, call only when something is, and fold only when something is.
\<close>

theorem strategy_sizes_bounded:
  assumes "strategy = tagStrategy \<or> strategy = lagStrategy" and "0 \<le> gs_toCall gs" and "strategy gs = Inr d"
  shows "case ba_action d of
      DoFold \<Rightarrow> 0 < gs_toCall gs
    | DoCheck \<Rightarrow> gs_toCall gs = 0
    | DoCall \<Rightarrow> 0 < gs_toCall gs
    | _ \<Rightarrow> \<exists>a. ba_amount d = Some a
          \<and> min (gs_minRaise gs) (gs_myStack gs + gs_myStreetCommit gs) \<le> a \<and> a \<le> gs_myStack gs + gs_myStreetCommit gs"
proof -
  have "well_sized gs d" using assms tag.fits [of gs d] lag.fits [of gs d] by auto
  then show ?thesis by (auto simp: well_sized_def split: BotVerb.splits option.splits)
qed

definition demo_spot :: GameState where
  "demo_spot = \<lparr>gs_street = Flop, gs_holeCards = Some (12, 25), gs_board = [38, 3, 17], gs_myStack = 50, gs_pot = 30,
     gs_betTo = 20, gs_myStreetCommit = 0, gs_toCall = 20, gs_minRaise = 60, gs_bigBlind = 10, gs_position = Late,
     gs_playersInHand = 2, gs_isLastToAct = False\<rparr>"

theorem strategy_sizes_bounded_witness:
  "tagStrategy demo_spot = Inr (sizedAction DoRaise 50) \<and> min 60 (50 + 0) \<le> (50 :: int)"
proof -
  have t: "tagStrategy demo_spot = Inr (sizedAction DoRaise 50)" by code_simp
  have "0 \<le> gs_toCall demo_spot" by (simp add: demo_spot_def)
  from strategy_sizes_bounded [of tagStrategy, OF disjI1 [OF refl] this t] t show ?thesis by (simp add: demo_spot_def)
qed

text \<open>
  The coercion does not look at the betting interval. After a seat has acted and an all-in
  under-raise brings the action back to it, the loose strategy raises with aces, and the engine
  refuses the raise the bot sends.
\<close>

theorem bot_raise_refused_when_closed:
  "botAct lagStrategy demo_under (the (hand demo_under)) 0 (Some (12, 25)) [] = Inr (DoRaise, 87)
   \<and> applyAction demo_under (BetTo 0 87) 0 = Inl ILLEGAL_ACTION"
  by code_simp

end
