(* ===== verification/Interpolation.thy ===== *)
theory Interpolation
  imports OCP_Prelude "HOL-Library.Signed_Division"
begin

text \<open>
  Polynomials in Horner form and Lagrange interpolation at zero, over the rationals and modulo an
  integer. The threshold cryptography of the program rests on it: the bot recovers hole cards from
  decryption shares (\<^verbatim>\<open>apps/bot/src/holeCards.ts\<close>), and the key-generation prototype reconstructs the
  epoch secret (\<^verbatim>\<open>deprecated/dkg-prototype/src/poly.js\<close>). The proof goes through divided differences,
  which vanish on polynomials of small degree; the modular form follows by clearing denominators.
\<close>

subsection \<open>Polynomials\<close>

primrec polyval :: "'a::comm_ring_1 list \<Rightarrow> 'a \<Rightarrow> 'a" where
  "polyval [] x = 0"
| "polyval (c # cs) x = c + x * polyval cs x"

lemma polyval_scale:
  "polyval (map (\<lambda>c. c * k) cs) x = polyval cs x * k" "polyval (map ((*) k) cs) x = k * polyval cs x"
  by (induction cs) (simp_all add: algebra_simps)

lemma polyval_of_int: "polyval (map of_int cs) (of_int x) = of_int (polyval cs x)"
  by (induction cs) simp_all

lemma polyval_append: "polyval (xs @ ys) x = polyval xs x + x ^ length xs * polyval ys x"
  by (induction xs) (simp_all add: algebra_simps)

lemma polyval_sum: "polyval cs x = (\<Sum>k<length cs. cs ! k * x ^ k)"
proof (induction cs rule: rev_induct)
  case (snoc c cs)
  have "(\<Sum>k<length cs. (cs @ [c]) ! k * x ^ k) = (\<Sum>k<length cs. cs ! k * x ^ k)"
    by (rule sum.cong) (simp_all add: nth_append)
  then show ?case using snoc by (simp add: polyval_append mult.commute)
qed simp

subsection \<open>Divided differences\<close>

definition ddiff :: "'a::field set \<Rightarrow> ('a \<Rightarrow> 'a) \<Rightarrow> 'a" where
  "ddiff X f = (\<Sum>a\<in>X. f a / (\<Prod>b\<in>X - {a}. a - b))"

lemma ddiff_lin: "ddiff X (\<lambda>t. c * f t + d * g t) = c * ddiff X f + d * ddiff X g"
  by (simp add: ddiff_def sum.distrib sum_distrib_left add_divide_distrib)

lemma ddiff_factor:
  assumes "finite X" and "e \<in> X"
  shows "ddiff X (\<lambda>t. (t - e) * g t) = ddiff (X - {e}) g"
proof -
  have "(a - e) * g a / (\<Prod>b\<in>X - {a}. a - b) = g a / (\<Prod>b\<in>X - {e} - {a}. a - b)" if "a \<in> X - {e}" for a
  proof -
    have "(\<Prod>b\<in>X - {a}. a - b) = (a - e) * (\<Prod>b\<in>X - {a} - {e}. a - b)"
      using assms that by (intro prod.remove) auto
    moreover have "X - {a} - {e} = X - {e} - {a}" by blast
    moreover have "a - e \<noteq> 0" using that by simp
    ultimately show ?thesis by simp
  qed
  then show ?thesis by (simp add: ddiff_def sum.remove [OF assms])
qed

lemma ddiff_one: "\<lbrakk>finite X; card X = Suc (Suc n)\<rbrakk> \<Longrightarrow> ddiff X (\<lambda>_. 1) = 0"
proof (induction n arbitrary: X)
  case 0
  then obtain a b where ab: "X = {a, b}" "a \<noteq> b" by (metis One_nat_def Suc_1 card_2_iff)
  then have "{a, b} - {a} = {b}" "{a, b} - {b} = {a}" by auto
  moreover have "1 / (a - b) + 1 / (b - a) = 0" by (metis ab(2) add.right_inverse eq_iff_diff_eq_0 minus_diff_eq minus_divide_right)
  ultimately show ?case using ab by (simp add: ddiff_def)
next
  case (Suc n)
  then obtain a b where ab: "a \<in> X" "b \<in> X" "a \<noteq> b"
    by (metis One_nat_def Suc_1 card_2_iff' card_le_Suc0_iff_eq nat.simps(3) not_less_eq_eq Suc_le_mono le0)
  have "ddiff (X - {a}) (\<lambda>_. 1) = 0" "ddiff (X - {b}) (\<lambda>_. 1) = 0"
    using Suc.IH [of "X - {a}"] Suc.IH [of "X - {b}"] Suc.prems ab by simp_all
  then have "ddiff X (\<lambda>t. (t - a) * 1) = 0" "ddiff X (\<lambda>t. (t - b) * 1) = 0"
    using ddiff_factor [OF Suc.prems(1) ab(1)] ddiff_factor [OF Suc.prems(1) ab(2)] by (simp_all only:)
  then have "ddiff X (\<lambda>t. 1 * ((t - a) * 1) + (- 1) * ((t - b) * 1)) = 0"
    by (simp only: ddiff_lin mult_zero_right add_0)
  moreover have "(\<lambda>t. 1 * ((t - a) * 1) + (- 1) * ((t - b) * 1)) = (\<lambda>t. (b - a) * 1 + 0 * 1)" by (simp add: fun_eq_iff)
  ultimately have "(b - a) * ddiff X (\<lambda>_. 1) = 0"
    using ddiff_lin [of X "b - a" "\<lambda>_. 1" 0 "\<lambda>_. 1"] by simp
  then show ?case using ab by simp
qed

lemma ddiff_polyval: "\<lbrakk>finite X; length cs < card X\<rbrakk> \<Longrightarrow> ddiff X (polyval cs) = 0"
proof (induction cs arbitrary: X)
  case Nil
  then show ?case by (simp add: ddiff_def)
next
  case (Cons c cs)
  obtain e where e: "e \<in> X" using Cons.prems by fastforce
  have f: "polyval (c # cs) = (\<lambda>t. 1 * (c * 1 + e * polyval cs t) + 1 * ((t - e) * polyval cs t))"
    by (simp add: fun_eq_iff algebra_simps)
  have "ddiff X (\<lambda>_. 1) = 0"
    using ddiff_one [of X "card X - 2"] Cons.prems by simp
  moreover have "ddiff X (polyval cs) = 0" using Cons by simp
  moreover have "ddiff X (\<lambda>t. (t - e) * polyval cs t) = 0"
    using Cons.IH [of "X - {e}"] Cons.prems e by (simp add: ddiff_factor)
  ultimately show ?case by (simp only: f ddiff_lin mult_zero_right add_0)
qed

subsection \<open>Interpolation at zero\<close>

text \<open>Numerator and denominator of the coefficient of the point \<open>a\<close>.\<close>

definition lnum :: "'a::comm_ring_1 set \<Rightarrow> 'a \<Rightarrow> 'a" where "lnum X a = (\<Prod>b\<in>X - {a}. - b)"

definition lden :: "'a::comm_ring_1 set \<Rightarrow> 'a \<Rightarrow> 'a" where "lden X a = (\<Prod>b\<in>X - {a}. a - b)"

lemma lagrange_field:
  fixes X :: "'a::field set"
  assumes "finite X" and "0 \<notin> X" and "length cs \<le> card X"
  shows "(\<Sum>a\<in>X. polyval cs a * lnum X a / lden X a) = polyval cs 0"
proof -
  let ?Z = "insert 0 X" and ?f = "polyval cs"
  let ?N = "\<Prod>b\<in>X. - b"
  have "0 = ddiff ?Z ?f" using assms by (simp add: ddiff_polyval)
  also have "\<dots> = ?f 0 / (\<Prod>b\<in>?Z - {0}. 0 - b) + (\<Sum>a\<in>X. ?f a / (\<Prod>b\<in>?Z - {a}. a - b))"
    using assms by (simp add: ddiff_def)
  also have "(\<Prod>b\<in>?Z - {0}. 0 - b) = ?N" using assms by simp
  also have "(\<Sum>a\<in>X. ?f a / (\<Prod>b\<in>?Z - {a}. a - b)) = (\<Sum>a\<in>X. - (?f a * lnum X a / lden X a) / ?N)"
  proof (rule sum.cong [OF refl])
    fix a assume a: "a \<in> X"
    have "?Z - {a} = insert 0 (X - {a})" using a assms by auto
    then have "(\<Prod>b\<in>?Z - {a}. a - b) = a * lden X a" using assms by (simp add: lden_def)
    moreover have "?N = - a * lnum X a" using prod.remove [OF assms(1) a, of uminus] by (simp add: lnum_def)
    moreover have "lnum X a \<noteq> 0" using assms by (simp add: lnum_def)
    moreover have "a \<noteq> 0" using a assms by blast
    ultimately show "?f a / (\<Prod>b\<in>?Z - {a}. a - b) = - (?f a * lnum X a / lden X a) / ?N" by simp
  qed
  finally have "?f 0 / ?N = (\<Sum>a\<in>X. ?f a * lnum X a / lden X a) / ?N"
    by (simp add: sum_divide_distrib sum_negf)
  moreover have "?N \<noteq> 0" using assms by simp
  ultimately show ?thesis by simp
qed

lemma lagrange_int:
  fixes X :: "int set"
  assumes "finite X" and "0 \<notin> X" and "length cs \<le> card X"
  shows "(\<Sum>a\<in>X. polyval cs a * lnum X a * (\<Prod>b\<in>X - {a}. lden X b)) = (\<Prod>b\<in>X. lden X b) * polyval cs 0"
proof -
  let ?Y = "of_int ` X :: rat set" and ?r = "of_int :: int \<Rightarrow> rat"
  have inj: "inj_on ?r A" for A by (simp add: inj_on_def)
  have diff: "?Y - {?r a} = ?r ` (X - {a})" for a by auto
  have n: "lnum ?Y (?r a) = ?r (lnum X a)" for a
    unfolding lnum_def diff by (subst prod.reindex [OF inj]) simp
  have d: "lden ?Y (?r a) = ?r (lden X a)" for a
    unfolding lden_def diff by (subst prod.reindex [OF inj]) simp
  have nz: "?r (lden X a) \<noteq> 0" for a using assms(1) by (simp add: lden_def)
  have c: "length (map ?r cs) \<le> card ?Y" using assms by (simp add: card_image [OF inj])
  have z: "0 \<notin> ?Y" using assms(2) by auto
  have "?r (polyval cs 0) = (\<Sum>a\<in>X. ?r (polyval cs a) * ?r (lnum X a) / ?r (lden X a))"
    using lagrange_field [OF _ z c] assms(1) polyval_of_int [of cs 0, where 'a = rat]
    by (simp add: sum.reindex [OF inj] n d polyval_of_int)
  then have "?r ((\<Prod>b\<in>X. lden X b) * polyval cs 0)
      = (\<Sum>a\<in>X. (\<Prod>b\<in>X. ?r (lden X b)) * (?r (polyval cs a) * ?r (lnum X a) / ?r (lden X a)))"
    by (simp add: sum_distrib_left)
  also have "\<dots> = (\<Sum>a\<in>X. ?r (polyval cs a * lnum X a * (\<Prod>b\<in>X - {a}. lden X b)))"
    using nz by (intro sum.cong refl) (simp add: prod.remove [OF assms(1)])
  finally have "?r ((\<Prod>b\<in>X. lden X b) * polyval cs 0) = ?r (\<Sum>a\<in>X. polyval cs a * lnum X a * (\<Prod>b\<in>X - {a}. lden X b))"
    by simp
  then show ?thesis by (simp only: of_int_eq_iff)
qed

lemma inverse_coprime:
  fixes a b m :: int
  assumes "(a * b) mod m = 1 mod m"
  shows "coprime b m"
proof (rule coprimeI)
  fix d assume d: "d dvd b" "d dvd m"
  have "m dvd a * b - 1" using assms by (simp add: mod_eq_dvd_iff)
  then have "d dvd a * b - (a * b - 1)" using d by (meson dvd_diff dvd_mult dvd_trans)
  then show "d dvd 1" by simp
qed

lemma lagrange_mod:
  fixes X :: "int set"
  assumes "finite X" and "0 \<notin> X" and "length cs \<le> card X"
    and iv: "\<And>a. a \<in> X \<Longrightarrow> (lden X a * iv a) mod m = 1 mod m"
  shows "(\<Sum>a\<in>X. polyval cs a * (lnum X a * iv a)) mod m = polyval cs 0 mod m"
proof -
  let ?P = "\<Prod>b\<in>X. lden X b"
  let ?S = "\<Sum>a\<in>X. polyval cs a * (lnum X a * iv a)"
  have one: "m dvd lden X a * iv a - 1" if "a \<in> X" for a using iv [OF that] by (simp add: mod_eq_dvd_iff)
  have "coprime (lden X a) m" if "a \<in> X" for a
    using iv [OF that] by (intro inverse_coprime [of "iv a"]) (simp add: mult.commute)
  then have co: "coprime ?P m" by (intro prod_coprime_left)
  have "?P * (?S - polyval cs 0)
      = (\<Sum>a\<in>X. polyval cs a * (lnum X a * iv a) * ?P) - ?P * polyval cs 0"
    by (simp add: sum_distrib_left algebra_simps)
  also have "\<dots> = (\<Sum>a\<in>X. polyval cs a * lnum X a * (\<Prod>b\<in>X - {a}. lden X b) * (lden X a * iv a - 1))"
    unfolding lagrange_int [OF assms(1-3), symmetric] sum_subtractf [symmetric]
    by (intro sum.cong refl) (simp add: prod.remove [OF assms(1)] algebra_simps)
  also have "m dvd \<dots>" by (intro dvd_sum dvd_mult one)
  finally have "m dvd ?S - polyval cs 0"
    using co by (simp add: coprime_commute coprime_dvd_mult_right_iff)
  then show ?thesis by (simp only: mod_eq_dvd_iff)
qed

subsection \<open>Loops of the program\<close>

text \<open>The product loops accumulate both products modulo \<open>q\<close> and skip the point itself.\<close>

lemma skip_prods:
  fixes f g :: "nat \<Rightarrow> int"
  assumes "1 < q"
  shows "foldl (\<lambda>nd m. if m = j then nd else ((fst nd * f m) mod q, (snd nd * g m) mod q)) (1, 1) [0..<n]
    = ((\<Prod>m\<in>{0..<n} - {j}. f m) mod q, (\<Prod>m\<in>{0..<n} - {j}. g m) mod q)"
proof (induction n)
  case (Suc n)
  have "{0..<Suc n} - {j} = (if n = j then {0..<n} - {j} else insert n ({0..<n} - {j}))" by auto
  then show ?case using Suc by (simp add: mod_mult_right_eq mult.commute)
qed (use assms in simp)

lemma prod_other_nth:
  assumes "distinct xs" and "j < length xs"
  shows "(\<Prod>m\<in>{0..<length xs} - {j}. f (xs ! m)) = (\<Prod>b\<in>set xs - {xs ! j}. f b)"
proof -
  have i: "inj_on ((!) xs) {0..<length xs}" using assms(1) by (simp add: inj_on_nth)
  have "(!) xs ` ({0..<length xs} - {j}) = (!) xs ` {0..<length xs} - (!) xs ` {j}"
    by (rule inj_on_image_set_diff [OF i]) (use assms(2) in auto)
  also have "(!) xs ` {0..<length xs} = set xs" by (metis list.set_map map_nth set_upt)
  finally have "set xs - {xs ! j} = (!) xs ` ({0..<length xs} - {j})" by simp
  moreover have "inj_on ((!) xs) ({0..<length xs} - {j})" by (rule inj_on_subset [OF i]) blast
  ultimately show ?thesis by (simp add: prod.reindex)
qed

text \<open>Truncating division: remainders shrink, and it is Euclidean division on naturals.\<close>

lemma sdiv_remainder: "r \<noteq> 0 \<Longrightarrow> \<bar>a - (a sdiv r) * r\<bar> < \<bar>r\<bar>" for a r :: int
proof -
  assume r: "r \<noteq> 0"
  have "a - (a sdiv r) * r = sgn a * (\<bar>a\<bar> - (\<bar>a\<bar> div \<bar>r\<bar>) * \<bar>r\<bar>)"
    using r by (simp add: signed_divide_int_def sgn_if algebra_simps)
  also have "\<bar>\<dots>\<bar> \<le> \<bar>a\<bar> mod \<bar>r\<bar>" using r by (simp add: minus_div_mult_eq_mod abs_mult abs_sgn_eq)
  also have "\<dots> < \<bar>r\<bar>" using r by simp
  finally show ?thesis .
qed

lemma sdiv_nonneg: "\<lbrakk>0 \<le> a; 0 \<le> b\<rbrakk> \<Longrightarrow> a sdiv b = a div b" for a b :: int
  by (cases "a = 0"; cases "b = 0") (simp_all add: signed_divide_int_def)

lemma smod_nonneg: "\<lbrakk>0 \<le> a; 0 \<le> b\<rbrakk> \<Longrightarrow> a smod b = a mod b" for a b :: int
  by (simp add: minus_sdiv_mult_eq_smod [symmetric] sdiv_nonneg minus_div_mult_eq_mod)

lemma smod_mod: "(a smod m) mod m = a mod m" for a m :: int
  using arg_cong [OF sdiv_mult_smod_eq [of a m], of "\<lambda>x. x mod m"] by simp

lemma smod_wrap: "0 < m \<Longrightarrow> (a smod m + m) smod m = a mod m" for a m :: int
proof -
  assume m: "0 < m"
  have r: "\<bar>a smod m\<bar> < m" using sdiv_remainder [of m a] m by (simp add: minus_sdiv_mult_eq_smod)
  then have "(a smod m + m) smod m = (a smod m + m) mod m" using m by (intro smod_nonneg) auto
  also have "\<dots> = a mod m" by (simp add: smod_mod)
  finally show ?thesis .
qed

lemma smod_adjust: "0 < m \<Longrightarrow> (if 0 \<le> a smod m then a smod m else a smod m + m) = a mod m" for a m :: int
proof -
  assume m: "0 < m"
  have r: "\<bar>a smod m\<bar> < m" using sdiv_remainder [of m a] m by (simp add: minus_sdiv_mult_eq_smod)
  note e = smod_mod [of a m]
  show ?thesis
  proof (cases "0 \<le> a smod m")
    case True
    then show ?thesis using r e by simp
  next
    case False
    then have "(a smod m + m) mod m = a smod m + m" using r by (intro mod_pos_pos_trivial) auto
    then show ?thesis using False e by simp
  qed
qed

lemma coprime_mod_nonzero: "\<lbrakk>coprime a m; 1 < m\<rbrakk> \<Longrightarrow> 1 \<le> a mod m \<and> a mod m < m" for a m :: int
proof -
  assume a: "coprime a m" and m: "1 < m"
  have "a mod m \<noteq> 0"
  proof
    assume "a mod m = 0"
    then have "m dvd a" by (rule mod_0_imp_dvd)
    then have "m dvd 1" using a by (simp add: coprime_absorb_right)
    then show False using m by simp
  qed
  moreover have "0 \<le> a mod m" "a mod m < m" using m by simp_all
  ultimately show ?thesis by linarith
qed

subsection \<open>Validator indices\<close>

definition valid_index :: "int \<Rightarrow> bool" where
  "valid_index i \<longleftrightarrow> 1 \<le> i \<and> i \<le> 255"

text \<open>
  Indices are taken from \<open>1..255\<close>. A modulus that is coprime to the product of the primes below 256 is
  coprime to every index and to every difference of two indices: a number that is not prime splits
  into two smaller ones.
\<close>

definition small_primes :: "int list" where
  "small_primes =
    [2, 3, 5, 7, 11, 13, 17, 19, 23, 29, 31, 37, 41, 43, 47, 53, 59, 61, 67, 71, 73, 79, 83,
     89, 97, 101, 103, 107, 109, 113, 127, 131, 137, 139, 149, 151, 157, 163, 167, 173, 179,
     181, 191, 193, 197, 199, 211, 223, 227, 229, 233, 239, 241, 251]"

lemma small_primes_prod:
  "prod_list small_primes =
    64266330917908644872330635228106713310880186591609208114244758680898150367880703152525200743234420230"
  unfolding small_primes_def by simp

lemma small_split: "list_all (\<lambda>d. d \<in> set small_primes \<or> list_ex (\<lambda>a. a < d \<and> a dvd d) [2..15]) [2..255]"
  by code_simp

lemma small_factor:
  assumes "2 \<le> d" and "d \<le> 255" and "d \<notin> set small_primes"
  obtains a where "2 \<le> a" and "a < d" and "a dvd d"
proof -
  have "d \<in> {2..255}" using assms by simp
  with small_split assms(3) obtain a where "a \<in> {2..15}" "a < d" "a dvd d"
    unfolding list_all_iff list_ex_iff set_upto by blast
  then show thesis using that [of a] by simp
qed

lemma small_prime_coprime: "\<lbrakk>coprime (prod_list small_primes) m; p \<in> set small_primes\<rbrakk> \<Longrightarrow> coprime p m"
  using prod_list_dvd [of p small_primes] by (auto elim: coprime_divisors [OF _ dvd_refl])

lemma pos_coprime: "\<lbrakk>coprime (prod_list small_primes) m; 1 \<le> d; d \<le> 255\<rbrakk> \<Longrightarrow> coprime d m"
proof (induction "nat d" arbitrary: d rule: less_induct)
  case less
  show ?case
  proof (cases "d = 1 \<or> d \<in> set small_primes")
    case True
    then show ?thesis using small_prime_coprime less.prems(1) by auto
  next
    case False
    then obtain a where a: "2 \<le> a" "a < d" "a dvd d" using less.prems small_factor [of d] by auto
    then obtain b where b: "d = a * b" by blast
    have "0 < b" using a b less.prems by (simp add: zero_less_mult_iff)
    moreover have "1 * b < a * b" using a \<open>0 < b\<close> by (intro mult_strict_right_mono) auto
    ultimately have "1 \<le> b" "b < d" using b by linarith+
    then have "coprime a m" "coprime b m"
      using less.hyps [of a] less.hyps [of b] a(1,2) less.prems by simp_all
    then show ?thesis using b by simp
  qed
qed

lemma index_coprime:
  assumes m: "coprime (prod_list small_primes) m" and "\<forall>i\<in>X. valid_index i" and "a \<in> X"
  shows "coprime (lnum X a) m" and "coprime (lden X a) m"
proof -
  have small: "coprime d m" if "d \<noteq> 0" "\<bar>d\<bar> \<le> 255" for d
    using pos_coprime [OF m, of "\<bar>d\<bar>"] that by simp
  have "coprime (- b) m" "coprime (a - b) m" if "b \<in> X - {a}" for b
  proof -
    have "1 \<le> a" "a \<le> 255" "1 \<le> b" "b \<le> 255" "a \<noteq> b" using assms that by (auto simp: valid_index_def)
    then show "coprime (- b) m" "coprime (a - b) m"
      by (auto intro!: small simp del: coprime_minus_left_iff)
  qed
  then show "coprime (lnum X a) m" "coprime (lden X a) m"
    unfolding lnum_def lden_def by (blast intro: prod_coprime_left)+
qed

subsection \<open>Interpolation over a list of indices\<close>

lemma sum_nth_distinct:
  assumes "distinct xs"
  shows "(\<Sum>j<length xs. g (xs ! j)) = (\<Sum>a\<in>set xs. g a)"
  using sum_list_distinct_conv_sum_set [OF assms, of g] sum_list_sum_nth [of "map g xs"]
  by (simp add: atLeast0LessThan)

lemma interpolate_points:
  fixes m :: int
  assumes d: "distinct xs" and v: "\<forall>i\<in>set xs. valid_index i" and l: "length cs \<le> length xs"
    and iv: "\<And>a. a \<in> set xs \<Longrightarrow> (lden (set xs) a * iv a) mod m = 1 mod m"
    and y: "\<And>j. j < length xs \<Longrightarrow> y j mod m = (polyval cs (xs ! j) * x) mod m"
  shows "(\<Sum>j<length xs. (lnum (set xs) (xs ! j) * iv (xs ! j)) mod m * y j) mod m = (polyval cs 0 * x) mod m"
proof -
  let ?q = m and ?X = "set xs"
  let ?k = "\<lambda>a. lnum ?X a * iv a"
  have summand: "(?k (xs ! j) mod ?q * y j) mod ?q = (polyval cs (xs ! j) * ?k (xs ! j) * x) mod ?q" if "j < length xs" for j
  proof -
    have "(?k (xs ! j) mod ?q * y j) mod ?q = (?k (xs ! j) * (polyval cs (xs ! j) * x)) mod ?q"
      by (rule mod_mult_cong) (use y [OF that] in simp_all)
    then show ?thesis by (simp only: ac_simps)
  qed
  have "(\<Sum>j<length xs. ?k (xs ! j) mod ?q * y j) mod ?q = (\<Sum>j<length xs. (?k (xs ! j) mod ?q * y j) mod ?q) mod ?q"
    by (rule mod_sum_eq [symmetric])
  also have "(\<Sum>j<length xs. (?k (xs ! j) mod ?q * y j) mod ?q)
      = (\<Sum>j<length xs. (polyval cs (xs ! j) * ?k (xs ! j) * x) mod ?q)"
    by (rule sum.cong) (use summand in simp_all)
  also have "\<dots> mod ?q = (\<Sum>j<length xs. polyval cs (xs ! j) * ?k (xs ! j) * x) mod ?q" by (rule mod_sum_eq)
  also have "\<dots> = ((\<Sum>a\<in>?X. polyval cs a * ?k a) * x) mod ?q"
    by (simp only: sum_nth_distinct [OF d, of "\<lambda>a. polyval cs a * ?k a * x"] sum_distrib_right)
  also have "\<dots> = (polyval cs 0 * x) mod ?q"
  proof (rule mod_mult_cong [OF lagrange_mod refl])
    show "0 \<notin> ?X" using v by (auto simp: valid_index_def)
    show "length cs \<le> card ?X" using l by (simp add: distinct_card [OF d])
  qed (simp_all add: iv)
  finally show ?thesis .
qed

end
