(* ===== verification/Hole_Cards.thy ===== *)
theory Hole_Cards
  imports Interpolation Crypto_Group
begin

text \<open>
  Hole-card decryption of the bot, \<^verbatim>\<open>apps/bot/src/holeCards.ts\<close>: arithmetic modulo the group order,
  Lagrange coefficients, the table of card points, decoding of the chain's JSON, decryption of the
  validators' shares and recovery of the two cards. \<^verbatim>\<open>toBytes\<close> of a point is \<open>rp_toRawBytes\<close>. A JSON
  field that may be missing is an option (the snake-case and camel-case spellings are one field).
\<close>

subsection \<open>Scalar field arithmetic\<close>

definition modQ :: "int \<Rightarrow> int" where
  "modQ n = (let x = n smod CURVE_ORDER in if x < 0 then x + CURVE_ORDER else x)"

function invModLoop :: "int \<Rightarrow> int \<Rightarrow> int \<Rightarrow> int \<Rightarrow> int" where
  "invModLoop old_r r old_s s =
     (if r = 0 then old_s
      else let q = old_r sdiv r in invModLoop r (old_r - q * r) s (old_s - q * s))"
  by pat_completeness auto
termination
  by (relation "measure (\<lambda>(old_r, r, old_s, s). nat \<bar>r\<bar>)") (auto simp: sdiv_remainder)

declare invModLoop.simps [simp del]

definition invMod :: "int \<Rightarrow> int \<Rightarrow> int fallible" where
  "invMod a m =
     (let a0 = modQ a
      in if a0 = 0 then Inl ''invMod: cannot invert zero''
         else Inr ((invModLoop a0 m 1 0 smod m + m) smod m))"

definition lagrangeCoefficients :: "int list \<Rightarrow> int list fallible" where
  "lagrangeCoefficients xCoords =
     (let n = length xCoords in
      rmap (\<lambda>j.
        let nd = foldl (\<lambda>nd m. if m = j then nd
                   else (modQ (fst nd * modQ (CURVE_ORDER - xCoords ! m)),
                         modQ (snd nd * modQ (xCoords ! j - xCoords ! m)))) (1, 1) [0..<n]
        in rbind (invMod (snd nd) CURVE_ORDER) (\<lambda>i. Inr (modQ (fst nd * i)))) [0..<n])"

subsection \<open>Card lookup table\<close>

definition pointHex :: "'p curve \<Rightarrow> 'p \<Rightarrow> string" where
  "pointHex C pt = concat (map (\<lambda>b. padStart2 (toString16 (unat b))) (rp_toRawBytes C pt))"

definition CARD_TABLE :: "'p curve \<Rightarrow> (string \<rightharpoonup> nat) fallible" where
  "CARD_TABLE C =
     rfold (\<lambda>i table. rbind (mulBase C (int (i + 1))) (\<lambda>pt. Inr (table(pointHex C pt \<mapsto> i))))
       [0..<52] Map.empty"

definition lookupCardId :: "'p curve \<Rightarrow> 'p \<Rightarrow> nat option fallible" where
  "lookupCardId C point = rbind (CARD_TABLE C) (\<lambda>table. Inr (table (pointHex C point)))"

subsection \<open>Decoding\<close>

text \<open>
  \<^verbatim>\<open>Buffer.from(s, "base64")\<close>: both alphabets are read, other characters are skipped, padding ends the
  data, and a last incomplete group gives the bytes it determines.
\<close>

definition base64Value :: "char \<Rightarrow> nat option" where
  "base64Value c =
     (let n = of_char c :: nat in
      if 65 \<le> n \<and> n \<le> 90 then Some (n - 65)
      else if 97 \<le> n \<and> n \<le> 122 then Some (n - 71)
      else if 48 \<le> n \<and> n \<le> 57 then Some (n + 4)
      else if c = CHR ''+'' \<or> c = CHR ''-'' then Some 62
      else if c = CHR ''/'' \<or> c = CHR ''_'' then Some 63
      else None)"

fun base64Groups :: "nat list \<Rightarrow> byte list" where
  "base64Groups (a # b # c # d # r) =
     of_nat (a * 4 + b div 16) # of_nat (b mod 16 * 16 + c div 4) # of_nat (c mod 4 * 64 + d) # base64Groups r"
| "base64Groups [a, b, c] = [of_nat (a * 4 + b div 16), of_nat (b mod 16 * 16 + c div 4)]"
| "base64Groups [a, b] = [of_nat (a * 4 + b div 16)]"
| "base64Groups _ = []"

definition fromBase64 :: "string \<Rightarrow> byte list" where
  "fromBase64 s = base64Groups (List.map_filter base64Value (takeWhile (\<lambda>c. c \<noteq> CHR ''='') s))"

definition trim :: "string \<Rightarrow> string" where
  "trim s = rev (dropWhile isWhitespace (rev (dropWhile isWhitespace s)))"

fun hexPairs :: "string \<Rightarrow> byte list" where
  "hexPairs (a # b # h) = (case parseInt16 [a, b] of None \<Rightarrow> 0 | Some v \<Rightarrow> word_of_int v) # hexPairs h"
| "hexPairs _ = []"

definition decodeBytes :: "string \<Rightarrow> byte list" where
  "decodeBytes raw =
     (let s = trim raw;
          hexBody = (if take 2 s = ''0x'' then drop 2 s else s)
      in if hexBody \<noteq> [] \<and> list_all (\<lambda>c. hexValue c \<noteq> None) hexBody
            \<and> (length hexBody = 64 \<or> length hexBody = 128)
         then hexPairs hexBody else fromBase64 s)"

datatype JsonBytes = TextBytes string | RawBytes "byte list"

definition toBytes :: "JsonBytes option \<Rightarrow> byte list fallible" where
  "toBytes raw =
     (case raw of
        Some (RawBytes bs) \<Rightarrow> Inr bs
      | Some (TextBytes s) \<Rightarrow> Inr (decodeBytes s)
      | None \<Rightarrow> Inl ''TypeError: cannot read properties of undefined'')"

definition bytesEqual :: "byte list \<Rightarrow> byte list \<Rightarrow> bool" where
  "bytesEqual a b =
     (if length a \<noteq> length b then False else \<not> list_ex (\<lambda>i. a ! i \<noteq> b ! i) [0..<length a])"

text \<open>\<^verbatim>\<open>parseInt(s, 10)\<close> and \<^verbatim>\<open>BigInt(n)\<close>; NaN and undefined are \<open>None\<close>.\<close>

datatype JsonInt = TextInt string | NumInt js_number

definition decValue :: "char \<Rightarrow> int option" where
  "decValue c = (let n = int (of_char c) in if 48 \<le> n \<and> n \<le> 57 then Some (n - 48) else None)"

definition parseInt10 :: "string \<Rightarrow> int option" where
  "parseInt10 s =
     (let s1 = dropWhile isWhitespace s;
          neg = (take 1 s1 = ''-'');
          s2 = (if take 1 s1 = ''-'' \<or> take 1 s1 = ''+'' then drop 1 s1 else s1);
          digits = takeWhile (\<lambda>c. decValue c \<noteq> None) s2
      in if digits = [] then None
         else let v = foldl (\<lambda>v c. v * 10 + the (decValue c)) 0 digits
              in Some (if neg then - v else v))"

definition jsonInt :: "JsonInt option \<Rightarrow> js_number option" where
  "jsonInt raw =
     (case raw of
        None \<Rightarrow> None
      | Some (TextInt s) \<Rightarrow> map_option of_int (parseInt10 s)
      | Some (NumInt n) \<Rightarrow> Some n)"

definition toBigInt :: "js_number option \<Rightarrow> int fallible" where
  "toBigInt n =
     (case n of
        None \<Rightarrow> Inl ''RangeError: not a safe integer''
      | Some x \<Rightarrow> if isInteger x then Inr \<lfloor>x\<rfloor> else Inl ''RangeError: not a safe integer'')"

subsection \<open>Decryption\<close>

definition decryptEncShare :: "'p curve \<Rightarrow> byte list \<Rightarrow> int \<Rightarrow> 'p fallible" where
  "decryptEncShare C encShareBytes skPlayer =
     (if length encShareBytes \<noteq> 64 then Inl ''enc share must be 64 bytes''
      else rbind (groupElementFromBytes C (take 32 encShareBytes)) (\<lambda>U.
        rbind (groupElementFromBytes C (take 32 (drop 32 encShareBytes))) (\<lambda>V.
        rbind (mulPoint C U skPlayer) (\<lambda>p. Inr (pointSub C V p)))))"

record 'p DecryptedShare =
  ds_validatorIndex :: int
  ds_d :: 'p

definition recoverCard :: "'p curve \<Rightarrow> 'p \<Rightarrow> 'p DecryptedShare list \<Rightarrow> nat option fallible" where
  "recoverCard C c2 decryptedShares =
     (if decryptedShares = [] then Inr None
      else rbind (lagrangeCoefficients (map ds_validatorIndex decryptedShares)) (\<lambda>coeffs.
        rbind (mulPoint C (ds_d (decryptedShares ! 0)) (coeffs ! 0)) (\<lambda>D0.
        rbind (rfold (\<lambda>j D. rbind (mulPoint C (ds_d (decryptedShares ! j)) (coeffs ! j)) (\<lambda>p. Inr (pointAdd C D p)))
                 [1..<length decryptedShares] D0) (\<lambda>D.
        lookupCardId C (pointSub C c2 D)))))"

record EncShareJson =
  es_pos :: "JsonInt option"
  es_pkPlayer :: "JsonBytes option"
  es_encShare :: "JsonBytes option"
  es_index :: "JsonInt option"

record DeckEntryJson =
  de_c2 :: "JsonBytes option"

record DealerHandJson =
  dh_deck :: "DeckEntryJson option list"
  dh_encShares :: "EncShareJson list"

text \<open>The shares of a position that are addressed to this player; a malformed one is skipped.\<close>

definition collectShare :: "'p curve \<Rightarrow> js_number \<Rightarrow> byte list \<Rightarrow> int \<Rightarrow> EncShareJson
    \<Rightarrow> 'p DecryptedShare list \<Rightarrow> 'p DecryptedShare list fallible" where
  "collectShare C pos pkPlayerBytes skPlayer es shares =
     (if jsonInt (es_pos es) \<noteq> Some pos then Inr shares
      else rbind (toBytes (es_pkPlayer es)) (\<lambda>esPk.
        if \<not> bytesEqual esPk pkPlayerBytes then Inr shares
        else rbind (toBytes (es_encShare es)) (\<lambda>esBytes.
          case rbind (decryptEncShare C esBytes skPlayer) (\<lambda>d.
                 rbind (toBigInt (jsonInt (es_index es))) (\<lambda>i. Inr \<lparr>ds_validatorIndex = i, ds_d = d\<rparr>)) of
            Inr share \<Rightarrow> Inr (shares @ [share])
          | Inl _ \<Rightarrow> Inr shares)))"

definition deckAt :: "DeckEntryJson option list \<Rightarrow> js_number \<Rightarrow> DeckEntryJson option" where
  "deckAt deck pos = (if isInteger pos \<and> 0 \<le> pos then aget None deck (nat \<lfloor>pos\<rfloor>) else None)"

definition decryptHoleCard :: "'p curve \<Rightarrow> DealerHandJson option \<Rightarrow> byte list \<Rightarrow> int \<Rightarrow> js_number \<Rightarrow> nat option fallible" where
  "decryptHoleCard C dealerHand pkPlayerBytes skPlayer pos =
     (let deck = (case dealerHand of None \<Rightarrow> [] | Some h \<Rightarrow> dh_deck h);
          encShares = (case dealerHand of None \<Rightarrow> [] | Some h \<Rightarrow> dh_encShares h)
      in if pos = 255 \<or> pos < 0 then Inr None
         else case deckAt deck pos of
           None \<Rightarrow> Inr None
         | Some deckEntry \<Rightarrow>
             if de_c2 deckEntry = None \<or> de_c2 deckEntry = Some (TextBytes []) then Inr None
             else rbind (toBytes (de_c2 deckEntry)) (\<lambda>c2Bytes.
               rbind (groupElementFromBytes C c2Bytes) (\<lambda>c2.
               rbind (rfold (collectShare C pos pkPlayerBytes skPlayer) encShares []) (\<lambda>shares.
               if shares = [] then Inr None else recoverCard C c2 shares))))"

definition decryptHoleCards :: "'p curve \<Rightarrow> DealerHandJson option \<Rightarrow> js_number \<times> js_number \<Rightarrow> byte list \<Rightarrow> int
    \<Rightarrow> (nat \<times> nat) option fallible" where
  "decryptHoleCards C dealerHand holePositions pkPlayerBytes skPlayer =
     rbind (decryptHoleCard C dealerHand pkPlayerBytes skPlayer (fst holePositions)) (\<lambda>c0.
       case c0 of
         None \<Rightarrow> Inr None
       | Some card0 \<Rightarrow>
           rbind (decryptHoleCard C dealerHand pkPlayerBytes skPlayer (snd holePositions)) (\<lambda>c1.
             case c1 of None \<Rightarrow> Inr None | Some card1 \<Rightarrow> Inr (Some (card0, card1))))"

end
