(* ===== verification/Hole_Recovery.thy ===== *)
theory Hole_Recovery
  imports Hole_Cards Sigma_Proofs
begin

text \<open>
  Recovery of a card from decryption shares: the extended Euclidean loop inverts, the Lagrange
  coefficients interpolate at zero, the card table inverts the encoding of cards, and
  \<open>recoverCard\<close> returns the card that was encrypted. Validator indices are taken from \<open>1..255\<close>, for which
  every difference is invertible modulo the group order.
\<close>

subsection \<open>Inversion\<close>

lemma modQ_eq: "modQ n = n mod CURVE_ORDER"
  using smod_adjust [of CURVE_ORDER n] by (auto simp: modQ_def Let_def not_less)

lemma invModLoop_gcd:
  assumes "0 \<le> old_r" and "0 \<le> r"
    and "(old_s * a) mod m = old_r mod m" and "(s * a) mod m = r mod m"
  shows "(invModLoop old_r r old_s s * a) mod m = gcd old_r r mod m"
  using assms
proof (induction old_r r old_s s rule: invModLoop.induct)
  case (1 old_r r old_s s)
  show ?case
  proof (cases "r = 0")
    case True
    then show ?thesis using 1(2-) by (simp add: invModLoop.simps)
  next
    case False
    let ?q = "old_r div r"
    have q: "old_r sdiv r = ?q" using 1(2,3) by (rule sdiv_nonneg)
    have r: "old_r - ?q * r = old_r mod r" by (rule minus_div_mult_eq_mod)
    have "((old_s - ?q * s) * a) mod m = ((old_s * a) - ?q * (s * a)) mod m" by (simp add: algebra_simps)
    also have "\<dots> = (old_r - ?q * r) mod m" using 1(4,5) by (intro mod_diff_cong mod_mult_cong) simp_all
    finally have "(invModLoop r (old_r - ?q * r) s (old_s - ?q * s) * a) mod m = gcd r (old_r - ?q * r) mod m"
      using 1(1) [OF False refl] 1(2-) False by (simp add: q r)
    then show ?thesis using False by (subst invModLoop.simps) (simp add: q r Let_def gcd.commute [of r] flip: gcd_red_int)
  qed
qed

lemma invMod_ok:
  assumes "coprime a CURVE_ORDER"
  obtains y where "invMod a CURVE_ORDER = Inr y" and "(a * y) mod CURVE_ORDER = 1 mod CURVE_ORDER"
proof -
  let ?q = CURVE_ORDER and ?a = "a mod CURVE_ORDER"
  have nz: "?a \<noteq> 0" using coprime_mod_nonzero [OF assms] by simp
  let ?y = "invModLoop ?a ?q 1 0 mod ?q"
  have "(invModLoop ?a ?q 1 0 * ?a) mod ?q = gcd ?a ?q mod ?q" by (rule invModLoop_gcd) simp_all
  also have "gcd ?a ?q = 1" using assms by (simp add: gcd.commute [of "?a"] flip: gcd_red_int)
  finally have "(a * ?y) mod ?q = 1 mod ?q" by (simp add: mod_simps mult.commute)
  moreover have "invMod a ?q = Inr ?y" using nz by (simp add: invMod_def modQ_eq Let_def smod_wrap)
  ultimately show thesis by (rule that [rotated])
qed

subsection \<open>Lagrange coefficients\<close>

lemma small_primes_bezout:
  "3932605499673977836883572340119841249566595362341735877203567560239844220672 * prod_list small_primes
    - 34922472245046871428644898919674354027691759532087075525440907378193175717911538744592485530335535131 * CURVE_ORDER = 1"
  by (simp add: CURVE_ORDER_def small_primes_prod)

lemma CURVE_ORDER_coprime: "coprime (prod_list small_primes) CURVE_ORDER"
proof (rule coprimeI)
  fix d assume "d dvd prod_list small_primes" "d dvd CURVE_ORDER"
  then show "d dvd 1" using dvd_diff [OF dvd_mult dvd_mult] small_primes_bezout by metis
qed

lemmas curve_index_coprime = index_coprime [OF CURVE_ORDER_coprime]

lemma lagrangeCoefficients_ok:
  assumes d: "distinct xs" and v: "\<forall>i\<in>set xs. valid_index i"
  obtains iv where "lagrangeCoefficients xs = Inr (map (\<lambda>a. (lnum (set xs) a * iv a) mod CURVE_ORDER) xs)"
    and "\<forall>a\<in>set xs. (lden (set xs) a * iv a) mod CURVE_ORDER = 1 mod CURVE_ORDER"
proof -
  let ?q = CURVE_ORDER and ?X = "set xs"
  have "\<exists>y. invMod (lden ?X a mod ?q) ?q = Inr y \<and> (lden ?X a * y) mod ?q = 1 mod ?q" if "a \<in> ?X" for a
  proof -
    have "coprime (lden ?X a mod ?q) ?q" using curve_index_coprime(2) [OF v that] by simp
    from invMod_ok [OF this] show ?thesis by (metis mod_mult_left_eq)
  qed
  then obtain iv where iv: "\<And>a. a \<in> ?X \<Longrightarrow> invMod (lden ?X a mod ?q) ?q = Inr (iv a)"
      "\<And>a. a \<in> ?X \<Longrightarrow> (lden ?X a * iv a) mod ?q = 1 mod ?q" by metis
  have step: "(\<lambda>nd m. if m = j then nd
        else (modQ (fst nd * modQ (?q - xs ! m)), modQ (snd nd * modQ (xs ! j - xs ! m))))
      = (\<lambda>nd m. if m = j then nd
        else ((fst nd * (?q - xs ! m)) mod ?q, (snd nd * (xs ! j - xs ! m)) mod ?q))" for j
    by (simp only: modQ_eq mod_mult_right_eq)
  have "(\<Prod>b\<in>Y. ?q - b) mod ?q = (\<Prod>b\<in>Y. - b) mod ?q" for Y
    using mod_prod_eq [of "\<lambda>b. ?q - b" ?q Y] mod_prod_eq [of uminus ?q Y] by simp
  then have prods: "foldl (\<lambda>nd m. if m = j then nd
        else (modQ (fst nd * modQ (?q - xs ! m)), modQ (snd nd * modQ (xs ! j - xs ! m)))) (1, 1) [0..<length xs]
      = (lnum ?X (xs ! j) mod ?q, lden ?X (xs ! j) mod ?q)" if "j < length xs" for j
    unfolding step skip_prods [OF CURVE_ORDER_pos(3)] lnum_def lden_def
    by (simp only: prod_other_nth [OF d that, of "\<lambda>b. ?q - b"] prod_other_nth [OF d that, of "\<lambda>b. xs ! j - b"])
  let ?k = "\<lambda>a. (lnum ?X a * iv a) mod ?q"
  have "lagrangeCoefficients xs = Inr (map (\<lambda>j. ?k (xs ! j)) [0..<length xs])"
    unfolding lagrangeCoefficients_def Let_def
    by (rule rmap_Inr_map) (simp add: prods iv modQ_eq mod_simps del: mod_mod_trivial)
  moreover have "map (\<lambda>j. ?k (xs ! j)) [0..<length xs] = map ?k xs" by (rule nth_equalityI) simp_all
  ultimately show thesis using iv(2) that [of iv] by simp
qed

lemma coefficient_nonzero:
  assumes "\<forall>i\<in>X. valid_index i" and "a \<in> X" and "(lden X a * v) mod CURVE_ORDER = 1 mod CURVE_ORDER"
  shows "nonzero_scalar ((lnum X a * v) mod CURVE_ORDER)"
  using curve_index_coprime(1) [OF assms(1,2)] inverse_coprime [OF assms(3)]
  by (intro coprime_mod_nonzero) simp_all

subsection \<open>The card table\<close>

lemma pointHex_eq: "pointHex C pt = bytesToHex (rp_toRawBytes C pt)"
proof -
  have "concat (map (\<lambda>b. padStart2 (toString16 (unat b))) bs) = bytesToHex bs" for bs
    by (induction bs) (simp_all add: bytesToHex_Cons, simp add: bytesToHex_def)
  then show ?thesis by (simp add: pointHex_def)
qed

lemma pointHex_inj:
  assumes "ristretto C dl"
  shows "pointHex C P = pointHex C Q \<longleftrightarrow> dl P = dl Q"
proof -
  have "bytesToHex a = bytesToHex b \<longleftrightarrow> a = b" for a b
    using bytesToHex_loop [of a] bytesToHex_loop [of b] by (metis Inr_inject)
  then show ?thesis using ristretto_bytes [OF assms, of P Q] by (simp add: pointHex_eq groupElementToBytes_def)
qed

lemma card_table_prefix:
  assumes "ristretto C dl" and "n \<le> 52"
  defines "f \<equiv> \<lambda>i table. rbind (mulBase C (int (i + 1))) (\<lambda>pt. Inr (table(pointHex C pt \<mapsto> i)))"
  shows "\<exists>t. rfold f [0..<n] Map.empty = Inr t
    \<and> (\<forall>P. t (pointHex C P) = (if 1 \<le> dl P \<and> dl P \<le> int n then Some (nat (dl P) - 1) else None))"
  using assms(2)
proof (induction n)
  case (Suc n)
  then obtain t where t: "rfold f [0..<n] Map.empty = Inr t"
    "\<forall>P. t (pointHex C P) = (if 1 \<le> dl P \<and> dl P \<le> int n then Some (nat (dl P) - 1) else None)"
    by (meson Suc_leD)
  have "nonzero_scalar (int (n + 1))" using Suc.prems by (simp add: CURVE_ORDER_def)
  then obtain R where R: "mulBase C (int (n + 1)) = Inr R" "dl R = int (n + 1)"
    by (rule mulBase_ok [OF assms(1)])
  let ?t = "t(pointHex C R \<mapsto> n)"
  have "?t (pointHex C P) = (if 1 \<le> dl P \<and> dl P \<le> int (Suc n) then Some (nat (dl P) - 1) else None)" for P
    using t(2) R(2) pointHex_inj [OF assms(1), of P R] by auto
  moreover have "rfold f [0..<Suc n] Map.empty = Inr ?t" using t(1) R(1) by (simp add: rfold_append f_def)
  ultimately show ?case by blast
qed simp

lemma lookupCardId_ok:
  assumes "ristretto C dl"
  shows "lookupCardId C P = Inr (if 1 \<le> dl P \<and> dl P \<le> 52 then Some (nat (dl P) - 1) else None)"
  using card_table_prefix [OF assms, of 52] by (auto simp: lookupCardId_def CARD_TABLE_def)

subsection \<open>Recovering a card\<close>

lemma sum_points:
  assumes R: "ristretto C dl" and "1 \<le> k" and "\<forall>j<k. nonzero_scalar (ks ! j)"
    and D0: "mulPoint C (p 0) (ks ! 0) = Inr D0"
  defines "f \<equiv> \<lambda>j D. rbind (mulPoint C (p j) (ks ! j)) (\<lambda>r. Inr (pointAdd C D r))"
  shows "\<exists>D. rfold f [1..<k] D0 = Inr D \<and> eqmod (dl D) (\<Sum>j<k. ks ! j * dl (p j))"
  using assms(2,3)
proof (induction k rule: nat_induct_at_least)
  case base
  then show ?case using mulPoint_Inr(2) [OF R D0] by simp
next
  case (Suc k)
  have "\<forall>j<k. nonzero_scalar (ks ! j)" using Suc.prems by simp
  with Suc.IH obtain D where D: "rfold f [1..<k] D0 = Inr D" "eqmod (dl D) (\<Sum>j<k. ks ! j * dl (p j))" by blast
  have "nonzero_scalar (ks ! k)" using Suc.prems by simp
  then obtain P where P: "mulPoint C (p k) (ks ! k) = Inr P" "dl P = (ks ! k * dl (p k)) mod CURVE_ORDER"
    by (rule mulPoint_ok [OF R])
  have "dl (pointAdd C D P) mod CURVE_ORDER = (dl D + dl P) mod CURVE_ORDER" by (simp add: ristretto_add [OF R])
  also have "\<dots> = ((\<Sum>j<k. ks ! j * dl (p j)) + ks ! k * dl (p k)) mod CURVE_ORDER"
    using D(2) P(2) by (intro mod_add_cong) simp_all
  finally have "eqmod (dl (pointAdd C D P)) (\<Sum>j<Suc k. ks ! j * dl (p j))" by simp
  moreover have "rfold f [1..<Suc k] D0 = Inr (pointAdd C D P)"
    using D(1) P(1) Suc.hyps by (simp add: rfold_append f_def)
  ultimately show ?case by blast
qed

lemma recoverCard_ok:
  assumes R: "ristretto C dl" and ne: "shares \<noteq> []" and d: "distinct (map ds_validatorIndex shares)"
    and l: "length cs \<le> length shares" and c: "cardId < 52"
    and sh: "\<forall>s\<in>set shares. valid_index (ds_validatorIndex s)
      \<and> eqmod (dl (ds_d s)) (polyval cs (ds_validatorIndex s) * x)"
    and c2: "eqmod (dl c2) (int cardId + 1 + polyval cs 0 * x)"
  shows "recoverCard C c2 shares = Inr (Some cardId)"
proof -
  let ?q = CURVE_ORDER and ?xs = "map ds_validatorIndex shares" and ?p = "\<lambda>j. ds_d (shares ! j)"
  have v: "\<forall>i\<in>set ?xs. valid_index i" using sh by auto
  obtain iv where iv: "lagrangeCoefficients ?xs = Inr (map (\<lambda>a. (lnum (set ?xs) a * iv a) mod ?q) ?xs)"
    "\<forall>a\<in>set ?xs. (lden (set ?xs) a * iv a) mod ?q = 1 mod ?q"
    by (rule lagrangeCoefficients_ok [OF d v])
  let ?ks = "map (\<lambda>a. (lnum (set ?xs) a * iv a) mod ?q) ?xs"
  have nz: "\<forall>j<length shares. nonzero_scalar (?ks ! j)"
  proof (intro allI impI)
    fix j assume "j < length shares"
    then have j: "?xs ! j \<in> set ?xs" and k: "?ks ! j = (lnum (set ?xs) (?xs ! j) * iv (?xs ! j)) mod ?q" by simp_all
    show "nonzero_scalar (?ks ! j)" unfolding k by (rule coefficient_nonzero [OF v j iv(2) [rule_format, OF j]])
  qed
  have n: "0 < length shares" using ne by simp
  then have "nonzero_scalar (?ks ! 0)" using nz by blast
  then obtain D0 where D0: "mulPoint C (?p 0) (?ks ! 0) = Inr D0" by (rule mulPoint_ok [OF R])
  obtain D where D: "rfold (\<lambda>j D. rbind (mulPoint C (?p j) (?ks ! j)) (\<lambda>r. Inr (pointAdd C D r))) [1..<length shares] D0 = Inr D"
    "eqmod (dl D) (\<Sum>j<length shares. ?ks ! j * dl (?p j))"
    using sum_points [OF R _ nz, where p = ?p] D0 n by auto
  have "eqmod (\<Sum>j<length ?xs. (lnum (set ?xs) (?xs ! j) * iv (?xs ! j)) mod ?q * dl (?p j)) (polyval cs 0 * x)"
    by (rule interpolate_points [OF d v _ iv(2) [rule_format]]) (use l sh in simp_all)
  moreover have "(\<Sum>j<length ?xs. (lnum (set ?xs) (?xs ! j) * iv (?xs ! j)) mod ?q * dl (?p j))
      = (\<Sum>j<length shares. ?ks ! j * dl (?p j))" by (rule sum.cong) simp_all
  ultimately have "eqmod (dl D) (polyval cs 0 * x)" using D(2) by simp
  then have "(dl c2 - dl D) mod ?q = (int cardId + 1 + polyval cs 0 * x - polyval cs 0 * x) mod ?q"
    using c2 by (intro mod_diff_cong)
  then have "dl (pointSub C c2 D) = int cardId + 1"
    using c by (simp add: ristretto_sub [OF R] CURVE_ORDER_def)
  then have "lookupCardId C (pointSub C c2 D) = Inr (Some cardId)" using c by (simp add: lookupCardId_ok [OF R])
  then show ?thesis using ne D0 D(1) by (simp add: recoverCard_def iv(1))
qed

end
