(* ===== verification/Hole_Correct.thy ===== *)
theory Hole_Correct
  imports Hole_Recovery
begin

text \<open>
  Correctness of \<open>decryptHoleCards\<close>: shares of other positions and players and malformed shares are
  skipped, and the honest shares of both positions give back exactly the two cards that were dealt.
\<close>

subsection \<open>Collecting the shares of a position\<close>

lemma bytesEqual_iff: "bytesEqual a b \<longleftrightarrow> a = b"
  by (auto simp: bytesEqual_def list_ex_iff intro: nth_equalityI)

lemma toBigInt_of_int: "toBigInt (Some (of_int i)) = Inr i"
  by (simp add: toBigInt_def)

lemma decryptEncShare_ok:
  assumes R: "ristretto C dl" and "nonzero_scalar sk" and V: "eqmod (dl V) (y + sk * dl U)"
  shows "\<exists>d. decryptEncShare C (groupElementToBytes C U @ groupElementToBytes C V) sk = Inr d \<and> eqmod (dl d) y"
proof -
  obtain U' V' where p: "groupElementFromBytes C (groupElementToBytes C U) = Inr U'" "dl U' = dl U"
    "groupElementFromBytes C (groupElementToBytes C V) = Inr V'" "dl V' = dl V"
    using groupElement_round_trip [OF R, of U] groupElement_round_trip [OF R, of V] by (auto simp: ristretto_eq [OF R])
  obtain P where P: "mulPoint C U' sk = Inr P" "dl P = (sk * dl U') mod CURVE_ORDER"
    by (rule mulPoint_ok [OF R assms(2)])
  have "(dl V' - dl P) mod CURVE_ORDER = (y + sk * dl U - sk * dl U) mod CURVE_ORDER"
    using V P(2) p by (intro mod_diff_cong) simp_all
  then have "eqmod (dl (pointSub C V' P)) y" by (simp add: ristretto_sub [OF R])
  then show ?thesis using p P(1) by (simp add: decryptEncShare_def ristretto_width [OF R])
qed

text \<open>
  \<open>addressed\<close>: a record for this position and player. \<open>readable\<close>: it decrypts and carries an
  integral index. \<open>honest_share\<close>: it encrypts, under the player's key, the evaluation of the
  sharing polynomial \<open>cs\<close> at its index times the point with logarithm \<open>x\<close>.
\<close>

definition addressed :: "js_number \<Rightarrow> byte list \<Rightarrow> EncShareJson \<Rightarrow> bool" where
  "addressed pos pk es \<longleftrightarrow> jsonInt (es_pos es) = Some pos \<and> toBytes (es_pkPlayer es) = Inr pk"

abbreviation readShare :: "'p curve \<Rightarrow> int \<Rightarrow> EncShareJson \<Rightarrow> 'p DecryptedShare fallible" where
  "readShare C sk es \<equiv> rbind (toBytes (es_encShare es)) (\<lambda>bs. rbind (decryptEncShare C bs sk) (\<lambda>d.
     rbind (toBigInt (jsonInt (es_index es))) (\<lambda>i. Inr \<lparr>ds_validatorIndex = i, ds_d = d\<rparr>)))"

definition readable :: "'p curve \<Rightarrow> int \<Rightarrow> EncShareJson \<Rightarrow> bool" where
  "readable C sk es \<longleftrightarrow>
     (\<exists>s. readShare C sk es = Inr s)"

definition shareIndex :: "EncShareJson \<Rightarrow> int" where
  "shareIndex es = \<lfloor>the (jsonInt (es_index es))\<rfloor>"

definition honest_share :: "'p curve \<Rightarrow> ('p \<Rightarrow> int) \<Rightarrow> int list \<Rightarrow> int \<Rightarrow> int \<Rightarrow> EncShareJson \<Rightarrow> bool" where
  "honest_share C dl cs x sk es \<longleftrightarrow>
     jsonInt (es_index es) = Some (of_int (shareIndex es)) \<and> valid_index (shareIndex es)
   \<and> (\<exists>U V. toBytes (es_encShare es) = Inr (groupElementToBytes C U @ groupElementToBytes C V)
        \<and> eqmod (dl V) (polyval cs (shareIndex es) * x + sk * dl U))"

definition share_for :: "('p \<Rightarrow> int) \<Rightarrow> int list \<Rightarrow> int \<Rightarrow> EncShareJson \<Rightarrow> 'p DecryptedShare \<Rightarrow> bool" where
  "share_for dl cs x es s \<longleftrightarrow> ds_validatorIndex s = shareIndex es \<and> valid_index (shareIndex es)
     \<and> eqmod (dl (ds_d s)) (polyval cs (shareIndex es) * x)"

lemma honest_share_decrypts:
  assumes "ristretto C dl" and "nonzero_scalar sk" and "honest_share C dl cs x sk es"
  obtains s where "share_for dl cs x es s"
    and "readShare C sk es = Inr s"
proof -
  obtain U V where uv: "toBytes (es_encShare es) = Inr (groupElementToBytes C U @ groupElementToBytes C V)"
    "eqmod (dl V) (polyval cs (shareIndex es) * x + sk * dl U)"
    using assms(3) by (auto simp: honest_share_def)
  obtain d where d: "decryptEncShare C (groupElementToBytes C U @ groupElementToBytes C V) sk = Inr d"
    "eqmod (dl d) (polyval cs (shareIndex es) * x)"
    using decryptEncShare_ok [OF assms(1,2) uv(2)] by blast
  have i: "toBigInt (jsonInt (es_index es)) = Inr (shareIndex es)"
    using assms(3) toBigInt_of_int [of "shareIndex es"] by (simp add: honest_share_def)
  have v: "valid_index (shareIndex es)" using assms(3) by (simp add: honest_share_def)
  show thesis
  proof (rule that [of "\<lparr>ds_validatorIndex = shareIndex es, ds_d = d\<rparr>"])
    show "share_for dl cs x es \<lparr>ds_validatorIndex = shareIndex es, ds_d = d\<rparr>"
      using v d(2) by (simp add: share_for_def)
  qed (simp add: uv(1) d(1) i)
qed

lemma honest_share_readable:
  assumes "ristretto C dl" and "nonzero_scalar sk" and "honest_share C dl cs x sk es"
  shows "readable C sk es"
  unfolding readable_def by (rule honest_share_decrypts [OF assms]) (rule exI)

lemma collectShare_taken:
  assumes "ristretto C dl" and "nonzero_scalar sk" and "honest_share C dl cs x sk es" and "addressed pos pk es"
  obtains s where "collectShare C pos pk sk es shares = Inr (shares @ [s])" and "share_for dl cs x es s"
proof -
  obtain s where s: "share_for dl cs x es s"
    "readShare C sk es = Inr s"
    by (rule honest_share_decrypts [OF assms(1-3)])
  then obtain bs where b: "toBytes (es_encShare es) = Inr bs" by auto
  show thesis
    by (rule that [OF _ s(1)]) (use assms(4) s(2) b in \<open>simp add: collectShare_def addressed_def bytesEqual_iff\<close>)
qed

lemma collectShare_skipped:
  assumes "\<not> (addressed pos pk es \<and> readable C sk es)"
    and "jsonInt (es_pos es) = Some pos \<Longrightarrow> \<exists>b c. toBytes (es_pkPlayer es) = Inr b \<and> toBytes (es_encShare es) = Inr c"
  shows "collectShare C pos pk sk es shares = Inr shares"
proof (cases "jsonInt (es_pos es) = Some pos \<and> toBytes (es_pkPlayer es) = Inr pk")
  case True
  then have "\<not> readable C sk es" using assms(1) by (simp add: addressed_def)
  moreover obtain c where "toBytes (es_encShare es) = Inr c" using assms(2) True by blast
  ultimately show ?thesis using True
    by (auto simp: collectShare_def bytesEqual_iff readable_def split: sum.split)
next
  case False
  then show ?thesis using assms(2) by (auto simp: collectShare_def bytesEqual_iff)
qed

lemma collectShares_ok:
  assumes "ristretto C dl" and "nonzero_scalar sk"
    and "\<forall>es\<in>set ess. jsonInt (es_pos es) = Some pos \<longrightarrow>
      (\<exists>b c. toBytes (es_pkPlayer es) = Inr b \<and> toBytes (es_encShare es) = Inr c)"
    and "\<forall>es\<in>set ess. addressed pos pk es \<and> readable C sk es \<longrightarrow> honest_share C dl cs x sk es"
  shows "\<exists>ss. rfold (collectShare C pos pk sk) ess shares = Inr (shares @ ss)
    \<and> list_all2 (share_for dl cs x) (filter (\<lambda>es. addressed pos pk es \<and> readable C sk es) ess) ss"
  using assms(3,4)
proof (induction ess arbitrary: shares)
  case (Cons es ess)
  let ?mine = "filter (\<lambda>es. addressed pos pk es \<and> readable C sk es) ess"
  have IH: "\<exists>ss. rfold (collectShare C pos pk sk) ess shares = Inr (shares @ ss)
    \<and> list_all2 (share_for dl cs x) ?mine ss" for shares
    by (rule Cons.IH) (use Cons.prems in simp_all)
  show ?case
  proof (cases "addressed pos pk es \<and> readable C sk es")
    case True
    then have h: "honest_share C dl cs x sk es" using Cons.prems(2) by simp
    obtain s where "collectShare C pos pk sk es shares = Inr (shares @ [s])" "share_for dl cs x es s"
      by (rule collectShare_taken [OF assms(1,2) h]) (use True in auto)
    moreover obtain ss where "rfold (collectShare C pos pk sk) ess (shares @ [s]) = Inr ((shares @ [s]) @ ss)"
      "list_all2 (share_for dl cs x) ?mine ss" using IH by blast
    ultimately show ?thesis using True by (intro exI [of _ "s # ss"]) simp
  next
    case False
    have "collectShare C pos pk sk es shares = Inr shares"
      by (rule collectShare_skipped [OF False]) (use Cons.prems(1) in auto)
    moreover obtain ss where "rfold (collectShare C pos pk sk) ess shares = Inr (shares @ ss)"
      "list_all2 (share_for dl cs x) ?mine ss" using IH by blast
    ultimately show ?thesis using False by (intro exI [of _ ss]) auto
  qed
qed simp

lemma share_for_all:
  assumes "list_all2 (share_for dl cs x) ess ss"
  shows "map ds_validatorIndex ss = map shareIndex ess"
    and "\<forall>s\<in>set ss. valid_index (ds_validatorIndex s) \<and> eqmod (dl (ds_d s)) (polyval cs (ds_validatorIndex s) * x)"
  using assms by (induction rule: list_all2_induct) (auto simp: share_for_def)

subsection \<open>Both hole cards\<close>

text \<open>
  \<open>dealt\<close>: the deck entry of the position encrypts \<open>cardId\<close> under the shared key (the ciphertext has
  first component \<open>c1\<close>), the records of the position have their byte fields, every readable share
  addressed to the player is honest, their indices differ, and there are at least as many as the
  sharing polynomial has coefficients.
\<close>

definition dealt :: "'p curve \<Rightarrow> ('p \<Rightarrow> int) \<Rightarrow> int list \<Rightarrow> int \<Rightarrow> byte list \<Rightarrow> DealerHandJson
    \<Rightarrow> js_number \<Rightarrow> 'p \<Rightarrow> nat \<Rightarrow> bool" where
  "dealt C dl cs sk pk h pos c1 cardId \<longleftrightarrow>
     (let mine = filter (\<lambda>es. addressed pos pk es \<and> readable C sk es) (dh_encShares h) in
      0 \<le> pos \<and> pos \<noteq> 255 \<and> cardId < 52
    \<and> (\<exists>e c2. deckAt (dh_deck h) pos = Some e \<and> de_c2 e \<noteq> Some (TextBytes [])
         \<and> toBytes (de_c2 e) = Inr (groupElementToBytes C c2)
         \<and> eqmod (dl c2) (int cardId + 1 + polyval cs 0 * dl c1))
    \<and> (\<forall>es\<in>set (dh_encShares h). jsonInt (es_pos es) = Some pos \<longrightarrow>
         (\<exists>b c. toBytes (es_pkPlayer es) = Inr b \<and> toBytes (es_encShare es) = Inr c))
    \<and> (\<forall>es\<in>set mine. honest_share C dl cs (dl c1) sk es)
    \<and> distinct (map shareIndex mine) \<and> mine \<noteq> [] \<and> length cs \<le> length mine)"

lemma decryptHoleCard_ok:
  assumes R: "ristretto C dl" and sk: "nonzero_scalar sk" and d: "dealt C dl cs sk pk h pos c1 cardId"
  shows "decryptHoleCard C (Some h) pk sk pos = Inr (Some cardId)"
proof -
  let ?mine = "filter (\<lambda>es. addressed pos pk es \<and> readable C sk es) (dh_encShares h)"
  obtain e c2 where e: "deckAt (dh_deck h) pos = Some e" "de_c2 e \<noteq> Some (TextBytes [])"
    "toBytes (de_c2 e) = Inr (groupElementToBytes C c2)" "eqmod (dl c2) (int cardId + 1 + polyval cs 0 * dl c1)"
    using d by (auto simp: dealt_def Let_def)
  obtain P where P: "groupElementFromBytes C (groupElementToBytes C c2) = Inr P" "dl P = dl c2"
    using groupElement_round_trip [OF R, of c2] by (auto simp: ristretto_eq [OF R])
  obtain ss where ss: "rfold (collectShare C pos pk sk) (dh_encShares h) [] = Inr ([] @ ss)"
    "list_all2 (share_for dl cs (dl c1)) ?mine ss"
    using collectShares_ok [OF R sk, of "dh_encShares h" pos pk cs "dl c1" "[]"] d by (auto simp: dealt_def Let_def)
  have m: "?mine \<noteq> []" "distinct (map shareIndex ?mine)" "length cs \<le> length ?mine" "cardId < 52"
    using d unfolding dealt_def Let_def by blast+
  have len: "length ?mine = length ss" using ss(2) by (rule list_all2_lengthD)
  have "ss \<noteq> []" using ss(2) m(1) by (metis list_all2_Nil2)
  moreover have "length cs \<le> length ss" using m(3) unfolding len .
  ultimately have "recoverCard C P ss = Inr (Some cardId)"
    using recoverCard_ok [OF R, of ss cs cardId "dl c1" P] share_for_all [OF ss(2)] m(2,4) e(4) P(2) by simp
  moreover have "de_c2 e \<noteq> None" using e(3) by (cases "de_c2 e") (simp_all add: toBytes_def)
  ultimately show ?thesis using d e(1-3) P(1) ss(1) \<open>ss \<noteq> []\<close>
    by (simp add: decryptHoleCard_def dealt_def Let_def)
qed


text \<open>
  A hand on the toy group: the sharing polynomial \<open>5 + 3 x\<close>, the player's key 7, cards 10 and 20 at
  positions 0 and 1, two honest shares for each, a malformed share and a share of another position.
\<close>

definition demo_share :: "js_number \<Rightarrow> js_number \<Rightarrow> byte list \<Rightarrow> EncShareJson" where
  "demo_share pos i bs =
     \<lparr>es_pos = Some (NumInt pos), es_pkPlayer = Some (RawBytes [7]), es_encShare = Some (RawBytes bs),
      es_index = Some (NumInt i)\<rparr>"

definition demo_hand :: DealerHandJson where
  "demo_hand =
     \<lparr>dh_deck = [Some \<lparr>de_c2 = Some (RawBytes (groupElementToBytes zq_curve 21))\<rparr>,
                Some \<lparr>de_c2 = Some (RawBytes (groupElementToBytes zq_curve 36))\<rparr>],
      dh_encShares =
        [demo_share 0 1 (groupElementToBytes zq_curve 4 @ groupElementToBytes zq_curve 44),
         demo_share 1 1 (groupElementToBytes zq_curve 1 @ groupElementToBytes zq_curve 31),
         demo_share 0 3 [],
         demo_share 0 2 (groupElementToBytes zq_curve 6 @ groupElementToBytes zq_curve 64),
         demo_share 1 2 (groupElementToBytes zq_curve 1 @ groupElementToBytes zq_curve 40)]\<rparr>"

abbreviation zq_log :: "int \<Rightarrow> int" where "zq_log a \<equiv> a mod CURVE_ORDER"

lemma demo_share_sel [simp]:
  "jsonInt (es_pos (demo_share pos i bs)) = Some pos" "jsonInt (es_index (demo_share pos i bs)) = Some i"
  "toBytes (es_pkPlayer (demo_share pos i bs)) = Inr [7]" "toBytes (es_encShare (demo_share pos i bs)) = Inr bs"
  by (simp_all add: demo_share_def jsonInt_def toBytes_def)

lemma demo_share_honest:
  assumes "valid_index i" and "eqmod V (polyval cs i * x + 7 * U)"
  shows "honest_share zq_curve zq_log cs x 7
    (demo_share pos (of_int i) (groupElementToBytes zq_curve U @ groupElementToBytes zq_curve V))"
proof -
  have "eqmod (zq_log V) (polyval cs i * x + 7 * zq_log U)" 
    using assms(2) mod_add_cong [OF refl mod_mult_right_eq [of 7 U CURVE_ORDER, symmetric], of "polyval cs i * x"] by simp
  then show ?thesis using assms(1) by (auto simp: honest_share_def shareIndex_def)
qed

lemma zq_7: "nonzero_scalar 7" by (simp add: CURVE_ORDER_def)

lemma demo_honest:
  "honest_share zq_curve zq_log [5, 3] 2 7 (demo_share pos 1 (groupElementToBytes zq_curve 4 @ groupElementToBytes zq_curve 44))"
  "honest_share zq_curve zq_log [5, 3] 2 7 (demo_share pos 2 (groupElementToBytes zq_curve 6 @ groupElementToBytes zq_curve 64))"
  "honest_share zq_curve zq_log [5, 3] 3 7 (demo_share pos 1 (groupElementToBytes zq_curve 1 @ groupElementToBytes zq_curve 31))"
  "honest_share zq_curve zq_log [5, 3] 3 7 (demo_share pos 2 (groupElementToBytes zq_curve 1 @ groupElementToBytes zq_curve 40))"
  using demo_share_honest [of 1 44 "[5, 3]" 2 4 pos] demo_share_honest [of 2 64 "[5, 3]" 2 6 pos]
    demo_share_honest [of 1 31 "[5, 3]" 3 1 pos] demo_share_honest [of 2 40 "[5, 3]" 3 1 pos]
  by (simp_all add: valid_index_def)

lemmas demo_readable = demo_honest [THEN honest_share_readable [OF zq_ristretto zq_7]]

lemma demo_unreadable: "\<not> readable zq_curve 7 (demo_share pos i [])"
  by (simp add: readable_def decryptEncShare_def)

lemma demo_dealt:
  "dealt zq_curve zq_log [5, 3] 7 [7] demo_hand 0 2 10"
  "dealt zq_curve zq_log [5, 3] 7 [7] demo_hand 1 3 20"
proof -
  have p: "zq_log 2 = 2" "zq_log 3 = 3" by (simp_all add: CURVE_ORDER_def)
  have i: "shareIndex (demo_share pos 1 bs) = 1" "shareIndex (demo_share pos 2 bs) = 2" for pos bs
    by (simp_all add: shareIndex_def)
  have d: "deckAt (dh_deck demo_hand) 0 = Some \<lparr>de_c2 = Some (RawBytes (groupElementToBytes zq_curve 21))\<rparr>"
    "deckAt (dh_deck demo_hand) 1 = Some \<lparr>de_c2 = Some (RawBytes (groupElementToBytes zq_curve 36))\<rparr>"
    by (simp_all add: demo_hand_def deckAt_def)
  have b: "toBytes (Some (RawBytes bs)) = Inr bs" for bs by (simp add: toBytes_def)
  show "dealt zq_curve zq_log [5, 3] 7 [7] demo_hand 0 2 10" "dealt zq_curve zq_log [5, 3] 7 [7] demo_hand 1 3 20"
    unfolding dealt_def d p
    by (simp_all add: demo_hand_def addressed_def demo_readable demo_unreadable demo_honest i b
        exI [of _ 21] exI [of _ 36])
qed


end
