(* ===== verification/Dkg_Prototype.thy ===== *)
theory Dkg_Prototype
  imports Interpolation Crypto_Bytes "HOL-Library.List_Lexorder" "HOL-Library.Char_ord"
begin

text \<open>
  The distributed-key-generation prototype, \<^verbatim>\<open>deprecated/dkg-prototype/src\<close>: modular arithmetic
  (\<^verbatim>\<open>math.js\<close>), the toy group (\<^verbatim>\<open>params.js\<close>), hashing to scalars (\<^verbatim>\<open>hash.js\<close>), polynomials
  (\<^verbatim>\<open>poly.js\<close>), the transcript root (\<^verbatim>\<open>transcript.js\<close>) and the protocol with its verifier (\<^verbatim>\<open>dkg.js\<close>).
  SHA-256 is the parameter \<open>sha256\<close>. Validator and epoch numbers are integers; a two-level map
  \<^verbatim>\<open>toId -> (fromId -> message)\<close> is one map on pairs; sets of numbers are lists in insertion order; the text of a failed run's reason is dropped.
\<close>

unbundle bit_operations_syntax

subsection \<open>Modular arithmetic\<close>

definition dkgMod :: "int \<Rightarrow> int \<Rightarrow> int" where
  "dkgMod a m = (let r = a smod m in if 0 \<le> r then r else r + m)"

definition addMod :: "int \<Rightarrow> int \<Rightarrow> int \<Rightarrow> int" where "addMod a b m = dkgMod (a + b) m"

definition subMod :: "int \<Rightarrow> int \<Rightarrow> int \<Rightarrow> int" where "subMod a b m = dkgMod (a - b) m"

definition mulMod :: "int \<Rightarrow> int \<Rightarrow> int \<Rightarrow> int" where "mulMod a b m = dkgMod (a * b) m"

function powLoop :: "int \<Rightarrow> int \<Rightarrow> int \<Rightarrow> int \<Rightarrow> int" where
  "powLoop m r b e =
     (if 0 < e then powLoop m (if e AND 1 \<noteq> 0 then (r * b) smod m else r) ((b * b) smod m) (drop_bit 1 e)
      else r)"
  by pat_completeness auto
termination
  by (relation "measure (\<lambda>(m, r, b, e). nat e)") (auto simp: drop_bit_eq_div)

declare powLoop.simps [simp del]

definition powMod :: "int \<Rightarrow> int \<Rightarrow> int \<Rightarrow> int fallible" where
  "powMod base e m =
     (if e < 0 then Inl ''powMod: negative exponent''
      else Inr (powLoop m (1 smod m) (dkgMod base m) e))"

function egcdLoop :: "int \<Rightarrow> int \<Rightarrow> int \<Rightarrow> int \<Rightarrow> int \<Rightarrow> int \<Rightarrow> int \<times> int \<times> int" where
  "egcdLoop oldR r oldS s oldT t =
     (if r = 0 then (oldR, oldS, oldT)
      else let q = oldR sdiv r in egcdLoop r (oldR - q * r) s (oldS - q * s) t (oldT - q * t))"
  by pat_completeness auto
termination
  by (relation "measure (\<lambda>(oldR, r, oldS, s, oldT, t). nat \<bar>r\<bar>)") (auto simp: sdiv_remainder)

declare egcdLoop.simps [simp del]

definition egcd :: "int \<Rightarrow> int \<Rightarrow> int \<times> int \<times> int" where
  "egcd a b = egcdLoop a b 1 0 0 1"

definition dkgInvMod :: "int \<Rightarrow> int \<Rightarrow> int fallible" where
  "dkgInvMod a m =
     (let (g, x, y) = egcd (dkgMod a m) m
      in if g \<noteq> 1 then Inl ''invMod: not invertible'' else Inr (dkgMod x m))"

subsection \<open>Group parameters\<close>

definition GROUP_q :: int where "GROUP_q = 2305843009213697249"

definition GROUP_p :: int where "GROUP_p = 4611686018427394499"

definition GROUP_g :: int where "GROUP_g = 4"

subsection \<open>Hashing to scalars\<close>

datatype HashPart = PartString string | PartNumber int | PartBigint int

definition showInt :: "int \<Rightarrow> string" where
  "showInt n = (if n < 0 then ''-'' @ showNat (nat (- n)) else showNat (nat n))"

definition u32be :: "nat \<Rightarrow> byte list" where
  "u32be n = [of_nat (n div 2 ^ 24), of_nat (n div 2 ^ 16), of_nat (n div 2 ^ 8), of_nat n]"

definition asBuf :: "HashPart \<Rightarrow> byte list" where
  "asBuf part =
     (case part of PartString s \<Rightarrow> utf8 s | PartNumber n \<Rightarrow> utf8 (showInt n) | PartBigint n \<Rightarrow> utf8 (showInt n))"

definition digestToBigint :: "byte list \<Rightarrow> int" where
  "digestToBigint digest = foldl (\<lambda>v b. v * 256 + uint b) 0 digest"

definition dkgHashToScalar :: "(byte list \<Rightarrow> byte list) \<Rightarrow> int \<Rightarrow> string \<Rightarrow> HashPart list \<Rightarrow> int" where
  "dkgHashToScalar sha256 q domain parts =
     (let domainBuf = asBuf (PartString domain);
          h = foldl (\<lambda>h p. let b = asBuf p in h @ u32be (length b) @ b) (u32be (length domainBuf) @ domainBuf) parts
      in digestToBigint (sha256 h) smod q)"

subsection \<open>Pseudo-random numbers\<close>

text \<open>
  The splitmix64 generator of \<^verbatim>\<open>rng.js\<close>, on big integers that are masked to 64 bits. A generator is its
  state; \<open>nextU64\<close> returns the number and the new state.
\<close>

definition rngSeed :: "(byte list \<Rightarrow> byte list) \<Rightarrow> string \<Rightarrow> int" where
  "rngSeed sha256 seed = digestToBigint (take 8 (sha256 (utf8 seed)))"

definition nextU64 :: "int \<Rightarrow> int \<times> int" where
  "nextU64 st =
     (let state = (st + 0x9e3779b97f4a7c15) AND 0xffffffffffffffff;
          z1 = ((state XOR drop_bit 30 state) * 0xbf58476d1ce4e5b9) AND 0xffffffffffffffff;
          z2 = ((z1 XOR drop_bit 27 z1) * 0x94d049bb133111eb) AND 0xffffffffffffffff
      in (z2 XOR drop_bit 31 z2, state))"

subsection \<open>Polynomials\<close>

definition evalPoly :: "int list \<Rightarrow> int \<Rightarrow> int \<Rightarrow> int" where
  "evalPoly coeffs x q = foldr (\<lambda>c acc. addMod (mulMod acc x q) c q) coeffs 0"

definition lagrangeInterpolateAt0 :: "(int \<times> int) list \<Rightarrow> int \<Rightarrow> int fallible" where
  "lagrangeInterpolateAt0 points q =
     rfold (\<lambda>i secret.
       let xi = dkgMod (fst (points ! i)) q;
           yi = dkgMod (snd (points ! i)) q;
           nd = foldl (\<lambda>nd j. if j = i then nd
                  else (mulMod (fst nd) (subMod 0 (dkgMod (fst (points ! j)) q) q) q,
                        mulMod (snd nd) (subMod xi (dkgMod (fst (points ! j)) q) q) q)) (1, 1) [0..<length points]
       in rbind (dkgInvMod (snd nd) q) (\<lambda>inv.
            let li0 = mulMod (fst nd) inv q
            in Inr (addMod secret (mulMod yi li0 q) q)))
       [0..<length points] 0"

subsection \<open>Transcript root\<close>

datatype Json = JString string | JNumber int | JBigint int | JArray "Json list" | JObject "(string \<times> Json) list"

fun normalize :: "Json \<Rightarrow> Json" where
  "normalize (JBigint n) = JString (showInt n)"
| "normalize (JArray xs) = JArray (map normalize xs)"
| "normalize (JObject kvs) = JObject (sort_key fst (map (\<lambda>kv. (fst kv, normalize (snd kv))) kvs))"
| "normalize x = x"

text \<open>\<^verbatim>\<open>JSON.stringify\<close>.\<close>

definition escapeChar :: "char \<Rightarrow> string" where
  "escapeChar c =
     (let n = of_char c :: nat; bs = [char_of (92 :: nat)] in
      if n = 34 \<or> n = 92 then bs @ [c]
      else if n = 8 then bs @ ''b'' else if n = 9 then bs @ ''t'' else if n = 10 then bs @ ''n''
      else if n = 12 then bs @ ''f'' else if n = 13 then bs @ ''r''
      else if n < 32 then bs @ ''u00'' @ padStart2 (toString16 n) else [c])"

definition quote :: "string \<Rightarrow> string" where
  "quote s = [char_of (34 :: nat)] @ concat (map escapeChar s) @ [char_of (34 :: nat)]"

definition joinWith :: "string \<Rightarrow> string list \<Rightarrow> string" where
  "joinWith sep xs = (case xs of [] \<Rightarrow> [] | y # ys \<Rightarrow> y @ concat (map (\<lambda>z. sep @ z) ys))"

fun stringify :: "Json \<Rightarrow> string" where
  "stringify (JString s) = quote s"
| "stringify (JNumber n) = showInt n"
| "stringify (JBigint n) = showInt n"
| "stringify (JArray xs) = ''['' @ joinWith '','' (map stringify xs) @ '']''"
| "stringify (JObject kvs) = ''{'' @ joinWith '','' (map (\<lambda>kv. quote (fst kv) @ '':'' @ stringify (snd kv)) kvs) @ ''}''"

definition stableStringify :: "Json \<Rightarrow> string" where
  "stableStringify x = stringify (normalize x)"

text \<open>\<^verbatim>\<open>Buffer.from(s, "hex")\<close> stops at the first pair that is not hexadecimal.\<close>

fun bufferFromHex :: "string \<Rightarrow> byte list" where
  "bufferFromHex (a # b # r) =
     (case (hexValue a, hexValue b) of
        (Some x, Some y) \<Rightarrow> word_of_int (16 * x + y) # bufferFromHex r
      | _ \<Rightarrow> [])"
| "bufferFromHex _ = []"

definition transcriptRoot :: "(byte list \<Rightarrow> byte list) \<Rightarrow> Json list \<Rightarrow> string" where
  "transcriptRoot sha256 messages =
     (let digests = sort (map (\<lambda>m. bytesToHex (sha256 (utf8 (stableStringify m)))) messages)
      in bytesToHex (sha256 (bufferFromHex (concat digests))))"

subsection \<open>Share messages\<close>

record ShareMsg =
  sm_epochId :: int
  sm_from :: int
  sm_to :: int
  sm_share :: int
  sm_sig :: string

definition hmacToy :: "(byte list \<Rightarrow> byte list) \<Rightarrow> string \<Rightarrow> string \<Rightarrow> string" where
  "hmacToy sha256 key msg = bytesToHex (sha256 (utf8 key @ [0] @ utf8 msg))"

definition shareMsgToString :: "ShareMsg \<Rightarrow> string" where
  "shareMsgToString m =
     ''DKGShare|'' @ showInt (sm_epochId m) @ ''|'' @ showInt (sm_from m) @ ''|'' @ showInt (sm_to m) @ ''|'' @ showInt (sm_share m)"

definition signShare :: "(byte list \<Rightarrow> byte list) \<Rightarrow> string \<Rightarrow> ShareMsg \<Rightarrow> string" where
  "signShare sha256 toySigningKey shareMsg = hmacToy sha256 toySigningKey (shareMsgToString shareMsg)"

definition verifyShareSig :: "(byte list \<Rightarrow> byte list) \<Rightarrow> string \<Rightarrow> ShareMsg \<Rightarrow> bool" where
  "verifyShareSig sha256 toySigningKey shareMsg \<longleftrightarrow> signShare sha256 toySigningKey shareMsg = sm_sig shareMsg"

definition verifyShareAgainstCommitments :: "int list \<Rightarrow> int \<Rightarrow> int \<Rightarrow> bool fallible" where
  "verifyShareAgainstCommitments commitments toId share =
     rbind (powMod GROUP_g (dkgMod share GROUP_q) GROUP_p) (\<lambda>lhs.
     rbind (rfold (\<lambda>Ck acc. rbind (powMod Ck (snd acc) GROUP_p) (\<lambda>w.
              Inr ((fst acc * w) smod GROUP_p, dkgMod (snd acc * toId) GROUP_q))) commitments (1, 1)) (\<lambda>acc.
     Inr (lhs = fst acc)))"

definition makeCommitments :: "int list \<Rightarrow> int list fallible" where
  "makeCommitments coeffs = rmap (\<lambda>a. powMod GROUP_g a GROUP_p) coeffs"

datatype OnchainMsg =
    DKGCommit int int "int list"
  | DKGComplaintMissing int int int
  | DKGComplaintInvalid int int int ShareMsg
  | DKGShareReveal int int int int

text \<open>The fields the code reads off a complaint: its complainer, its dealer and the share it carries.\<close>

fun complainer :: "OnchainMsg \<Rightarrow> int" where
  "complainer (DKGComplaintMissing e c d) = c"
| "complainer (DKGComplaintInvalid e c d m) = c"
| "complainer _ = 0"

fun complaintDealer :: "OnchainMsg \<Rightarrow> int" where
  "complaintDealer (DKGComplaintMissing e c d) = d"
| "complaintDealer (DKGComplaintInvalid e c d m) = d"
| "complaintDealer _ = 0"

fun complaintShare :: "OnchainMsg \<Rightarrow> int option" where
  "complaintShare (DKGComplaintInvalid e c d m) = Some (sm_share m)"
| "complaintShare _ = None"

definition shareMsgJson :: "ShareMsg \<Rightarrow> Json" where
  "shareMsgJson m =
     JObject [(''type'', JString ''DKGShare''), (''epochId'', JNumber (sm_epochId m)), (''from'', JNumber (sm_from m)),
              (''to'', JNumber (sm_to m)), (''share'', JBigint (sm_share m)), (''sig'', JString (sm_sig m))]"

fun messageJson :: "OnchainMsg \<Rightarrow> Json" where
  "messageJson (DKGCommit e d cs) =
     JObject [(''type'', JString ''DKGCommit''), (''epochId'', JNumber e), (''dealerId'', JNumber d),
              (''commitments'', JArray (map JBigint cs))]"
| "messageJson (DKGComplaintMissing e c d) =
     JObject [(''type'', JString ''DKGComplaintMissing''), (''epochId'', JNumber e), (''complainer'', JNumber c),
              (''dealer'', JNumber d)]"
| "messageJson (DKGComplaintInvalid e c d m) =
     JObject [(''type'', JString ''DKGComplaintInvalid''), (''epochId'', JNumber e), (''complainer'', JNumber c),
              (''dealer'', JNumber d), (''shareMsg'', shareMsgJson m)]"
| "messageJson (DKGShareReveal e d t s) =
     JObject [(''type'', JString ''DKGShareReveal''), (''epochId'', JNumber e), (''dealer'', JNumber d),
              (''to'', JNumber t), (''share'', JBigint s)]"

subsection \<open>Keys\<close>

definition deriveHandScalar :: "(byte list \<Rightarrow> byte list) \<Rightarrow> int \<Rightarrow> int \<Rightarrow> int \<Rightarrow> int" where
  "deriveHandScalar sha256 epochId tableId handId =
     dkgHashToScalar sha256 GROUP_q ''OCP/handkey/v1'' [PartNumber epochId, PartNumber tableId, PartNumber handId]"

definition deriveHandPublicKey :: "int \<Rightarrow> int \<Rightarrow> int fallible" where
  "deriveHandPublicKey pkEpoch k = powMod pkEpoch k GROUP_p"

definition deriveHandSecretShare :: "int \<Rightarrow> int \<Rightarrow> int" where
  "deriveHandSecretShare sk k = dkgMod (sk * k) GROUP_q"

definition reconstructSecretFromShares :: "(int \<times> int) list \<Rightarrow> int fallible" where
  "reconstructSecretFromShares shares = lagrangeInterpolateAt0 shares GROUP_q"

definition publicKeyFromSecret :: "int \<Rightarrow> int fallible" where
  "publicKeyFromSecret secret = powMod GROUP_g (dkgMod secret GROUP_q) GROUP_p"

text \<open>The product of the constant-term commitments; a dealer without commitments makes it throw.\<close>

definition epochKey :: "(int \<Rightarrow> int list option) \<Rightarrow> int list \<Rightarrow> int fallible" where
  "epochKey commits qual =
     rfold (\<lambda>i pk. case commits i of
         Some (C0 # _) \<Rightarrow> Inr ((pk * C0) smod GROUP_p)
       | _ \<Rightarrow> Inl ''TypeError: no commitment'') qual 1"

definition addOnce :: "int \<Rightarrow> int list \<Rightarrow> int list" where
  "addOnce x xs = (if x \<in> set xs then xs else xs @ [x])"

subsection \<open>Verifying a transcript\<close>

record DkgVerdict =
  dv_ok :: bool
  dv_epochId :: int
  dv_threshold :: nat
  dv_committeeIds :: "int list"
  dv_qual :: "int list"
  dv_slashed :: "int list"
  dv_pkEpoch :: "int option"

record DkgIndex =
  di_commits :: "int \<rightharpoonup> int list"
  di_complaints :: "OnchainMsg list"
  di_reveals :: "int \<times> int \<rightharpoonup> int"

fun messageEpoch :: "OnchainMsg \<Rightarrow> int" where
  "messageEpoch (DKGCommit e d cs) = e"
| "messageEpoch (DKGComplaintMissing e c d) = e"
| "messageEpoch (DKGComplaintInvalid e c d m) = e"
| "messageEpoch (DKGShareReveal e d t s) = e"

definition indexMessage :: "int \<Rightarrow> DkgIndex \<Rightarrow> OnchainMsg \<Rightarrow> DkgIndex" where
  "indexMessage epochId ix msg =
     (if messageEpoch msg \<noteq> epochId then ix
      else case msg of
        DKGCommit e d cs \<Rightarrow> ix\<lparr>di_commits := (di_commits ix)(d \<mapsto> cs)\<rparr>
      | DKGShareReveal e d t s \<Rightarrow> ix\<lparr>di_reveals := (di_reveals ix)((d, t) \<mapsto> s)\<rparr>
      | _ \<Rightarrow> ix\<lparr>di_complaints := di_complaints ix @ [msg]\<rparr>)"

definition indexTranscript :: "int \<Rightarrow> OnchainMsg list \<Rightarrow> DkgIndex" where
  "indexTranscript epochId onchain =
     foldl (indexMessage epochId) \<lparr>di_commits = Map.empty, di_complaints = [], di_reveals = Map.empty\<rparr> onchain"

definition resolveComplaint :: "DkgIndex \<Rightarrow> OnchainMsg \<Rightarrow> int list \<Rightarrow> int list fallible" where
  "resolveComplaint ix c slashed =
     (let dealerId = complaintDealer c; toId = complainer c in
      if dealerId \<in> set slashed then Inr slashed
      else case di_commits ix dealerId of
        None \<Rightarrow> Inr (addOnce dealerId slashed)
      | Some dealerCommitments \<Rightarrow>
          (case di_reveals ix (dealerId, toId) of
             None \<Rightarrow> Inr (addOnce dealerId slashed)
           | Some revealShare \<Rightarrow>
               rbind (verifyShareAgainstCommitments dealerCommitments toId revealShare) (\<lambda>okReveal.
                 if \<not> okReveal then Inr (addOnce dealerId slashed)
                 else case complaintShare c of
                   Some share \<Rightarrow> if share \<noteq> revealShare then Inr (addOnce dealerId slashed) else Inr slashed
                 | None \<Rightarrow> Inr slashed)))"

definition verifyDkgTranscript :: "int \<Rightarrow> int list \<Rightarrow> nat \<Rightarrow> OnchainMsg list \<Rightarrow> DkgVerdict fallible" where
  "verifyDkgTranscript epochId committeeIds threshold onchain =
     (let ix = indexTranscript epochId onchain;
          missing = foldl (\<lambda>slashed i. if di_commits ix i = None then addOnce i slashed else slashed) [] committeeIds
      in rbind (rfold (resolveComplaint ix) (di_complaints ix) missing) (\<lambda>slashed.
         let qual = filter (\<lambda>i. i \<notin> set slashed) committeeIds;
             ok = (threshold \<le> length qual)
         in rbind (if ok then rmap (epochKey (di_commits ix)) [qual] else Inr []) (\<lambda>pk.
              Inr \<lparr>dv_ok = ok, dv_epochId = epochId, dv_threshold = threshold, dv_committeeIds = committeeIds,
                   dv_qual = qual, dv_slashed = sort slashed, dv_pkEpoch = (case pk of [] \<Rightarrow> None | k # _ \<Rightarrow> Some k)\<rparr>)))"

subsection \<open>Running the protocol\<close>

datatype Target = AllTargets | Target int

record Byzantine =
  bz_equivocate :: "(int \<times> int) list"
  bz_withhold :: "(int \<times> Target list option) list"
  bz_noReveal :: "int list"

record Dealer =
  dl_coeffs :: "int list"
  dl_commitments :: "int list"

record DkgResult = DkgVerdict +
  dg_shares :: "int \<rightharpoonup> int"
  dg_transcriptRoot :: string
  dg_onchain :: "OnchainMsg list"
  dg_sent :: "int \<times> int \<rightharpoonup> ShareMsg"

definition equivocates :: "Byzantine \<Rightarrow> int \<Rightarrow> int \<Rightarrow> bool" where
  "equivocates byzantine fromId toId \<longleftrightarrow> list_ex (\<lambda>e. e = (fromId, toId)) (bz_equivocate byzantine)"

definition withholds :: "Byzantine \<Rightarrow> int \<Rightarrow> int \<Rightarrow> bool" where
  "withholds byzantine fromId toId \<longleftrightarrow>
     list_ex (\<lambda>w. fst w = fromId \<and>
       (let targets = (case snd w of None \<Rightarrow> [AllTargets] | Some ts \<Rightarrow> ts)
        in AllTargets \<in> set targets \<or> Target toId \<in> set targets)) (bz_withhold byzantine)"

definition signKey :: "string \<Rightarrow> int \<Rightarrow> int \<Rightarrow> string" where
  "signKey seed epochId i = seed @ ''|sign|'' @ showInt epochId @ ''|'' @ showInt i"

definition sampleCoeffs :: "(byte list \<Rightarrow> byte list) \<Rightarrow> string \<Rightarrow> int \<Rightarrow> nat \<Rightarrow> int \<Rightarrow> int list" where
  "sampleCoeffs sha256 seed epochId t i =
     map (\<lambda>k. dkgHashToScalar sha256 GROUP_q ''OCP/dkg/coef/v1''
            [PartString seed, PartNumber epochId, PartNumber i, PartNumber (int k)]) [0..<t]"

definition commitRound :: "(byte list \<Rightarrow> byte list) \<Rightarrow> string \<Rightarrow> int \<Rightarrow> nat \<Rightarrow> int
    \<Rightarrow> (int \<rightharpoonup> Dealer) \<times> OnchainMsg list \<Rightarrow> ((int \<rightharpoonup> Dealer) \<times> OnchainMsg list) fallible" where
  "commitRound sha256 seed epochId t i acc =
     (let coeffs = sampleCoeffs sha256 seed epochId t i
      in rbind (makeCommitments coeffs) (\<lambda>commitments.
           Inr ((fst acc)(i \<mapsto> \<lparr>dl_coeffs = coeffs, dl_commitments = commitments\<rparr>),
                snd acc @ [DKGCommit epochId i commitments])))"

definition sendShare :: "(byte list \<Rightarrow> byte list) \<Rightarrow> string \<Rightarrow> int \<Rightarrow> Byzantine \<Rightarrow> (int \<rightharpoonup> Dealer)
    \<Rightarrow> int \<times> int \<Rightarrow> (int \<times> int \<rightharpoonup> ShareMsg) \<Rightarrow> (int \<times> int \<rightharpoonup> ShareMsg) fallible" where
  "sendShare sha256 seed epochId byzantine dealers ft shares =
     (let fromId = fst ft; toId = snd ft in
      case dealers fromId of
        None \<Rightarrow> Inl ''TypeError: unknown dealer''
      | Some dealer \<Rightarrow>
          if withholds byzantine fromId toId then Inr shares
          else let share0 = evalPoly (dl_coeffs dealer) toId GROUP_q;
                   share = (if equivocates byzantine fromId toId then addMod share0 1 GROUP_q else share0);
                   msg = \<lparr>sm_epochId = epochId, sm_from = fromId, sm_to = toId, sm_share = share, sm_sig = []\<rparr>
               in Inr (shares((toId, fromId) \<mapsto> msg\<lparr>sm_sig := signShare sha256 (signKey seed epochId fromId) msg\<rparr>)))"

definition complainRound :: "(byte list \<Rightarrow> byte list) \<Rightarrow> string \<Rightarrow> int \<Rightarrow> (int \<rightharpoonup> Dealer) \<Rightarrow> (int \<times> int \<rightharpoonup> ShareMsg)
    \<Rightarrow> int \<times> int \<Rightarrow> OnchainMsg list \<Rightarrow> OnchainMsg list fallible" where
  "complainRound sha256 seed epochId dealers shares tf complaints =
     (let toId = fst tf; fromId = snd tf in
      case shares (toId, fromId) of
        None \<Rightarrow> Inr (complaints @ [DKGComplaintMissing epochId toId fromId])
      | Some shareMsg \<Rightarrow>
          (case dealers fromId of
             None \<Rightarrow> Inl ''TypeError: unknown dealer''
           | Some dealer \<Rightarrow>
               rbind (verifyShareAgainstCommitments (dl_commitments dealer) toId (sm_share shareMsg)) (\<lambda>okShare.
                 if \<not> verifyShareSig sha256 (signKey seed epochId fromId) shareMsg \<or> \<not> okShare
                 then Inr (complaints @ [DKGComplaintInvalid epochId toId fromId shareMsg])
                 else Inr complaints)))"

definition revealRound :: "int \<Rightarrow> Byzantine \<Rightarrow> (int \<rightharpoonup> Dealer) \<Rightarrow> OnchainMsg
    \<Rightarrow> int list \<times> OnchainMsg list \<Rightarrow> (int list \<times> OnchainMsg list) fallible" where
  "revealRound epochId byzantine dealers c acc =
     (let slashed = fst acc; reveals = snd acc; dealerId = complaintDealer c; toId = complainer c in
      if dealerId \<in> set slashed then Inr acc
      else if dealerId \<in> set (bz_noReveal byzantine) then Inr (addOnce dealerId slashed, reveals)
      else case dealers dealerId of
        None \<Rightarrow> Inl ''TypeError: unknown dealer''
      | Some dealer \<Rightarrow>
          let correctShare = evalPoly (dl_coeffs dealer) toId GROUP_q;
              reveals' = reveals @ [DKGShareReveal epochId dealerId toId correctShare]
          in rbind (verifyShareAgainstCommitments (dl_commitments dealer) toId correctShare) (\<lambda>ok.
               if \<not> ok then Inr (addOnce dealerId slashed, reveals')
               else case complaintShare c of
                 Some share \<Rightarrow> if share \<noteq> correctShare then Inr (addOnce dealerId slashed, reveals') else Inr (slashed, reveals')
               | None \<Rightarrow> Inr (slashed, reveals')))"

definition secretShare :: "(int \<rightharpoonup> Dealer) \<Rightarrow> int list \<Rightarrow> int \<Rightarrow> int fallible" where
  "secretShare dealers qual toId =
     rfold (\<lambda>fromId sk. case dealers fromId of
         None \<Rightarrow> Inl ''TypeError: unknown dealer''
       | Some dealer \<Rightarrow> Inr (addMod sk (evalPoly (dl_coeffs dealer) toId GROUP_q) GROUP_q)) qual 0"

definition runDkg :: "(byte list \<Rightarrow> byte list) \<Rightarrow> int \<Rightarrow> int list \<Rightarrow> nat \<Rightarrow> string \<Rightarrow> Byzantine \<Rightarrow> DkgResult fallible" where
  "runDkg sha256 epochId committeeIds t seed byzantine =
     rbind (rfold (commitRound sha256 seed epochId t) committeeIds (Map.empty, [])) (\<lambda>dc.
     rbind (rfold (sendShare sha256 seed epochId byzantine (fst dc)) (List.product committeeIds committeeIds) Map.empty) (\<lambda>shares.
     rbind (rfold (complainRound sha256 seed epochId (fst dc) shares) (List.product committeeIds committeeIds) []) (\<lambda>complaints.
     rbind (rfold (revealRound epochId byzantine (fst dc)) complaints ([], [])) (\<lambda>sr.
     let onchain = snd dc @ complaints @ snd sr;
         qual = filter (\<lambda>i. i \<notin> set (fst sr)) committeeIds;
         res = \<lparr>dv_ok = (t \<le> length qual), dv_epochId = epochId, dv_threshold = t, dv_committeeIds = committeeIds,
                dv_qual = qual, dv_slashed = sort (fst sr), dv_pkEpoch = None, dg_shares = Map.empty,
                dg_transcriptRoot = transcriptRoot sha256 (map messageJson onchain), dg_onchain = onchain, dg_sent = shares\<rparr>
     in if \<not> t \<le> length qual then Inr res
        else rbind (epochKey (\<lambda>i. map_option dl_commitments (fst dc i)) qual) (\<lambda>pkEpoch.
             rbind (rfold (\<lambda>toId out. rbind (secretShare (fst dc) qual toId) (\<lambda>sk. Inr (out(toId \<mapsto> sk)))) qual Map.empty) (\<lambda>outShares.
             Inr (res\<lparr>dv_pkEpoch := Some pkEpoch, dg_shares := outShares\<rparr>)))))))"

end
