(* ===== verification/Dkg_Algebra.thy ===== *)
theory Dkg_Algebra
  imports Dkg_Prototype Hole_Recovery
begin

text \<open>
  Arithmetic of the key-generation prototype: the loops of \<^verbatim>\<open>math.js\<close> compute powers and inverses,
  commitments live in the subgroup of order \<open>GROUP_q\<close>, a share is accepted against commitments exactly
  when it is the value of the committed polynomial (up to the group), and interpolation returns the
  constant term.
\<close>

subsection \<open>Modular arithmetic\<close>

lemma dkgMod_eq: "0 < m \<Longrightarrow> dkgMod a m = a mod m"
  using smod_adjust [of m a] by (simp add: dkgMod_def Let_def)

lemma GROUP_pos [simp]:
  "0 < GROUP_q" "1 < GROUP_q" "GROUP_q \<noteq> 0" "0 \<le> GROUP_q" "0 < GROUP_p" "1 < GROUP_p" "GROUP_p \<noteq> 0" "0 \<le> GROUP_p"
  "0 \<le> GROUP_g"
  by (simp_all add: GROUP_q_def GROUP_p_def GROUP_g_def)

lemma powLoop_ok:
  assumes "0 < m" and "0 \<le> r" and "r < m" and "0 \<le> b" and "0 \<le> e"
  shows "powLoop m r b e = (r * b ^ nat e) mod m"
  using assms
proof (induction m r b e rule: powLoop.induct)
  case (1 m r b e)
  show ?case
  proof (cases "0 < e")
    case True
    let ?r = "if e AND 1 \<noteq> 0 then (r * b) smod m else r" and ?b = "(b * b) smod m"
    have odd: "e AND 1 \<noteq> 0 \<longleftrightarrow> odd e" by (simp add: and_one_eq odd_iff_mod_2_eq_one)
    have r: "?r = (if odd e then r * b mod m else r)" using 1(2-5) odd by (simp add: smod_nonneg)
    have b: "?b = b * b mod m" using 1(2,5) by (simp add: smod_nonneg)
    have e: "drop_bit 1 e = e div 2" by (simp add: drop_bit_eq_div)
    have n: "nat e = 2 * nat (e div 2) + (if odd e then 1 else 0)" using True by (auto elim!: oddE evenE simp: nat_mult_distrib nat_add_distrib)
    have pw: "b ^ nat e = (b * b) ^ nat (e div 2) * (if odd e then b else 1)"
      by (subst n) (simp add: power_add power_mult power2_eq_square)
    have "powLoop m r b e = powLoop m ?r ?b (e div 2)" using True unfolding e [symmetric] by (subst powLoop.simps) simp
    also have "\<dots> = (?r * ?b ^ nat (e div 2)) mod m"
      using 1(1) [OF True] 1(2-) True unfolding e r b by (simp add: pos_imp_zdiv_nonneg_iff)
    also have "\<dots> = (?r * (b * b) ^ nat (e div 2)) mod m" unfolding b
      by (metis mod_mult_right_eq power_mod)
    also have "\<dots> = (r * b ^ nat e) mod m"
      unfolding r pw using mod_mult_left_eq [of "r * b" m "(b * b) ^ nat (e div 2)"] by (simp add: ac_simps)
    finally show ?thesis .
  next
    case False
    then show ?thesis using 1(2-) by (simp add: powLoop.simps)
  qed
qed

lemma powMod_ok:
  assumes "1 < m" and "0 \<le> e"
  shows "powMod b e m = Inr (b ^ nat e mod m)"
proof -
  have "powLoop m 1 (b mod m) e = (b mod m) ^ nat e mod m" using assms powLoop_ok [of m 1 "b mod m" e] by simp
  then show ?thesis using assms by (simp add: powMod_def smod_nonneg dkgMod_eq power_mod)
qed

lemma egcdLoop_eq:
  assumes "0 \<le> oldR" and "0 \<le> r"
  shows "fst (egcdLoop oldR r oldS s oldT t) = gcd oldR r
    \<and> fst (snd (egcdLoop oldR r oldS s oldT t)) = invModLoop oldR r oldS s"
  using assms
proof (induction oldR r oldS s oldT t rule: egcdLoop.induct)
  case (1 oldR r oldS s oldT t)
  show ?case
  proof (cases "r = 0")
    case True
    then show ?thesis using 1(2,3) by (simp add: egcdLoop.simps invModLoop.simps)
  next
    case False
    have q: "oldR sdiv r = oldR div r" using 1(2,3) by (rule sdiv_nonneg)
    have m: "oldR - oldR div r * r = oldR mod r" by (rule minus_div_mult_eq_mod)
    have "0 \<le> oldR mod r" using False 1(3) by simp
    then show ?thesis using 1(1) [OF False refl] False 1(3)
      by (subst (1 2) egcdLoop.simps, subst invModLoop.simps) (simp add: q m Let_def gcd.commute [of r] flip: gcd_red_int)
  qed
qed

lemma dkgInvMod_ok:
  assumes "1 < m" and "coprime a m"
  obtains y where "dkgInvMod a m = Inr y" and "(a * y) mod m = 1 mod m"
proof -
  let ?y = "invModLoop (a mod m) m 1 0"
  have g: "gcd (a mod m) m = 1" using assms(2) by (simp add: gcd.commute [of "a mod m"] flip: gcd_red_int)
  have e: "fst (egcd (a mod m) m) = 1" "fst (snd (egcd (a mod m) m)) = ?y"
    using egcdLoop_eq [of "a mod m" m 1 0 0 1] assms(1) g by (simp_all add: egcd_def)
  have "(a * (?y mod m)) mod m = (a * ?y) mod m" by (rule mod_mult_right_eq)
  also have "\<dots> = (?y * (a mod m)) mod m" by (simp only: mult.commute [of a] mod_mult_right_eq)
  also have "\<dots> = gcd (a mod m) m mod m" by (rule invModLoop_gcd) (use assms(1) in simp_all)
  finally have "(a * (?y mod m)) mod m = 1 mod m" unfolding g .
  moreover have "dkgInvMod a m = Inr (?y mod m)"
    using e assms(1) by (simp add: dkgInvMod_def dkgMod_eq split_beta)
  ultimately show thesis by (rule that [rotated])
qed

subsection \<open>The subgroup\<close>

text \<open>\<open>gexp z\<close> is the power of the generator with exponent \<open>z\<close>, which counts modulo \<open>GROUP_q\<close>.\<close>

definition gexp :: "int \<Rightarrow> int" where
  "gexp z = GROUP_g ^ nat (z mod GROUP_q) mod GROUP_p"

lemma g_order_run: "powLoop GROUP_p 1 GROUP_g GROUP_q = 1"
  by code_simp

lemma g_order: "GROUP_g ^ nat GROUP_q mod GROUP_p = 1"
  using powLoop_ok [of GROUP_p 1 GROUP_g GROUP_q] g_order_run by simp

lemma g_power: "GROUP_g ^ n mod GROUP_p = gexp (int n)"
proof -
  let ?k = "nat GROUP_q"
  have "GROUP_g ^ n = (GROUP_g ^ ?k) ^ (n div ?k) * GROUP_g ^ (n mod ?k)"
    by (simp flip: power_mult power_add)
  also have "\<dots> mod GROUP_p = ((GROUP_g ^ ?k mod GROUP_p) ^ (n div ?k) * GROUP_g ^ (n mod ?k)) mod GROUP_p"
    by (metis mod_mult_left_eq power_mod)
  also have "\<dots> = GROUP_g ^ (n mod ?k) mod GROUP_p" by (simp add: g_order)
  also have "n mod ?k = nat (int n mod GROUP_q)" by (simp add: nat_mod_distrib)
  finally show ?thesis by (simp add: gexp_def)
qed

lemma gexp_cong: "a mod GROUP_q = b mod GROUP_q \<Longrightarrow> gexp a = gexp b"
  by (simp add: gexp_def)

lemma gexp_mod [simp]: "gexp (a mod GROUP_q) = gexp a"
  by (simp add: gexp_def)

lemma gexp_add: "(gexp a * gexp b) mod GROUP_p = gexp (a + b)"
proof -
  let ?a = "nat (a mod GROUP_q)" and ?b = "nat (b mod GROUP_q)"
  have "(gexp a * gexp b) mod GROUP_p = GROUP_g ^ (?a + ?b) mod GROUP_p"
    by (simp add: gexp_def mod_mult_eq power_add)
  also have "\<dots> = gexp (int (?a + ?b))" by (rule g_power)
  also have "\<dots> = gexp (a + b)" by (rule gexp_cong) (simp add: mod_add_eq)
  finally show ?thesis .
qed

lemma gexp_pow: "0 \<le> e \<Longrightarrow> gexp a ^ nat e mod GROUP_p = gexp (a * e)"
proof -
  assume e: "0 \<le> e"
  let ?a = "nat (a mod GROUP_q)"
  have "gexp a ^ nat e mod GROUP_p = GROUP_g ^ (?a * nat e) mod GROUP_p"
    by (simp add: gexp_def power_mod power_mult)
  also have "\<dots> = gexp (int (?a * nat e))" by (rule g_power)
  also have "\<dots> = gexp (a * e)" using e by (intro gexp_cong) (simp add: mod_mult_left_eq)
  finally show ?thesis .
qed

lemma gexp_range: "0 \<le> gexp a" "gexp a < GROUP_p"
  by (simp_all add: gexp_def)

lemma gexp_0: "gexp 0 = 1"
  by (simp add: gexp_def)

lemma powMod_g: "0 \<le> e \<Longrightarrow> powMod GROUP_g e GROUP_p = Inr (gexp e)"
  using g_power [of "nat e"] by (simp add: powMod_ok)

lemma powMod_gexp: "0 \<le> e \<Longrightarrow> powMod (gexp a) e GROUP_p = Inr (gexp (a * e))"
  by (simp add: powMod_ok gexp_pow)

text \<open>Consecutive exponents give different elements.\<close>

lemma gexp_Suc: "gexp (z + 1) \<noteq> gexp z"
proof
  let ?n = "nat (z mod GROUP_q)"
  assume eq: "gexp (z + 1) = gexp z"
  have "gexp 1 = GROUP_g" using g_power [of 1] by (simp add: GROUP_g_def GROUP_p_def)
  then have "(gexp z * GROUP_g) mod GROUP_p = gexp z mod GROUP_p"
    using gexp_add [of z 1] eq gexp_range [of z] by simp
  then have "(GROUP_g ^ ?n * GROUP_g) mod GROUP_p = GROUP_g ^ ?n mod GROUP_p"
    by (simp add: gexp_def mod_mult_left_eq)
  then have "GROUP_p dvd GROUP_g ^ ?n * GROUP_g - GROUP_g ^ ?n" by (simp add: mod_eq_dvd_iff)
  also have "GROUP_g ^ ?n * GROUP_g - GROUP_g ^ ?n = GROUP_g ^ ?n * 3" by (simp add: GROUP_g_def)
  finally have "GROUP_p dvd GROUP_g ^ ?n * 3" .
  moreover have "coprime GROUP_p (GROUP_g ^ ?n)"
  proof -
    have "odd GROUP_p" by (simp add: GROUP_p_def)
    then have "coprime GROUP_p (2 ^ (2 * ?n))" by simp
    also have "2 ^ (2 * ?n) = GROUP_g ^ ?n" by (simp add: GROUP_g_def power_mult)
    finally show ?thesis .
  qed
  ultimately have "GROUP_p dvd 3" by (simp add: coprime_dvd_mult_right_iff)
  then show False by (simp add: GROUP_p_def)
qed

subsection \<open>Commitments and shares\<close>

lemma evalPoly_eq: "evalPoly cs x GROUP_q = polyval cs x mod GROUP_q"
proof (induction cs)
  case (Cons c cs)
  have "evalPoly (c # cs) x GROUP_q = (evalPoly cs x GROUP_q * x mod GROUP_q + c) mod GROUP_q"
    by (simp add: evalPoly_def addMod_def mulMod_def dkgMod_eq)
  then show ?case by (simp add: Cons.IH mod_simps ac_simps)
qed (simp add: evalPoly_def)

lemma makeCommitments_eq: "\<forall>a\<in>set cs. 0 \<le> a \<Longrightarrow> makeCommitments cs = Inr (map gexp cs)"
  unfolding makeCommitments_def by (rule rmap_Inr_map) (simp add: powMod_g)

lemma commitment_product:
  assumes "0 \<le> w" and "w mod GROUP_q = x ^ k mod GROUP_q"
  shows "\<exists>w'. rfold (\<lambda>Ck acc. rbind (powMod Ck (snd acc) GROUP_p) (\<lambda>w.
      Inr ((fst acc * w) smod GROUP_p, dkgMod (snd acc * x) GROUP_q))) (map gexp cs) (gexp z, w)
    = Inr (gexp (z + x ^ k * polyval cs x), w')"
  using assms
proof (induction cs arbitrary: z w k)
  case (Cons c cs)
  let ?w = "w * x mod GROUP_q"
  have "gexp (c * w) = gexp (c * x ^ k)" using Cons.prems(2) by (intro gexp_cong) (metis mod_mult_right_eq)
  then have step: "(gexp z * gexp (c * w)) smod GROUP_p = gexp (z + c * x ^ k)"
    using gexp_range [of z] gexp_range [of "c * w"] by (simp add: smod_nonneg gexp_add)
  have "?w mod GROUP_q = x ^ Suc k mod GROUP_q"
    using mod_mult_cong [OF Cons.prems(2) refl, of x] by (simp add: mult.commute)
  then obtain w' where "rfold (\<lambda>Ck acc. rbind (powMod Ck (snd acc) GROUP_p) (\<lambda>w.
      Inr ((fst acc * w) smod GROUP_p, dkgMod (snd acc * x) GROUP_q))) (map gexp cs) (gexp (z + c * x ^ k), ?w)
    = Inr (gexp (z + c * x ^ k + x ^ Suc k * polyval cs x), w')"
    using Cons.IH [of ?w "Suc k" "z + c * x ^ k"] by auto
  then show ?case using Cons.prems(1) by (simp add: powMod_gexp step dkgMod_eq algebra_simps)
qed simp

lemma verifyShare_eq:
  "verifyShareAgainstCommitments (map gexp cs) toId share = Inr (gexp share = gexp (polyval cs toId))"
proof -
  have "\<exists>w. rfold (\<lambda>Ck acc. rbind (powMod Ck (snd acc) GROUP_p) (\<lambda>w.
      Inr ((fst acc * w) smod GROUP_p, dkgMod (snd acc * toId) GROUP_q))) (map gexp cs) (1, 1)
    = Inr (gexp (polyval cs toId), w)"
    using commitment_product [of 1 toId 0 cs 0] by (simp add: gexp_0)
  then obtain w where "rfold (\<lambda>Ck acc. rbind (powMod Ck (snd acc) GROUP_p) (\<lambda>w.
      Inr ((fst acc * w) smod GROUP_p, dkgMod (snd acc * toId) GROUP_q))) (map gexp cs) (1, 1)
    = Inr (gexp (polyval cs toId), w)" ..
  then show ?thesis by (simp add: verifyShareAgainstCommitments_def dkgMod_eq powMod_g)
qed

lemma correct_share_accepted:
  "verifyShareAgainstCommitments (map gexp cs) toId (evalPoly cs toId GROUP_q) = Inr True"
  by (simp add: verifyShare_eq evalPoly_eq)

lemma shifted_share_refused:
  "verifyShareAgainstCommitments (map gexp cs) toId (addMod (evalPoly cs toId GROUP_q) 1 GROUP_q) = Inr False"
proof -
  have "gexp (addMod (evalPoly cs toId GROUP_q) 1 GROUP_q) = gexp (polyval cs toId + 1)"
    by (rule gexp_cong) (simp add: addMod_def dkgMod_eq evalPoly_eq mod_simps)
  then show ?thesis using gexp_Suc [of "polyval cs toId"] by (simp add: verifyShare_eq)
qed

subsection \<open>Interpolation\<close>

lemma GROUP_q_bezout:
  "270119243333367573 * prod_list small_primes
    - 7528514564951661983767450850954306898221088588615003199599369039793543811444343242246565737119730461 * GROUP_q = 1"
  by (simp add: GROUP_q_def small_primes_prod)

lemma GROUP_q_coprime: "coprime (prod_list small_primes) GROUP_q"
proof (rule coprimeI)
  fix d assume "d dvd prod_list small_primes" "d dvd GROUP_q"
  then show "d dvd 1" using dvd_diff [OF dvd_mult dvd_mult] GROUP_q_bezout by metis
qed

lemma rfold_sum:
  assumes "0 \<le> (m :: int)" and "m \<noteq> 0"
  shows "rfold (\<lambda>j s. Inr ((s + f j) mod m)) [0..<n] 0 = Inr ((\<Sum>j<n. f j) mod m)"
  by (induction n) (simp_all add: rfold_append mod_add_left_eq)

lemma interpolation_products:
  assumes d: "distinct xs" and i: "i < length xs"
  shows "foldl (\<lambda>nd j. if j = i then nd
        else (mulMod (fst nd) (subMod 0 (dkgMod (fst (map (\<lambda>i. (i, y i)) xs ! j)) GROUP_q) GROUP_q) GROUP_q,
              mulMod (snd nd) (subMod (dkgMod (xs ! i) GROUP_q) (dkgMod (fst (map (\<lambda>i. (i, y i)) xs ! j)) GROUP_q) GROUP_q) GROUP_q))
        (1, 1) [0..<length xs]
    = (lnum (set xs) (xs ! i) mod GROUP_q, lden (set xs) (xs ! i) mod GROUP_q)" (is "foldl ?f _ _ = _")
proof -
  let ?q = GROUP_q
  have "foldl ?f (1, 1) [0..<length xs] = foldl (\<lambda>nd j. if j = i then nd
      else ((fst nd * (- (xs ! j))) mod ?q, (snd nd * (xs ! i - xs ! j)) mod ?q)) (1, 1) [0..<length xs]"
  proof (rule foldl_cong [OF refl refl])
    fix nd :: "int \<times> int" and j assume "j \<in> set [0..<length xs]"
    then have p: "fst (map (\<lambda>i. (i, y i)) xs ! j) = xs ! j" by simp
    have "(0 - xs ! j mod ?q) mod ?q = (- (xs ! j)) mod ?q" by (simp add: mod_minus_eq)
    then have "(fst nd * ((0 - xs ! j mod ?q) mod ?q)) mod ?q = (fst nd * (- (xs ! j))) mod ?q"
      by (simp only: mod_mult_right_eq)
    moreover have "(snd nd * ((xs ! i mod ?q - xs ! j mod ?q) mod ?q)) mod ?q = (snd nd * (xs ! i - xs ! j)) mod ?q"
      by (simp only: mod_mult_right_eq mod_diff_eq)
    ultimately show "?f nd j = (if j = i then nd
      else ((fst nd * (- (xs ! j))) mod ?q, (snd nd * (xs ! i - xs ! j)) mod ?q))"
      unfolding p mulMod_def subMod_def dkgMod_eq [OF GROUP_pos(1)] by (simp only:)
  qed
  also have "\<dots> = (lnum (set xs) (xs ! i) mod ?q, lden (set xs) (xs ! i) mod ?q)"
    unfolding skip_prods [OF GROUP_pos(2)] lnum_def lden_def
    by (simp only: prod_other_nth [OF d i, of uminus] prod_other_nth [OF d i, of "\<lambda>b. xs ! i - b"])
  finally show ?thesis .
qed

lemma lagrangeInterpolateAt0_ok:
  assumes d: "distinct xs" and v: "\<forall>i\<in>set xs. valid_index i" and l: "length cs \<le> length xs"
    and y: "\<forall>i\<in>set xs. y i mod GROUP_q = polyval cs i mod GROUP_q"
  shows "lagrangeInterpolateAt0 (map (\<lambda>i. (i, y i)) xs) GROUP_q = Inr (polyval cs 0 mod GROUP_q)"
proof -
  let ?q = GROUP_q and ?X = "set xs" and ?P = "map (\<lambda>i. (i, y i)) xs"
  have "\<exists>v. dkgInvMod (lden ?X a mod ?q) ?q = Inr v \<and> (lden ?X a * v) mod ?q = 1 mod ?q" if "a \<in> ?X" for a
  proof -
    have "coprime (lden ?X a mod ?q) ?q" using index_coprime(2) [OF GROUP_q_coprime v that] by simp
    from dkgInvMod_ok [OF GROUP_pos(2) this] show ?thesis by (metis mod_mult_left_eq)
  qed
  then obtain iv where iv: "\<And>a. a \<in> ?X \<Longrightarrow> dkgInvMod (lden ?X a mod ?q) ?q = Inr (iv a)"
      "\<And>a. a \<in> ?X \<Longrightarrow> (lden ?X a * iv a) mod ?q = 1 mod ?q" by metis
  let ?k = "\<lambda>j. (lnum ?X (xs ! j) * iv (xs ! j)) mod ?q"
  have "lagrangeInterpolateAt0 ?P ?q
      = rfold (\<lambda>j s. Inr ((s + ?k j * y (xs ! j)) mod ?q)) [0..<length xs] 0"
    unfolding lagrangeInterpolateAt0_def
  proof (rule rfold_cong)
    show "[0..<length ?P] = [0..<length xs]" by simp
  next
    fix i s assume "i \<in> set [0..<length xs]"
    then have i: "i < length xs" by simp
    have p: "?P ! i = (xs ! i, y (xs ! i))" using i by simp
    have k: "lnum ?X (xs ! i) mod ?q * iv (xs ! i) mod ?q = ?k i" by (rule mod_mult_left_eq)
    have "(s + (y (xs ! i) mod ?q * (lnum ?X (xs ! i) mod ?q * iv (xs ! i) mod ?q)) mod ?q) mod ?q
        = (s + ?k i * y (xs ! i)) mod ?q"
      by (simp only: k mod_mult_left_eq mod_add_right_eq mult.commute [of "?k i"])
    then show "(let xi = dkgMod (fst (?P ! i)) ?q; yi = dkgMod (snd (?P ! i)) ?q;
        nd = foldl (\<lambda>nd j. if j = i then nd
          else (mulMod (fst nd) (subMod 0 (dkgMod (fst (?P ! j)) ?q) ?q) ?q,
                mulMod (snd nd) (subMod xi (dkgMod (fst (?P ! j)) ?q) ?q) ?q)) (1, 1) [0..<length ?P]
        in rbind (dkgInvMod (snd nd) ?q) (\<lambda>inv. let li0 = mulMod (fst nd) inv ?q
          in Inr (addMod s (mulMod yi li0 ?q) ?q))) = Inr ((s + ?k i * y (xs ! i)) mod ?q)"
      unfolding Let_def p fst_conv snd_conv length_map interpolation_products [OF d i]
      using iv(1) [of "xs ! i"] i by (simp add: mulMod_def addMod_def dkgMod_eq)
  qed
  also have "\<dots> = Inr ((\<Sum>j<length xs. ?k j * y (xs ! j)) mod ?q)" by (rule rfold_sum) simp_all
  also have "(\<Sum>j<length xs. ?k j * y (xs ! j)) mod ?q = (polyval cs 0 * 1) mod ?q"
    by (rule interpolate_points [OF d v l iv(2)]) (use y in simp_all)
  finally show ?thesis by simp
qed

subsection \<open>Generator and transcript root\<close>

text \<open>The masked big-integer steps are 64-bit machine arithmetic.\<close>

definition splitmix64 :: "64 word \<Rightarrow> 64 word \<times> 64 word" where
  "splitmix64 st =
     (let state = st + 0x9e3779b97f4a7c15;
          z1 = (state XOR drop_bit 30 state) * 0xbf58476d1ce4e5b9;
          z2 = (z1 XOR drop_bit 27 z1) * 0x94d049bb133111eb
      in (z2 XOR drop_bit 31 z2, state))"

lemma mask64: "x AND 0xffffffffffffffff = uint (word_of_int x :: 64 word)"
  using take_bit_eq_mask [of 64 x] by (simp add: uint_word_of_int take_bit_eq_mod mask_eq_exp_minus_1)

lemma uint_drop64: "uint (drop_bit n a) = drop_bit n (uint a)" for a :: "64 word"
proof -
  have "take_bit 64 (uint a) = uint a" using uint_lt2p [of a] by (simp add: take_bit_int_eq_self)
  then show ?thesis by (simp add: unsigned_drop_bit_eq)
qed

lemma nextU64_eq: "nextU64 (uint st) = (uint (fst (splitmix64 st)), uint (snd (splitmix64 st)))"
proof -
  have x: "uint a XOR drop_bit n (uint a) = uint (a XOR drop_bit n a)" for a :: "64 word" and n
    by (simp only: uint_xor uint_drop64)
  show ?thesis
    unfolding nextU64_def splitmix64_def Let_def mask64 x
    by (simp add: wi_hom_add [symmetric] wi_hom_mult [symmetric])
qed

lemma transcriptRoot_order: "mset xs = mset ys \<Longrightarrow> transcriptRoot sha xs = transcriptRoot sha ys"
proof -
  assume "mset xs = mset ys"
  then have "sort (map f xs) = sort (map f ys)" for f :: "Json \<Rightarrow> string"
    by (intro properties_for_sort) simp_all
  then show ?thesis by (simp add: transcriptRoot_def Let_def)
qed

end
