(* ===== verification/Dkg_Correct.thy ===== *)
theory Dkg_Correct
  imports Dkg_Algebra
begin

text \<open>
  Correctness of the key-generation prototype. The rounds of \<open>runDkg\<close> are computed in closed form; from
  it follow exact accountability (who is slashed), agreement of the transcript verifier with the run,
  and that any threshold of the shares reconstructs the secret of the published key.
\<close>

subsection \<open>Round 1: commitments\<close>

lemma digestToBigint_nonneg: "0 \<le> digestToBigint bs"
proof -
  have "0 \<le> foldl (\<lambda>v b. v * 256 + uint (b :: byte)) z bs" if "0 \<le> z" for z :: int
    using that by (induction bs arbitrary: z) simp_all
  then show ?thesis by (simp add: digestToBigint_def)
qed

lemma sampleCoeffs_nonneg: "\<forall>a\<in>set (sampleCoeffs sha seed e t i). 0 \<le> a"
  by (auto simp: sampleCoeffs_def dkgHashToScalar_def Let_def smod_nonneg digestToBigint_nonneg)

lemma sampleCoeffs_length [simp]: "length (sampleCoeffs sha seed e t i) = t"
  by (simp add: sampleCoeffs_def)

definition dealerOf :: "(byte list \<Rightarrow> byte list) \<Rightarrow> string \<Rightarrow> int \<Rightarrow> nat \<Rightarrow> int \<Rightarrow> Dealer" where
  "dealerOf sha seed e t i =
     \<lparr>dl_coeffs = sampleCoeffs sha seed e t i, dl_commitments = map gexp (sampleCoeffs sha seed e t i)\<rparr>"

lemma commit_rounds:
  "rfold (commitRound sha seed e t) ids (dm, oc) =
     Inr (\<lambda>i. if i \<in> set ids then Some (dealerOf sha seed e t i) else dm i,
          oc @ map (\<lambda>i. DKGCommit e i (dl_commitments (dealerOf sha seed e t i))) ids)"
proof (induction ids arbitrary: dm oc)
  case (Cons i ids)
  have "commitRound sha seed e t i (dm, oc) =
      Inr (dm(i \<mapsto> dealerOf sha seed e t i), oc @ [DKGCommit e i (dl_commitments (dealerOf sha seed e t i))])"
    by (simp add: commitRound_def Let_def makeCommitments_eq [OF sampleCoeffs_nonneg] dealerOf_def)
  then show ?case by (simp add: Cons.IH fun_eq_iff)
qed simp

subsection \<open>Round 2: shares\<close>

definition correctShare :: "(byte list \<Rightarrow> byte list) \<Rightarrow> string \<Rightarrow> int \<Rightarrow> nat \<Rightarrow> int \<Rightarrow> int \<Rightarrow> int" where
  "correctShare sha seed e t fromId toId = evalPoly (sampleCoeffs sha seed e t fromId) toId GROUP_q"

definition sentMsg :: "(byte list \<Rightarrow> byte list) \<Rightarrow> string \<Rightarrow> int \<Rightarrow> nat \<Rightarrow> Byzantine \<Rightarrow> int \<Rightarrow> int \<Rightarrow> ShareMsg" where
  "sentMsg sha seed e t byz fromId toId =
     (let msg = \<lparr>sm_epochId = e, sm_from = fromId, sm_to = toId,
                 sm_share = (if equivocates byz fromId toId then addMod (correctShare sha seed e t fromId toId) 1 GROUP_q
                             else correctShare sha seed e t fromId toId), sm_sig = []\<rparr>
      in msg\<lparr>sm_sig := signShare sha (signKey seed e fromId) msg\<rparr>)"

lemma send_rounds:
  assumes "\<forall>ft\<in>set prs. D (fst ft) = Some (dealerOf sha seed e t (fst ft))"
  shows "rfold (sendShare sha seed e byz D) prs sh =
    Inr (\<lambda>k. if (snd k, fst k) \<in> set prs \<and> \<not> withholds byz (snd k) (fst k)
      then Some (sentMsg sha seed e t byz (snd k) (fst k)) else sh k)"
  using assms
proof (induction prs arbitrary: sh)
  case (Cons ft prs)
  have "sendShare sha seed e byz D ft sh =
      Inr (if withholds byz (fst ft) (snd ft) then sh
           else sh((snd ft, fst ft) \<mapsto> sentMsg sha seed e t byz (fst ft) (snd ft)))"
    using Cons.prems by (simp add: sendShare_def Let_def sentMsg_def correctShare_def dealerOf_def)
  then show ?case using Cons by (auto simp: fun_eq_iff)
qed simp

lemma sentMsg_sig: "verifyShareSig sha (signKey seed e fromId) (sentMsg sha seed e t byz fromId toId)"
  by (simp add: verifyShareSig_def sentMsg_def Let_def signShare_def shareMsgToString_def)

lemma sentMsg_verdict:
  "verifyShareAgainstCommitments (dl_commitments (dealerOf sha seed e t fromId)) toId
     (sm_share (sentMsg sha seed e t byz fromId toId)) = Inr (\<not> equivocates byz fromId toId)"
  using correct_share_accepted shifted_share_refused
  by (simp add: sentMsg_def Let_def dealerOf_def correctShare_def)

subsection \<open>Round 3: complaints\<close>

definition complaintsOf :: "(byte list \<Rightarrow> byte list) \<Rightarrow> string \<Rightarrow> int \<Rightarrow> nat \<Rightarrow> Byzantine \<Rightarrow> int \<times> int \<Rightarrow> OnchainMsg list" where
  "complaintsOf sha seed e t byz tf =
     (if withholds byz (snd tf) (fst tf) then [DKGComplaintMissing e (fst tf) (snd tf)]
      else if equivocates byz (snd tf) (fst tf)
        then [DKGComplaintInvalid e (fst tf) (snd tf) (sentMsg sha seed e t byz (snd tf) (fst tf))]
      else [])"

lemma complain_rounds:
  assumes "\<forall>tf\<in>set prs. D (snd tf) = Some (dealerOf sha seed e t (snd tf))"
    and "\<forall>tf\<in>set prs. sh tf = (if withholds byz (snd tf) (fst tf) then None
      else Some (sentMsg sha seed e t byz (snd tf) (fst tf)))"
  shows "rfold (complainRound sha seed e D sh) prs cs = Inr (cs @ concat (map (complaintsOf sha seed e t byz) prs))"
  using assms
proof (induction prs arbitrary: cs)
  case (Cons tf prs)
  have "complainRound sha seed e D sh tf cs = Inr (cs @ complaintsOf sha seed e t byz tf)"
    using Cons.prems by (simp add: complainRound_def Let_def complaintsOf_def sentMsg_verdict sentMsg_sig)
  then show ?case using Cons by simp
qed simp

subsection \<open>Round 4: reveals and slashing\<close>

text \<open>
  A complaint convicts its dealer when the dealer never reveals, or when the share it carries is not
  the correct one. \<open>verdicts\<close> is the round without its checks that always succeed.
\<close>

definition convicts :: "Byzantine \<Rightarrow> (int \<Rightarrow> int \<Rightarrow> int) \<Rightarrow> OnchainMsg \<Rightarrow> bool" where
  "convicts byz f c \<longleftrightarrow> complaintDealer c \<in> set (bz_noReveal byz)
     \<or> (\<exists>s. complaintShare c = Some s \<and> s \<noteq> f (complaintDealer c) (complainer c))"

primrec verdicts :: "int \<Rightarrow> Byzantine \<Rightarrow> (int \<Rightarrow> int \<Rightarrow> int) \<Rightarrow> OnchainMsg list \<Rightarrow> int list \<Rightarrow> int list \<times> OnchainMsg list" where
  "verdicts e byz f [] sl = (sl, [])"
| "verdicts e byz f (c # cs) sl =
     (let d = complaintDealer c; sl' = (if convicts byz f c then addOnce d sl else sl); r = verdicts e byz f cs sl' in
      if d \<in> set sl then verdicts e byz f cs sl
      else if d \<in> set (bz_noReveal byz) then r
      else (fst r, DKGShareReveal e d (complainer c) (f d (complainer c)) # snd r))"

lemma addOnce_set [simp]: "set (addOnce x xs) = insert x (set xs)" "distinct (addOnce x xs) \<longleftrightarrow> distinct xs"
  by (auto simp: addOnce_def)

lemma revealRound_eq:
  assumes "D (complaintDealer c) = Some (dealerOf sha seed e t (complaintDealer c))"
  defines "f \<equiv> correctShare sha seed e t"
  shows "revealRound e byz D c (sl, rv) = Inr
    (let d = complaintDealer c; sl' = (if convicts byz f c then addOnce d sl else sl) in
     if d \<in> set sl then (sl, rv) else if d \<in> set (bz_noReveal byz) then (sl', rv)
     else (sl', rv @ [DKGShareReveal e d (complainer c) (f d (complainer c))]))"
  using assms(1) correct_share_accepted
  by (auto simp: revealRound_def Let_def f_def correctShare_def dealerOf_def convicts_def split: option.split)

lemma reveal_rounds:
  assumes "\<forall>c\<in>set cs. D (complaintDealer c) = Some (dealerOf sha seed e t (complaintDealer c))"
  defines "f \<equiv> correctShare sha seed e t"
  shows "rfold (revealRound e byz D) cs (sl, rv) = Inr (fst (verdicts e byz f cs sl), rv @ snd (verdicts e byz f cs sl))"
  using assms(1)
proof (induction cs arbitrary: sl rv)
  case (Cons c cs)
  have "revealRound e byz D c (sl, rv) = Inr
    (let d = complaintDealer c; sl' = (if convicts byz f c then addOnce d sl else sl) in
     if d \<in> set sl then (sl, rv) else if d \<in> set (bz_noReveal byz) then (sl', rv)
     else (sl', rv @ [DKGShareReveal e d (complainer c) (f d (complainer c))]))"
    unfolding f_def by (rule revealRound_eq) (use Cons.prems in simp)
  then show ?case using Cons by (simp add: Let_def)
qed simp

lemma verdicts_slashed:
  "set (fst (verdicts e byz f cs sl)) = set sl \<union> {complaintDealer c |c. c \<in> set cs \<and> convicts byz f c}"
proof (induction cs arbitrary: sl)
  case (Cons c cs)
  then show ?case by (auto simp: Let_def)
qed simp

lemma verdicts_reveals:
  "r \<in> set (snd (verdicts e byz f cs sl)) \<Longrightarrow>
     \<exists>d to. r = DKGShareReveal e d to (f d to) \<and> d \<notin> set (bz_noReveal byz)"
  by (induction cs arbitrary: sl) (auto simp: Let_def split: if_splits)

text \<open>The verifier's rule for complaints gives the same verdicts from the published reveals.\<close>

lemma resolve_rounds:
  assumes "\<forall>c\<in>set cs. di_commits ix (complaintDealer c) = Some (dl_commitments (dealerOf sha seed e t (complaintDealer c)))"
    and "\<forall>d to. d \<in> set (bz_noReveal byz) \<longrightarrow> di_reveals ix (d, to) = None"
    and "\<forall>d to s. DKGShareReveal e d to s \<in> set (snd (verdicts e byz f cs sl)) \<longrightarrow> di_reveals ix (d, to) = Some s"
    and f: "f = correctShare sha seed e t"
  shows "rfold (resolveComplaint ix) cs sl = Inr (fst (verdicts e byz f cs sl))"
  using assms(1-3)
proof (induction cs arbitrary: sl)
  case (Cons c cs)
  let ?d = "complaintDealer c" and ?to = "complainer c"
  let ?sl = "if convicts byz f c then addOnce ?d sl else sl"
  have cm: "di_commits ix ?d = Some (dl_commitments (dealerOf sha seed e t ?d))" using Cons.prems(1) by simp
  have ok: "verifyShareAgainstCommitments (dl_commitments (dealerOf sha seed e t ?d)) ?to (f ?d ?to) = Inr True"
    using correct_share_accepted by (simp add: f correctShare_def dealerOf_def)
  have IH: "rfold (resolveComplaint ix) cs sl' = Inr (fst (verdicts e byz f cs sl'))"
    if "\<forall>d to s. DKGShareReveal e d to s \<in> set (snd (verdicts e byz f cs sl')) \<longrightarrow> di_reveals ix (d, to) = Some s" for sl'
    by (rule Cons.IH) (use Cons.prems that in simp_all)
  consider "?d \<in> set sl" | "?d \<notin> set sl" "?d \<in> set (bz_noReveal byz)" | "?d \<notin> set sl" "?d \<notin> set (bz_noReveal byz)"
    by blast
  then show ?case
  proof cases
    case 1
    then have "resolveComplaint ix c sl = Inr sl" by (simp add: resolveComplaint_def Let_def)
    then show ?thesis using 1 IH [of sl] Cons.prems(3) by (simp add: Let_def)
  next
    case 2
    then have "resolveComplaint ix c sl = Inr (addOnce ?d sl)"
      using Cons.prems(2) cm by (simp add: resolveComplaint_def Let_def)
    then show ?thesis using 2 IH [of "addOnce ?d sl"] Cons.prems(3) by (simp add: Let_def convicts_def)
  next
    case 3
    then have "di_reveals ix (?d, ?to) = Some (f ?d ?to)" using Cons.prems(3) by (simp add: Let_def)
    then have "resolveComplaint ix c sl = Inr ?sl"
      using 3 cm ok by (auto simp: resolveComplaint_def Let_def convicts_def split: option.split)
    then show ?thesis using 3 IH [of ?sl] Cons.prems(3) by (simp add: Let_def)
  qed
qed simp

subsection \<open>The index of a transcript\<close>

lemma index_commits:
  "foldl (indexMessage e) ix (map (\<lambda>i. DKGCommit e i (C i)) ids) =
     ix\<lparr>di_commits := (\<lambda>i. if i \<in> set ids then Some (C i) else di_commits ix i)\<rparr>"
proof (induction ids arbitrary: ix)
  case (Cons i ids)
  have "indexMessage e ix (DKGCommit e i (C i)) = ix\<lparr>di_commits := (di_commits ix)(i \<mapsto> C i)\<rparr>"
    by (simp add: indexMessage_def)
  then show ?case by (auto simp: Cons.IH fun_eq_iff intro!: arg_cong [of _ _ "\<lambda>f. ix\<lparr>di_commits := f\<rparr>"])
qed simp

definition isComplaint :: "int \<Rightarrow> OnchainMsg \<Rightarrow> bool" where
  "isComplaint e c \<longleftrightarrow> messageEpoch c = e \<and> (case c of DKGComplaintMissing _ _ _ \<Rightarrow> True | DKGComplaintInvalid _ _ _ _ \<Rightarrow> True | _ \<Rightarrow> False)"

lemma index_complaints:
  "\<forall>c\<in>set cs. isComplaint e c \<Longrightarrow> foldl (indexMessage e) ix cs = ix\<lparr>di_complaints := di_complaints ix @ cs\<rparr>"
proof (induction cs arbitrary: ix)
  case (Cons c cs)
  have "indexMessage e ix c = ix\<lparr>di_complaints := di_complaints ix @ [c]\<rparr>"
    using Cons.prems by (auto simp: indexMessage_def isComplaint_def split: OnchainMsg.splits)
  then show ?case using Cons by simp
qed simp

lemma index_reveals:
  assumes "\<forall>r\<in>set rv. \<exists>d to. r = DKGShareReveal e d to (f d to)"
  shows "foldl (indexMessage e) ix rv =
    ix\<lparr>di_reveals := (\<lambda>k. if DKGShareReveal e (fst k) (snd k) (f (fst k) (snd k)) \<in> set rv
      then Some (f (fst k) (snd k)) else di_reveals ix k)\<rparr>"
  using assms
proof (induction rv arbitrary: ix)
  case (Cons r rv)
  then obtain d to where r: "r = DKGShareReveal e d to (f d to)" by auto
  have "indexMessage e ix r = ix\<lparr>di_reveals := (di_reveals ix)((d, to) \<mapsto> f d to)\<rparr>"
    by (simp add: indexMessage_def r)
  then show ?case using Cons r
    by (auto simp: fun_eq_iff intro!: arg_cong [of _ _ "\<lambda>f. ix\<lparr>di_reveals := f\<rparr>"])
qed simp

subsection \<open>A run in closed form\<close>

definition allComplaints :: "(byte list \<Rightarrow> byte list) \<Rightarrow> string \<Rightarrow> int \<Rightarrow> nat \<Rightarrow> Byzantine \<Rightarrow> int list \<Rightarrow> OnchainMsg list" where
  "allComplaints sha seed e t byz ids = concat (map (complaintsOf sha seed e t byz) (List.product ids ids))"

definition slashedIn :: "(byte list \<Rightarrow> byte list) \<Rightarrow> string \<Rightarrow> int \<Rightarrow> nat \<Rightarrow> Byzantine \<Rightarrow> int list \<Rightarrow> int list" where
  "slashedIn sha seed e t byz ids =
     fst (verdicts e byz (correctShare sha seed e t) (allComplaints sha seed e t byz ids) [])"

definition revealsIn :: "(byte list \<Rightarrow> byte list) \<Rightarrow> string \<Rightarrow> int \<Rightarrow> nat \<Rightarrow> Byzantine \<Rightarrow> int list \<Rightarrow> OnchainMsg list" where
  "revealsIn sha seed e t byz ids =
     snd (verdicts e byz (correctShare sha seed e t) (allComplaints sha seed e t byz ids) [])"

definition qualIn :: "(byte list \<Rightarrow> byte list) \<Rightarrow> string \<Rightarrow> int \<Rightarrow> nat \<Rightarrow> Byzantine \<Rightarrow> int list \<Rightarrow> int list" where
  "qualIn sha seed e t byz ids = filter (\<lambda>i. i \<notin> set (slashedIn sha seed e t byz ids)) ids"

definition commitsIn :: "(byte list \<Rightarrow> byte list) \<Rightarrow> string \<Rightarrow> int \<Rightarrow> nat \<Rightarrow> int list \<Rightarrow> int \<rightharpoonup> int list" where
  "commitsIn sha seed e t ids i = (if i \<in> set ids then Some (dl_commitments (dealerOf sha seed e t i)) else None)"

definition onchainIn :: "(byte list \<Rightarrow> byte list) \<Rightarrow> string \<Rightarrow> int \<Rightarrow> nat \<Rightarrow> Byzantine \<Rightarrow> int list \<Rightarrow> OnchainMsg list" where
  "onchainIn sha seed e t byz ids =
     map (\<lambda>i. DKGCommit e i (dl_commitments (dealerOf sha seed e t i))) ids
     @ allComplaints sha seed e t byz ids @ revealsIn sha seed e t byz ids"

lemma complaint_members:
  "c \<in> set (allComplaints sha seed e t byz ids) \<Longrightarrow> complaintDealer c \<in> set ids \<and> isComplaint e c"
  by (auto simp: allComplaints_def complaintsOf_def isComplaint_def split: if_splits)

lemma addMod_neq: "\<lbrakk>0 \<le> x; x < GROUP_q\<rbrakk> \<Longrightarrow> addMod x 1 GROUP_q \<noteq> x"
proof
  assume x: "0 \<le> x" "x < GROUP_q" and "addMod x 1 GROUP_q = x"
  then have "(x + 1) mod GROUP_q = x mod GROUP_q" by (simp add: addMod_def dkgMod_eq)
  then have "GROUP_q dvd (x + 1) - x" by (simp only: mod_eq_dvd_iff)
  then show False by (simp add: GROUP_q_def)
qed

lemma complaint_convicts:
  "c \<in> set (complaintsOf sha seed e t byz (to, d)) \<Longrightarrow> complaintDealer c = d \<and>
     (convicts byz (correctShare sha seed e t) c \<longleftrightarrow> d \<in> set (bz_noReveal byz) \<or> \<not> withholds byz d to)"
  using addMod_neq [of "correctShare sha seed e t d to"]
  by (auto simp: complaintsOf_def convicts_def sentMsg_def Let_def correctShare_def evalPoly_eq split: if_splits)

lemma slashedIn_set:
  "set (slashedIn sha seed e t byz ids) =
     {d \<in> set ids. \<exists>to\<in>set ids. if withholds byz d to then d \<in> set (bz_noReveal byz) else equivocates byz d to}"
    (is "_ = ?R")
proof -
  let ?f = "correctShare sha seed e t" and ?C = "complaintsOf sha seed e t byz"
  have "set (slashedIn sha seed e t byz ids)
      = {d. \<exists>to\<in>set ids. d \<in> set ids \<and> (\<exists>c\<in>set (?C (to, d)). convicts byz ?f c)}"
    unfolding slashedIn_def verdicts_slashed allComplaints_def using complaint_convicts by fastforce
  also have "\<dots> = ?R"
  proof -
    have "(\<exists>c\<in>set (?C (to, d)). convicts byz ?f c)
      \<longleftrightarrow> (if withholds byz d to then d \<in> set (bz_noReveal byz) else equivocates byz d to)" for to d
      using complaint_convicts [of _ sha seed e t byz to d] by (auto simp: complaintsOf_def)
    then show ?thesis by auto
  qed
  finally show ?thesis .
qed

text \<open>The published result before the key is computed, and the run in terms of it.\<close>

definition resultIn :: "(byte list \<Rightarrow> byte list) \<Rightarrow> string \<Rightarrow> int \<Rightarrow> nat \<Rightarrow> Byzantine \<Rightarrow> int list \<Rightarrow> DkgResult" where
  "resultIn sha seed e t byz ids =
     \<lparr>dv_ok = (t \<le> length (qualIn sha seed e t byz ids)), dv_epochId = e, dv_threshold = t, dv_committeeIds = ids,
      dv_qual = qualIn sha seed e t byz ids, dv_slashed = sort (slashedIn sha seed e t byz ids), dv_pkEpoch = None,
      dg_shares = Map.empty, dg_transcriptRoot = transcriptRoot sha (map messageJson (onchainIn sha seed e t byz ids)),
      dg_onchain = onchainIn sha seed e t byz ids,
      dg_sent = (\<lambda>k. if snd k \<in> set ids \<and> fst k \<in> set ids \<and> \<not> withholds byz (snd k) (fst k)
        then Some (sentMsg sha seed e t byz (snd k) (fst k)) else None)\<rparr>"

lemma runDkg_eq:
  "runDkg sha e ids t seed byz =
     (let qual = qualIn sha seed e t byz ids; res = resultIn sha seed e t byz ids;
          D = (\<lambda>i. if i \<in> set ids then Some (dealerOf sha seed e t i) else None) in
      if \<not> t \<le> length qual then Inr res
      else rbind (epochKey (commitsIn sha seed e t ids) qual) (\<lambda>pk.
           rbind (rfold (\<lambda>toId out. rbind (secretShare D qual toId) (\<lambda>sk. Inr (out(toId \<mapsto> sk)))) qual Map.empty) (\<lambda>out.
           Inr (res\<lparr>dv_pkEpoch := Some pk, dg_shares := out\<rparr>))))"
proof -
  let ?D = "\<lambda>i. if i \<in> set ids then Some (dealerOf sha seed e t i) else None"
  let ?sh = "\<lambda>k. if (snd k, fst k) \<in> set (List.product ids ids) \<and> \<not> withholds byz (snd k) (fst k)
      then Some (sentMsg sha seed e t byz (snd k) (fst k)) else None"
  have c: "rfold (commitRound sha seed e t) ids (Map.empty, []) =
      Inr (?D, map (\<lambda>i. DKGCommit e i (dl_commitments (dealerOf sha seed e t i))) ids)"
    by (simp add: commit_rounds)
  have s: "rfold (sendShare sha seed e byz ?D) (List.product ids ids) Map.empty = Inr ?sh"
    by (subst send_rounds [where t = t]) auto
  have p: "rfold (complainRound sha seed e ?D ?sh) (List.product ids ids) [] = Inr (allComplaints sha seed e t byz ids)"
    by (subst complain_rounds [where t = t and byz = byz]) (auto simp: allComplaints_def)
  have r: "rfold (revealRound e byz ?D) (allComplaints sha seed e t byz ids) ([], []) =
      Inr (slashedIn sha seed e t byz ids, revealsIn sha seed e t byz ids)"
    unfolding slashedIn_def revealsIn_def
    by (subst reveal_rounds [where t = t and sha = sha and seed = seed]) (auto dest: complaint_members)
  have m: "(\<lambda>i. map_option dl_commitments (?D i)) = commitsIn sha seed e t ids"
    by (simp add: fun_eq_iff commitsIn_def)
  have sent: "?sh = dg_sent (resultIn sha seed e t byz ids)" by (auto simp: resultIn_def fun_eq_iff)
  show ?thesis unfolding runDkg_def c rbind_simps fst_conv snd_conv s p r m
    unfolding sent by (simp add: resultIn_def qualIn_def onchainIn_def Let_def)
qed

lemma qualIn_subset: "set (qualIn sha seed e t byz ids) \<subseteq> set ids"
  by (auto simp: qualIn_def)

subsection \<open>The verifier\<close>

lemma indexTranscript_eq:
  "indexTranscript e (onchainIn sha seed e t byz ids) =
     \<lparr>di_commits = commitsIn sha seed e t ids, di_complaints = allComplaints sha seed e t byz ids,
      di_reveals = (\<lambda>k. if DKGShareReveal e (fst k) (snd k) (correctShare sha seed e t (fst k) (snd k)) \<in> set (revealsIn sha seed e t byz ids)
        then Some (correctShare sha seed e t (fst k) (snd k)) else None)\<rparr>"
proof -
  have a: "\<forall>c\<in>set (allComplaints sha seed e t byz ids). isComplaint e c" using complaint_members by blast
  have r: "\<forall>r\<in>set (revealsIn sha seed e t byz ids). \<exists>d to. r = DKGShareReveal e d to (correctShare sha seed e t d to)"
    using verdicts_reveals unfolding revealsIn_def by blast
  show ?thesis
    unfolding indexTranscript_def onchainIn_def foldl_append index_commits index_complaints [OF a] index_reveals [OF r]
    by (simp add: fun_eq_iff commitsIn_def)
qed

lemma missing_none:
  "\<forall>i\<in>set ids. m i \<noteq> None \<Longrightarrow> foldl (\<lambda>sl i. if m i = None then addOnce i sl else sl) sl ids = sl"
  by (induction ids) auto

lemma verifier_slashes:
  "rfold (resolveComplaint (indexTranscript e (onchainIn sha seed e t byz ids))) (allComplaints sha seed e t byz ids) []
     = Inr (slashedIn sha seed e t byz ids)"
  unfolding slashedIn_def
proof (rule resolve_rounds [OF _ _ _ refl])
  show "\<forall>c\<in>set (allComplaints sha seed e t byz ids). di_commits (indexTranscript e (onchainIn sha seed e t byz ids)) (complaintDealer c)
      = Some (dl_commitments (dealerOf sha seed e t (complaintDealer c)))"
    using complaint_members by (auto simp: indexTranscript_eq commitsIn_def)
  show "\<forall>d to. d \<in> set (bz_noReveal byz) \<longrightarrow> di_reveals (indexTranscript e (onchainIn sha seed e t byz ids)) (d, to) = None"
    using verdicts_reveals by (fastforce simp: indexTranscript_eq revealsIn_def)
  show "\<forall>d to s. DKGShareReveal e d to s \<in> set (snd (verdicts e byz (correctShare sha seed e t) (allComplaints sha seed e t byz ids) []))
      \<longrightarrow> di_reveals (indexTranscript e (onchainIn sha seed e t byz ids)) (d, to) = Some s"
    using verdicts_reveals by (fastforce simp: indexTranscript_eq revealsIn_def)
qed

lemma verifyDkgTranscript_eq:
  "verifyDkgTranscript e ids t (onchainIn sha seed e t byz ids) =
     (let qual = qualIn sha seed e t byz ids; v = DkgVerdict.truncate (resultIn sha seed e t byz ids) in
      if \<not> t \<le> length qual then Inr v
      else rbind (epochKey (commitsIn sha seed e t ids) qual) (\<lambda>pk. Inr (v\<lparr>dv_pkEpoch := Some pk\<rparr>)))"
proof -
  let ?ix = "indexTranscript e (onchainIn sha seed e t byz ids)"
  have c: "di_commits ?ix = commitsIn sha seed e t ids" "di_complaints ?ix = allComplaints sha seed e t byz ids"
    by (simp_all add: indexTranscript_eq)
  have m: "foldl (\<lambda>sl i. if commitsIn sha seed e t ids i = None then addOnce i sl else sl) [] ids = []"
    by (rule missing_none) (simp add: commitsIn_def)
  show ?thesis
    unfolding verifyDkgTranscript_def Let_def c m verifier_slashes rbind_simps qualIn_def [symmetric]
    by (cases "epochKey (commitsIn sha seed e t ids) (qualIn sha seed e t byz ids)")
      (simp_all add: resultIn_def DkgVerdict.truncate_def)
qed

subsection \<open>Key and shares\<close>

text \<open>The joint polynomial of the qualified dealers.\<close>

definition jointPoly :: "(byte list \<Rightarrow> byte list) \<Rightarrow> string \<Rightarrow> int \<Rightarrow> nat \<Rightarrow> int list \<Rightarrow> int list" where
  "jointPoly sha seed e t qual = foldr (\<lambda>d p. map2 (+) (sampleCoeffs sha seed e t d) p) qual (replicate t 0)"

lemma jointPoly_length [simp]: "length (jointPoly sha seed e t qual) = t"
  by (induction qual) (simp_all add: jointPoly_def)

lemma polyval_map2: "length a = length b \<Longrightarrow> polyval (map2 (+) a b) x = polyval a x + polyval b x"
  by (induction a b rule: list_induct2) (simp_all add: algebra_simps)

lemma polyval_jointPoly:
  "polyval (jointPoly sha seed e t (d # ds)) x = polyval (sampleCoeffs sha seed e t d) x + polyval (jointPoly sha seed e t ds) x"
proof -
  have "jointPoly sha seed e t (d # ds) = map2 (+) (sampleCoeffs sha seed e t d) (jointPoly sha seed e t ds)"
    by (simp add: jointPoly_def)
  then show ?thesis by (simp add: polyval_map2)
qed

lemma polyval_jointPoly_Nil: "polyval (jointPoly sha seed e t []) x = 0"
  by (induction t) (simp_all add: jointPoly_def)

lemma epochKey_eq:
  assumes "1 \<le> t" and "set qual \<subseteq> set ids"
  shows "epochKey (commitsIn sha seed e t ids) qual = Inr (gexp (polyval (jointPoly sha seed e t qual) 0))"
proof -
  have "rfold (\<lambda>i pk. case commitsIn sha seed e t ids i of
         Some (C0 # _) \<Rightarrow> Inr ((pk * C0) smod GROUP_p) | _ \<Rightarrow> Inl ''TypeError: no commitment'') qual (gexp z)
      = Inr (gexp (z + polyval (jointPoly sha seed e t qual) 0))" for z
    using assms(2)
  proof (induction qual arbitrary: z)
    case Nil
    then show ?case by (simp add: polyval_jointPoly_Nil)
  next
    case (Cons d ds)
    obtain c cs where c: "sampleCoeffs sha seed e t d = c # cs"
      using assms(1) sampleCoeffs_length [of sha seed e t d] by (cases "sampleCoeffs sha seed e t d") auto
    then have "commitsIn sha seed e t ids d = Some (gexp c # map gexp cs)"
      using Cons.prems by (simp add: commitsIn_def dealerOf_def)
    moreover have "(gexp z * gexp c) smod GROUP_p = gexp (z + c)"
      using gexp_range [of z] gexp_range [of c] by (simp add: smod_nonneg gexp_add)
    ultimately show ?case using Cons c by (simp add: polyval_jointPoly algebra_simps)
  qed
  from this [of 0] show ?thesis by (simp add: epochKey_def gexp_0)
qed

lemma secretShare_eq:
  assumes "set qual \<subseteq> set ids"
  shows "secretShare (\<lambda>i. if i \<in> set ids then Some (dealerOf sha seed e t i) else None) qual toId
    = Inr (polyval (jointPoly sha seed e t qual) toId mod GROUP_q)"
proof -
  have "rfold (\<lambda>fromId sk. case (if fromId \<in> set ids then Some (dealerOf sha seed e t fromId) else None) of
         None \<Rightarrow> Inl ''TypeError: unknown dealer''
       | Some dealer \<Rightarrow> Inr (addMod sk (evalPoly (dl_coeffs dealer) toId GROUP_q) GROUP_q)) qual (z mod GROUP_q)
      = Inr ((z + polyval (jointPoly sha seed e t qual) toId) mod GROUP_q)" for z
    using assms
  proof (induction qual arbitrary: z)
    case Nil
    then show ?case by (simp add: polyval_jointPoly_Nil)
  next
    case (Cons d ds)
    have "addMod (z mod GROUP_q) (evalPoly (sampleCoeffs sha seed e t d) toId GROUP_q) GROUP_q
        = (z + polyval (sampleCoeffs sha seed e t d) toId) mod GROUP_q"
      by (simp add: addMod_def dkgMod_eq evalPoly_eq mod_add_eq)
    then show ?case using Cons.IH [of "z + polyval (sampleCoeffs sha seed e t d) toId"] Cons.prems
      by (simp add: dealerOf_def polyval_jointPoly add.assoc)
  qed
  from this [of 0] show ?thesis by (simp add: secretShare_def)
qed

lemma out_shares:
  "(\<And>i. i \<in> set xs \<Longrightarrow> g i = Inr (h i)) \<Longrightarrow>
     rfold (\<lambda>i out. rbind (g i) (\<lambda>sk. Inr (out(i \<mapsto> sk)))) xs m = Inr (\<lambda>i. if i \<in> set xs then Some (h i) else m i)"
  by (induction xs arbitrary: m) (simp_all add: fun_eq_iff)

lemma runDkg_result:
  assumes "1 \<le> t"
  defines "q \<equiv> \<lambda>sha seed e byz ids. qualIn sha seed e t byz ids"
  shows "runDkg sha e ids t seed byz = Inr
    (if t \<le> length (q sha seed e byz ids) then (resultIn sha seed e t byz ids)
       \<lparr>dv_pkEpoch := Some (gexp (polyval (jointPoly sha seed e t (q sha seed e byz ids)) 0)),
        dg_shares := (\<lambda>i. if i \<in> set (q sha seed e byz ids)
          then Some (polyval (jointPoly sha seed e t (q sha seed e byz ids)) i mod GROUP_q) else None)\<rparr>
     else resultIn sha seed e t byz ids)"
proof -
  note sub = qualIn_subset [of sha seed e t byz ids]
  show ?thesis unfolding runDkg_eq Let_def q_def epochKey_eq [OF assms(1) sub]
    by (subst out_shares [where h = "\<lambda>i. polyval (jointPoly sha seed e t (qualIn sha seed e t byz ids)) i mod GROUP_q"])
      (simp_all add: secretShare_eq [OF sub])
qed

subsection \<open>Properties\<close>

text \<open>
  C26: exact accountability. A run with a positive threshold returns, and a member is slashed exactly
  when it sent some member a wrong share, or withheld a share and never reveals; the members that
  qualify are the others, in committee order. Honest dealers are never slashed.
\<close>

theorem dkg_slashes_exactly_cheaters:
  assumes "1 \<le> t"
  shows "\<exists>res. runDkg sha e ids t seed byz = Inr res
    \<and> set (dv_slashed res) =
        {d \<in> set ids. \<exists>to\<in>set ids. if withholds byz d to then d \<in> set (bz_noReveal byz) else equivocates byz d to}
    \<and> dv_qual res = filter (\<lambda>i. i \<notin> set (dv_slashed res)) ids
    \<and> dv_ok res = (t \<le> length (dv_qual res))"
  by (simp add: runDkg_result [OF assms] resultIn_def slashedIn_set qualIn_def)

text \<open>
  C27: the transcript verifier agrees with the run. From the published messages alone it computes the
  same qualified set, slashed set, outcome and epoch key as the protocol run that produced them.
\<close>

theorem transcript_verifier_agrees:
  assumes "runDkg sha e ids t seed byz = Inr res"
  shows "verifyDkgTranscript e ids t (dg_onchain res) = Inr (DkgVerdict.truncate res)"
proof -
  have "dg_onchain res = onchainIn sha seed e t byz ids"
    using assms by (auto simp: runDkg_eq resultIn_def Let_def split: if_splits)
  then show ?thesis using assms
    by (auto simp: verifyDkgTranscript_eq runDkg_eq DkgVerdict.truncate_def Let_def split: if_splits)
qed

text \<open>
  C25: any threshold of shares holds the epoch key. When a run with member numbers in \<open>1..255\<close>
  succeeds, the shares of every sufficiently large list of different qualified members reconstruct a
  secret whose public key is the published one, and their hand shares for any derivation scalar
  reconstruct a secret whose public key is the derived hand key.
\<close>

theorem threshold_holds_epoch_key:
  assumes "runDkg sha e ids t seed byz = Inr res" and "dv_ok res" and "1 \<le> t" and "\<forall>i\<in>set ids. valid_index i"
    and "distinct xs" and "set xs \<subseteq> set (dv_qual res)" and "t \<le> length xs" and "0 \<le> k"
  shows "\<exists>pk s s'. dv_pkEpoch res = Some pk \<and> (\<forall>i\<in>set xs. dg_shares res i \<noteq> None)
    \<and> reconstructSecretFromShares (map (\<lambda>i. (i, the (dg_shares res i))) xs) = Inr s
    \<and> publicKeyFromSecret s = Inr pk
    \<and> reconstructSecretFromShares (map (\<lambda>i. (i, deriveHandSecretShare (the (dg_shares res i)) k)) xs) = Inr s'
    \<and> publicKeyFromSecret s' = deriveHandPublicKey pk k"
proof -
  let ?q = "qualIn sha seed e t byz ids"
  let ?F = "jointPoly sha seed e t ?q"
  have ok: "t \<le> length ?q"
    using assms(1,2) by (auto simp: runDkg_result [OF assms(3)] resultIn_def split: if_splits)
  with assms(1) have res: "res = (resultIn sha seed e t byz ids)\<lparr>dv_pkEpoch := Some (gexp (polyval ?F 0)),
      dg_shares := (\<lambda>i. if i \<in> set ?q then Some (polyval ?F i mod GROUP_q) else None)\<rparr>"
    by (simp add: runDkg_result [OF assms(3)])
  then have xs: "set xs \<subseteq> set ?q" using assms(6) by (simp add: resultIn_def)
  then have v: "\<forall>i\<in>set xs. valid_index i" using assms(4) qualIn_subset by blast
  have sh: "dg_shares res i = Some (polyval ?F i mod GROUP_q)" if "i \<in> set xs" for i
    using that xs by (auto simp: res)
  have "reconstructSecretFromShares (map (\<lambda>i. (i, the (dg_shares res i))) xs) = Inr (polyval ?F 0 mod GROUP_q)"
    unfolding reconstructSecretFromShares_def
    by (rule lagrangeInterpolateAt0_ok [OF assms(5) v]) (use assms(7) sh in simp_all)
  moreover have "reconstructSecretFromShares (map (\<lambda>i. (i, deriveHandSecretShare (the (dg_shares res i)) k)) xs)
      = Inr (polyval (map (\<lambda>c. c * k) ?F) 0 mod GROUP_q)"
    unfolding reconstructSecretFromShares_def
    by (rule lagrangeInterpolateAt0_ok [OF assms(5) v])
      (use assms(7) sh in \<open>simp_all add: deriveHandSecretShare_def dkgMod_eq polyval_scale mod_mult_left_eq\<close>)
  moreover have "publicKeyFromSecret (polyval ?F 0 mod GROUP_q) = Inr (gexp (polyval ?F 0))"
    by (simp add: publicKeyFromSecret_def dkgMod_eq powMod_g)
  moreover have "publicKeyFromSecret (polyval (map (\<lambda>c. c * k) ?F) 0 mod GROUP_q) = deriveHandPublicKey (gexp (polyval ?F 0)) k"
    using assms(8) by (simp add: publicKeyFromSecret_def deriveHandPublicKey_def dkgMod_eq powMod_g powMod_gexp polyval_scale)
  moreover have "dv_pkEpoch res = Some (gexp (polyval ?F 0))" by (simp add: res)
  ultimately show ?thesis using sh by auto
qed

subsection \<open>Witnesses\<close>

text \<open>Member 1 withholds every share but reveals them, member 2 sends member 3 a wrong share.\<close>

definition demo_byz :: Byzantine where
  "demo_byz = \<lparr>bz_equivocate = [(2, 3)], bz_withhold = [(1, None)], bz_noReveal = []\<rparr>"

definition demo_sha :: "byte list \<Rightarrow> byte list" where "demo_sha x = [5]"

lemma demo_cheaters:
  "{d \<in> set [1, 2, 3]. \<exists>to\<in>set [1, 2, 3].
      if withholds demo_byz d to then d \<in> set (bz_noReveal demo_byz) else equivocates demo_byz d to} = {2}"
  by (auto simp: withholds_def equivocates_def demo_byz_def)

theorem dkg_slashes_exactly_cheaters_witness:
  "\<exists>res. runDkg demo_sha 1 [1, 2, 3] 2 ''seed'' demo_byz = Inr res
    \<and> set (dv_slashed res) = {2} \<and> dv_qual res = [1, 3] \<and> dv_ok res"
  using dkg_slashes_exactly_cheaters [of 2 demo_sha 1 "[1, 2, 3]" "''seed''" demo_byz]
  unfolding demo_cheaters by auto

lemma demo_run:
  "\<exists>res. runDkg demo_sha 1 [1, 2, 3] 2 ''seed'' demo_byz = Inr res \<and> dv_ok res \<and> dv_qual res = [1, 3]"
proof -
  have "set (slashedIn demo_sha ''seed'' 1 2 demo_byz [1, 2, 3]) = {2}"
    unfolding slashedIn_set by (rule demo_cheaters)
  then have "qualIn demo_sha ''seed'' 1 2 demo_byz [1, 2, 3] = [1, 3]" by (simp add: qualIn_def)
  then show ?thesis by (simp add: runDkg_result resultIn_def)
qed

theorem transcript_verifier_agrees_witness:
  "\<exists>res. runDkg demo_sha 1 [1, 2, 3] 2 ''seed'' demo_byz = Inr res
    \<and> verifyDkgTranscript 1 [1, 2, 3] 2 (dg_onchain res) = Inr (DkgVerdict.truncate res)"
  using demo_run transcript_verifier_agrees by blast

theorem threshold_holds_epoch_key_witness:
  "\<exists>res pk s s'. runDkg demo_sha 1 [1, 2, 3] 2 ''seed'' demo_byz = Inr res \<and> dv_pkEpoch res = Some pk
    \<and> reconstructSecretFromShares (map (\<lambda>i. (i, the (dg_shares res i))) [3, 1]) = Inr s \<and> publicKeyFromSecret s = Inr pk
    \<and> reconstructSecretFromShares (map (\<lambda>i. (i, deriveHandSecretShare (the (dg_shares res i)) 9)) [3, 1]) = Inr s'
    \<and> publicKeyFromSecret s' = deriveHandPublicKey pk 9"
proof -
  obtain res where r: "runDkg demo_sha 1 [1, 2, 3] 2 ''seed'' demo_byz = Inr res" "dv_ok res" "dv_qual res = [1, 3]"
    using demo_run by blast
  have v: "\<forall>i\<in>set [1, 2, 3 :: int]. valid_index i" by (simp add: valid_index_def)
  have x: "distinct [3, 1 :: int]" "set [3, 1] \<subseteq> set (dv_qual res)" "2 \<le> length [3, 1 :: int]" using r(3) by simp_all
  show ?thesis using threshold_holds_epoch_key [OF r(1,2) _ v x, of 9] r(1) by auto
qed

end
