(* ===== verification/Simulation.thy ===== *)
theory Simulation
  imports Crypto_Bytes "HOL-Library.AList"
begin

unbundle bit_operations_syntax

text \<open>
  The table simulator, \<^verbatim>\<open>apps/sim/src\<close>: hands dealt by a committee of validators and played by
  scripted players, with slashing of stakes and bonds, aborts and refunds. The world is passed
  explicitly and every update of a player, validator or hand object is an update of it; a
  \<^verbatim>\<open>Map\<close> is an association list in insertion order; a thrown error is a value of \<open>SimError\<close>. Amounts
  are integers. Behaviours are functions of the context they are given, and SHA-256 is a parameter.
\<close>

subsection \<open>Data\<close>

datatype PlayerStatus = Seated | InHand | Folded | SitOut | Ejected

datatype ValidatorStatus = Active | Jailed

datatype SimPhase =
    HandInit | Shuffle | DealHole | PreflopBetting | FlopReveal | TurnReveal | RiverReveal | Showdown
  | HandComplete | HandAborted

record SimParams =
  sp_smallBlind :: int
  sp_bigBlind :: int
  sp_playerBondMin :: int
  sp_playerTimeoutSlash :: int
  sp_dealerSlash :: int

record SimConfig =
  cf_seed :: int
  cf_tableId :: string
  cf_params :: SimParams
  cf_playerCount :: js_number
  cf_startingStack :: int
  cf_startingBond :: int
  cf_validatorSetSize :: int
  cf_committeeSize :: int
  cf_thresholdT :: int
  cf_startingValidatorStake :: int
  cf_committeePlan :: "string list list option"
  cf_refundBlindsOnPreActionAbort :: bool
  cf_coordinatorOnline :: bool
  cf_hands :: int
  cf_rotateCommitteeEveryHand :: bool

record Player =
  pl_id :: string
  pl_seat :: nat
  pl_stack :: int
  pl_committed :: int
  pl_bond :: int
  pl_status :: PlayerStatus
  pl_timeoutCount :: nat

record Validator =
  va_id :: string
  va_stake :: int
  va_status :: ValidatorStatus
  va_slashCount :: nat

record Committee =
  co_epochId :: nat
  co_members :: "string list"
  co_thresholdT :: int

record DealerState =
  ds_committee :: Committee
  ds_deck :: "nat list option"
  ds_deckCommit :: "string option"
  ds_deckCursor :: nat

record SimHand =
  sh_handId :: nat
  sh_phase :: SimPhase
  sh_dealer :: DealerState
  sh_board :: "nat list"
  sh_holeCards :: "(string \<times> nat list) list"
  sh_potTotal :: int
  sh_didBetBeyondBlinds :: bool
  sh_abortedReason :: "string option"

record SimTable =
  tb_tableId :: string
  tb_params :: SimParams
  tb_players :: "Player list"
  tb_hand :: "SimHand option"
  tb_buttonSeat :: nat

text \<open>The last three fields are the ones the code hangs on the world under \<^verbatim>\<open>any\<close>.\<close>

record WorldState =
  ws_config :: SimConfig
  ws_treasury :: int
  ws_validators :: "(string \<times> Validator) list"
  ws_table :: SimTable
  ws_epochId :: nat
  ws_nextHandId :: nat
  ws_committeeIndex :: nat
  ws_nextCommittee :: "Committee option"
  ws_initialTotal :: "int option"

datatype SimStreet = SimFlop | SimTurn | SimRiver

datatype SimEvent =
    TableCreated string
  | HandStarted string nat nat "string list"
  | DeckFinalized string nat string
  | StreetRevealed string nat SimStreet "nat list"
  | SimActionApplied string nat string string
  | SimTimeoutApplied string nat string string
  | PlayerSlashed string string int
  | PlayerEjected string string
  | ValidatorSlashed string string int
  | SimHandAborted string nat string
  | SimHandCompleted string nat string int

datatype ValidatorDecision = SubmitValid | SubmitInvalid | Withhold

record ValidatorBehavior =
  onShuffle :: "nat \<Rightarrow> nat \<Rightarrow> nat \<Rightarrow> ValidatorDecision"
  onEncShare :: "nat \<Rightarrow> nat \<Rightarrow> nat \<Rightarrow> string \<Rightarrow> ValidatorDecision"
  onPubShare :: "nat \<Rightarrow> nat \<Rightarrow> nat \<Rightarrow> ValidatorDecision"

datatype PlayerAction = PFold | PCall | PCheck | PRaiseTo int | PWithhold

text \<open>\<^verbatim>\<open>onPreflopAction\<close> of the hand id, the player id, the amount to call and the minimum raise.\<close>

type_synonym PlayerBehavior = "nat \<Rightarrow> string \<Rightarrow> int \<Rightarrow> int \<Rightarrow> PlayerAction"

record Behaviors =
  be_validator :: "string \<Rightarrow> ValidatorBehavior option"
  be_player :: "string \<Rightarrow> PlayerBehavior option"

text \<open>The errors: the first six are thrown by \<^verbatim>\<open>assertInvariants\<close>.\<close>

datatype SimError =
    NegativeStake | NegativeStack | NegativeCommitted | NegativeBond | ChipsNotConserved | DeckCursorOutOfBounds
  | PrngBounds | BadPlayerCount | NotEnoughValidators | BadCommitteePlan | HandNotStarted
  | TooFewSeated | NoSeatedPlayer | InsufficientStack | DeckNotInitialized | InvalidDeckPos
  | MissingValidatorBehavior | MissingPlayerBehavior | ShareCtxIncomplete | HoleCardsUndefined

definition invariantError :: "SimError \<Rightarrow> bool" where
  "invariantError e \<longleftrightarrow>
     e \<in> {NegativeStake, NegativeStack, NegativeCommitted, NegativeBond, ChipsNotConserved, DeckCursorOutOfBounds}"

type_synonym simulated = "WorldState \<times> SimEvent list"

text \<open>A number in a template string.\<close>

definition showInt :: "int \<Rightarrow> string" where
  "showInt i = (if i < 0 then ''-'' @ showNat (nat (- i)) else showNat (nat i))"

subsection \<open>Random numbers\<close>

text \<open>
  The state \<^verbatim>\<open>a\<close> of the generator is a number that grows; the bit operators take it modulo
  \<open>2 ^ 32\<close>, so the arithmetic is that of 32-bit words. The bounds of \<^verbatim>\<open>Prng.int\<close> are integers at every
  call, so only the second of its checks can fail.
\<close>

definition prngNew :: "int \<Rightarrow> int" where
  "prngNew seed = (let a = seed mod 2 ^ 32 in if a = 0 then 1831565813 else a)"

definition nextU32 :: "int \<Rightarrow> int \<times> int" where
  "nextU32 a =
     (let a' = a + 1831565813;
          t = (word_of_int a' :: 32 word);
          t = (t XOR drop_bit 15 t) * (t OR 1);
          t = t XOR (t + (t XOR drop_bit 7 t) * (t OR 61))
      in (uint (t XOR drop_bit 14 t), a'))"

definition prngInt :: "int \<Rightarrow> int \<Rightarrow> int \<Rightarrow> SimError + (int \<times> int)" where
  "prngInt a minInclusive maxExclusive =
     (if maxExclusive \<le> minInclusive then Inl PrngBounds
      else let span = maxExclusive - minInclusive; (u, a) = nextU32 a in Inr (minInclusive + u mod span, a))"

fun shuffleFrom :: "nat \<Rightarrow> 'a list \<Rightarrow> int \<Rightarrow> SimError + ('a list \<times> int)" where
  "shuffleFrom 0 arr a = Inr (arr, a)"
| "shuffleFrom (Suc i) arr a =
     rbind (prngInt a 0 (int (Suc i) + 1)) (\<lambda>(j, a).
       shuffleFrom i (arr[Suc i := arr ! nat j, nat j := arr ! Suc i]) a)"

definition shuffleInPlace :: "'a list \<Rightarrow> int \<Rightarrow> SimError + ('a list \<times> int)" where
  "shuffleInPlace arr a = shuffleFrom (length arr - 1) arr a"

subsection \<open>Invariants\<close>

definition playerTotal :: "Player \<Rightarrow> int" where
  "playerTotal p = pl_stack p + pl_committed p + pl_bond p"

definition worldTotal :: "WorldState \<Rightarrow> int" where
  "worldTotal world =
     ws_treasury world + sum_list (map (va_stake \<circ> snd) (ws_validators world))
     + sum_list (map playerTotal (tb_players (ws_table world)))"

definition checkValidator :: "Validator \<Rightarrow> SimError + unit" where
  "checkValidator v = guard_else (\<not> va_stake v < 0) NegativeStake"

definition checkPlayer :: "Player \<Rightarrow> SimError + unit" where
  "checkPlayer p =
     rbind (guard_else (\<not> pl_stack p < 0) NegativeStack) (\<lambda>_.
     rbind (guard_else (\<not> pl_committed p < 0) NegativeCommitted) (\<lambda>_.
     guard_else (\<not> pl_bond p < 0) NegativeBond))"

definition assertInvariants :: "WorldState \<Rightarrow> SimError + WorldState" where
  "assertInvariants world =
     rbind (rmap checkValidator (map snd (ws_validators world))) (\<lambda>_.
     rbind (rmap checkPlayer (tb_players (ws_table world))) (\<lambda>_.
     rbind (case ws_initialTotal world of
              None \<Rightarrow> Inr (world\<lparr>ws_initialTotal := Some (worldTotal world)\<rparr>)
            | Some t \<Rightarrow> if worldTotal world \<noteq> t then Inl ChipsNotConserved else Inr world) (\<lambda>world.
     case tb_hand (ws_table world) of
       None \<Rightarrow> Inr world
     | Some hand \<Rightarrow> if 52 < ds_deckCursor (sh_dealer hand) then Inl DeckCursorOutOfBounds else Inr world)))"

subsection \<open>Helpers of the simulator\<close>

definition playerId :: "nat \<Rightarrow> string" where
  "playerId i = ''P'' @ showNat i"

definition validatorId :: "nat \<Rightarrow> string" where
  "validatorId i = ''V'' @ showNat i"

definition sumCommitted :: "Player list \<Rightarrow> int" where
  "sumCommitted players = sum_list (map pl_committed players)"

text \<open>Objects of the table are named by their index in \<^verbatim>\<open>table.players\<close>.\<close>

definition isActiveInHand :: "Player \<Rightarrow> bool" where
  "isActiveInHand p \<longleftrightarrow> pl_status p = InHand \<or> pl_status p = Folded \<or> pl_status p = Ejected"

definition remainingPlayers :: "SimTable \<Rightarrow> nat list" where
  "remainingPlayers table =
     filter (\<lambda>i. pl_status (tb_players table ! i) = InHand) [0..<length (tb_players table)]"

definition findPlayer :: "(Player \<Rightarrow> bool) \<Rightarrow> Player list \<Rightarrow> nat option" where
  "findPlayer P players = find (\<lambda>i. P (players ! i)) [0..<length players]"

definition putPlayers :: "Player list \<Rightarrow> WorldState \<Rightarrow> WorldState" where
  "putPlayers ps world = world\<lparr>ws_table := (ws_table world)\<lparr>tb_players := ps\<rparr>\<rparr>"

definition putHand :: "SimHand \<Rightarrow> WorldState \<Rightarrow> WorldState" where
  "putHand hand world = world\<lparr>ws_table := (ws_table world)\<lparr>tb_hand := Some hand\<rparr>\<rparr>"

abbreviation playersOf :: "WorldState \<Rightarrow> Player list" where
  "playersOf world \<equiv> tb_players (ws_table world)"

definition needHand :: "WorldState \<Rightarrow> SimError + SimHand" where
  "needHand world = (case tb_hand (ws_table world) of None \<Rightarrow> Inl HandNotStarted | Some hand \<Rightarrow> Inr hand)"

definition slashValidator :: "string \<Rightarrow> string \<Rightarrow> simulated \<Rightarrow> simulated" where
  "slashValidator vId reason s =
     (let (world, events) = s in
      case map_of (ws_validators world) vId of
        None \<Rightarrow> (world, events)
      | Some v \<Rightarrow>
          if va_status v \<noteq> Active then (world, events)
          else let amt = min (sp_dealerSlash (cf_params (ws_config world))) (va_stake v);
                   v = v\<lparr>va_stake := va_stake v - amt, va_slashCount := va_slashCount v + 1, va_status := Jailed\<rparr>
               in (world\<lparr>ws_validators := AList.update vId v (ws_validators world), ws_treasury := ws_treasury world + amt\<rparr>,
                   events @ [ValidatorSlashed vId reason amt]))"

definition slashPlayer :: "string \<Rightarrow> string \<Rightarrow> simulated \<Rightarrow> simulated" where
  "slashPlayer pid reason s =
     (let (world, events) = s in
      case findPlayer (\<lambda>x. pl_id x = pid) (playersOf world) of
        None \<Rightarrow> (world, events)
      | Some i \<Rightarrow>
          let p = playersOf world ! i;
              amt = min (sp_playerTimeoutSlash (cf_params (ws_config world))) (pl_bond p);
              p = p\<lparr>pl_bond := pl_bond p - amt, pl_timeoutCount := pl_timeoutCount p + 1\<rparr>;
              events = events @ [PlayerSlashed pid reason amt];
              ejected = (pl_bond p < sp_playerBondMin (cf_params (ws_config world)) \<and> pl_status p \<noteq> Ejected);
              p = (if ejected then p\<lparr>pl_status := Ejected\<rparr> else p)
          in (putPlayers ((playersOf world)[i := p]) (world\<lparr>ws_treasury := ws_treasury world + amt\<rparr>),
              if ejected then events @ [PlayerEjected pid ''bond below minimum''] else events))"

definition applyTimeoutDefaultAction :: "int \<Rightarrow> PlayerAction \<times> string" where
  "applyTimeoutDefaultAction toCall = (if toCall = 0 then (PCheck, ''check'') else (PFold, ''fold''))"

definition normalizePlayerAction :: "PlayerAction \<Rightarrow> int \<Rightarrow> PlayerAction" where
  "normalizePlayerAction action toCall =
     (if action = PCheck \<and> toCall \<noteq> 0 then PFold
      else if action = PCall \<and> toCall = 0 then PCheck
      else action)"

definition dealFromDeck :: "WorldState \<Rightarrow> nat \<Rightarrow> SimError + nat" where
  "dealFromDeck world pos =
     (case tb_hand (ws_table world) of
        None \<Rightarrow> Inl DeckNotInitialized
      | Some hand \<Rightarrow>
          (case ds_deck (sh_dealer hand) of
             None \<Rightarrow> Inl DeckNotInitialized
           | Some deck \<Rightarrow> if length deck \<le> pos then Inl InvalidDeckPos else Inr (deck ! pos)))"

definition verifyShuffleIsPermutation :: "nat list \<Rightarrow> nat list \<Rightarrow> bool" where
  "verifyShuffleIsPermutation prev nxt \<longleftrightarrow>
     length prev = length nxt \<and> list_all (\<lambda>(x, y). x = y) (zip (sort prev) (sort nxt))"

datatype ShareKind = ShuffleKind | EncKind | PubKind

record ShareCtx =
  ctx_epochId :: nat
  ctx_handId :: nat
  ctx_round :: "nat option"
  ctx_pos :: "nat option"
  ctx_playerId :: "string option"

definition decisionOf :: "ValidatorBehavior \<Rightarrow> ShareKind \<Rightarrow> ShareCtx \<Rightarrow> SimError + ValidatorDecision" where
  "decisionOf b kind ctx =
     (case kind of
        ShuffleKind \<Rightarrow>
          Inr (onShuffle b (ctx_epochId ctx) (ctx_handId ctx) (case ctx_round ctx of Some r \<Rightarrow> r | None \<Rightarrow> 0))
      | EncKind \<Rightarrow>
          (case (ctx_pos ctx, ctx_playerId ctx) of
             (Some pos, Some pid) \<Rightarrow>
               if pid = [] then Inl ShareCtxIncomplete else Inr (onEncShare b (ctx_epochId ctx) (ctx_handId ctx) pos pid)
           | _ \<Rightarrow> Inl ShareCtxIncomplete)
      | PubKind \<Rightarrow>
          (case ctx_pos ctx of
             Some pos \<Rightarrow> Inr (onPubShare b (ctx_epochId ctx) (ctx_handId ctx) pos)
           | None \<Rightarrow> Inl ShareCtxIncomplete))"

definition collectValidatorDecisions ::
  "WorldState \<Rightarrow> (string \<Rightarrow> ValidatorBehavior option) \<Rightarrow> ShareKind \<Rightarrow> ShareCtx
   \<Rightarrow> SimError + (string \<times> ValidatorDecision) list" where
  "collectValidatorDecisions world behavior kind ctx =
     rbind (needHand world) (\<lambda>hand.
     rfold (\<lambda>vId decisions.
       case map_of (ws_validators world) vId of
         None \<Rightarrow> Inr decisions
       | Some v \<Rightarrow>
           if va_status v \<noteq> Active then Inr decisions
           else case behavior vId of
               None \<Rightarrow> Inl MissingValidatorBehavior
             | Some b \<Rightarrow> rbind (decisionOf b kind ctx) (\<lambda>d. Inr (AList.update vId d decisions)))
       (co_members (ds_committee (sh_dealer hand))) [])"

subsection \<open>Set-up\<close>

definition createDefaultConfig :: "int \<Rightarrow> SimConfig" where
  "createDefaultConfig seed =
     \<lparr>cf_seed = seed, cf_tableId = ''T1'',
      cf_params = \<lparr>sp_smallBlind = 1, sp_bigBlind = 2, sp_playerBondMin = 10, sp_playerTimeoutSlash = 2, sp_dealerSlash = 50\<rparr>,
      cf_playerCount = 6, cf_startingStack = 100, cf_startingBond = 20, cf_validatorSetSize = 6, cf_committeeSize = 4,
      cf_thresholdT = 3, cf_startingValidatorStake = 200, cf_committeePlan = None,
      cf_refundBlindsOnPreActionAbort = True, cf_coordinatorOnline = True, cf_hands = 1,
      cf_rotateCommitteeEveryHand = False\<rparr>"

text \<open>\<^verbatim>\<open>arr.slice(0, n)\<close>, which counts a negative \<open>n\<close> from the end.\<close>

definition sliceTo :: "'a list \<Rightarrow> int \<Rightarrow> 'a list" where
  "sliceTo xs n = take (nat (if n < 0 then int (length xs) + n else n)) xs"

definition selectCommittee :: "WorldState \<Rightarrow> int \<Rightarrow> SimError + (Committee \<times> int)" where
  "selectCommittee world prng =
     (let ids = map va_id (filter (\<lambda>v. va_status v = Active) (map snd (ws_validators world))) in
      if int (length ids) < cf_committeeSize (ws_config world) then Inl NotEnoughValidators
      else rbind (shuffleInPlace ids prng) (\<lambda>(ids, prng).
        Inr (\<lparr>co_epochId = ws_epochId world, co_members = sliceTo ids (cf_committeeSize (ws_config world)),
              co_thresholdT = cf_thresholdT (ws_config world)\<rparr>, prng)))"

definition createWorld :: "SimConfig \<Rightarrow> int \<Rightarrow> SimError + (WorldState \<times> int)" where
  "createWorld config prng =
     (let validators = foldl (\<lambda>m i. AList.update (validatorId i)
            \<lparr>va_id = validatorId i, va_stake = cf_startingValidatorStake config, va_status = Active, va_slashCount = 0\<rparr> m)
            [] [0..<nat (cf_validatorSetSize config)] in
      if \<not> isInteger (cf_playerCount config) \<or> cf_playerCount config < 2 \<or> cf_playerCount config > 9 then Inl BadPlayerCount
      else let players = map (\<lambda>i. \<lparr>pl_id = playerId i, pl_seat = i, pl_stack = cf_startingStack config, pl_committed = 0,
                 pl_bond = cf_startingBond config, pl_status = Seated, pl_timeoutCount = 0\<rparr>)
                 [0..<nat \<lfloor>cf_playerCount config\<rfloor>];
               world = \<lparr>ws_config = config, ws_treasury = 0, ws_validators = validators,
                 ws_table = \<lparr>tb_tableId = cf_tableId config, tb_params = cf_params config, tb_players = players,
                             tb_hand = None, tb_buttonSeat = 0\<rparr>,
                 ws_epochId = 1, ws_nextHandId = 1, ws_committeeIndex = 0, ws_nextCommittee = None, ws_initialTotal = None\<rparr>
           in rbind (case cf_committeePlan config of
                       Some (members # _) \<Rightarrow>
                         Inr (\<lparr>co_epochId = ws_epochId world, co_members = members, co_thresholdT = cf_thresholdT config\<rparr>, prng)
                     | _ \<Rightarrow> selectCommittee world prng) (\<lambda>(c, prng).
              rbind (assertInvariants (world\<lparr>ws_nextCommittee := Some c\<rparr>)) (\<lambda>world. Inr (world, prng))))"

definition checkPlanned :: "WorldState \<Rightarrow> string \<Rightarrow> SimError + unit" where
  "checkPlanned world vId =
     (case map_of (ws_validators world) vId of
        None \<Rightarrow> Inl BadCommitteePlan
      | Some v \<Rightarrow> guard_else (va_status v = Active) BadCommitteePlan)"

definition getNextCommittee :: "WorldState \<Rightarrow> int \<Rightarrow> SimError + (Committee \<times> WorldState \<times> int)" where
  "getNextCommittee world prng =
     (let idx = ws_committeeIndex world;
          planned = (case cf_committeePlan (ws_config world) of
                       None \<Rightarrow> None
                     | Some plan \<Rightarrow> if idx < length plan then Some (plan ! idx) else None)
      in case planned of
           Some members \<Rightarrow>
             if int (length members) \<noteq> cf_committeeSize (ws_config world) then Inl BadCommitteePlan
             else rbind (rmap (checkPlanned world) members) (\<lambda>_.
               Inr (\<lparr>co_epochId = ws_epochId world, co_members = members, co_thresholdT = cf_thresholdT (ws_config world)\<rparr>,
                    world, prng))
         | None \<Rightarrow>
             (case ws_nextCommittee world of
                Some c \<Rightarrow> Inr (c, world, prng)
              | None \<Rightarrow> rbind (selectCommittee world prng) (\<lambda>(c, prng).
                  Inr (c, world\<lparr>ws_nextCommittee := Some c\<rparr>, prng))))"

definition rotateCommittee :: "WorldState \<Rightarrow> int \<Rightarrow> SimError + (WorldState \<times> int)" where
  "rotateCommittee world prng =
     (let world = world\<lparr>ws_epochId := ws_epochId world + 1\<rparr> in
      if cf_committeePlan (ws_config world) \<noteq> None
      then rbind (getNextCommittee world prng) (\<lambda>(_, world, prng). Inr (world, prng))
      else rbind (selectCommittee world prng) (\<lambda>(c, prng). Inr (world\<lparr>ws_nextCommittee := Some c\<rparr>, prng)))"

subsection \<open>Start of a hand\<close>

definition resetPlayer :: "SimParams \<Rightarrow> Player \<Rightarrow> Player" where
  "resetPlayer params p =
     (let p = p\<lparr>pl_committed := 0\<rparr> in
      if pl_status p = Ejected then p
      else if pl_bond p < sp_playerBondMin params then p\<lparr>pl_status := SitOut\<rparr>
      else p\<lparr>pl_status := Seated\<rparr>)"

definition simStartHand :: "simulated \<Rightarrow> int \<Rightarrow> SimError + (simulated \<times> int)" where
  "simStartHand s prng =
     (let (world, events) = s in
      rbind (getNextCommittee world prng) (\<lambda>(committee, world, prng).
      let world = putPlayers (map (resetPlayer (tb_params (ws_table world))) (playersOf world)) world;
          hand = \<lparr>sh_handId = ws_nextHandId world, sh_phase = HandInit,
                  sh_dealer = \<lparr>ds_committee = committee, ds_deck = None, ds_deckCommit = None, ds_deckCursor = 0\<rparr>,
                  sh_board = [], sh_holeCards = [], sh_potTotal = 0, sh_didBetBeyondBlinds = False, sh_abortedReason = None\<rparr>;
          world = putHand hand (world\<lparr>ws_nextHandId := ws_nextHandId world + 1\<rparr>);
          events = events @ [HandStarted (tb_tableId (ws_table world)) (sh_handId hand) (co_epochId committee) (co_members committee)];
          world = (if cf_committeePlan (ws_config world) \<noteq> None
                   then world\<lparr>ws_committeeIndex := ws_committeeIndex world + 1\<rparr> else world)
      in Inr ((world, events), prng)))"

definition nextSeatedFrom :: "Player list \<Rightarrow> nat \<Rightarrow> SimError + nat" where
  "nextSeatedFrom players startSeatExclusive =
     (case find (\<lambda>k. case k of None \<Rightarrow> False | Some j \<Rightarrow> pl_status (players ! j) = Seated)
             (map (\<lambda>i. findPlayer (\<lambda>x. pl_seat x = (startSeatExclusive + i) mod length players) players)
               [1..<length players + 1]) of
        Some (Some j) \<Rightarrow> Inr j
      | _ \<Rightarrow> Inl NoSeatedPlayer)"

text \<open>Chips move from the stack of a player to what the player has committed.\<close>

definition commitChips :: "nat \<Rightarrow> int \<Rightarrow> Player list \<Rightarrow> Player list" where
  "commitChips i amt players =
     players[i := (players ! i)\<lparr>pl_stack := pl_stack (players ! i) - amt, pl_committed := pl_committed (players ! i) + amt\<rparr>]"

definition simPostBlinds :: "WorldState \<Rightarrow> SimError + WorldState" where
  "simPostBlinds world =
     rbind (needHand world) (\<lambda>hand.
     let players = playersOf world in
     if length (filter (\<lambda>p. pl_status p = Seated) players) < 2 then Inl TooFewSeated
     else rbind (nextSeatedFrom players (tb_buttonSeat (ws_table world))) (\<lambda>sb.
     rbind (nextSeatedFrom players (pl_seat (players ! sb))) (\<lambda>bb.
     let sbAmt = sp_smallBlind (tb_params (ws_table world)); bbAmt = sp_bigBlind (tb_params (ws_table world)) in
     if pl_stack (players ! sb) < sbAmt \<or> pl_stack (players ! bb) < bbAmt then Inl InsufficientStack
     else let players = commitChips bb bbAmt (commitChips sb sbAmt players)
          in Inr (putHand (hand\<lparr>sh_potTotal := sumCommitted players\<rparr>) (putPlayers players world)))))"

definition initDeck :: "WorldState \<Rightarrow> SimError + WorldState" where
  "initDeck world =
     rbind (needHand world) (\<lambda>hand. Inr (putHand (hand\<lparr>sh_dealer := (sh_dealer hand)\<lparr>ds_deck := Some [0..<52]\<rparr>\<rparr>) world))"

definition shuffleRound :: "Behaviors \<Rightarrow> nat \<times> string \<Rightarrow> simulated \<times> int \<Rightarrow> SimError + (simulated \<times> int)" where
  "shuffleRound behaviors entry sp =
     (let (rd, shufflerId) = entry; ((world, events), prng) = sp in
      case map_of (ws_validators world) shufflerId of
        None \<Rightarrow> Inr sp
      | Some shuffler \<Rightarrow>
          if va_status shuffler \<noteq> Active then Inr sp
          else case be_validator behaviors shufflerId of
              None \<Rightarrow> Inl MissingValidatorBehavior
            | Some b \<Rightarrow>
                rbind (needHand world) (\<lambda>hand.
                case onShuffle b (co_epochId (ds_committee (sh_dealer hand))) (sh_handId hand) rd of
                  Withhold \<Rightarrow> Inr (slashValidator shufflerId (''withheld shuffle round '' @ showNat rd) (world, events), prng)
                | SubmitInvalid \<Rightarrow> Inr (slashValidator shufflerId (''invalid shuffle proof round '' @ showNat rd) (world, events), prng)
                | SubmitValid \<Rightarrow>
                    (case ds_deck (sh_dealer hand) of
                       None \<Rightarrow> Inl DeckNotInitialized
                     | Some prev \<Rightarrow>
                         rbind (shuffleInPlace prev prng) (\<lambda>(nxt, prng).
                         if \<not> verifyShuffleIsPermutation prev nxt
                         then Inr (slashValidator shufflerId (''shuffle not a permutation round '' @ showNat rd) (world, events), prng)
                         else Inr ((putHand (hand\<lparr>sh_dealer := (sh_dealer hand)\<lparr>ds_deck := Some nxt\<rparr>\<rparr>) world, events), prng)))))"

fun join :: "string \<Rightarrow> string list \<Rightarrow> string" where
  "join sep [] = []"
| "join sep [x] = x"
| "join sep (x # y # xs) = x @ sep @ join sep (y # xs)"

definition runShuffle :: "(string \<Rightarrow> string) \<Rightarrow> Behaviors \<Rightarrow> simulated \<Rightarrow> int \<Rightarrow> SimError + (simulated \<times> int)" where
  "runShuffle sha256Hex behaviors s prng =
     (let (world, events) = s in
      rbind (needHand world) (\<lambda>hand.
      let hand = hand\<lparr>sh_phase := Shuffle\<rparr>; world = putHand hand world in
      if ds_deck (sh_dealer hand) = None then Inl DeckNotInitialized
      else rbind (rfold (shuffleRound behaviors) (enumerate 0 (co_members (ds_committee (sh_dealer hand)))) ((world, events), prng))
        (\<lambda>((world, events), prng).
        rbind (needHand world) (\<lambda>hand.
        let commit = sha256Hex (join '','' (map showNat (the (ds_deck (sh_dealer hand)))))
        in Inr ((putHand (hand\<lparr>sh_dealer := (sh_dealer hand)\<lparr>ds_deckCommit := Some commit\<rparr>\<rparr>) world,
                 events @ [DeckFinalized (tb_tableId (ws_table world)) (sh_handId hand) commit]), prng)))))"

subsection \<open>Aborting and dealing\<close>

definition refundPlayer :: "Player \<Rightarrow> Player" where
  "refundPlayer p = p\<lparr>pl_stack := pl_stack p + pl_committed p, pl_committed := 0\<rparr>"

definition simAbortHand :: "string \<Rightarrow> simulated \<Rightarrow> SimError + simulated" where
  "simAbortHand reason s =
     (let (world, events) = s in
      rbind (needHand world) (\<lambda>hand.
      let hand = hand\<lparr>sh_phase := HandAborted, sh_abortedReason := Some reason\<rparr>;
          refundBlinds = (sh_didBetBeyondBlinds hand \<or> cf_refundBlindsOnPreActionAbort (ws_config world));
          (players, treasury) = foldl (\<lambda>(players, treasury) p.
              if pl_committed p = 0 then (players @ [p], treasury)
              else if refundBlinds then (players @ [refundPlayer p], treasury)
              else (players @ [p\<lparr>pl_committed := 0\<rparr>], treasury + pl_committed p))
            ([], ws_treasury world) (playersOf world);
          world = putHand (hand\<lparr>sh_potTotal := 0\<rparr>) (putPlayers players (world\<lparr>ws_treasury := treasury\<rparr>))
      in Inr (world, events @ [SimHandAborted (tb_tableId (ws_table world)) (sh_handId hand) reason])))"

primrec kindName :: "ShareKind \<Rightarrow> string" where
  "kindName ShuffleKind = ''shuffle''"
| "kindName EncKind = ''enc''"
| "kindName PubKind = ''pub''"

definition settleDecision :: "ShareKind \<Rightarrow> nat \<Rightarrow> string \<times> ValidatorDecision \<Rightarrow> nat \<times> simulated \<Rightarrow> nat \<times> simulated" where
  "settleDecision kind pos e vs =
     (let (vId, d) = e; (valid, s) = vs in
      case d of
        SubmitValid \<Rightarrow> (valid + 1, s)
      | SubmitInvalid \<Rightarrow> (valid, slashValidator vId (kindName kind @ '' share invalid proof pos '' @ showNat pos) s)
      | Withhold \<Rightarrow> (valid, slashValidator vId (kindName kind @ '' share withheld pos '' @ showNat pos) s))"

definition collectSharesOrAbort ::
  "Behaviors \<Rightarrow> ShareKind \<Rightarrow> nat \<Rightarrow> string option \<Rightarrow> simulated \<Rightarrow> SimError + (bool \<times> simulated)" where
  "collectSharesOrAbort behaviors kind pos pid s =
     (let (world, events) = s in
      rbind (needHand world) (\<lambda>hand.
      let committee = ds_committee (sh_dealer hand) in
      rbind (collectValidatorDecisions world (be_validator behaviors) kind
               \<lparr>ctx_epochId = co_epochId committee, ctx_handId = sh_handId hand, ctx_round = None, ctx_pos = Some pos,
                ctx_playerId = pid\<rparr>) (\<lambda>decisions.
      let (valid, s) = fold (settleDecision kind pos) decisions (0, s);
          threshold = co_thresholdT committee
      in if int valid < threshold
         then rbind (simAbortHand (''threshold failure for '' @ kindName kind @ '' shares at pos '' @ showNat pos
                @ '': have='' @ showNat valid @ '' need='' @ showInt threshold) s) (\<lambda>s. Inr (False, s))
         else Inr (True, s))))"

definition admitPlayer :: "SimParams \<Rightarrow> Player \<Rightarrow> Player" where
  "admitPlayer params p =
     (if pl_status p \<noteq> Seated then p
      else if pl_bond p < sp_playerBondMin params then p\<lparr>pl_status := SitOut\<rparr>
      else p\<lparr>pl_status := InHand\<rparr>)"

definition dealOne :: "Behaviors \<Rightarrow> string \<Rightarrow> simulated \<Rightarrow> SimError + (bool \<times> simulated)" where
  "dealOne behaviors pid s =
     (let (world, events) = s in
      rbind (needHand world) (\<lambda>hand.
      let pos = ds_deckCursor (sh_dealer hand);
          world = putHand (hand\<lparr>sh_dealer := (sh_dealer hand)\<lparr>ds_deckCursor := pos + 1\<rparr>\<rparr>) world
      in rbind (collectSharesOrAbort behaviors EncKind pos (Some pid) (world, events)) (\<lambda>(ok, world, events).
      if \<not> ok then Inr (False, world, events)
      else rbind (dealFromDeck world pos) (\<lambda>card.
        rbind (needHand world) (\<lambda>hand.
        case map_of (sh_holeCards hand) pid of
          None \<Rightarrow> Inl HoleCardsUndefined
        | Some cards \<Rightarrow>
            rbind (assertInvariants (putHand (hand\<lparr>sh_holeCards := AList.update pid (cards @ [card]) (sh_holeCards hand)\<rparr>) world))
              (\<lambda>world. Inr (True, world, events)))))))"

fun dealLoop :: "Behaviors \<Rightarrow> string list \<Rightarrow> simulated \<Rightarrow> SimError + simulated" where
  "dealLoop behaviors [] s = Inr s"
| "dealLoop behaviors (pid # pids) s =
     rbind (dealOne behaviors pid s) (\<lambda>(ok, s). if ok then dealLoop behaviors pids s else Inr s)"

definition dealHoleCards :: "Behaviors \<Rightarrow> simulated \<Rightarrow> SimError + simulated" where
  "dealHoleCards behaviors s =
     (let (world, events) = s in
      rbind (needHand world) (\<lambda>hand.
      let params = tb_params (ws_table world);
          admitted = filter (\<lambda>p. pl_status p = Seated \<and> \<not> pl_bond p < sp_playerBondMin params) (playersOf world);
          hand = hand\<lparr>sh_phase := DealHole,
                      sh_holeCards := foldl (\<lambda>m p. AList.update (pl_id p) [] m) (sh_holeCards hand) admitted\<rparr>;
          world = putHand hand (putPlayers (map (admitPlayer params) (playersOf world)) world);
          order = concat (map (\<lambda>i. replicate 2 (pl_id (playersOf world ! i))) (remainingPlayers (ws_table world)))
      in dealLoop behaviors order (world, events)))"

subsection \<open>Betting\<close>

definition applyPreflopAction ::
  "nat \<Rightarrow> PlayerAction \<Rightarrow> int \<Rightarrow> int \<Rightarrow> int \<Rightarrow> SimHand \<Rightarrow> simulated \<Rightarrow> int \<times> SimHand \<times> simulated" where
  "applyPreflopAction i action toCall minRaiseTo currentBet hand s =
     (let (world, events) = s; players = playersOf world; p = players ! i;
          applied = (\<lambda>a. SimActionApplied (tb_tableId (ws_table world)) (sh_handId hand) (pl_id p) a) in
      case action of
        PFold \<Rightarrow>
          (currentBet, hand,
           putPlayers (if pl_status p \<noteq> Ejected then players[i := p\<lparr>pl_status := Folded\<rparr>] else players) world,
           events @ [applied ''fold''])
      | PCheck \<Rightarrow> (currentBet, hand\<lparr>sh_didBetBeyondBlinds := True\<rparr>, world, events @ [applied ''check''])
      | PCall \<Rightarrow>
          (let pay = min toCall (pl_stack p) in
           (currentBet, hand\<lparr>sh_didBetBeyondBlinds := True\<rparr>, putPlayers (commitChips i pay players) world,
            events @ [applied (''call '' @ showInt pay)]))
      | PRaiseTo amount \<Rightarrow>
          (let raiseTo = max amount minRaiseTo; need = max 0 (raiseTo - pl_committed p) in
           if need > pl_stack p
           then let pay = min toCall (pl_stack p) in
                (currentBet, hand\<lparr>sh_didBetBeyondBlinds := True\<rparr>, putPlayers (commitChips i pay players) world,
                 events @ [applied (''call '' @ showInt pay)])
           else (raiseTo, hand\<lparr>sh_didBetBeyondBlinds := True\<rparr>, putPlayers (commitChips i need players) world,
                 events @ [applied (''raiseTo '' @ showInt raiseTo)]))
      | PWithhold \<Rightarrow> (currentBet, hand, world, events))"

text \<open>The winner takes the pot and what the players of the hand have committed is cleared.\<close>

definition settlePot :: "nat \<Rightarrow> int \<Rightarrow> Player list \<Rightarrow> Player list" where
  "settlePot i pot players =
     map (\<lambda>p. if isActiveInHand p then p\<lparr>pl_committed := 0\<rparr> else p)
       (players[i := (players ! i)\<lparr>pl_stack := pl_stack (players ! i) + pot\<rparr>])"

definition completeHand :: "nat \<Rightarrow> SimHand \<Rightarrow> simulated \<Rightarrow> simulated" where
  "completeHand winner hand s =
     (let (world, events) = s; pot = sh_potTotal hand in
      (putHand (hand\<lparr>sh_potTotal := 0, sh_phase := HandComplete\<rparr>) (putPlayers (settlePot winner pot (playersOf world)) world),
       events @ [SimHandCompleted (tb_tableId (ws_table world)) (sh_handId hand) (pl_id (playersOf world ! winner)) pot]))"

text \<open>The decision of a player; a player who withholds it is slashed and the default is played.\<close>

definition takeDecision :: "PlayerBehavior \<Rightarrow> nat \<Rightarrow> string \<Rightarrow> int \<Rightarrow> int \<Rightarrow> simulated \<Rightarrow> PlayerAction \<times> simulated" where
  "takeDecision b handId pid toCall minRaiseTo s =
     (let (world, events) = s; decision = b handId pid toCall minRaiseTo in
      if decision = PWithhold
      then let (def, result) = applyTimeoutDefaultAction toCall in
           (def, slashPlayer pid ''player action timeout''
              (world, events @ [SimTimeoutApplied (tb_tableId (ws_table world)) handId pid result]))
      else (decision, s))"

text \<open>One seat of the loop; the first component tells that the hand has ended and the loop returns.\<close>

definition preflopSeat ::
  "Behaviors \<Rightarrow> int \<Rightarrow> nat \<Rightarrow> int \<Rightarrow> simulated \<Rightarrow> SimError + (bool \<times> int \<times> simulated)" where
  "preflopSeat behaviors minRaiseTo seat currentBet s =
     (let (world, events) = s in
      case findPlayer (\<lambda>x. pl_seat x = seat) (playersOf world) of
        None \<Rightarrow> Inr (False, currentBet, s)
      | Some i \<Rightarrow>
          let p = playersOf world ! i in
          if pl_status p \<noteq> InHand then Inr (False, currentBet, s)
          else let toCall = max 0 (currentBet - pl_committed p) in
          case be_player behaviors (pl_id p) of
            None \<Rightarrow> Inl MissingPlayerBehavior
          | Some b \<Rightarrow>
              rbind (needHand world) (\<lambda>hand.
              let (action, s) = takeDecision b (sh_handId hand) (pl_id p) toCall minRaiseTo s;
                  (currentBet, hand, world, events) =
                    applyPreflopAction i (normalizePlayerAction action toCall) toCall minRaiseTo currentBet hand s;
                  hand = hand\<lparr>sh_potTotal := sumCommitted (playersOf world)\<rparr>;
                  world = putHand hand world;
                  remaining = remainingPlayers (ws_table world)
              in if length remaining = 1
                 then Inr (True, currentBet, completeHand (hd remaining) hand (world, events))
                 else rbind (assertInvariants world) (\<lambda>world. Inr (False, currentBet, world, events))))"

fun preflopLoop :: "Behaviors \<Rightarrow> int \<Rightarrow> nat list \<Rightarrow> int \<Rightarrow> simulated \<Rightarrow> SimError + simulated" where
  "preflopLoop behaviors minRaiseTo [] currentBet s = Inr s"
| "preflopLoop behaviors minRaiseTo (seat # seats) currentBet s =
     rbind (preflopSeat behaviors minRaiseTo seat currentBet s) (\<lambda>(ended, currentBet, s).
       if ended then Inr s else preflopLoop behaviors minRaiseTo seats currentBet s)"

definition runPreflopBetting :: "Behaviors \<Rightarrow> simulated \<Rightarrow> SimError + simulated" where
  "runPreflopBetting behaviors s =
     (let (world, events) = s in
      rbind (needHand world) (\<lambda>hand.
      let world = putHand (hand\<lparr>sh_phase := PreflopBetting\<rparr>) world;
          n = length (playersOf world);
          startSeat = (tb_buttonSeat (ws_table world) + 3) mod n;
          seatsOrdered = map (\<lambda>i. (startSeat + i) mod n) [0..<n];
          currentBet = sp_bigBlind (tb_params (ws_table world))
      in preflopLoop behaviors (currentBet * 2) seatsOrdered currentBet (world, events)))"

subsection \<open>Streets and showdown\<close>

text \<open>The loop that collects the cards of a street; \<open>None\<close> when the hand was aborted.\<close>

fun revealCards :: "Behaviors \<Rightarrow> nat \<Rightarrow> nat list \<Rightarrow> simulated \<Rightarrow> SimError + (nat list option \<times> simulated)" where
  "revealCards behaviors 0 cards s = Inr (Some cards, s)"
| "revealCards behaviors (Suc n) cards (world, events) =
     rbind (needHand world) (\<lambda>hand.
     let pos = ds_deckCursor (sh_dealer hand);
         world = putHand (hand\<lparr>sh_dealer := (sh_dealer hand)\<lparr>ds_deckCursor := pos + 1\<rparr>\<rparr>) world
     in rbind (collectSharesOrAbort behaviors PubKind pos None (world, events)) (\<lambda>(ok, s).
        if \<not> ok then Inr (None, s)
        else rbind (dealFromDeck (fst s) pos) (\<lambda>card. revealCards behaviors n (cards @ [card]) s)))"

definition revealStreet :: "Behaviors \<Rightarrow> SimStreet \<Rightarrow> simulated \<Rightarrow> SimError + (bool \<times> simulated)" where
  "revealStreet behaviors str s =
     rbind (needHand (fst s)) (\<lambda>_.
     rbind (revealCards behaviors (if str = SimFlop then 3 else 1) [] s) (\<lambda>(revealed, world, events).
     case revealed of
       None \<Rightarrow> Inr (False, world, events)
     | Some cards \<Rightarrow>
         rbind (needHand world) (\<lambda>hand.
         rbind (assertInvariants (putHand (hand\<lparr>sh_board := sh_board hand @ cards\<rparr>) world)) (\<lambda>world.
         Inr (True, world, events @ [StreetRevealed (tb_tableId (ws_table world)) (sh_handId hand) str cards])))))"

text \<open>The loop that picks the winner; \<^verbatim>\<open>Infinity\<close> is \<open>None\<close>.\<close>

definition pickWinner :: "SimHand \<Rightarrow> Player list \<Rightarrow> nat list \<Rightarrow> nat" where
  "pickWinner hand players remaining =
     snd (foldl (\<lambda>(best, winner) i.
         let cards = (case map_of (sh_holeCards hand) (pl_id (players ! i)) of Some cs \<Rightarrow> cs | None \<Rightarrow> []);
             score = sum_list cards
         in if (case best of None \<Rightarrow> True | Some b \<Rightarrow> score < b) then (Some score, i) else (best, winner))
       (None, hd remaining) remaining)"

definition showdownAndSettle :: "simulated \<Rightarrow> SimError + simulated" where
  "showdownAndSettle s =
     (let (world, events) = s in
      rbind (needHand world) (\<lambda>hand.
      let remaining = remainingPlayers (ws_table world) in
      if length remaining = 0 then simAbortHand ''no remaining players'' s
      else if length remaining = 1 then Inr (completeHand (hd remaining) hand s)
      else Inr (completeHand (pickWinner hand (playersOf world) remaining) hand s)))"

subsection \<open>The simulation\<close>

definition setPhase :: "SimPhase \<Rightarrow> WorldState \<Rightarrow> SimError + WorldState" where
  "setPhase ph world = rbind (needHand world) (\<lambda>hand. Inr (putHand (hand\<lparr>sh_phase := ph\<rparr>) world))"

definition phaseIs :: "SimPhase \<Rightarrow> WorldState \<Rightarrow> bool" where
  "phaseIs ph world = (case tb_hand (ws_table world) of None \<Rightarrow> False | Some hand \<Rightarrow> sh_phase hand = ph)"

fun revealStreets :: "Behaviors \<Rightarrow> (SimPhase \<times> SimStreet) list \<Rightarrow> simulated \<Rightarrow> SimError + (bool \<times> simulated)" where
  "revealStreets behaviors [] s = Inr (True, s)"
| "revealStreets behaviors ((ph, str) # rest) (world, events) =
     rbind (setPhase ph world) (\<lambda>world.
     rbind (revealStreet behaviors str (world, events)) (\<lambda>(ok, s).
       if ok then revealStreets behaviors rest s else Inr (False, s)))"

definition playOut :: "Behaviors \<Rightarrow> simulated \<Rightarrow> SimError + simulated" where
  "playOut behaviors s =
     rbind (revealStreets behaviors [(FlopReveal, SimFlop), (TurnReveal, SimTurn), (RiverReveal, SimRiver)] s) (\<lambda>(ok, world, events).
     if \<not> ok then Inr (world, events)
     else rbind (setPhase Showdown world) (\<lambda>world.
       rbind (showdownAndSettle (world, events)) (\<lambda>(world, events).
       rbind (assertInvariants world) (\<lambda>world.
       let table = ws_table world in
       Inr (world\<lparr>ws_table := table\<lparr>tb_buttonSeat := (tb_buttonSeat table + 1) mod length (tb_players table)\<rparr>\<rparr>, events)))))"

definition betAndPlayOut :: "Behaviors \<Rightarrow> simulated \<Rightarrow> SimError + simulated" where
  "betAndPlayOut behaviors s =
     rbind (runPreflopBetting behaviors s) (\<lambda>(world, events).
     rbind (assertInvariants world) (\<lambda>world.
     if phaseIs HandComplete world \<or> phaseIs HandAborted world then Inr (world, events)
     else playOut behaviors (world, events)))"

definition dealAndPlay :: "Behaviors \<Rightarrow> simulated \<Rightarrow> SimError + simulated" where
  "dealAndPlay behaviors s =
     rbind (dealHoleCards behaviors s) (\<lambda>(world, events).
     rbind (assertInvariants world) (\<lambda>world.
     if phaseIs HandAborted world then Inr (world, events) else betAndPlayOut behaviors (world, events)))"

definition simHand :: "(string \<Rightarrow> string) \<Rightarrow> SimConfig \<Rightarrow> Behaviors \<Rightarrow> nat \<Rightarrow> simulated \<times> int \<Rightarrow> SimError + (simulated \<times> int)" where
  "simHand sha256Hex config behaviors i sp =
     (let ((world, events), prng) = sp in
      rbind (if cf_rotateCommitteeEveryHand config \<and> i > 0 then rotateCommittee world prng else Inr (world, prng)) (\<lambda>(world, prng).
      rbind (simStartHand (world, events) prng) (\<lambda>((world, events), prng).
      rbind (simPostBlinds world) (\<lambda>world.
      rbind (initDeck world) (\<lambda>world.
      rbind (runShuffle sha256Hex behaviors (world, events) prng) (\<lambda>((world, events), prng).
      rbind (assertInvariants world) (\<lambda>world.
      rbind (dealAndPlay behaviors (world, events)) (\<lambda>s. Inr (s, prng)))))))))"

definition runSimulation :: "(string \<Rightarrow> string) \<Rightarrow> SimConfig \<Rightarrow> Behaviors \<Rightarrow> SimError + simulated" where
  "runSimulation sha256Hex config behaviors =
     rbind (createWorld config (prngNew (cf_seed config))) (\<lambda>(world, prng).
     rbind (rfold (simHand sha256Hex config behaviors) [0..<nat (cf_hands config)]
              ((world, [TableCreated (cf_tableId config)]), prng)) (\<lambda>(s, _). Inr s))"

text \<open>The behaviours of \<^verbatim>\<open>behaviors.ts\<close>.\<close>

definition honestValidatorBehavior :: ValidatorBehavior where
  "honestValidatorBehavior =
     \<lparr>onShuffle = (\<lambda>_ _ _. SubmitValid), onEncShare = (\<lambda>_ _ _ _. SubmitValid), onPubShare = (\<lambda>_ _ _. SubmitValid)\<rparr>"

definition alwaysTimeoutPlayerBehavior :: PlayerBehavior where
  "alwaysTimeoutPlayerBehavior = (\<lambda>_ _ _ _. PWithhold)"

definition alwaysCallPlayerBehavior :: PlayerBehavior where
  "alwaysCallPlayerBehavior = (\<lambda>_ _ toCall _. if toCall = 0 then PCheck else PCall)"

end
