(* ===== verification/Simulation_Correct.thy ===== *)
theory Simulation_Correct
  imports Simulation
begin

text \<open>
  The simulator never trips its own invariants: from a configuration with non-negative amounts,
  whatever the validators and players do, no check of \<^verbatim>\<open>assertInvariants\<close> fails and every chip is
  accounted for. The phases of a hand have an invariant each; the rules for throwing code carry them
  through the operations.
\<close>

subsection \<open>Shuffling\<close>

lemma prngInt_range:
  assumes "lo < hi"
  obtains j a' where "prngInt a lo hi = Inr (j, a')" and "lo \<le> j" and "j < hi"
proof -
  obtain u a' where n: "nextU32 a = (u, a')" by fastforce
  have "u mod (hi - lo) < hi - lo" using assms by (intro pos_mod_bound) simp
  moreover have "0 \<le> u mod (hi - lo)" using assms by simp
  ultimately have "lo \<le> lo + u mod (hi - lo)" "lo + u mod (hi - lo) < hi" by linarith+
  then show ?thesis by (rule that [rotated]) (use assms n in \<open>simp add: prngInt_def\<close>)
qed

lemma mset_swap_nth:
  assumes "i < length xs" and "j < length xs"
  shows "mset (xs[i := xs ! j, j := xs ! i]) = mset xs"
  using assms by (simp add: mset_swap)

lemma shuffleFrom_mset:
  "i < length arr \<Longrightarrow> \<exists>b a'. shuffleFrom i arr a = Inr (b, a') \<and> mset b = mset arr"
proof (induction i arbitrary: arr a)
  case (Suc i)
  obtain j a1 where j: "prngInt a 0 (int (Suc i) + 1) = Inr (j, a1)" "0 \<le> j" "j < int (Suc i) + 1"
    using prngInt_range [of 0 "int (Suc i) + 1" a] by auto
  let ?arr = "arr[Suc i := arr ! nat j, nat j := arr ! Suc i]"
  have "nat j < length arr" using j Suc.prems by linarith
  then have m: "mset ?arr = mset arr" using mset_swap_nth [of "Suc i" arr "nat j"] Suc.prems by simp
  obtain b a2 where "shuffleFrom i ?arr a1 = Inr (b, a2)" "mset b = mset ?arr"
    using Suc.IH [of ?arr a1] Suc.prems by auto
  then show ?case using j(1) m by simp
qed simp

lemma shuffleInPlace_mset: "\<exists>b a'. shuffleInPlace arr a = Inr (b, a') \<and> mset b = mset arr"
proof (cases "arr = []")
  case False
  then show ?thesis using shuffleFrom_mset [of "length arr - 1" arr a] by (simp add: shuffleInPlace_def)
qed (simp add: shuffleInPlace_def)

lemma list_all_zip_eq: "length xs = length ys \<Longrightarrow> list_all (\<lambda>(x, y). x = y) (zip xs ys) \<longleftrightarrow> xs = ys"
  by (induction xs ys rule: list_induct2) auto

lemma verifyShuffle_mset: "verifyShuffleIsPermutation xs ys \<longleftrightarrow> mset xs = mset ys"
proof
  assume "verifyShuffleIsPermutation xs ys"
  then have "sort xs = sort ys" using list_all_zip_eq [of "sort xs" "sort ys"] by (simp add: verifyShuffleIsPermutation_def)
  then show "mset xs = mset ys" by (metis mset_sort)
next
  assume m: "mset xs = mset ys"
  then have "sort xs = sort ys" by (metis sorted_list_of_multiset_mset)
  with mset_eq_length [OF m] list_all_zip_eq [of "sort xs" "sort ys"] show "verifyShuffleIsPermutation xs ys"
    by (simp add: verifyShuffleIsPermutation_def)
qed

subsection \<open>Code that trips no invariant\<close>

abbreviation sane :: "('a \<Rightarrow> bool) \<Rightarrow> SimError + 'a \<Rightarrow> bool" where
  "sane P m \<equiv> outcome (\<lambda>e. \<not> invariantError e) P m"

lemma invariantError_simps [simp]:
  "\<not> invariantError PrngBounds" "\<not> invariantError BadPlayerCount" "\<not> invariantError NotEnoughValidators"
  "\<not> invariantError BadCommitteePlan" "\<not> invariantError HandNotStarted" "\<not> invariantError TooFewSeated"
  "\<not> invariantError NoSeatedPlayer" "\<not> invariantError InsufficientStack" "\<not> invariantError DeckNotInitialized"
  "\<not> invariantError InvalidDeckPos" "\<not> invariantError MissingValidatorBehavior" "\<not> invariantError MissingPlayerBehavior"
  "\<not> invariantError ShareCtxIncomplete" "\<not> invariantError HoleCardsUndefined"
  by (simp_all add: invariantError_def)

lemma needHand_sane: "sane (\<lambda>h. tb_hand (ws_table w) = Some h) (needHand w)"
  by (simp add: needHand_def split: option.splits)

lemma sane_hand: "(\<And>h. tb_hand (ws_table w) = Some h \<Longrightarrow> sane Q (k h)) \<Longrightarrow> sane Q (rbind (needHand w) k)"
  by (rule outcome_rbind [OF needHand_sane])

lemma shuffleInPlace_sane: "sane (\<lambda>(b, _). mset b = mset arr) (shuffleInPlace arr a)"
  using shuffleInPlace_mset [of arr a] by auto

lemma selectCommittee_sane: "sane (\<lambda>_. True) (selectCommittee w a)"
  by (auto simp: selectCommittee_def Let_def intro!: outcome_rbind [OF shuffleInPlace_sane])

lemma sane_rmap: "(\<And>x. sane (\<lambda>_. True) (f x)) \<Longrightarrow> sane (\<lambda>_. True) (rmap f xs)"
  by (induction xs) (auto intro!: outcome_rbind [of _ "\<lambda>_. True"])

lemma dealFromDeck_sane: "sane (\<lambda>_. True) (dealFromDeck w pos)"
  by (auto simp: dealFromDeck_def split: option.splits)

lemma decisions_sane: "sane (\<lambda>_. True) (collectValidatorDecisions w b kind ctx)"
proof -
  have "sane (\<lambda>_. True) (decisionOf b kind ctx)" for b
    by (auto simp: decisionOf_def split: ShareKind.splits option.splits)
  then show ?thesis unfolding collectValidatorDecisions_def
    by (intro sane_hand outcome_rfold TrueI) (auto split: option.splits intro!: outcome_rbind [of _ "\<lambda>_. True"])
qed

subsection \<open>Funds\<close>

definition player_ok :: "Player \<Rightarrow> bool" where
  "player_ok p \<longleftrightarrow> 0 \<le> pl_stack p \<and> 0 \<le> pl_committed p \<and> 0 \<le> pl_bond p"

definition funds_ok :: "int \<Rightarrow> WorldState \<Rightarrow> bool" where
  "funds_ok T w \<longleftrightarrow> ws_initialTotal w = Some T \<and> worldTotal w = T
     \<and> (\<forall>e \<in> set (ws_validators w). 0 \<le> va_stake (snd e))
     \<and> (\<forall>p \<in> set (playersOf w). player_ok p)
     \<and> 0 \<le> sp_smallBlind (tb_params (ws_table w)) \<and> 0 \<le> sp_bigBlind (tb_params (ws_table w))
     \<and> 2 \<le> length (playersOf w) \<and> length (playersOf w) \<le> 9
     \<and> (\<forall>i<length (playersOf w). pl_seat (playersOf w ! i) = i)"

definition cursor :: "WorldState \<Rightarrow> nat" where
  "cursor w = (case tb_hand (ws_table w) of None \<Rightarrow> 0 | Some h \<Rightarrow> ds_deckCursor (sh_dealer h))"

lemma world_put_simps [simp]:
  "playersOf (putHand h w) = playersOf w" "tb_hand (ws_table (putHand h w)) = Some h"
  "tb_params (ws_table (putHand h w)) = tb_params (ws_table w)" "ws_config (putHand h w) = ws_config w"
  "tb_hand (ws_table (putPlayers ps w)) = tb_hand (ws_table w)" "playersOf (putPlayers ps w) = ps"
  "tb_params (ws_table (putPlayers ps w)) = tb_params (ws_table w)" "ws_config (putPlayers ps w) = ws_config w"
  "tb_buttonSeat (ws_table (putHand h w)) = tb_buttonSeat (ws_table w)"
  "ws_validators (putHand h w) = ws_validators w" "ws_validators (putPlayers ps w) = ws_validators w"
  by (simp_all add: putHand_def putPlayers_def)

lemma funds_put_simps [simp]:
  "funds_ok T (putHand h w) = funds_ok T w" "cursor (putHand h w) = ds_deckCursor (sh_dealer h)"
  "cursor (putPlayers ps w) = cursor w"
  by (simp_all add: funds_ok_def cursor_def putHand_def putPlayers_def worldTotal_def)

lemma rmap_ok: "(\<And>x. x \<in> set xs \<Longrightarrow> f x = Inr ()) \<Longrightarrow> \<exists>us. rmap f xs = Inr us"
  using rmap_Inr_map [of xs f "\<lambda>_. ()"] by blast

lemma assertInvariants_ok:
  assumes "funds_ok T w" and "cursor w \<le> 52"
  shows "assertInvariants w = Inr w"
proof -
  have "\<exists>us. rmap checkValidator (map snd (ws_validators w)) = Inr us"
    by (rule rmap_ok) (use assms(1) in \<open>auto simp: funds_ok_def checkValidator_def not_less\<close>)
  moreover have "\<exists>us. rmap checkPlayer (playersOf w) = Inr us"
    by (rule rmap_ok) (use assms(1) in \<open>auto simp: funds_ok_def player_ok_def checkPlayer_def not_less\<close>)
  ultimately show ?thesis
    using assms by (auto simp: assertInvariants_def funds_ok_def cursor_def split: option.splits)
qed

lemma sane_assert:
  assumes "funds_ok T w" and "cursor w \<le> 52" and "sane Q (k w)"
  shows "sane Q (rbind (assertInvariants w) k)"
  using assertInvariants_ok [OF assms(1,2)] assms(3) by simp

lemma AList_update_stake:
  fixes f :: "'v \<Rightarrow> int"
  shows "map_of al k = Some v \<Longrightarrow> sum_list (map (f \<circ> snd) (AList.update k v' al)) = sum_list (map (f \<circ> snd) al) - f v + f v'"
  by (induction al) auto

lemma set_AList_update: "set (AList.update k v al) \<subseteq> insert (k, v) (set al)"
  by (induction al) auto

lemma slashValidator_funds:
  assumes "funds_ok T w" and "slashValidator v r (w, ev) = (w', ev')"
  shows "funds_ok T w' \<and> ws_table w' = ws_table w \<and> ws_config w' = ws_config w"
proof (cases "map_of (ws_validators w) v")
  case (Some x)
  let ?amt = "min (sp_dealerSlash (cf_params (ws_config w))) (va_stake x)"
  let ?x = "x\<lparr>va_stake := va_stake x - ?amt, va_slashCount := va_slashCount x + 1, va_status := Jailed\<rparr>"
  have "\<forall>e \<in> set (ws_validators w). 0 \<le> va_stake (snd e)" using assms(1) by (simp add: funds_ok_def)
  then have "\<forall>e \<in> set (AList.update v ?x (ws_validators w)). 0 \<le> va_stake (snd e)"
    using set_AList_update [of v ?x "ws_validators w"] by auto
  moreover have "sum_list (map (va_stake \<circ> snd) (AList.update v ?x (ws_validators w)))
      = sum_list (map (va_stake \<circ> snd) (ws_validators w)) - ?amt"
    using AList_update_stake [OF Some, of va_stake ?x] by simp
  ultimately show ?thesis using assms Some
    by (auto simp: slashValidator_def Let_def funds_ok_def worldTotal_def split: if_splits)
qed (use assms in \<open>simp add: slashValidator_def\<close>)

subsection \<open>Changes of one player\<close>

lemma ball_update: "\<forall>p \<in> set ps. P p \<Longrightarrow> P q \<Longrightarrow> \<forall>p \<in> set (ps[i := q]). P p"
  using set_update_subset_insert [of ps i q] by auto

lemma playerTotal_update:
  assumes "i < length ps"
  shows "sum_list (map playerTotal (ps[i := p])) = sum_list (map playerTotal ps) - playerTotal (ps ! i) + playerTotal p"
  using sum_list_map_update [OF assms] .

lemma funds_update_player:
  assumes "funds_ok T w" and "i < length (playersOf w)" and "player_ok p" and "pl_seat p = pl_seat (playersOf w ! i)"
    and "playerTotal p = playerTotal (playersOf w ! i) - d"
  shows "funds_ok T (putPlayers ((playersOf w)[i := p]) (w\<lparr>ws_treasury := ws_treasury w + d\<rparr>))"
proof -
  have "\<forall>q \<in> set ((playersOf w)[i := p]). player_ok q"
    using assms(1,3) by (intro ball_update) (auto simp: funds_ok_def)
  moreover have "pl_seat ((playersOf w)[i := p] ! j) = j" if "j < length (playersOf w)" for j
    using assms(1,4) that by (cases "j = i") (auto simp: funds_ok_def)
  ultimately show ?thesis
    using assms(1,5) playerTotal_update [OF assms(2), of p]
    by (simp add: funds_ok_def worldTotal_def putPlayers_def)
qed

lemma funds_move:
  assumes "funds_ok T w" and "i < length (playersOf w)" and "player_ok p" and "pl_seat p = pl_seat (playersOf w ! i)"
    and "playerTotal p = playerTotal (playersOf w ! i)"
  shows "funds_ok T (putPlayers ((playersOf w)[i := p]) w)"
  using funds_update_player [OF assms(1-4), of 0] assms(5) by simp

lemma funds_player: "funds_ok T w \<Longrightarrow> i < length (playersOf w) \<Longrightarrow> player_ok (playersOf w ! i)"
  by (simp add: funds_ok_def)

lemma commitChips_funds:
  assumes "funds_ok T w" and "i < length (playersOf w)" and "0 \<le> amt" and "amt \<le> pl_stack (playersOf w ! i)"
  shows "funds_ok T (putPlayers (commitChips i amt (playersOf w)) w)"
  unfolding commitChips_def
  by (rule funds_move [OF assms(1,2)]) (use funds_player [OF assms(1,2)] assms in \<open>auto simp: player_ok_def playerTotal_def\<close>)

lemma findPlayer_Some: "findPlayer P ps = Some i \<Longrightarrow> i < length ps \<and> P (ps ! i)"
  by (auto simp: findPlayer_def dest: find_SomeD)

lemma slashPlayer_funds:
  assumes "funds_ok T w" and "slashPlayer pid why (w, ev) = (w', ev')"
  shows "funds_ok T w' \<and> tb_hand (ws_table w') = tb_hand (ws_table w) \<and> ws_config w' = ws_config w
    \<and> length (playersOf w') = length (playersOf w)
    \<and> (\<forall>i<length (playersOf w). pl_committed (playersOf w' ! i) = pl_committed (playersOf w ! i)
         \<and> pl_stack (playersOf w' ! i) = pl_stack (playersOf w ! i)
         \<and> (pl_status (playersOf w' ! i) = pl_status (playersOf w ! i) \<or> pl_status (playersOf w' ! i) = Ejected))"
proof (cases "findPlayer (\<lambda>x. pl_id x = pid) (playersOf w)")
  case (Some i)
  note i = findPlayer_Some [OF Some]
  let ?p = "playersOf w ! i"
  let ?amt = "min (sp_playerTimeoutSlash (cf_params (ws_config w))) (pl_bond ?p)"
  define q where "q = ?p\<lparr>pl_bond := pl_bond ?p - ?amt, pl_timeoutCount := pl_timeoutCount ?p + 1\<rparr>"
  define r where "r = (if pl_bond q < sp_playerBondMin (cf_params (ws_config w)) \<and> pl_status q \<noteq> Ejected then q\<lparr>pl_status := Ejected\<rparr> else q)"
  have w': "w' = putPlayers ((playersOf w)[i := r]) (w\<lparr>ws_treasury := ws_treasury w + ?amt\<rparr>)"
    using assms(2) Some by (auto simp: slashPlayer_def Let_def r_def q_def split: if_splits)
  have "player_ok r" "pl_seat r = pl_seat ?p" "playerTotal r = playerTotal ?p - ?amt" "pl_committed r = pl_committed ?p"
    "pl_stack r = pl_stack ?p" "pl_status r = pl_status ?p \<or> pl_status r = Ejected"
    using funds_player [OF assms(1), of i] i by (auto simp: r_def q_def player_ok_def playerTotal_def)
  then show ?thesis using funds_update_player [OF assms(1), of i r ?amt] i unfolding w'
    by (simp add: nth_list_update)
qed (use assms in \<open>simp add: slashPlayer_def\<close>)

subsection \<open>Phases of a hand\<close>

text \<open>
  Between hands nothing is committed. After the blinds only seated players have committed chips, and
  a seated player has the minimum bond. In play, the pot is what is committed and only players of the
  hand have committed chips.
\<close>

definition idle :: "int \<Rightarrow> WorldState \<Rightarrow> bool" where
  "idle T w \<longleftrightarrow> funds_ok T w \<and> (\<forall>p \<in> set (playersOf w). pl_committed p = 0) \<and> cursor w \<le> 52"

definition bonded :: "WorldState \<Rightarrow> bool" where
  "bonded w \<longleftrightarrow> (\<forall>p \<in> set (playersOf w). pl_status p = Seated \<longrightarrow> sp_playerBondMin (tb_params (ws_table w)) \<le> pl_bond p)"

definition dealt_in :: "nat \<Rightarrow> WorldState \<Rightarrow> bool" where
  "dealt_in k w \<longleftrightarrow> (\<exists>h. tb_hand (ws_table w) = Some h \<and> ds_deckCursor (sh_dealer h) \<le> k
     \<and> sh_potTotal h = sumCommitted (playersOf w) \<and> sh_phase h \<notin> {HandAborted, HandComplete})"

definition blinded :: "int \<Rightarrow> WorldState \<Rightarrow> bool" where
  "blinded T w \<longleftrightarrow> funds_ok T w \<and> dealt_in 0 w \<and> bonded w
     \<and> (\<forall>p \<in> set (playersOf w). pl_committed p \<noteq> 0 \<longrightarrow> pl_status p = Seated)"

definition in_play :: "int \<Rightarrow> nat \<Rightarrow> WorldState \<Rightarrow> bool" where
  "in_play T k w \<longleftrightarrow> funds_ok T w \<and> dealt_in k w
     \<and> (\<forall>p \<in> set (playersOf w). pl_committed p \<noteq> 0 \<longrightarrow> isActiveInHand p)"

lemma dealt_in_cursor: "dealt_in k w \<Longrightarrow> cursor w \<le> k"
  by (auto simp: dealt_in_def cursor_def)

lemma dealt_in_mono: "dealt_in k w \<Longrightarrow> k \<le> k' \<Longrightarrow> dealt_in k' w"
  unfolding dealt_in_def using order_trans by blast

lemma dealt_in_put:
  "dealt_in k (putHand h w) \<longleftrightarrow> ds_deckCursor (sh_dealer h) \<le> k
     \<and> sh_potTotal h = sumCommitted (playersOf w) \<and> sh_phase h \<notin> {HandAborted, HandComplete}"
  by (simp add: dealt_in_def)

lemma funds_map:
  assumes "funds_ok T w" and "\<And>p. player_ok p \<Longrightarrow> player_ok (g p)" and "\<And>p. pl_seat (g p) = pl_seat p"
    and "sum_list (map playerTotal (map g (playersOf w))) + d = sum_list (map playerTotal (playersOf w))"
  shows "funds_ok T (putPlayers (map g (playersOf w)) (w\<lparr>ws_treasury := ws_treasury w + d\<rparr>))"
  using assms by (simp add: funds_ok_def worldTotal_def putPlayers_def)

lemma funds_map_same:
  assumes "funds_ok T w" and "\<And>p. player_ok p \<Longrightarrow> player_ok (g p)" and "\<And>p. pl_seat (g p) = pl_seat p"
    and "\<And>p. p \<in> set (playersOf w) \<Longrightarrow> playerTotal (g p) = playerTotal p"
  shows "funds_ok T (putPlayers (map g (playersOf w)) w)"
proof -
  have "map playerTotal (map g (playersOf w)) = map playerTotal (playersOf w)" using assms(4) by simp
  then have "sum_list (map playerTotal (map g (playersOf w))) + 0 = sum_list (map playerTotal (playersOf w))"
    by (simp only: add_0_right)
  from funds_map [OF assms(1-3) this] show ?thesis by simp
qed

lemma abort_fold:
  "foldl (\<lambda>(players, treasury) p.
       if pl_committed p = 0 then (players @ [p], treasury)
       else if rb then (players @ [refundPlayer p], treasury)
       else (players @ [p\<lparr>pl_committed := 0\<rparr>], treasury + pl_committed p)) (qs, t) ps
   = (qs @ map (if rb then refundPlayer else pl_committed_update (\<lambda>_. 0)) ps, t + (if rb then 0 else sumCommitted ps))"
proof (induction ps arbitrary: qs t)
  case (Cons p ps)
  have "refundPlayer p = p" "p\<lparr>pl_committed := 0\<rparr> = p" if "pl_committed p = 0"
    using that by (cases p; simp add: refundPlayer_def)+
  with Cons show ?case by (auto simp: sumCommitted_def)
qed (simp add: sumCommitted_def)

lemma sum_cleared: "sum_list (map playerTotal (map (pl_committed_update (\<lambda>_. 0)) ps)) + sumCommitted ps = sum_list (map playerTotal ps)"
  by (induction ps) (auto simp: playerTotal_def sumCommitted_def)

lemma simAbortHand_idle:
  assumes "funds_ok T w" and "cursor w \<le> 52"
  shows "sane (\<lambda>(w, _). idle T w \<and> phaseIs HandAborted w) (simAbortHand reason (w, ev))"
  unfolding simAbortHand_def Let_def split_beta abort_fold fst_conv snd_conv append_Nil
proof (rule sane_hand)
  fix h assume h: "tb_hand (ws_table w) = Some h"
  let ?rb = "sh_didBetBeyondBlinds (h\<lparr>sh_phase := HandAborted, sh_abortedReason := Some reason\<rparr>) \<or> cf_refundBlindsOnPreActionAbort (ws_config w)"
  let ?g = "if ?rb then refundPlayer else pl_committed_update (\<lambda>_. 0)"
  let ?w = "putPlayers (map ?g (playersOf w)) (w\<lparr>ws_treasury := ws_treasury w + (if ?rb then 0 else sumCommitted (playersOf w))\<rparr>)"
  have "playerTotal \<circ> refundPlayer = playerTotal" by (simp add: fun_eq_iff playerTotal_def refundPlayer_def)
  then have "funds_ok T ?w"
    using sum_cleared [of "playersOf w"] by (intro funds_map [OF assms(1)]) (auto simp: player_ok_def refundPlayer_def)
  moreover have "\<forall>p \<in> set (map ?g (playersOf w)). pl_committed p = 0" by (simp add: refundPlayer_def)
  ultimately show "sane (\<lambda>x. idle T (fst x) \<and> phaseIs HandAborted (fst x)) (Inr (putHand (h\<lparr>sh_phase := HandAborted, sh_abortedReason := Some reason, sh_potTotal := 0\<rparr>) ?w,
      ev @ [SimHandAborted (tb_tableId (ws_table (putHand (h\<lparr>sh_phase := HandAborted, sh_abortedReason := Some reason, sh_potTotal := 0\<rparr>) ?w)))
        (sh_handId (h\<lparr>sh_phase := HandAborted, sh_abortedReason := Some reason\<rparr>)) reason]))"
    using assms(2) h by (simp add: idle_def phaseIs_def cursor_def)
qed

subsection \<open>Starting a hand\<close>

lemma funds_field_simps [simp]:
  "funds_ok T (w\<lparr>ws_nextCommittee := c\<rparr>) = funds_ok T w" "funds_ok T (w\<lparr>ws_nextHandId := n\<rparr>) = funds_ok T w"
  "funds_ok T (w\<lparr>ws_committeeIndex := n\<rparr>) = funds_ok T w" "funds_ok T (w\<lparr>ws_epochId := n\<rparr>) = funds_ok T w"
  by (simp_all add: funds_ok_def worldTotal_def)

lemma cursor_field_simps [simp]:
  "cursor (w\<lparr>ws_nextCommittee := c\<rparr>) = cursor w" "cursor (w\<lparr>ws_nextHandId := n\<rparr>) = cursor w"
  "cursor (w\<lparr>ws_committeeIndex := n\<rparr>) = cursor w" "cursor (w\<lparr>ws_epochId := n\<rparr>) = cursor w"
  by (simp_all add: cursor_def)

lemma checkPlanned_sane: "sane (\<lambda>_. True) (checkPlanned w v)"
  by (auto simp: checkPlanned_def guard_else_def split: option.splits)

lemma getNextCommittee_idle:
  assumes "idle T w"
  shows "sane (\<lambda>(_, w', _). idle T w') (getNextCommittee w a)"
  using assms
  by (auto simp: getNextCommittee_def Let_def idle_def split: option.splits
      intro!: outcome_rbind [OF selectCommittee_sane] outcome_rbind [OF sane_rmap] checkPlanned_sane)

lemma rotateCommittee_idle:
  assumes "idle T w"
  shows "sane (\<lambda>(w', _). idle T w') (rotateCommittee w a)"
proof -
  let ?w = "w\<lparr>ws_epochId := ws_epochId w + 1\<rparr>"
  have i: "idle T ?w" using assms by (simp add: idle_def)
  show ?thesis
  proof (cases "cf_committeePlan (ws_config ?w) = None")
    case True
    then show ?thesis using i unfolding rotateCommittee_def Let_def
      by (auto simp: idle_def intro!: outcome_rbind [OF selectCommittee_sane])
  next
    case False
    then have r: "rotateCommittee w a = rbind (getNextCommittee ?w a) (\<lambda>(_, w, a). Inr (w, a))"
      by (simp add: rotateCommittee_def Let_def)
    show ?thesis unfolding r by (rule outcome_rbind [OF getNextCommittee_idle [OF i]]) auto
  qed
qed

lemma resetPlayer_simps:
  "pl_committed (resetPlayer ps p) = 0" "pl_seat (resetPlayer ps p) = pl_seat p" "player_ok p \<Longrightarrow> player_ok (resetPlayer ps p)"
  "pl_committed p = 0 \<Longrightarrow> playerTotal (resetPlayer ps p) = playerTotal p"
  "pl_status (resetPlayer ps p) = Seated \<Longrightarrow> sp_playerBondMin ps \<le> pl_bond (resetPlayer ps p)"
  by (auto simp: resetPlayer_def Let_def player_ok_def playerTotal_def split: if_splits)

definition started :: "int \<Rightarrow> WorldState \<Rightarrow> bool" where
  "started T w \<longleftrightarrow> idle T w \<and> bonded w \<and> dealt_in 0 w"

lemma sumCommitted_zero: "\<forall>p \<in> set ps. pl_committed p = 0 \<Longrightarrow> sumCommitted ps = 0"
  by (induction ps) (auto simp: sumCommitted_def)

lemma started_fresh:
  assumes "idle T w" and "sh_potTotal h = 0" and "sh_phase h = HandInit" and "ds_deckCursor (sh_dealer h) = 0"
  shows "started T (putHand h (putPlayers (map (resetPlayer (tb_params (ws_table w))) (playersOf w)) w))"
proof -
  have "funds_ok T (putPlayers (map (resetPlayer (tb_params (ws_table w))) (playersOf w)) w)"
    using assms(1) by (intro funds_map_same) (auto simp: idle_def resetPlayer_simps)
  then show ?thesis using assms(2-4)
    by (auto simp: started_def idle_def bonded_def dealt_in_put resetPlayer_simps sumCommitted_zero)
qed

lemma started_field_simps [simp]:
  "started T (w\<lparr>ws_nextHandId := n\<rparr>) = started T w" "started T (w\<lparr>ws_committeeIndex := n\<rparr>) = started T w"
  by (simp_all add: started_def idle_def bonded_def dealt_in_def)

lemma putHand_field: "putHand h (w\<lparr>ws_nextHandId := n\<rparr>) = (putHand h w)\<lparr>ws_nextHandId := n\<rparr>"
  by (simp add: putHand_def)

lemma simStartHand_started:
  assumes "idle T w"
  shows "sane (\<lambda>((w', _), _). started T w') (simStartHand (w, ev) a)"
  unfolding simStartHand_def Let_def split_beta fst_conv snd_conv
  by (rule outcome_rbind [OF getNextCommittee_idle [OF assms]]) (auto simp: putHand_field intro!: started_fresh)

subsection \<open>Blinds\<close>

lemma findPlayer_seat:
  assumes "\<forall>i<length ps. pl_seat (ps ! i) = i" and "k < length ps"
  shows "findPlayer (\<lambda>x. pl_seat x = k) ps = Some k"
  unfolding findPlayer_def by (rule find_unique) (use assms in auto)

lemma nextSeatedFrom_sane: "sane (\<lambda>j. j < length ps \<and> pl_status (ps ! j) = Seated) (nextSeatedFrom ps s)"
  by (auto simp: nextSeatedFrom_def split: option.splits dest!: find_SomeD dest: findPlayer_Some [OF sym])

lemma cycle_moves:
  fixes s n q :: nat
  assumes "s < n" and "0 < q" and "q < n"
  shows "(s + q) mod n \<noteq> s"
proof (cases "s + q < n")
  case False
  then have "(s + q) mod n = (s + q - n) mod n" by (intro le_mod_geq) simp
  also have "\<dots> = s + q - n" using assms by (intro mod_less) linarith
  finally show ?thesis using assms False by linarith
qed (use assms in simp)

lemma nextSeatedFrom_other:
  assumes "\<forall>i<length ps. pl_seat (ps ! i) = i" and "s < length ps" and "t < length ps" and "t \<noteq> s" and "pl_status (ps ! t) = Seated"
    and "nextSeatedFrom ps s = Inr j"
  shows "j \<noteq> s"
proof
  assume j: "j = s"
  let ?n = "length ps"
  let ?P = "\<lambda>k. case k of None \<Rightarrow> False | Some j \<Rightarrow> pl_status (ps ! j) = Seated"
  define L where "L = map (\<lambda>i. Some ((s + i) mod ?n)) [1..<?n + 1]"
  have fp: "findPlayer (\<lambda>x. pl_seat x = (s + i) mod ?n) ps = Some ((s + i) mod ?n)" for i
    using assms(2) by (intro findPlayer_seat [OF assms(1)] mod_less_divisor) linarith
  have "(case find ?P L of Some (Some j) \<Rightarrow> Inr j | _ \<Rightarrow> Inl NoSeatedPlayer) = (Inr s :: SimError + nat)"
    using assms(6) unfolding nextSeatedFrom_def fp L_def j .
  then have "find ?P L = Some (Some s)" by (auto split: option.splits)
  then obtain k where k: "k < ?n" "Some ((s + (1 + k)) mod ?n) = Some s" "\<forall>i<k. pl_status (ps ! ((s + (1 + i)) mod ?n)) \<noteq> Seated"
    unfolding find_Some_iff L_def by (fastforce simp del: upt_Suc)
  have "k = ?n - 1"
  proof (rule ccontr)
    assume "k \<noteq> ?n - 1"
    with k(1) have "0 < 1 + k" "1 + k < ?n" by linarith+
    with k(2) cycle_moves [of s ?n "1 + k"] assms(2) show False by simp
  qed
  define i where "i = (t + (?n - s) - 1) mod ?n"
  have "(s + (1 + i)) mod ?n = (s + 1 + (t + (?n - s) - 1)) mod ?n" unfolding i_def
    by (simp only: add.assoc [symmetric] mod_add_right_eq)
  also have "s + 1 + (t + (?n - s) - 1) = t + ?n" using assms(2) by linarith
  finally have it: "(s + (1 + i)) mod ?n = t" using assms(3) by simp
  have "i < ?n" unfolding i_def using assms(2) by (intro mod_less_divisor) linarith
  moreover have "i \<noteq> ?n - 1"
  proof
    assume "i = ?n - 1"
    then have e: "s + (1 + i) = s + ?n" using assms(2) by linarith
    show False using it assms(2,4) unfolding e by simp
  qed
  ultimately have "i < k" using \<open>k = ?n - 1\<close> by linarith
  with k(3) it assms(5) show False by blast
qed

lemma two_seated:
  assumes "2 \<le> length (filter P ps)" and "s < length ps"
  obtains t where "t < length ps" and "t \<noteq> s" and "P (ps ! t)"
proof (rule ccontr)
  assume "\<not> thesis"
  with that have n: "\<not> P (ps ! t)" if "t < length ps" "t \<noteq> s" for t using that by blast
  have "filter P (take s ps) = []" "filter P (drop (Suc s) ps) = []"
    using n assms(2) by (auto simp: filter_empty_conv in_set_conv_nth)
  then have "filter P ps = filter P [ps ! s]"
    by (subst id_take_nth_drop [OF assms(2)]) simp
  then show False using assms(1) by (simp split: if_splits)
qed

lemma commitChips_nth:
  "i < length ps \<Longrightarrow> j < length ps \<Longrightarrow> commitChips i amt ps ! j
     = (if i = j then (ps ! j)\<lparr>pl_stack := pl_stack (ps ! j) - amt, pl_committed := pl_committed (ps ! j) + amt\<rparr> else ps ! j)"
  by (simp add: commitChips_def)

lemma length_commitChips [simp]: "length (commitChips i amt ps) = length ps"
  by (simp add: commitChips_def)

lemma commitChips_seated:
  assumes "\<forall>p \<in> set ps. (pl_committed p \<noteq> 0 \<longrightarrow> pl_status p = Seated) \<and> (pl_status p = Seated \<longrightarrow> m \<le> pl_bond p)"
    and "i < length ps" and "pl_status (ps ! i) = Seated"
  shows "\<forall>p \<in> set (commitChips i amt ps). (pl_committed p \<noteq> 0 \<longrightarrow> pl_status p = Seated) \<and> (pl_status p = Seated \<longrightarrow> m \<le> pl_bond p)"
  unfolding commitChips_def by (rule ball_update [OF assms(1)]) (use assms in simp)

lemma simPostBlinds_blinded:
  assumes "started T w"
  shows "sane (blinded T) (simPostBlinds w)"
  unfolding simPostBlinds_def
proof (rule sane_hand)
  fix h assume h: "tb_hand (ws_table w) = Some h"
  let ?ps = "playersOf w" and ?params = "tb_params (ws_table w)"
  have f: "funds_ok T w" and z: "\<forall>p \<in> set ?ps. pl_committed p = 0" and bo: "bonded w" and d: "dealt_in 0 w"
    using assms by (auto simp: started_def idle_def)
  then have seats: "\<forall>i<length ?ps. pl_seat (?ps ! i) = i" and amts: "0 \<le> sp_smallBlind ?params" "0 \<le> sp_bigBlind ?params"
    by (auto simp: funds_ok_def)
  have "blinded T (putHand (h\<lparr>sh_potTotal := sumCommitted (commitChips bb (sp_bigBlind ?params) (commitChips sb (sp_smallBlind ?params) ?ps))\<rparr>)
      (putPlayers (commitChips bb (sp_bigBlind ?params) (commitChips sb (sp_smallBlind ?params) ?ps)) w))"
    if two: "2 \<le> length (filter (\<lambda>p. pl_status p = Seated) ?ps)"
      and sb: "sb < length ?ps" "pl_status (?ps ! sb) = Seated" and bb: "bb < length ?ps" "pl_status (?ps ! bb) = Seated"
      and nx: "nextSeatedFrom ?ps (pl_seat (?ps ! sb)) = Inr bb"
      and stk: "sp_smallBlind ?params \<le> pl_stack (?ps ! sb)" "sp_bigBlind ?params \<le> pl_stack (?ps ! bb)" for sb bb
  proof -
    obtain t where "t < length ?ps" "t \<noteq> sb" "pl_status (?ps ! t) = Seated" using two_seated [OF two sb(1)] by metis
    then have ne: "bb \<noteq> sb" using nextSeatedFrom_other [OF seats sb(1)] nx seats sb(1) by simp
    let ?w1 = "putPlayers (commitChips sb (sp_smallBlind ?params) ?ps) w"
    have f1: "funds_ok T ?w1" using commitChips_funds [OF f sb(1) amts(1) stk(1)] .
    have "funds_ok T (putPlayers (commitChips bb (sp_bigBlind ?params) (playersOf ?w1)) ?w1)"
      by (rule commitChips_funds [OF f1]) (use bb(1) amts(2) stk(2) ne sb(1) in \<open>simp_all add: commitChips_nth\<close>)
    then have f2: "funds_ok T (putPlayers (commitChips bb (sp_bigBlind ?params) (commitChips sb (sp_smallBlind ?params) ?ps)) w)"
      by (simp add: putPlayers_def)
    have "\<forall>p \<in> set ?ps. (pl_committed p \<noteq> 0 \<longrightarrow> pl_status p = Seated) \<and> (pl_status p = Seated \<longrightarrow> sp_playerBondMin ?params \<le> pl_bond p)"
      using z bo by (auto simp: bonded_def)
    note c1 = commitChips_seated [OF this sb, of "sp_smallBlind ?params"]
    have c2: "bb < length (commitChips sb (sp_smallBlind ?params) ?ps)" "pl_status (commitChips sb (sp_smallBlind ?params) ?ps ! bb) = Seated"
      using bb sb(1) ne by (simp_all add: commitChips_nth)
    note commitChips_seated [OF c1 c2, of "sp_bigBlind ?params"]
    with f2 d h show ?thesis by (auto simp: blinded_def bonded_def dealt_in_def)
  qed
  then show "sane (blinded T) (let players = ?ps in
      if length (filter (\<lambda>p. pl_status p = Seated) players) < 2 then Inl TooFewSeated
      else rbind (nextSeatedFrom players (tb_buttonSeat (ws_table w))) (\<lambda>sb.
        rbind (nextSeatedFrom players (pl_seat (players ! sb))) (\<lambda>bb.
        let sbAmt = sp_smallBlind ?params; bbAmt = sp_bigBlind ?params in
        if pl_stack (players ! sb) < sbAmt \<or> pl_stack (players ! bb) < bbAmt then Inl InsufficientStack
        else let players = commitChips bb bbAmt (commitChips sb sbAmt players)
             in Inr (putHand (h\<lparr>sh_potTotal := sumCommitted players\<rparr>) (putPlayers players w)))))"
    unfolding Let_def
    by (auto simp: not_less intro!: outcome_rbind [OF nextSeatedFrom_sane])
qed

lemma blinded_put:
  assumes "blinded T w" and "tb_hand (ws_table w) = Some h"
  shows "blinded T (putHand h' w) \<longleftrightarrow> ds_deckCursor (sh_dealer h') = 0 \<and> sh_potTotal h' = sh_potTotal h
    \<and> sh_phase h' \<notin> {HandAborted, HandComplete}"
  using assms by (auto simp: blinded_def dealt_in_def bonded_def)

lemma blinded_hand:
  assumes "blinded T w" and "tb_hand (ws_table w) = Some h"
  shows "ds_deckCursor (sh_dealer h) = 0" and "sh_phase h \<noteq> HandAborted" and "sh_phase h \<noteq> HandComplete"
  using assms by (auto simp: blinded_def dealt_in_def)

lemma initDeck_blinded: "blinded T w \<Longrightarrow> sane (blinded T) (initDeck w)"
  unfolding initDeck_def by (rule sane_hand) (simp add: blinded_put blinded_hand)

text \<open>What depends on the funds and the table only is kept by slashing a validator.\<close>

lemma slashValidator_keeps:
  assumes "funds_ok T w"
  shows "case slashValidator v r (w, ev) of (w', _) \<Rightarrow> funds_ok T w' \<and> ws_table w' = ws_table w \<and> ws_config w' = ws_config w"
  using slashValidator_funds [OF assms] by (auto split: prod.split)

lemma slashValidator_phases:
  assumes "slashValidator v r (w, ev) = (w', ev')"
  shows "blinded T w \<Longrightarrow> blinded T w'" and "in_play T k w \<Longrightarrow> in_play T k w'"
  using slashValidator_funds [OF _ assms, of T] by (auto simp: blinded_def in_play_def dealt_in_def bonded_def)

lemma shuffleRound_blinded:
  assumes "blinded T w"
  shows "sane (\<lambda>((w, _), _). blinded T w) (shuffleRound bs e ((w, ev), a))"
proof -
  have sl: "case slashValidator v r (w, ev) of (w', _) \<Rightarrow> blinded T w'" for v r
    using slashValidator_phases(1) [of v r w ev] assms by (auto split: prod.split)
  show ?thesis
    using assms sl unfolding shuffleRound_def Let_def split_beta
    by (auto simp: split_beta blinded_put blinded_hand split: option.splits ValidatorDecision.splits
        intro!: sane_hand outcome_rbind [OF shuffleInPlace_sane])
qed

lemma runShuffle_blinded:
  assumes "blinded T w"
  shows "sane (\<lambda>((w, _), _). blinded T w) (runShuffle H bs (w, ev) a)"
  unfolding runShuffle_def Let_def split_beta fst_conv snd_conv
proof (rule sane_hand)
  fix h assume h: "tb_hand (ws_table w) = Some h"
  let ?w = "putHand (h\<lparr>sh_phase := Shuffle\<rparr>) w"
  have b: "blinded T ?w" using assms h by (simp add: blinded_put blinded_hand)
  have r: "sane (\<lambda>((w, _), _). blinded T w) (rfold (shuffleRound bs) xs ((?w, ev), a))" for xs
    using b shuffleRound_blinded by (intro outcome_rfold) auto
  show "sane (\<lambda>x. blinded T (fst (fst x)))
     (if ds_deck (sh_dealer (h\<lparr>sh_phase := Shuffle\<rparr>)) = None then Inl DeckNotInitialized
      else rbind (rfold (shuffleRound bs) (enumerate 0 (co_members (ds_committee (sh_dealer (h\<lparr>sh_phase := Shuffle\<rparr>))))) ((?w, ev), a))
        (\<lambda>x. rbind (needHand (fst (fst x))) (\<lambda>hand. Inr ((putHand (hand\<lparr>sh_dealer := (sh_dealer hand)\<lparr>ds_deckCommit := Some (H (join '','' (map showNat (the (ds_deck (sh_dealer hand))))))\<rparr>\<rparr>) (fst (fst x)),
          snd (fst x) @ [DeckFinalized (tb_tableId (ws_table (fst (fst x)))) (sh_handId hand) (H (join '','' (map showNat (the (ds_deck (sh_dealer hand))))))]), snd x))))"
    by (auto simp: blinded_put blinded_hand intro!: outcome_rbind [OF r] sane_hand)
qed

subsection \<open>Shares and dealing\<close>

lemma in_play_put:
  assumes "in_play T k w" and "tb_hand (ws_table w) = Some h"
  shows "in_play T k' (putHand h' w) \<longleftrightarrow> ds_deckCursor (sh_dealer h') \<le> k' \<and> sh_potTotal h' = sh_potTotal h
    \<and> sh_phase h' \<notin> {HandAborted, HandComplete}"
  using assms by (auto simp: in_play_def dealt_in_def)

lemma in_play_hand:
  assumes "in_play T k w" and "tb_hand (ws_table w) = Some h"
  shows "ds_deckCursor (sh_dealer h) \<le> k" and "sh_phase h \<noteq> HandAborted" and "sh_phase h \<noteq> HandComplete"
    and "sh_potTotal h = sumCommitted (playersOf w)"
  using assms by (auto simp: in_play_def dealt_in_def)

lemma in_play_funds: "in_play T k w \<Longrightarrow> funds_ok T w" "in_play T k w \<Longrightarrow> cursor w \<le> k"
  by (auto simp: in_play_def dest: dealt_in_cursor)

lemma assert_in_play: "in_play T k w \<Longrightarrow> k \<le> 52 \<Longrightarrow> assertInvariants w = Inr w"
  using assertInvariants_ok in_play_funds order_trans by blast

definition ended :: "int \<Rightarrow> SimPhase \<Rightarrow> WorldState \<Rightarrow> bool" where
  "ended T ph w \<longleftrightarrow> idle T w \<and> phaseIs ph w"

lemma settleDecisions_in_play:
  "in_play T k w \<Longrightarrow> case fold (settleDecision kind pos) ds (n, w, ev) of (_, w', _) \<Rightarrow> in_play T k w'"
proof (induction ds arbitrary: n w ev)
  case (Cons d ds)
  obtain n1 w1 ev1 where e: "settleDecision kind pos d (n, w, ev) = (n1, w1, ev1)" by (cases "settleDecision kind pos d (n, w, ev)") auto
  then have "in_play T k w1" using Cons.prems slashValidator_phases(2)
    by (fastforce simp: settleDecision_def split_beta split: ValidatorDecision.splits prod.splits)
  from Cons.IH [OF this] e show ?case by simp
qed simp

lemma collectShares_in_play:
  assumes "in_play T k w" and "k \<le> 52"
  shows "sane (\<lambda>(ok, w', _). if ok then in_play T k w' else ended T HandAborted w') (collectSharesOrAbort bs kind pos pid (w, ev))"
  unfolding collectSharesOrAbort_def Let_def prod.case
proof (rule sane_hand, rule outcome_rbind [OF decisions_sane])
  fix h ds
  obtain n w1 ev1 where e: "fold (settleDecision kind pos) ds (0, w, ev) = (n, w1, ev1)" by (metis surj_pair)
  have p: "in_play T k w1" using settleDecisions_in_play [OF assms(1), of kind pos ds 0 ev] e by simp
  have a: "sane (\<lambda>(w, _). ended T HandAborted w) (simAbortHand r (w1, ev1))" for r
    using simAbortHand_idle [of T w1] in_play_funds [OF p] assms(2) by (auto simp: ended_def)
  show "sane (\<lambda>(ok, w', _). if ok then in_play T k w' else ended T HandAborted w')
     (case fold (settleDecision kind pos) ds (0, w, ev) of (valid, s) \<Rightarrow>
        if int valid < co_thresholdT (ds_committee (sh_dealer h))
        then rbind (simAbortHand (''threshold failure for '' @ kindName kind @ '' shares at pos '' @ showNat pos
               @ '': have='' @ showNat valid @ '' need='' @ showInt (co_thresholdT (ds_committee (sh_dealer h)))) s) (\<lambda>s. Inr (False, s))
        else Inr (True, s))"
    unfolding e prod.case using p by (auto intro!: outcome_rbind [OF a])
qed

lemma advance_cursor:
  assumes "in_play T k w" and "tb_hand (ws_table w) = Some h"
  shows "in_play T (k + 1) (putHand (h\<lparr>sh_dealer := (sh_dealer h)\<lparr>ds_deckCursor := ds_deckCursor (sh_dealer h) + 1\<rparr>\<rparr>) w)"
  using in_play_hand [OF assms] by (simp add: in_play_put [OF assms])

lemma dealOne_in_play:
  assumes "in_play T k w" and "k + 1 \<le> 52"
  shows "sane (\<lambda>(ok, w', _). if ok then in_play T (k + 1) w' else ended T HandAborted w') (dealOne bs pid (w, ev))"
  unfolding dealOne_def Let_def prod.case
proof (rule sane_hand, rule outcome_rbind [OF collectShares_in_play [OF advance_cursor [OF assms(1)] assms(2)]])
  fix h x
  assume x: "case x of (ok, w', _) \<Rightarrow> if ok then in_play T (k + 1) w' else ended T HandAborted w'"
  obtain ok w1 ev1 where e: "x = (ok, w1, ev1)" by (cases x) auto
  show "sane (\<lambda>(ok, w', _). if ok then in_play T (k + 1) w' else ended T HandAborted w')
     (case x of (ok, world, events) \<Rightarrow> if \<not> ok then Inr (False, world, events)
      else rbind (dealFromDeck world (ds_deckCursor (sh_dealer h))) (\<lambda>card. rbind (needHand world) (\<lambda>hand.
        case map_of (sh_holeCards hand) pid of None \<Rightarrow> Inl HoleCardsUndefined
        | Some cards \<Rightarrow> rbind (assertInvariants (putHand (hand\<lparr>sh_holeCards := AList.update pid (cards @ [card]) (sh_holeCards hand)\<rparr>) world))
            (\<lambda>world. Inr (True, world, events)))))"
  proof (cases ok)
    case True
    then have p: "in_play T (k + 1) w1" using x e by simp
    have h1: "in_play T (k + 1) (putHand (hand\<lparr>sh_holeCards := m\<rparr>) w1)" if "tb_hand (ws_table w1) = Some hand" for hand m
      using in_play_hand [OF p that] by (simp add: in_play_put [OF p that])
    have "sane (\<lambda>(ok, w', _). if ok then in_play T (k + 1) w' else ended T HandAborted w')
        (rbind (assertInvariants (putHand (hand\<lparr>sh_holeCards := m\<rparr>) w1)) (\<lambda>world. Inr (True, world, ev1)))"
      if "tb_hand (ws_table w1) = Some hand" for hand m
      using h1 [OF that, of m] assert_in_play [OF h1 [OF that, of m] assms(2)] by simp
    then show ?thesis using True e
      by (auto split: option.splits intro!: outcome_rbind [OF dealFromDeck_sane] sane_hand)
  qed (use x e in simp)
qed (use assms in simp)

lemma dealLoop_in_play:
  assumes "in_play T k w" and "k + length pids \<le> 52"
  shows "sane (\<lambda>(w', _). in_play T (k + length pids) w' \<or> ended T HandAborted w') (dealLoop bs pids (w, ev))"
  using assms
proof (induction pids arbitrary: k w ev)
  case (Cons pid pids)
  show ?case unfolding dealLoop.simps
  proof (rule outcome_rbind [OF dealOne_in_play [OF Cons.prems(1)]])
    fix x :: "bool \<times> simulated" assume x: "case x of (ok, w', _) \<Rightarrow> if ok then in_play T (k + 1) w' else ended T HandAborted w'"
    obtain ok w1 ev1 where e: "x = (ok, w1, ev1)" by (cases x) auto
    show "sane (\<lambda>(w', _). in_play T (k + length (pid # pids)) w' \<or> ended T HandAborted w')
       (case x of (ok, s) \<Rightarrow> if ok then dealLoop bs pids s else Inr s)"
      using x e Cons.IH [of "k + 1" w1 ev1] Cons.prems(2) by auto
  qed (use Cons.prems(2) in simp)
qed simp

lemma admitted_in_play:
  assumes "blinded T w" and "tb_hand (ws_table w) = Some h" and "h' = h\<lparr>sh_phase := DealHole, sh_holeCards := m\<rparr>"
  shows "in_play T 0 (putHand h' (putPlayers (map (admitPlayer (tb_params (ws_table w))) (playersOf w)) w))"
proof -
  let ?g = "admitPlayer (tb_params (ws_table w))"
  have g: "pl_committed (?g p) = pl_committed p" "playerTotal (?g p) = playerTotal p" "player_ok p \<Longrightarrow> player_ok (?g p)"
    "pl_seat (?g p) = pl_seat p" for p by (auto simp: admitPlayer_def playerTotal_def player_ok_def)
  have "funds_ok T (putPlayers (map ?g (playersOf w)) w)"
    using assms(1) by (intro funds_map_same) (simp_all add: blinded_def g)
  moreover have "sumCommitted (map ?g (playersOf w)) = sumCommitted (playersOf w)"
    by (simp add: sumCommitted_def comp_def g)
  moreover have "isActiveInHand (?g p)" if "p \<in> set (playersOf w)" "pl_committed p \<noteq> 0" for p
    using assms(1) that by (auto simp: blinded_def bonded_def admitPlayer_def isActiveInHand_def)
  ultimately show ?thesis using assms
    by (auto simp: in_play_def dealt_in_put g blinded_def dealt_in_def)
qed

lemma length_remaining: "length (remainingPlayers t) \<le> length (tb_players t)"
  unfolding remainingPlayers_def by (rule order_trans [OF length_filter_le]) simp

lemma dealHoleCards_in_play:
  assumes "blinded T w"
  shows "sane (\<lambda>(w', _). in_play T 18 w' \<or> ended T HandAborted w') (dealHoleCards bs (w, ev))"
  unfolding dealHoleCards_def Let_def prod.case
proof (rule sane_hand)
  fix h assume h: "tb_hand (ws_table w) = Some h"
  let ?params = "tb_params (ws_table w)"
  let ?h = "h\<lparr>sh_phase := DealHole, sh_holeCards := foldl (\<lambda>m p. AList.update (pl_id p) [] m) (sh_holeCards h)
    (filter (\<lambda>p. pl_status p = Seated \<and> \<not> pl_bond p < sp_playerBondMin ?params) (playersOf w))\<rparr>"
  let ?w = "putHand ?h (putPlayers (map (admitPlayer ?params) (playersOf w)) w)"
  let ?order = "concat (map (\<lambda>i. replicate 2 (pl_id (playersOf ?w ! i))) (remainingPlayers (ws_table ?w)))"
  have p: "in_play T 0 ?w" using admitted_in_play [OF assms h] by simp
  have "length (playersOf ?w) \<le> 9" using assms by (simp add: blinded_def funds_ok_def)
  then have l: "0 + length ?order \<le> 18" using length_remaining [of "ws_table ?w"]
    by (simp add: length_concat comp_def sum_list_triv)
  have "in_play T 18 w'" if "in_play T (0 + length ?order) w'" for w'
    using that l dealt_in_mono by (auto simp: in_play_def)
  then show "sane (\<lambda>(w', _). in_play T 18 w' \<or> ended T HandAborted w') (dealLoop bs ?order (?w, ev))"
    by (intro outcome_mono [OF dealLoop_in_play [OF p]]) (use l in auto)
qed

subsection \<open>Settling\<close>

lemma cleared_total:
  "\<forall>p \<in> set ps. pl_committed p \<noteq> 0 \<longrightarrow> isActiveInHand p \<Longrightarrow>
   sum_list (map playerTotal (map (\<lambda>p. if isActiveInHand p then p\<lparr>pl_committed := 0\<rparr> else p) ps))
   = sum_list (map playerTotal ps) - sumCommitted ps"
  by (induction ps) (auto simp: sumCommitted_def playerTotal_def)

lemma settle_total:
  assumes "w < length ps" and "\<forall>p \<in> set ps. pl_committed p \<noteq> 0 \<longrightarrow> isActiveInHand p"
  shows "sum_list (map playerTotal (settlePot w pot ps)) = sum_list (map playerTotal ps) + pot - sumCommitted ps"
proof -
  let ?ps = "ps[w := (ps ! w)\<lparr>pl_stack := pl_stack (ps ! w) + pot\<rparr>]"
  let ?g = "\<lambda>p. if isActiveInHand p then p\<lparr>pl_committed := 0\<rparr> else p"
  have "\<forall>p \<in> set ?ps. pl_committed p \<noteq> 0 \<longrightarrow> isActiveInHand p"
    by (rule ball_update [OF assms(2)]) (use assms in \<open>auto simp: isActiveInHand_def\<close>)
  from cleared_total [OF this]
  have "sum_list (map playerTotal (map ?g ?ps)) = sum_list (map playerTotal ?ps) - sumCommitted ?ps" .
  moreover have "sumCommitted ?ps = sumCommitted ps" using sum_list_map_update [OF assms(1), of pl_committed] by (simp add: sumCommitted_def)
  moreover have "sum_list (map playerTotal ?ps) = sum_list (map playerTotal ps) + pot"
    using playerTotal_update [OF assms(1)] by (simp add: playerTotal_def)
  ultimately show ?thesis by (simp add: settlePot_def)
qed

lemma settlePot_seats: "i < length ps \<Longrightarrow> pl_seat (settlePot w pot ps ! i) = pl_seat (ps ! i)"
  by (cases "i = w") (auto simp: settlePot_def)

lemma completeHand_idle:
  assumes "in_play T k w" and "k \<le> 52" and "tb_hand (ws_table w) = Some h" and "i < length (playersOf w)"
    and "completeHand i h (w, ev) = (w', ev')"
  shows "ended T HandComplete w'"
proof -
  let ?ps = "settlePot i (sh_potTotal h) (playersOf w)"
  have f: "funds_ok T w" and a: "\<forall>p \<in> set (playersOf w). pl_committed p \<noteq> 0 \<longrightarrow> isActiveInHand p"
    using assms(1) by (auto simp: in_play_def)
  have pot: "sh_potTotal h = sumCommitted (playersOf w)" using in_play_hand [OF assms(1,3)] by simp
  have w': "w' = putHand (h\<lparr>sh_potTotal := 0, sh_phase := HandComplete\<rparr>) (putPlayers ?ps w)"
    using assms(5) by (simp add: completeHand_def Let_def)
  have ok: "\<forall>p \<in> set (playersOf w). player_ok p" using f by (simp add: funds_ok_def)
  then have "0 \<le> sh_potTotal h" unfolding pot sumCommitted_def by (intro sum_list_nonneg) (auto simp: player_ok_def)
  then have "\<forall>p \<in> set ((playersOf w)[i := (playersOf w ! i)\<lparr>pl_stack := pl_stack (playersOf w ! i) + sh_potTotal h\<rparr>]).
      player_ok p \<and> (pl_committed p \<noteq> 0 \<longrightarrow> isActiveInHand p)"
    using ok a assms(4) by (intro ball_update) (auto simp: player_ok_def isActiveInHand_def)
  then have c: "\<forall>p \<in> set ?ps. player_ok p \<and> pl_committed p = 0" by (auto simp: settlePot_def player_ok_def)
  have l: "length ?ps = length (playersOf w)" by (simp add: settlePot_def)
  have "worldTotal (putPlayers ?ps w) = worldTotal w"
    using settle_total [OF assms(4) a, of "sh_potTotal h"] pot by (simp add: worldTotal_def putPlayers_def)
  then have "funds_ok T (putPlayers ?ps w)"
    using f c l settlePot_seats by (auto simp: funds_ok_def putPlayers_def)
  moreover have "ds_deckCursor (sh_dealer h) \<le> 52" using in_play_hand(1) [OF assms(1,3)] assms(2) by simp
  ultimately show ?thesis using c unfolding w' by (simp add: ended_def idle_def phaseIs_def)
qed

subsection \<open>Betting\<close>

text \<open>The player on turn is still in the hand, or has just been ejected for not acting.\<close>

definition on_turn :: "int \<Rightarrow> nat \<Rightarrow> WorldState \<Rightarrow> bool" where
  "on_turn T i w \<longleftrightarrow> funds_ok T w \<and> i < length (playersOf w) \<and> isActiveInHand (playersOf w ! i)
     \<and> (\<forall>p \<in> set (playersOf w). pl_committed p \<noteq> 0 \<longrightarrow> isActiveInHand p)"

lemma commitChips_on_turn:
  assumes "on_turn T i w" and "0 \<le> amt" and "amt \<le> pl_stack (playersOf w ! i)"
  shows "on_turn T i (putPlayers (commitChips i amt (playersOf w)) w)"
proof -
  have i: "i < length (playersOf w)" and f: "funds_ok T w" using assms(1) by (auto simp: on_turn_def)
  have "\<forall>p \<in> set (commitChips i amt (playersOf w)). pl_committed p \<noteq> 0 \<longrightarrow> isActiveInHand p"
    unfolding commitChips_def by (rule ball_update) (use assms(1) in \<open>auto simp: on_turn_def isActiveInHand_def\<close>)
  then show ?thesis using commitChips_funds [OF f i assms(2,3)] assms(1) i
    by (auto simp: on_turn_def commitChips_nth isActiveInHand_def)
qed

lemma fold_on_turn:
  assumes "on_turn T i w"
  shows "on_turn T i (putPlayers ((playersOf w)[i := (playersOf w ! i)\<lparr>pl_status := Folded\<rparr>]) w)"
proof -
  have i: "i < length (playersOf w)" and f: "funds_ok T w" using assms by (auto simp: on_turn_def)
  have "funds_ok T (putPlayers ((playersOf w)[i := (playersOf w ! i)\<lparr>pl_status := Folded\<rparr>]) w)"
    by (rule funds_move [OF f i]) (use funds_player [OF f i] in \<open>auto simp: player_ok_def playerTotal_def\<close>)
  moreover have "\<forall>p \<in> set ((playersOf w)[i := (playersOf w ! i)\<lparr>pl_status := Folded\<rparr>]). pl_committed p \<noteq> 0 \<longrightarrow> isActiveInHand p"
    by (rule ball_update) (use assms in \<open>auto simp: on_turn_def isActiveInHand_def\<close>)
  ultimately show ?thesis using i by (simp add: on_turn_def isActiveInHand_def)
qed

lemma applyPreflopAction_on_turn:
  assumes "on_turn T i w" and "0 \<le> toCall"
    and "applyPreflopAction i act toCall mr cb h (w, ev) = (cb', h', w', ev')"
  shows "on_turn T i w' \<and> sh_dealer h' = sh_dealer h \<and> sh_phase h' = sh_phase h \<and> length (playersOf w') = length (playersOf w)"
proof -
  have st: "0 \<le> pl_stack (playersOf w ! i)" using assms(1) funds_player by (auto simp: on_turn_def player_ok_def)
  have same: "putPlayers (playersOf w) w = w" by (simp add: putPlayers_def)
  note pay = commitChips_on_turn [OF assms(1), of "min toCall (pl_stack (playersOf w ! i))"]
  show ?thesis
  proof (cases act)
    case (PRaiseTo a)
    then show ?thesis
      using assms(2,3) st pay commitChips_on_turn [OF assms(1), of "max 0 (max a mr - pl_committed (playersOf w ! i))"]
      by (auto simp: applyPreflopAction_def Let_def split: if_splits)
  qed (use assms fold_on_turn [OF assms(1)] st pay same in \<open>auto simp: applyPreflopAction_def Let_def split: if_splits\<close>)
qed

lemma slashPlayer_on_turn:
  assumes "on_turn T i w" and "slashPlayer pid why (w, ev) = (w', ev')"
  shows "on_turn T i w'"
proof -
  have i: "i < length (playersOf w)" and f: "funds_ok T w" using assms(1) by (auto simp: on_turn_def)
  note sl = slashPlayer_funds [OF f assms(2)]
  have "isActiveInHand (playersOf w' ! j)" if "j < length (playersOf w)" "pl_committed (playersOf w' ! j) \<noteq> 0 \<or> j = i" for j
  proof -
    have "pl_committed (playersOf w ! j) \<noteq> 0 \<or> j = i" using that sl by auto
    then have "isActiveInHand (playersOf w ! j)" using assms(1) that(1) nth_mem [of j "playersOf w"] by (auto simp: on_turn_def)
    moreover have "pl_status (playersOf w' ! j) = pl_status (playersOf w ! j) \<or> pl_status (playersOf w' ! j) = Ejected"
      using sl that(1) by blast
    ultimately show ?thesis by (auto simp: isActiveInHand_def)
  qed
  then show ?thesis using sl i by (auto simp: on_turn_def in_set_conv_nth)
qed

lemma on_turn_in_play:
  assumes "on_turn T i w" and "ds_deckCursor (sh_dealer h) \<le> k" and "sh_phase h \<notin> {HandAborted, HandComplete}"
  shows "in_play T k (putHand (h\<lparr>sh_potTotal := sumCommitted (playersOf w)\<rparr>) w)"
  using assms by (auto simp: on_turn_def in_play_def dealt_in_put)

lemma in_play_on_turn:
  "in_play T k w \<Longrightarrow> i < length (playersOf w) \<Longrightarrow> pl_status (playersOf w ! i) = InHand \<Longrightarrow> on_turn T i w"
  by (auto simp: in_play_def on_turn_def isActiveInHand_def)

lemma remaining_bound: "i \<in> set (remainingPlayers t) \<Longrightarrow> i < length (tb_players t)"
  by (simp add: remainingPlayers_def)

lemma takeDecision_on_turn:
  assumes "on_turn T i w" and "takeDecision b n pid toCall mr (w, ev) = (act, w', ev')"
  shows "on_turn T i w'"
  using assms slashPlayer_on_turn [OF assms(1)]
  by (auto simp: takeDecision_def Let_def split_beta prod_eq_iff split: if_splits)

text \<open>The end of one turn: the pot is updated, and the hand ends when one player is left.\<close>

lemma turn_end_sane:
  assumes "on_turn T i w" and "ds_deckCursor (sh_dealer h) \<le> k" and "sh_phase h \<notin> {HandAborted, HandComplete}" and "k \<le> 52"
    and "h' = h\<lparr>sh_potTotal := sumCommitted (playersOf w)\<rparr>" and "w' = putHand h' w"
  shows "sane (\<lambda>(fin, _, w, _). if fin then ended T HandComplete w else in_play T k w)
     (if length (remainingPlayers (ws_table w')) = 1
      then Inr (True, cb, completeHand (hd (remainingPlayers (ws_table w'))) h' (w', ev))
      else rbind (assertInvariants w') (\<lambda>w. Inr (False, cb, w, ev)))"
proof -
  have p: "in_play T k w'" using on_turn_in_play [OF assms(1-3)] assms(5,6) by simp
  show ?thesis
  proof (cases "length (remainingPlayers (ws_table w')) = 1")
    case True
    then have "hd (remainingPlayers (ws_table w')) < length (playersOf w')"
      by (intro remaining_bound hd_in_set) auto
    then show ?thesis using True completeHand_idle [OF p assms(4)] assms(6)
      by (auto split: prod.split)
  next
    case False
    then show ?thesis using p assert_in_play [OF p assms(4)] by simp
  qed
qed

lemma preflopSeat_in_play:
  assumes "in_play T k w" and "k \<le> 52"
  shows "sane (\<lambda>(fin, _, w, _). if fin then ended T HandComplete w else in_play T k w) (preflopSeat bs mr seat cb (w, ev))"
proof (cases "findPlayer (\<lambda>x. pl_seat x = seat) (playersOf w)")
  case None
  then show ?thesis using assms by (simp add: preflopSeat_def)
next
  case (Some i)
  note i = findPlayer_Some [OF Some, THEN conjunct1]
  let ?p = "playersOf w ! i" and ?toCall = "max 0 (cb - pl_committed (playersOf w ! i))"
  show ?thesis
  proof (cases "pl_status ?p = InHand \<and> be_player bs (pl_id ?p) \<noteq> None")
    case False
    then show ?thesis using Some assms by (auto simp: preflopSeat_def Let_def)
  next
    case True
    then obtain b where b: "be_player bs (pl_id ?p) = Some b" by auto
    obtain h where h: "tb_hand (ws_table w) = Some h" using assms(1) by (auto simp: in_play_def dealt_in_def)
    note hd = in_play_hand [OF assms(1) h]
    obtain act w1 ev1 where s1: "takeDecision b (sh_handId h) (pl_id ?p) ?toCall mr (w, ev) = (act, w1, ev1)" by (metis surj_pair)
    have "on_turn T i w1" using takeDecision_on_turn [OF in_play_on_turn [OF assms(1) i] s1] True by simp
    obtain cb' h2 w2 ev2 where a: "applyPreflopAction i (normalizePlayerAction act ?toCall) ?toCall mr cb h (w1, ev1) = (cb', h2, w2, ev2)"
      by (metis surj_pair)
    note t = applyPreflopAction_on_turn [OF \<open>on_turn T i w1\<close> _ a]
    have e: "preflopSeat bs mr seat cb (w, ev) =
       (let h' = h2\<lparr>sh_potTotal := sumCommitted (playersOf w2)\<rparr>; w' = putHand h' w2 in
        if length (remainingPlayers (ws_table w')) = 1
        then Inr (True, cb', completeHand (hd (remainingPlayers (ws_table w'))) h' (w', ev2))
        else rbind (assertInvariants w') (\<lambda>w. Inr (False, cb', w, ev2)))"
      unfolding preflopSeat_def prod.case Some option.case Let_def needHand_def h rbind_simps b
      using True by (simp only: not_not if_True if_False s1 a prod.case simp_thms)
    show ?thesis unfolding e Let_def
      by (rule turn_end_sane [OF _ _ _ assms(2) refl refl]) (use t hd in auto)
  qed
qed

lemma preflopLoop_in_play:
  assumes "in_play T k w" and "k \<le> 52"
  shows "sane (\<lambda>(w, _). in_play T k w \<or> ended T HandComplete w) (preflopLoop bs mr seats cb (w, ev))"
  using assms
proof (induction seats arbitrary: cb w ev)
  case (Cons seat seats)
  show ?case unfolding preflopLoop.simps
    by (rule outcome_rbind [OF preflopSeat_in_play [OF Cons.prems]]) (auto intro: Cons.IH [OF _ Cons.prems(2)] split: if_splits)
qed simp

lemma runPreflopBetting_in_play:
  assumes "in_play T k w" and "k \<le> 52"
  shows "sane (\<lambda>(w, _). in_play T k w \<or> ended T HandComplete w) (runPreflopBetting bs (w, ev))"
  unfolding runPreflopBetting_def Let_def prod.case
proof (rule sane_hand)
  fix h assume h: "tb_hand (ws_table w) = Some h"
  have p: "in_play T k (putHand (h\<lparr>sh_phase := PreflopBetting\<rparr>) w)"
    using in_play_hand [OF assms(1) h] by (simp add: in_play_put [OF assms(1) h])
  show "sane (\<lambda>(w, _). in_play T k w \<or> ended T HandComplete w)
     (preflopLoop bs (sp_bigBlind (tb_params (ws_table (putHand (h\<lparr>sh_phase := PreflopBetting\<rparr>) w))) * 2)
       (map (\<lambda>i. ((tb_buttonSeat (ws_table (putHand (h\<lparr>sh_phase := PreflopBetting\<rparr>) w)) + 3) mod length (playersOf (putHand (h\<lparr>sh_phase := PreflopBetting\<rparr>) w)) + i)
           mod length (playersOf (putHand (h\<lparr>sh_phase := PreflopBetting\<rparr>) w))) [0..<length (playersOf (putHand (h\<lparr>sh_phase := PreflopBetting\<rparr>) w))])
       (sp_bigBlind (tb_params (ws_table (putHand (h\<lparr>sh_phase := PreflopBetting\<rparr>) w)))) (putHand (h\<lparr>sh_phase := PreflopBetting\<rparr>) w, ev))"
    by (rule preflopLoop_in_play [OF p assms(2)])
qed

subsection \<open>Streets and showdown\<close>

lemma revealCards_in_play:
  assumes "in_play T k w" and "k + n \<le> 52"
  shows "sane (\<lambda>(cs, w, _). if cs = None then ended T HandAborted w else in_play T (k + n) w) (revealCards bs n cards (w, ev))"
  using assms
proof (induction n arbitrary: k cards w ev)
  case (Suc n)
  show ?case unfolding revealCards.simps Let_def
  proof (rule sane_hand, rule outcome_rbind [OF collectShares_in_play [OF advance_cursor [OF Suc.prems(1)]]])
    fix h and x :: "bool \<times> simulated"
    assume x: "case x of (ok, w', _) \<Rightarrow> if ok then in_play T (k + 1) w' else ended T HandAborted w'"
    obtain ok w1 ev1 where e: "x = (ok, w1, ev1)" by (cases x) auto
    have shift: "k + 1 + n = k + Suc n" by simp
    show "sane (\<lambda>(cs, w, _). if cs = None then ended T HandAborted w else in_play T (k + Suc n) w)
       (case x of (ok, s) \<Rightarrow> if \<not> ok then Inr (None, s)
        else rbind (dealFromDeck (fst s) (ds_deckCursor (sh_dealer h))) (\<lambda>card. revealCards bs n (cards @ [card]) s))"
      using x e Suc.IH [of "k + 1" w1 _ ev1, unfolded shift] Suc.prems(2) by (auto intro!: outcome_rbind [OF dealFromDeck_sane])
  qed (use Suc.prems(2) in simp_all)
qed simp

lemma revealStreet_in_play:
  assumes "in_play T k w" and "k + 3 \<le> 52"
  shows "sane (\<lambda>(ok, w, _). if ok then in_play T (k + 3) w else ended T HandAborted w) (revealStreet bs str (w, ev))"
  unfolding revealStreet_def fst_conv
proof (rule sane_hand, rule outcome_rbind [OF revealCards_in_play [OF assms(1)]])
  let ?n = "if str = SimFlop then 3 else 1 :: nat"
  fix h and x :: "nat list option \<times> simulated"
  assume x: "case x of (cs, w, _) \<Rightarrow> if cs = None then ended T HandAborted w else in_play T (k + ?n) w"
  obtain cs w1 ev1 where e: "x = (cs, w1, ev1)" by (cases x) auto
  show "sane (\<lambda>(ok, w, _). if ok then in_play T (k + 3) w else ended T HandAborted w)
     (case x of (revealed, world, events) \<Rightarrow> case revealed of None \<Rightarrow> Inr (False, world, events)
      | Some cards \<Rightarrow> rbind (needHand world) (\<lambda>hand.
          rbind (assertInvariants (putHand (hand\<lparr>sh_board := sh_board hand @ cards\<rparr>) world)) (\<lambda>world.
          Inr (True, world, events @ [StreetRevealed (tb_tableId (ws_table world)) (sh_handId hand) str cards]))))"
  proof (cases cs)
    case (Some cards)
    then have p: "in_play T (k + ?n) w1" using x e by simp
    have h1: "in_play T (k + 3) (putHand (hand\<lparr>sh_board := b\<rparr>) w1)" if "tb_hand (ws_table w1) = Some hand" for hand b
      using in_play_hand [OF p that] by (auto simp: in_play_put [OF p that] split: if_splits)
    show ?thesis using e Some h1 assert_in_play [OF h1 assms(2)] by (auto intro!: sane_hand)
  qed (use x e in simp)
qed (use assms(2) in auto)

lemma setPhase_in_play:
  assumes "in_play T k w" and "ph \<notin> {HandAborted, HandComplete}"
  shows "sane (in_play T k) (setPhase ph w)"
  unfolding setPhase_def
  by (rule sane_hand) (use assms in \<open>auto simp: in_play_put in_play_hand\<close>)

lemma revealStreets_in_play:
  assumes "in_play T k w" and "k + 3 * length xs \<le> 52" and "\<forall>x \<in> set xs. fst x \<notin> {HandAborted, HandComplete}"
  shows "sane (\<lambda>(ok, w, _). if ok then in_play T (k + 3 * length xs) w else ended T HandAborted w) (revealStreets bs xs (w, ev))"
  using assms
proof (induction xs arbitrary: k w ev)
  case (Cons x xs)
  obtain ph str where x: "x = (ph, str)" by fastforce
  have ph: "ph \<notin> {HandAborted, HandComplete}" and k: "k + 3 \<le> 52" using Cons.prems(2,3) x by auto
  have shift: "k + 3 + 3 * length xs = k + 3 * length (x # xs)" by simp
  have IH: "sane (\<lambda>(ok, w, _). if ok then in_play T (k + 3 * length (x # xs)) w else ended T HandAborted w) (revealStreets bs xs (w1, ev1))"
    if "in_play T (k + 3) w1" for w1 ev1
    using Cons.IH [OF that, of ev1, unfolded shift] Cons.prems(2,3) by simp
  show ?case unfolding x revealStreets.simps
    by (rule outcome_rbind [OF setPhase_in_play [OF Cons.prems(1) ph]], rule outcome_rbind [OF revealStreet_in_play [OF _ k]])
      (use IH x in \<open>auto split: if_splits\<close>)
qed simp

lemma pickWinner_mem: "rs \<noteq> [] \<Longrightarrow> pickWinner h ps rs \<in> set rs"
proof -
  have "snd (foldl (\<lambda>(best, winner) i.
      let cards = (case map_of (sh_holeCards h) (pl_id (ps ! i)) of Some cs \<Rightarrow> cs | None \<Rightarrow> []); score = sum_list cards
      in if (case best of None \<Rightarrow> True | Some b \<Rightarrow> score < b) then (Some score, i) else (best, winner)) (b, i) xs) \<in> insert i (set xs)" for b i xs
    by (induction xs arbitrary: b i) (auto simp: Let_def split: if_splits)
  from this [of None "hd rs" rs] show "rs \<noteq> [] \<Longrightarrow> ?thesis" by (simp add: pickWinner_def insert_absorb)
qed

lemma showdown_ends:
  assumes "in_play T k w" and "k \<le> 52"
  shows "sane (\<lambda>(w, _). idle T w) (showdownAndSettle (w, ev))"
  unfolding showdownAndSettle_def Let_def prod.case
proof (rule sane_hand)
  fix h assume h: "tb_hand (ws_table w) = Some h"
  have c: "sane (\<lambda>(w, _). idle T w) (Inr (completeHand i h (w, ev)))" if "i \<in> set (remainingPlayers (ws_table w))" for i
    using completeHand_idle [OF assms h remaining_bound [OF that]] by (auto simp: ended_def split: prod.split)
  have a: "sane (\<lambda>(w, _). idle T w) (simAbortHand r (w, ev))" for r
    using simAbortHand_idle [of T w r ev] in_play_funds [OF assms(1)] assms(2) by (auto elim!: outcome_mono)
  show "sane (\<lambda>(w, _). idle T w) (if length (remainingPlayers (ws_table w)) = 0 then simAbortHand ''no remaining players'' (w, ev)
      else if length (remainingPlayers (ws_table w)) = 1 then Inr (completeHand (hd (remainingPlayers (ws_table w))) h (w, ev))
      else Inr (completeHand (pickWinner h (playersOf w) (remainingPlayers (ws_table w))) h (w, ev)))"
    using a c pickWinner_mem by (simp del: outcome_simps)
qed

lemma idle_button: "idle T (w\<lparr>ws_table := (ws_table w)\<lparr>tb_buttonSeat := b\<rparr>\<rparr>) = idle T w"
  by (simp add: idle_def funds_ok_def worldTotal_def cursor_def)

lemma assert_idle: "idle T w \<Longrightarrow> assertInvariants w = Inr w"
  unfolding idle_def by (blast intro: assertInvariants_ok)

lemma playOut_idle:
  assumes "in_play T 18 w"
  shows "sane (\<lambda>(w, _). idle T w) (playOut bs (w, ev))"
proof -
  let ?xs = "[(FlopReveal, SimFlop), (TurnReveal, SimTurn), (RiverReveal, SimRiver)]"
  have n: "18 + 3 * length ?xs = 27" by simp
  have r: "sane (\<lambda>(ok, w, _). if ok then in_play T 27 w else ended T HandAborted w) (revealStreets bs ?xs (w, ev))"
    using revealStreets_in_play [OF assms, of ?xs bs ev] unfolding n by simp
  have s: "sane (\<lambda>(w, _). idle T w) (rbind (showdownAndSettle (w, ev)) (\<lambda>(world, events).
      rbind (assertInvariants world) (\<lambda>world. let table = ws_table world in
       Inr (world\<lparr>ws_table := table\<lparr>tb_buttonSeat := (tb_buttonSeat table + 1) mod length (tb_players table)\<rparr>\<rparr>, events))))"
    if "in_play T 27 w" for w ev
    by (rule outcome_rbind [OF showdown_ends [OF that]]) (auto simp: assert_idle idle_button Let_def)
  have p: "sane (\<lambda>(w, _). idle T w) (rbind (setPhase Showdown w) (\<lambda>world. rbind (showdownAndSettle (world, ev)) (\<lambda>(world, events).
      rbind (assertInvariants world) (\<lambda>world. let table = ws_table world in
       Inr (world\<lparr>ws_table := table\<lparr>tb_buttonSeat := (tb_buttonSeat table + 1) mod length (tb_players table)\<rparr>\<rparr>, events)))))"
    if "in_play T 27 w" for w ev
    by (rule outcome_seq [OF setPhase_in_play [OF that]]) (simp, rule s)
  show ?thesis unfolding playOut_def
  proof (rule outcome_seq [OF r])
    fix x :: "bool \<times> simulated"
    assume x: "case x of (ok, w, _) \<Rightarrow> if ok then in_play T 27 w else ended T HandAborted w"
    obtain ok w1 ev1 where e: "x = (ok, w1, ev1)" by (cases x) auto
    show "sane (\<lambda>(w, _). idle T w) (case x of (ok, world, events) \<Rightarrow> if \<not> ok then Inr (world, events)
        else rbind (setPhase Showdown world) (\<lambda>world. rbind (showdownAndSettle (world, events)) (\<lambda>(world, events).
          rbind (assertInvariants world) (\<lambda>world. let table = ws_table world in
          Inr (world\<lparr>ws_table := table\<lparr>tb_buttonSeat := (tb_buttonSeat table + 1) mod length (tb_players table)\<rparr>\<rparr>, events)))))"
      using x e p [of w1 ev1] by (cases ok) (simp_all add: ended_def)
  qed
qed

subsection \<open>Whole runs\<close>

lemma ended_not_in_play: "in_play T k w \<Longrightarrow> \<not> phaseIs HandAborted w \<and> \<not> phaseIs HandComplete w"
  by (auto simp: in_play_def dealt_in_def phaseIs_def)

lemma betAndPlayOut_idle:
  assumes "in_play T 18 w"
  shows "sane (\<lambda>(w, _). idle T w) (betAndPlayOut bs (w, ev))"
  unfolding betAndPlayOut_def
proof (rule outcome_seq [OF runPreflopBetting_in_play [OF assms order_trans [OF _ order_refl]]], simp, clarify)
  fix w1 ev1 assume x: "in_play T 18 w1 \<or> ended T HandComplete w1"
  then have "assertInvariants w1 = Inr w1"
    using assert_in_play [of T 18 w1] assert_idle [of T w1] by (auto simp: ended_def)
  then show "sane (\<lambda>(w, _). idle T w) (rbind (assertInvariants w1) (\<lambda>world.
      if phaseIs HandComplete world \<or> phaseIs HandAborted world then Inr (world, ev1) else playOut bs (world, ev1)))"
    using x ended_not_in_play [of T 18 w1] playOut_idle [of T w1 bs ev1] by (auto simp: ended_def)
qed

lemma dealAndPlay_idle:
  assumes "blinded T w"
  shows "sane (\<lambda>(w, _). idle T w) (dealAndPlay bs (w, ev))"
  unfolding dealAndPlay_def
proof (rule outcome_seq [OF dealHoleCards_in_play [OF assms]], clarify)
  fix w1 ev1 assume x: "in_play T 18 w1 \<or> ended T HandAborted w1"
  then have "assertInvariants w1 = Inr w1"
    using assert_in_play [of T 18 w1] assert_idle [of T w1] by (auto simp: ended_def)
  then show "sane (\<lambda>(w, _). idle T w) (rbind (assertInvariants w1) (\<lambda>world.
      if phaseIs HandAborted world then Inr (world, ev1) else betAndPlayOut bs (world, ev1)))"
    using x ended_not_in_play [of T 18 w1] betAndPlayOut_idle [of T w1 bs ev1] by (auto simp: ended_def)
qed

lemma assert_blinded: "blinded T w \<Longrightarrow> assertInvariants w = Inr w"
  using assertInvariants_ok [of T w] dealt_in_cursor [of 0 w] by (simp add: blinded_def)

lemma simHand_idle:
  assumes "idle T w"
  shows "sane (\<lambda>((w, _), _). idle T w) (simHand H config bs n ((w, ev), a))"
proof -
  have r: "sane (\<lambda>(w, _). idle T w) (if cf_rotateCommitteeEveryHand config \<and> n > 0 then rotateCommittee w a else Inr (w, a))"
    using rotateCommittee_idle [OF assms] assms by simp
  have d: "sane (\<lambda>((w, _), _). idle T w) (rbind (dealAndPlay bs (w, ev)) (\<lambda>s. Inr (s, a)))" if "blinded T w" for w ev a
    by (rule outcome_seq [OF dealAndPlay_idle [OF that]]) auto
  show ?thesis unfolding simHand_def Let_def prod.case
    apply (rule outcome_seq [OF r], clarify)
    apply (rule outcome_seq [OF simStartHand_started], assumption, clarify)
    apply (rule outcome_seq [OF simPostBlinds_blinded], assumption)
    apply (rule outcome_seq [OF initDeck_blinded], assumption)
    apply (rule outcome_seq [OF runShuffle_blinded], assumption, clarify)
    apply (simp add: assert_blinded d)
    done
qed

definition amounts_ok :: "SimConfig \<Rightarrow> bool" where
  "amounts_ok config \<longleftrightarrow> 0 \<le> cf_startingStack config \<and> 0 \<le> cf_startingBond config \<and> 0 \<le> cf_startingValidatorStake config
     \<and> 0 \<le> sp_smallBlind (cf_params config) \<and> 0 \<le> sp_bigBlind (cf_params config)"

text \<open>Decimal numerals of different numbers differ, so the validators have different keys.\<close>

definition readNat :: "string \<Rightarrow> nat" where
  "readNat s = foldl (\<lambda>n c. 10 * n + (of_char c - 48)) 0 s"

lemma readNat_showNat: "readNat (showNat n) = n"
proof (induction n rule: showNat.induct)
  case (1 n)
  have c: "of_char (char_of (48 + m)) = 48 + m" if "m < 10" for m :: nat using that by (simp add: of_char_of)
  show ?case
  proof (cases "n < 10")
    case True
    then show ?thesis using c [of n] by (simp add: showNat.simps [of n] readNat_def)
  next
    case False
    then have "readNat (showNat n) = 10 * readNat (showNat (n div 10)) + n mod 10"
      using c [of "n mod 10"] by (simp add: showNat.simps [of n] readNat_def)
    then show ?thesis using 1 [OF False] by simp
  qed
qed

lemma validatorId_inj: "validatorId i = validatorId j \<longleftrightarrow> i = j"
  using readNat_showNat by (metis validatorId_def same_append_eq)

lemma AList_update_fresh: "k \<notin> fst ` set al \<Longrightarrow> AList.update k v al = al @ [(k, v)]"
  by (induction al) auto

lemma fresh_validators:
  "foldl (\<lambda>m i. AList.update (validatorId i) (f i) m) [] [0..<n] = map (\<lambda>i. (validatorId i, f i)) [0..<n]"
  by (induction n) (auto simp: validatorId_inj intro!: AList_update_fresh)

definition startingFunds :: "SimConfig \<Rightarrow> int" where
  "startingFunds config = int (nat (cf_validatorSetSize config)) * cf_startingValidatorStake config
     + int (nat \<lfloor>cf_playerCount config\<rfloor>) * (cf_startingStack config + cf_startingBond config)"

lemma createWorld_idle:
  assumes "amounts_ok config"
  shows "sane (\<lambda>(w, _). idle (startingFunds config) w) (createWorld config a)"
proof -
  let ?T = "startingFunds config"
  have idle: "sane (\<lambda>(w, _). idle ?T w) (rbind (assertInvariants w) (\<lambda>w. Inr (w, a)))"
    if w: "ws_initialTotal w = None" "tb_hand (ws_table w) = None" "tb_params (ws_table w) = cf_params config" "ws_treasury w = 0"
      "ws_validators w = map (\<lambda>i. (validatorId i, \<lparr>va_id = validatorId i, va_stake = cf_startingValidatorStake config, va_status = Active, va_slashCount = 0\<rparr>)) [0..<nat (cf_validatorSetSize config)]"
      "playersOf w = map (\<lambda>i. \<lparr>pl_id = playerId i, pl_seat = i, pl_stack = cf_startingStack config, pl_committed = 0,
                 pl_bond = cf_startingBond config, pl_status = Seated, pl_timeoutCount = 0\<rparr>) [0..<nat \<lfloor>cf_playerCount config\<rfloor>]"
      and n: "2 \<le> nat \<lfloor>cf_playerCount config\<rfloor>" "nat \<lfloor>cf_playerCount config\<rfloor> \<le> 9" for w a
  proof -
    have total: "worldTotal w = ?T"
      by (simp add: worldTotal_def startingFunds_def w comp_def playerTotal_def sum_list_triv)
    have f: "funds_ok ?T (w\<lparr>ws_initialTotal := Some ?T\<rparr>)"
      using assms total n by (auto simp: funds_ok_def w amounts_ok_def player_ok_def worldTotal_def)
    have "\<exists>us. rmap checkValidator (map snd (ws_validators w)) = Inr us" "\<exists>us. rmap checkPlayer (playersOf w) = Inr us"
      by (rule rmap_ok, use assms in \<open>auto simp: w amounts_ok_def checkValidator_def checkPlayer_def\<close>)+
    then have "assertInvariants w = Inr (w\<lparr>ws_initialTotal := Some ?T\<rparr>)"
      using total w(1,2) by (auto simp: assertInvariants_def)
    then show ?thesis using f w by (simp add: idle_def cursor_def)
  qed
  have bounds: "2 \<le> nat \<lfloor>x\<rfloor> \<and> nat \<lfloor>x\<rfloor> \<le> 9" if "isInteger x" "\<not> x < 2" "\<not> 9 < x" for x :: js_number
  proof -
    have e: "of_int \<lfloor>x\<rfloor> = x" using that(1) by (simp add: isInteger_def)
    then have "2 \<le> \<lfloor>x\<rfloor>" "\<lfloor>x\<rfloor> \<le> 9" using that(2,3) by linarith+
    then show ?thesis by linarith
  qed
  show ?thesis
    unfolding createWorld_def Let_def fresh_validators
    using bounds [of "cf_playerCount config"]
    by (auto intro!: outcome_seq [OF selectCommittee_sane] idle split: option.splits list.splits)
qed

lemma runSimulation_idle:
  assumes "amounts_ok config"
  shows "sane (\<lambda>(w, _). idle (startingFunds config) w) (runSimulation H config bs)"
  unfolding runSimulation_def
proof (rule outcome_seq [OF createWorld_idle [OF assms]], clarify)
  fix w a assume "idle (startingFunds config) w"
  then have "sane (\<lambda>((w, _), _). idle (startingFunds config) w)
      (rfold (simHand H config bs) [0..<nat (cf_hands config)] ((w, [TableCreated (cf_tableId config)]), a))"
    using simHand_idle by (intro outcome_rfold) auto
  then show "sane (\<lambda>(w, _). idle (startingFunds config) w)
      (rbind (rfold (simHand H config bs) [0..<nat (cf_hands config)] ((w, [TableCreated (cf_tableId config)]), a)) (\<lambda>(s, _). Inr s))"
    by (rule outcome_seq) auto
qed

text \<open>
  C32: from a configuration whose starting amounts and blinds are not negative, and whatever the
  validators and players decide, no invariant check of the simulator ever fails; and when the
  simulation returns, no chip is committed, nobody's stack, bond or stake is negative, and treasury,
  stakes, stacks and bonds together are exactly the funds the configuration started with.
\<close>

theorem simulation_conserves_funds:
  assumes "amounts_ok config"
  shows "case runSimulation sha256Hex config behaviors of
      Inl e \<Rightarrow> \<not> invariantError e
    | Inr (w, _) \<Rightarrow> worldTotal w = startingFunds config
        \<and> (\<forall>p \<in> set (playersOf w). 0 \<le> pl_stack p \<and> pl_committed p = 0 \<and> 0 \<le> pl_bond p)
        \<and> (\<forall>e \<in> set (ws_validators w). 0 \<le> va_stake (snd e))"
  using runSimulation_idle [OF assms, of sha256Hex behaviors]
  by (cases "runSimulation sha256Hex config behaviors") (simp_all add: idle_def funds_ok_def player_ok_def split_beta)

definition demo_behaviors :: Behaviors where
  "demo_behaviors =
     \<lparr>be_validator = (\<lambda>_. Some honestValidatorBehavior),
      be_player = (\<lambda>pid. if pid = ''P1'' then Some alwaysTimeoutPlayerBehavior else Some alwaysCallPlayerBehavior)\<rparr>"

definition demo_config :: SimConfig where
  "demo_config = (createDefaultConfig 7)\<lparr>cf_playerCount := 2, cf_validatorSetSize := 1, cf_committeeSize := 0, cf_thresholdT := 0\<rparr>"

theorem simulation_conserves_funds_witness:
  "amounts_ok demo_config \<and> startingFunds demo_config = 440
   \<and> (case runSimulation (\<lambda>s. s) demo_config demo_behaviors of
        Inr (w, _) \<Rightarrow> worldTotal w = 440 \<and> ws_treasury w = 2
          \<and> map pl_stack (tb_players (ws_table w)) = [101, 99] \<and> map pl_bond (tb_players (ws_table w)) = [20, 18]
      | Inl _ \<Rightarrow> False)"
proof -
  have a: "amounts_ok demo_config" by (simp add: amounts_ok_def demo_config_def createDefaultConfig_def)
  have s: "startingFunds demo_config = 440" by (simp add: startingFunds_def demo_config_def createDefaultConfig_def)
  have r: "case runSimulation (\<lambda>s. s) demo_config demo_behaviors of
        Inr (w, _) \<Rightarrow> ws_treasury w = 2
          \<and> map pl_stack (tb_players (ws_table w)) = [101, 99] \<and> map pl_bond (tb_players (ws_table w)) = [20, 18]
      | Inl _ \<Rightarrow> False" by code_simp
  show ?thesis using a s r simulation_conserves_funds [OF a, of "\<lambda>s. s" demo_behaviors]
    by (auto split: sum.splits)
qed

text \<open>
  The minimum raise is computed once, from the big blind, so a raise after a bigger one is accepted
  below it: after a raise to 20 a player with nothing in who raises to 4 pays 4, and the others then
  have 4 to match.
\<close>

definition late_raiser :: Player where
  "late_raiser = \<lparr>pl_id = ''P1'', pl_seat = 0, pl_stack = 100, pl_committed = 0, pl_bond = 20, pl_status = InHand, pl_timeoutCount = 0\<rparr>"

lemma late_raise_lowers_bet:
  assumes "playersOf w = [late_raiser]"
  shows "fst (applyPreflopAction 0 (PRaiseTo 4) 20 4 20 h (w, ev)) = 4"
  using assms by (simp add: applyPreflopAction_def late_raiser_def)

end
