(* ===== verification/Simulation_Fair.thy ===== *)
theory Simulation_Fair
  imports Simulation_Correct
begin

text \<open>
  The simulator is fair: a validator that follows the protocol is never slashed, and no card is dealt
  twice. Both are one invariant of the world and its event log, carried through every operation.
\<close>

subsection \<open>The invariant\<close>

abbreviation honest :: "Behaviors \<Rightarrow> string \<Rightarrow> bool" where
  "honest bs v \<equiv> be_validator bs v = Some honestValidatorBehavior"

definition dealtCards :: "SimHand \<Rightarrow> nat multiset" where
  "dealtCards h = mset (concat (map snd (sh_holeCards h))) + mset (sh_board h)"

lemma dealtCards_same [simp]:
  "dealtCards (h\<lparr>sh_dealer := d\<rparr>) = dealtCards h" "dealtCards (h\<lparr>sh_phase := ph\<rparr>) = dealtCards h"
  "dealtCards (h\<lparr>sh_potTotal := p\<rparr>) = dealtCards h"
  by (simp_all add: dealtCards_def)

definition hand_fair :: "SimHand \<Rightarrow> nat multiset \<Rightarrow> bool" where
  "hand_fair h extra \<longleftrightarrow>
     (case ds_deck (sh_dealer h) of
        None \<Rightarrow> dealtCards h + extra = {#}
      | Some deck \<Rightarrow> mset deck = mset [0..<52] \<and> dealtCards h + extra \<subseteq># mset (take (ds_deckCursor (sh_dealer h)) deck))"

definition fairly :: "Behaviors \<Rightarrow> string \<Rightarrow> Validator option \<Rightarrow> nat multiset \<Rightarrow> simulated \<Rightarrow> bool" where
  "fairly bs v x extra s \<longleftrightarrow>
     (honest bs v \<longrightarrow> map_of (ws_validators (fst s)) v = x \<and> (\<forall>r a. ValidatorSlashed v r a \<notin> set (snd s)))
     \<and> (\<forall>h. tb_hand (ws_table (fst s)) = Some h \<longrightarrow> hand_fair h extra)"

abbreviation fair :: "Behaviors \<Rightarrow> string \<Rightarrow> Validator option \<Rightarrow> simulated \<Rightarrow> bool" where
  "fair bs v x s \<equiv> fairly bs v x {#} s"

abbreviation tame :: "('a \<Rightarrow> bool) \<Rightarrow> SimError + 'a \<Rightarrow> bool" where
  "tame P m \<equiv> outcome (\<lambda>_. True) P m"

lemma tame_True: "tame (\<lambda>_. True) m"
  by (cases m) simp_all

lemma tame_eq: "tame (\<lambda>y. m = Inr y) m"
  by (cases m) simp_all

lemma tame_hand: "(\<And>h. tb_hand (ws_table w) = Some h \<Longrightarrow> tame Q (k h)) \<Longrightarrow> tame Q (rbind (needHand w) k)"
  by (cases "tb_hand (ws_table w)") (simp_all add: needHand_def)

subsection \<open>Changes that do not matter\<close>

definition not_slashing :: "SimEvent \<Rightarrow> bool" where
  "not_slashing e \<longleftrightarrow> (\<forall>v r a. e \<noteq> ValidatorSlashed v r a)"

lemma fairly_change:
  assumes "fairly bs v x extra (w, ev)" and "ws_validators w' = ws_validators w"
    and "\<And>e. e \<in> set ev' \<Longrightarrow> e \<in> set ev \<or> not_slashing e"
    and "\<And>h'. tb_hand (ws_table w') = Some h' \<Longrightarrow> \<exists>h. tb_hand (ws_table w) = Some h \<and> (hand_fair h extra \<longrightarrow> hand_fair h' extra')"
  shows "fairly bs v x extra' (w', ev')"
  using assms unfolding fairly_def not_slashing_def by fastforce

lemma hand_fair_same [simp]:
  "hand_fair (h\<lparr>sh_phase := ph\<rparr>) e = hand_fair h e" "hand_fair (h\<lparr>sh_potTotal := p\<rparr>) e = hand_fair h e"
  "hand_fair (h\<lparr>sh_didBetBeyondBlinds := d\<rparr>) e = hand_fair h e" "hand_fair (h\<lparr>sh_abortedReason := r\<rparr>) e = hand_fair h e"
  "hand_fair (h\<lparr>sh_dealer := (sh_dealer h)\<lparr>ds_deckCommit := c\<rparr>\<rparr>) e = hand_fair h e"
  by (simp_all add: hand_fair_def dealtCards_def split: option.split)

lemma hand_fair_drop: "hand_fair h (e + e') \<Longrightarrow> hand_fair h e"
  by (auto simp: hand_fair_def split: option.splits)
    (metis (no_types) add.assoc mset_subset_eq_add_left subset_mset.order_trans)

lemma fairly_drop: "fairly bs v x (e + e') s \<Longrightarrow> fairly bs v x e s"
  using hand_fair_drop by (auto simp: fairly_def)

lemma slashValidator_fairly:
  assumes "fairly bs v x extra s" and "honest bs v \<Longrightarrow> u \<noteq> v"
  shows "fairly bs v x extra (slashValidator u r s)"
  using assms
  by (cases s) (auto simp: fairly_def slashValidator_def Let_def update_conv' split: option.splits)

lemma slashPlayer_fairly:
  assumes "fairly bs v x extra s"
  shows "fairly bs v x extra (slashPlayer pid why s)"
proof -
  obtain w ev where s: "s = (w, ev)" by fastforce
  obtain w' ev' where e: "slashPlayer pid why s = (w', ev')" by fastforce
  show ?thesis unfolding e
    by (rule fairly_change [OF assms [unfolded s]])
      (use e in \<open>auto simp: s slashPlayer_def Let_def not_slashing_def putPlayers_def split: option.splits if_splits\<close>)
qed

lemma slashValidator_table [simp]: "ws_table (fst (slashValidator u r s)) = ws_table (fst s)"
  by (cases s) (auto simp: slashValidator_def Let_def split: option.splits)

lemma slashPlayer_hand: "tb_hand (ws_table (fst (slashPlayer pid why s))) = tb_hand (ws_table (fst s))"
  by (cases s) (auto simp: slashPlayer_def Let_def split: option.splits)

lemma simAbortHand_fairly:
  assumes "fairly bs v x extra (w, ev)"
  shows "tame (fairly bs v x extra) (simAbortHand reason (w, ev))"
  unfolding simAbortHand_def Let_def split_beta fst_conv snd_conv
  by (rule tame_hand) (auto intro!: fairly_change [OF assms] simp: not_slashing_def)

lemma assertInvariants_tame: "tame (\<lambda>w'. \<exists>t. w' = w\<lparr>ws_initialTotal := t\<rparr>) (assertInvariants w)"
proof (cases "assertInvariants w")
  case (Inr w')
  then have "w' = w \<or> w' = w\<lparr>ws_initialTotal := Some (worldTotal w)\<rparr>"
    by (auto simp: assertInvariants_def rbind_Inr_iff split: option.splits if_splits)
  moreover have "\<exists>t. w = w\<lparr>ws_initialTotal := t\<rparr>" by (rule exI [of _ "ws_initialTotal w"]) simp
  ultimately have "\<exists>t. w' = w\<lparr>ws_initialTotal := t\<rparr>" by blast
  then show ?thesis using Inr by simp
qed simp

lemma tame_assert:
  assumes "\<And>t. tame Q (k (w\<lparr>ws_initialTotal := t\<rparr>))"
  shows "tame Q (rbind (assertInvariants w) k)"
  by (rule outcome_seq [OF assertInvariants_tame]) (use assms in auto)

lemma fairly_initialTotal [simp]: "fairly bs v x e (w\<lparr>ws_initialTotal := t\<rparr>, ev) = fairly bs v x e (w, ev)"
  by (simp add: fairly_def)

subsection \<open>Shares\<close>

lemma honest_decisions:
  "tame (\<lambda>ds. \<forall>e \<in> set ds. honest bs (fst e) \<longrightarrow> snd e = SubmitValid) (collectValidatorDecisions w (be_validator bs) kind ctx)"
  (is "tame ?P _")
proof -
  have d: "d = SubmitValid" if "decisionOf honestValidatorBehavior kind ctx = Inr d" for d
    using that by (auto simp: decisionOf_def honestValidatorBehavior_def split: ShareKind.splits option.splits if_splits)
  have u: "?P (AList.update vId d ds)" if "?P ds" "be_validator bs vId = Some b" "decisionOf b kind ctx = Inr d" for vId d ds b
    using that d set_AList_update [of vId d ds] by fastforce
  show ?thesis unfolding collectValidatorDecisions_def
  proof (rule tame_hand, rule outcome_rfold)
    fix h vId ds assume p: "?P ds"
    show "tame ?P (case map_of (ws_validators w) vId of None \<Rightarrow> Inr ds
       | Some val \<Rightarrow> if va_status val \<noteq> Active then Inr ds
           else case be_validator bs vId of None \<Rightarrow> Inl MissingValidatorBehavior
             | Some b \<Rightarrow> rbind (decisionOf b kind ctx) (\<lambda>d. Inr (AList.update vId d ds)))"
    proof (cases "be_validator bs vId")
      case None
      then show ?thesis using p by (simp split: option.split)
    next
      case (Some b)
      have "tame ?P (rbind (decisionOf b kind ctx) (\<lambda>d. Inr (AList.update vId d ds)))"
        by (rule outcome_seq [OF tame_eq]) (use u [OF p Some] in simp)
      then show ?thesis using p Some by (simp split: option.split)
    qed
  qed simp
qed

lemma settleDecision_fairly:
  assumes "fairly bs v x extra s" and "honest bs (fst d) \<longrightarrow> snd d = SubmitValid"
  shows "fairly bs v x extra (snd (settleDecision kind pos d (n, s))) \<and> ws_table (fst (snd (settleDecision kind pos d (n, s)))) = ws_table (fst s)"
  using assms slashValidator_fairly [OF assms(1), of "fst d"]
  by (auto simp: settleDecision_def split_beta split: ValidatorDecision.split)

lemma settleDecisions_fairly:
  assumes "fairly bs v x extra s" and "\<forall>e \<in> set ds. honest bs (fst e) \<longrightarrow> snd e = SubmitValid"
  shows "fairly bs v x extra (snd (fold (settleDecision kind pos) ds (n, s)))
    \<and> ws_table (fst (snd (fold (settleDecision kind pos) ds (n, s)))) = ws_table (fst s)"
  using assms
proof (induction ds arbitrary: n s)
  case (Cons d ds)
  obtain n1 s1 where e: "settleDecision kind pos d (n, s) = (n1, s1)" by (metis surj_pair)
  with settleDecision_fairly [OF Cons.prems(1), of d kind pos n] Cons.prems(2) Cons.IH [of s1 n1] show ?case by simp
qed simp

lemma collectShares_fairly:
  assumes "fairly bs v x extra (w, ev)"
  shows "tame (\<lambda>(ok, s). fairly bs v x extra s \<and> (ok \<longrightarrow> ws_table (fst s) = ws_table w)) (collectSharesOrAbort bs kind pos pid (w, ev))"
  unfolding collectSharesOrAbort_def Let_def prod.case
proof (rule tame_hand, rule outcome_seq [OF honest_decisions])
  fix h ds assume "\<forall>e \<in> set ds. honest bs (fst e) \<longrightarrow> snd e = SubmitValid"
  note f = settleDecisions_fairly [OF assms this, of kind pos 0]
  obtain n w1 ev1 where e: "fold (settleDecision kind pos) ds (0, w, ev) = (n, w1, ev1)" by (metis surj_pair)
  have a: "tame (fairly bs v x extra) (simAbortHand r (w1, ev1))" for r using simAbortHand_fairly f e by simp
  show "tame (\<lambda>(ok, s). fairly bs v x extra s \<and> (ok \<longrightarrow> ws_table (fst s) = ws_table w))
     (case fold (settleDecision kind pos) ds (0, w, ev) of (valid, s) \<Rightarrow>
        if int valid < co_thresholdT (ds_committee (sh_dealer h))
        then rbind (simAbortHand (''threshold failure for '' @ kindName kind @ '' shares at pos '' @ showNat pos
               @ '': have='' @ showNat valid @ '' need='' @ showInt (co_thresholdT (ds_committee (sh_dealer h)))) s) (\<lambda>s. Inr (False, s))
        else Inr (True, s))"
    unfolding e prod.case using f e by (auto intro!: outcome_seq [OF a])
qed

subsection \<open>Drawing a card\<close>

definition advanced :: "SimHand \<Rightarrow> SimHand" where
  "advanced h = h\<lparr>sh_dealer := (sh_dealer h)\<lparr>ds_deckCursor := ds_deckCursor (sh_dealer h) + 1\<rparr>\<rparr>"

definition nextCard :: "SimHand \<Rightarrow> nat multiset" where
  "nextCard h =
     (case ds_deck (sh_dealer h) of
        None \<Rightarrow> {#}
      | Some deck \<Rightarrow> if ds_deckCursor (sh_dealer h) < length deck then {#deck ! ds_deckCursor (sh_dealer h)#} else {#})"

lemma hand_fair_advanced: "hand_fair h extra \<Longrightarrow> hand_fair (advanced h) (extra + nextCard h)"
proof (cases "ds_deck (sh_dealer h)")
  case (Some deck)
  let ?n = "ds_deckCursor (sh_dealer h)"
  assume f: "hand_fair h extra"
  have "mset (take (?n + 1) deck) = mset (take ?n deck) + nextCard h"
    using Some by (simp add: nextCard_def take_Suc_conv_app_nth)
  then show ?thesis using f Some by (simp add: hand_fair_def advanced_def dealtCards_def add.assoc [symmetric])
qed (simp add: hand_fair_def advanced_def nextCard_def dealtCards_def)

lemma draw_fairly:
  assumes "fairly bs v x extra (w, ev)" and "tb_hand (ws_table w) = Some h"
  shows "tame (\<lambda>(ok, s). fairly bs v x (extra + nextCard h) s \<and> (ok \<longrightarrow> tb_hand (ws_table (fst s)) = Some (advanced h)))
    (collectSharesOrAbort bs kind pos pid (putHand (advanced h) w, ev))"
proof -
  have "fairly bs v x (extra + nextCard h) (putHand (advanced h) w, ev)"
    using assms(2) by (intro fairly_change [OF assms(1)]) (auto dest: hand_fair_advanced)
  from collectShares_fairly [OF this] show ?thesis by (rule outcome_mono) auto
qed

lemma dealFromDeck_nextCard:
  assumes "tb_hand (ws_table w) = Some (advanced h)"
  shows "tame (\<lambda>card. nextCard h = {#card#}) (dealFromDeck w (ds_deckCursor (sh_dealer h)))"
  using assms by (simp add: dealFromDeck_def advanced_def nextCard_def split: option.split)

lemma hole_add:
  "map_of m pid = Some cards \<Longrightarrow> mset (concat (map snd (AList.update pid (cards @ [c]) m))) = add_mset c (mset (concat (map snd m)))"
  by (induction m) auto

lemma dealOne_fair:
  assumes "fair bs v x (w, ev)"
  shows "tame (\<lambda>(_, s). fair bs v x s) (dealOne bs pid (w, ev))"
  unfolding dealOne_def Let_def prod.case
proof (rule tame_hand)
  fix h assume h: "tb_hand (ws_table w) = Some h"
  note d = draw_fairly [OF assms h, of EncKind "ds_deckCursor (sh_dealer h)" "Some pid", unfolded advanced_def]
  show "tame (\<lambda>(_, s). fair bs v x s) (rbind (collectSharesOrAbort bs EncKind (ds_deckCursor (sh_dealer h)) (Some pid)
      (putHand (h\<lparr>sh_dealer := (sh_dealer h)\<lparr>ds_deckCursor := ds_deckCursor (sh_dealer h) + 1\<rparr>\<rparr>) w, ev)) (\<lambda>(ok, world, events).
      if \<not> ok then Inr (False, world, events)
      else rbind (dealFromDeck world (ds_deckCursor (sh_dealer h))) (\<lambda>card.
        rbind (needHand world) (\<lambda>hand.
        case map_of (sh_holeCards hand) pid of
          None \<Rightarrow> Inl HoleCardsUndefined
        | Some cards \<Rightarrow>
            rbind (assertInvariants (putHand (hand\<lparr>sh_holeCards := AList.update pid (cards @ [card]) (sh_holeCards hand)\<rparr>) world))
              (\<lambda>world. Inr (True, world, events))))))"
  proof (rule outcome_seq [OF d], clarify)
    fix ok w1 ev1
    assume f: "fairly bs v x ({#} + nextCard h) (w1, ev1)"
      and t: "ok \<longrightarrow> tb_hand (ws_table (fst (w1, ev1))) = Some (h\<lparr>sh_dealer := (sh_dealer h)\<lparr>ds_deckCursor := ds_deckCursor (sh_dealer h) + 1\<rparr>\<rparr>)"
    have g: "fair bs v x (putHand (hand\<lparr>sh_holeCards := AList.update pid (cards @ [card]) (sh_holeCards hand)\<rparr>) w1, ev1)"
      if "nextCard h = {#card#}" "tb_hand (ws_table w1) = Some hand" "map_of (sh_holeCards hand) pid = Some cards" for card hand cards
      using f that by (auto simp: fairly_def hand_fair_def dealtCards_def hole_add split: option.splits)
    show "tame (\<lambda>(_, s). fair bs v x s) (if \<not> ok then Inr (False, w1, ev1)
      else rbind (dealFromDeck w1 (ds_deckCursor (sh_dealer h))) (\<lambda>card.
        rbind (needHand w1) (\<lambda>hand.
        case map_of (sh_holeCards hand) pid of
          None \<Rightarrow> Inl HoleCardsUndefined
        | Some cards \<Rightarrow>
            rbind (assertInvariants (putHand (hand\<lparr>sh_holeCards := AList.update pid (cards @ [card]) (sh_holeCards hand)\<rparr>) w1))
              (\<lambda>world. Inr (True, world, ev1)))))"
    proof (cases ok)
      case True
      then have "tb_hand (ws_table w1) = Some (advanced h)" using t by (simp add: advanced_def)
      note c = dealFromDeck_nextCard [OF this]
      show ?thesis using True g by (auto intro!: outcome_seq [OF c] tame_hand tame_assert split: option.split)
    qed (use fairly_drop [OF f] in simp)
  qed
qed

lemma dealLoop_fair: "fair bs v x s \<Longrightarrow> tame (fair bs v x) (dealLoop bs pids s)"
proof (induction pids arbitrary: s)
  case (Cons pid pids)
  have "tame (\<lambda>(_, s). fair bs v x s) (dealOne bs pid s)" using dealOne_fair Cons.prems by (cases s) auto
  then show ?case unfolding dealLoop.simps by (rule outcome_seq) (auto intro: Cons.IH)
qed simp

lemma revealCards_fairly:
  assumes "fairly bs v x (mset cards) s"
  shows "tame (\<lambda>(cs, s). fairly bs v x (case cs of None \<Rightarrow> {#} | Some cs \<Rightarrow> mset cs) s) (revealCards bs n cards s)"
  using assms
proof (induction n arbitrary: cards s)
  case (Suc n)
  obtain w ev where s: "s = (w, ev)" by fastforce
  show ?case unfolding s revealCards.simps Let_def
  proof (rule tame_hand)
    fix h assume h: "tb_hand (ws_table w) = Some h"
    note d = draw_fairly [OF Suc.prems [unfolded s] h, of PubKind "ds_deckCursor (sh_dealer h)" None, unfolded advanced_def]
    show "tame (\<lambda>(cs, s). fairly bs v x (case cs of None \<Rightarrow> {#} | Some cs \<Rightarrow> mset cs) s) (rbind (collectSharesOrAbort bs PubKind (ds_deckCursor (sh_dealer h)) None
        (putHand (h\<lparr>sh_dealer := (sh_dealer h)\<lparr>ds_deckCursor := ds_deckCursor (sh_dealer h) + 1\<rparr>\<rparr>) w, ev)) (\<lambda>(ok, s).
        if \<not> ok then Inr (None, s)
        else rbind (dealFromDeck (fst s) (ds_deckCursor (sh_dealer h))) (\<lambda>card. revealCards bs n (cards @ [card]) s)))"
    proof (rule outcome_seq [OF d], clarify)
      fix ok w1 ev1
      assume f: "fairly bs v x (mset cards + nextCard h) (w1, ev1)"
        and t: "ok \<longrightarrow> tb_hand (ws_table (fst (w1, ev1))) = Some (h\<lparr>sh_dealer := (sh_dealer h)\<lparr>ds_deckCursor := ds_deckCursor (sh_dealer h) + 1\<rparr>\<rparr>)"
      show "tame (\<lambda>(cs, s). fairly bs v x (case cs of None \<Rightarrow> {#} | Some cs \<Rightarrow> mset cs) s) (if \<not> ok then Inr (None, w1, ev1)
        else rbind (dealFromDeck (fst (w1, ev1)) (ds_deckCursor (sh_dealer h))) (\<lambda>card. revealCards bs n (cards @ [card]) (w1, ev1)))"
      proof (cases ok)
        case True
        then have "tb_hand (ws_table w1) = Some (advanced h)" using t by (simp add: advanced_def)
        note c = dealFromDeck_nextCard [OF this]
        have "fairly bs v x (mset (cards @ [card])) (w1, ev1)" if "nextCard h = {#card#}" for card using f that by simp
        then show ?thesis using True by (auto intro!: outcome_seq [OF c] Suc.IH)
      qed (use fairly_drop [of bs v x "{#}"] f in simp)
    qed
  qed
qed simp

lemma revealStreet_fair:
  assumes "fairly bs v x (mset []) s"
  shows "tame (\<lambda>(_, s). fair bs v x s) (revealStreet bs str s)"
  unfolding revealStreet_def
proof (rule outcome_seq [OF tame_True], rule outcome_seq [OF revealCards_fairly [OF assms]], clarify)
  fix cs w ev assume f: "fairly bs v x (case cs of None \<Rightarrow> {#} | Some cs \<Rightarrow> mset cs) (w, ev)"
  show "tame (\<lambda>(_, s). fair bs v x s) (case cs of None \<Rightarrow> Inr (False, w, ev)
     | Some cards \<Rightarrow> rbind (needHand w) (\<lambda>hand.
         rbind (assertInvariants (putHand (hand\<lparr>sh_board := sh_board hand @ cards\<rparr>) w)) (\<lambda>w.
         Inr (True, w, ev @ [StreetRevealed (tb_tableId (ws_table w)) (sh_handId hand) str cards]))))"
  proof (cases cs)
    case (Some cards)
    have "fair bs v x (putHand (hand\<lparr>sh_board := sh_board hand @ cards\<rparr>) w, ev @ [StreetRevealed t n str cards])"
      if "tb_hand (ws_table w) = Some hand" for hand t n
      using f Some that by (auto simp: fairly_def hand_fair_def dealtCards_def add.assoc split: option.splits)
    then show ?thesis using Some by (auto intro!: tame_hand tame_assert)
  qed (use f in simp)
qed

subsection \<open>Betting and settling\<close>

lemma fair_players: "fairly bs v x e (w, ev) \<Longrightarrow> fairly bs v x e (putPlayers ps w, ev)"
  by (erule fairly_change) auto

lemma fair_event: "fairly bs v x e (w, ev) \<Longrightarrow> not_slashing y \<Longrightarrow> fairly bs v x e (w, ev @ [y])"
  by (erule fairly_change) auto

lemma fair_hand:
  "fairly bs v x e (w, ev) \<Longrightarrow> tb_hand (ws_table w) = Some h \<Longrightarrow> (hand_fair h e \<Longrightarrow> hand_fair h' e) \<Longrightarrow> fairly bs v x e (putHand h' w, ev)"
  by (erule fairly_change) auto

lemma completeHand_fair:
  assumes "fair bs v x (w, ev)" and "tb_hand (ws_table w) = Some h"
  shows "fair bs v x (completeHand i h (w, ev))"
  unfolding completeHand_def Let_def prod.case
  by (rule fairly_change [OF assms(1)]) (use assms(2) in \<open>auto simp: not_slashing_def\<close>)

lemma takeDecision_fair:
  assumes "fair bs v x (w, ev)"
  shows "fair bs v x (snd (takeDecision b n pid tc mr (w, ev)))
    \<and> tb_hand (ws_table (fst (snd (takeDecision b n pid tc mr (w, ev))))) = tb_hand (ws_table w)"
  using assms fair_event [OF assms] slashPlayer_fairly
  by (auto simp: takeDecision_def Let_def split_beta slashPlayer_hand not_slashing_def)

lemma applyPreflopAction_fair:
  assumes "fair bs v x (w, ev)" and "applyPreflopAction i act tc mr cb h (w, ev) = (cb', h', w', ev')"
  shows "fair bs v x (w', ev') \<and> tb_hand (ws_table w') = tb_hand (ws_table w) \<and> hand_fair h' {#} = hand_fair h {#}"
  using assms fair_event [OF fair_players [OF assms(1)]] fair_event [OF assms(1)]
  by (auto simp: applyPreflopAction_def Let_def not_slashing_def split: PlayerAction.splits if_splits)

lemma preflopSeat_fair:
  assumes "fair bs v x (w, ev)"
  shows "tame (\<lambda>(_, _, s). fair bs v x s) (preflopSeat bs mr seat cb (w, ev))"
proof (cases "findPlayer (\<lambda>x. pl_seat x = seat) (playersOf w)")
  case (Some i)
  let ?p = "playersOf w ! i" and ?toCall = "max 0 (cb - pl_committed (playersOf w ! i))"
  show ?thesis
  proof (cases "pl_status ?p = InHand \<and> be_player bs (pl_id ?p) \<noteq> None \<and> tb_hand (ws_table w) \<noteq> None")
    case True
    then obtain b h where b: "be_player bs (pl_id ?p) = Some b" and h: "tb_hand (ws_table w) = Some h" by auto
    obtain act w1 ev1 where s1: "takeDecision b (sh_handId h) (pl_id ?p) ?toCall mr (w, ev) = (act, w1, ev1)" by (metis surj_pair)
    obtain cb' h2 w2 ev2 where a: "applyPreflopAction i (normalizePlayerAction act ?toCall) ?toCall mr cb h (w1, ev1) = (cb', h2, w2, ev2)"
      by (metis surj_pair)
    let ?h = "h2\<lparr>sh_potTotal := sumCommitted (playersOf w2)\<rparr>"
    have f1: "fair bs v x (w1, ev1)" "tb_hand (ws_table w1) = Some h"
      using takeDecision_fair [OF assms, of b "sh_handId h" "pl_id ?p" ?toCall mr] s1 h by simp_all
    note f2 = applyPreflopAction_fair [OF f1(1) a]
    have f: "fair bs v x (putHand ?h w2, ev2)"
      using f1 f2 by (intro fair_hand [of bs v x "{#}" w2 ev2 h]) auto
    have e: "preflopSeat bs mr seat cb (w, ev) =
       (if length (remainingPlayers (ws_table (putHand ?h w2))) = 1
        then Inr (True, cb', completeHand (hd (remainingPlayers (ws_table (putHand ?h w2)))) ?h (putHand ?h w2, ev2))
        else rbind (assertInvariants (putHand ?h w2)) (\<lambda>w. Inr (False, cb', w, ev2)))"
      unfolding preflopSeat_def prod.case Some option.case Let_def needHand_def h rbind_simps b
      using True by (simp only: not_not if_True if_False s1 a prod.case simp_thms)
    show ?thesis unfolding e using f completeHand_fair [OF f] by (auto intro!: tame_assert)
  qed (use Some assms in \<open>auto simp: preflopSeat_def Let_def needHand_def split: option.splits\<close>)
qed (use assms in \<open>simp add: preflopSeat_def\<close>)

lemma preflopLoop_fair: "fair bs v x s \<Longrightarrow> tame (fair bs v x) (preflopLoop bs mr seats cb s)"
proof (induction seats arbitrary: cb s)
  case (Cons seat seats)
  have "tame (\<lambda>(_, _, s). fair bs v x s) (preflopSeat bs mr seat cb s)" using preflopSeat_fair Cons.prems by (cases s) auto
  then show ?case unfolding preflopLoop.simps by (rule outcome_seq) (auto intro: Cons.IH)
qed simp

lemma runPreflopBetting_fair: "fair bs v x s \<Longrightarrow> tame (fair bs v x) (runPreflopBetting bs s)"
  unfolding runPreflopBetting_def Let_def split_beta
  by (rule tame_hand, rule preflopLoop_fair, rule fair_hand) auto

lemma showdown_fair:
  assumes "fair bs v x s"
  shows "tame (fair bs v x) (showdownAndSettle s)"
proof -
  obtain w ev where s: "s = (w, ev)" by fastforce
  show ?thesis using assms unfolding s showdownAndSettle_def Let_def prod.case
    by (intro tame_hand) (auto intro: simAbortHand_fairly completeHand_fair)
qed

subsection \<open>Starting a hand\<close>

definition undealt :: "WorldState \<Rightarrow> bool" where
  "undealt w \<longleftrightarrow> (\<forall>h. tb_hand (ws_table w) = Some h \<longrightarrow> dealtCards h = {#})"

lemma undealt_put [simp]: "undealt (putHand h w) \<longleftrightarrow> dealtCards h = {#}"
  by (simp add: undealt_def)

lemma getNextCommittee_tame: "tame (\<lambda>(_, w', _). \<exists>c. w' = w\<lparr>ws_nextCommittee := c\<rparr>) (getNextCommittee w a)"
proof -
  have "\<exists>c. w = w\<lparr>ws_nextCommittee := c\<rparr>" by (rule exI [of _ "ws_nextCommittee w"]) simp
  then show ?thesis
    by (auto simp: getNextCommittee_def Let_def intro!: outcome_seq [OF tame_True] split: option.split)
qed

lemma rotateCommittee_fair:
  assumes "fair bs v x (w, ev)"
  shows "tame (\<lambda>(w', _). fair bs v x (w', ev)) (rotateCommittee w a)"
proof (cases "cf_committeePlan (ws_config w) = None")
  case True
  then show ?thesis using assms unfolding rotateCommittee_def Let_def
    by (auto simp: fairly_def intro!: outcome_seq [OF tame_True])
next
  case False
  then show ?thesis using assms unfolding rotateCommittee_def Let_def
    by (auto simp: fairly_def intro!: outcome_seq [OF getNextCommittee_tame])
qed

lemma simStartHand_fair:
  assumes "fair bs v x (w, ev)"
  shows "tame (\<lambda>(s, _). fair bs v x s \<and> undealt (fst s)) (simStartHand (w, ev) a)"
  using assms unfolding simStartHand_def Let_def split_beta fst_conv snd_conv
  by (auto simp: fairly_def hand_fair_def dealtCards_def undealt_def intro!: outcome_seq [OF getNextCommittee_tame])

lemma simPostBlinds_fair:
  assumes "fair bs v x (w, ev)" and "undealt w"
  shows "tame (\<lambda>w. fair bs v x (w, ev) \<and> undealt w) (simPostBlinds w)"
  using assms unfolding simPostBlinds_def Let_def
  by (intro tame_hand) (auto simp: undealt_def intro!: outcome_seq [OF tame_True] fair_hand fair_players)

lemma initDeck_fair:
  assumes "fair bs v x (w, ev)" and "undealt w"
  shows "tame (\<lambda>w. fair bs v x (w, ev) \<and> undealt w) (initDeck w)"
  using assms unfolding initDeck_def
  by (intro tame_hand) (auto simp: undealt_def fairly_def hand_fair_def)

lemma fresh_deck:
  "fair bs v x (w, ev) \<Longrightarrow> tb_hand (ws_table w) = Some h \<Longrightarrow> dealtCards h = {#} \<Longrightarrow> ds_deck (sh_dealer h) = Some deck \<Longrightarrow> mset deck' = mset deck
   \<Longrightarrow> fair bs v x (putHand (h\<lparr>sh_dealer := (sh_dealer h)\<lparr>ds_deck := Some deck'\<rparr>\<rparr>) w, ev)"
  by (auto simp: fairly_def hand_fair_def undealt_def)

lemma tame_shuffle: "tame (\<lambda>(b, _). mset b = mset arr) (shuffleInPlace arr a)"
  using shuffleInPlace_mset [of arr a] by auto

lemma shuffleRound_fair:
  assumes "fair bs v x (w, ev)" and "undealt w"
  shows "tame (\<lambda>(s, _). fair bs v x s \<and> undealt (fst s)) (shuffleRound bs e ((w, ev), a))"
proof (cases "map_of (ws_validators w) (snd e)")
  case (Some val)
  show ?thesis
  proof (cases "va_status val = Active \<and> be_validator bs (snd e) \<noteq> None")
    case True
    then obtain b where b: "be_validator bs (snd e) = Some b" by auto
    have u: "undealt (fst (slashValidator u r (w, ev)))" for u r using assms(2) by (simp add: undealt_def)
    have sl: "(\<forall>r. fair bs v x (slashValidator (snd e) r (w, ev))) \<or> b = honestValidatorBehavior"
    proof (cases "honest bs v \<and> snd e = v")
      case False
      then show ?thesis using slashValidator_fairly [OF assms(1)] by blast
    qed (use b in simp)
    show ?thesis using Some True b u sl assms unfolding shuffleRound_def Let_def split_beta fst_conv snd_conv
      by (auto simp: verifyShuffle_mset undealt_def honestValidatorBehavior_def split: ValidatorDecision.split option.split
          intro!: tame_hand outcome_seq [OF tame_shuffle]) (erule (4) fresh_deck)+
  qed (use Some assms in \<open>auto simp: shuffleRound_def split_beta split: option.split\<close>)
qed (use assms in \<open>simp add: shuffleRound_def split_beta\<close>)

lemma runShuffle_fair:
  assumes "fair bs v x (w, ev)" and "undealt w"
  shows "tame (\<lambda>(s, _). fair bs v x s \<and> undealt (fst s)) (runShuffle H bs (w, ev) a)"
  unfolding runShuffle_def Let_def prod.case
proof (rule tame_hand)
  fix h assume h: "tb_hand (ws_table w) = Some h"
  let ?w = "putHand (h\<lparr>sh_phase := Shuffle\<rparr>) w"
  have b: "fair bs v x (?w, ev)" "undealt ?w" using fair_hand [OF assms(1) h] assms(2) h by (auto simp: undealt_def)
  have r: "tame (\<lambda>(s, _). fair bs v x s \<and> undealt (fst s)) (rfold (shuffleRound bs) xs ((?w, ev), a))" for xs
    using b shuffleRound_fair by (intro outcome_rfold) auto
  show "tame (\<lambda>(s, _). fair bs v x s \<and> undealt (fst s))
     (if ds_deck (sh_dealer (h\<lparr>sh_phase := Shuffle\<rparr>)) = None then Inl DeckNotInitialized
      else rbind (rfold (shuffleRound bs) (enumerate 0 (co_members (ds_committee (sh_dealer (h\<lparr>sh_phase := Shuffle\<rparr>))))) ((?w, ev), a))
        (\<lambda>((world, events), prng). rbind (needHand world) (\<lambda>hand.
          Inr ((putHand (hand\<lparr>sh_dealer := (sh_dealer hand)\<lparr>ds_deckCommit := Some (H (join '','' (map showNat (the (ds_deck (sh_dealer hand))))))\<rparr>\<rparr>) world,
          events @ [DeckFinalized (tb_tableId (ws_table world)) (sh_handId hand) (H (join '','' (map showNat (the (ds_deck (sh_dealer hand))))))]), prng))))"
    by (auto simp: undealt_def not_slashing_def intro!: outcome_seq [OF r] tame_hand fair_event fair_hand)
qed

lemma empty_hands: "mset (concat (map snd m)) = {#} \<Longrightarrow> mset (concat (map snd (foldl (\<lambda>m p. AList.update (pl_id p) [] m) m ps))) = {#}"
proof (induction ps arbitrary: m)
  case (Cons p ps)
  have "mset (concat (map snd (AList.update (pl_id p) [] m))) = {#}"
    using Cons.prems set_AList_update [of "pl_id p" "[]" m] by fastforce
  from Cons.IH [OF this] show ?case by simp
qed simp

lemma dealHoleCards_fair:
  assumes "fair bs v x (w, ev)" and "undealt w"
  shows "tame (fair bs v x) (dealHoleCards bs (w, ev))"
  unfolding dealHoleCards_def Let_def prod.case
proof (rule tame_hand)
  fix h assume h: "tb_hand (ws_table w) = Some h"
  let ?params = "tb_params (ws_table w)"
  let ?h = "h\<lparr>sh_phase := DealHole, sh_holeCards := foldl (\<lambda>m p. AList.update (pl_id p) [] m) (sh_holeCards h)
    (filter (\<lambda>p. pl_status p = Seated \<and> \<not> pl_bond p < sp_playerBondMin ?params) (playersOf w))\<rparr>"
  let ?w = "putHand ?h (putPlayers (map (admitPlayer ?params) (playersOf w)) w)"
  have "dealtCards h = {#}" using assms(2) h by (simp add: undealt_def)
  then have "dealtCards ?h = {#}" using empty_hands [of "sh_holeCards h"] by (simp add: dealtCards_def)
  then have "fair bs v x (?w, ev)" using assms(1) h \<open>dealtCards h = {#}\<close>
    by (auto simp: fairly_def hand_fair_def split: option.splits)
  then show "tame (fair bs v x) (dealLoop bs (concat (map (\<lambda>i. replicate 2 (pl_id (playersOf ?w ! i))) (remainingPlayers (ws_table ?w)))) (?w, ev))"
    by (rule dealLoop_fair)
qed

subsection \<open>Whole runs\<close>

lemma setPhase_fair: "fair bs v x (w, ev) \<Longrightarrow> tame (\<lambda>w. fair bs v x (w, ev)) (setPhase ph w)"
  unfolding setPhase_def by (rule tame_hand) (auto intro: fair_hand)

lemma revealStreets_fair:
  "fair bs v x s \<Longrightarrow> tame (\<lambda>(_, s). fair bs v x s) (revealStreets bs xs s)"
proof (induction xs arbitrary: s)
  case (Cons y xs)
  obtain w ev ph str where s: "s = (w, ev)" and y: "y = (ph, str)" by (metis surj_pair)
  have "tame (\<lambda>(_, s). fair bs v x s) (revealStreet bs str (w1, ev))" if "fair bs v x (w1, ev)" for w1
    using revealStreet_fair [of bs v x "(w1, ev)" str] that by simp
  then show ?case unfolding s y revealStreets.simps
    using setPhase_fair [OF Cons.prems [unfolded s]] by (auto intro!: outcome_seq [OF setPhase_fair [OF Cons.prems [unfolded s]]] outcome_seq Cons.IH)
qed simp

lemma playOut_fair:
  assumes "fair bs v x s"
  shows "tame (fair bs v x) (playOut bs s)"
proof -
  have "fair bs v x (w\<lparr>ws_initialTotal := t, ws_table := (ws_table w)\<lparr>tb_buttonSeat := b\<rparr>\<rparr>, ev)" if "fair bs v x (w, ev)" for w ev b t
    using that by (simp add: fairly_def)
  then show ?thesis unfolding playOut_def Let_def
    by (auto intro!: outcome_seq [OF revealStreets_fair [OF assms]] outcome_seq [OF setPhase_fair] outcome_seq [OF showdown_fair] tame_assert)
qed

lemma betAndPlayOut_fair: "fair bs v x s \<Longrightarrow> tame (fair bs v x) (betAndPlayOut bs s)"
  unfolding betAndPlayOut_def
  by (rule outcome_seq [OF runPreflopBetting_fair]) (auto intro!: tame_assert playOut_fair)

lemma dealAndPlay_fair:
  "fair bs v x (w, ev) \<Longrightarrow> undealt w \<Longrightarrow> tame (fair bs v x) (dealAndPlay bs (w, ev))"
  unfolding dealAndPlay_def
  by (rule outcome_seq [OF dealHoleCards_fair]) (auto intro!: tame_assert betAndPlayOut_fair)

lemma simHand_fair:
  assumes "fair bs v x (w, ev)"
  shows "tame (\<lambda>(s, _). fair bs v x s) (simHand H config bs n ((w, ev), a))"
proof -
  have r: "tame (\<lambda>(w, _). fair bs v x (w, ev)) (if cf_rotateCommitteeEveryHand config \<and> n > 0 then rotateCommittee w a else Inr (w, a))"
    using rotateCommittee_fair [OF assms] assms by simp
  have d: "tame (\<lambda>(s, _). fair bs v x s) (rbind (dealAndPlay bs (w, ev)) (\<lambda>s. Inr (s, a)))"
    if "fair bs v x (w, ev)" "undealt w" for w ev a
    by (rule outcome_seq [OF dealAndPlay_fair [OF that]]) auto
  show ?thesis unfolding simHand_def Let_def prod.case
    apply (rule outcome_seq [OF r], clarify)
    apply (rule outcome_seq [OF simStartHand_fair], assumption, clarsimp)
    apply (rule outcome_seq [OF simPostBlinds_fair], assumption, assumption, clarify)
    apply (rule outcome_seq [OF initDeck_fair], assumption, assumption, clarify)
    apply (rule outcome_seq [OF runShuffle_fair], assumption, assumption, clarsimp)
    apply (rule tame_assert, rule d)
     apply (simp_all add: undealt_def)
    done
qed

lemma createWorld_fair:
  "tame (\<lambda>(w, _). fair bs v (map_of (map (\<lambda>i. (validatorId i, \<lparr>va_id = validatorId i, va_stake = cf_startingValidatorStake config,
       va_status = Active, va_slashCount = 0\<rparr>)) [0..<nat (cf_validatorSetSize config)]) v) (w, [TableCreated t])) (createWorld config a)"
  unfolding createWorld_def Let_def fresh_validators
  by (auto simp: fairly_def intro!: outcome_seq [OF tame_True] tame_assert split: option.split list.split)

lemma runSimulation_fair:
  "tame (fair bs v (map_of (map (\<lambda>i. (validatorId i, \<lparr>va_id = validatorId i, va_stake = cf_startingValidatorStake config,
       va_status = Active, va_slashCount = 0\<rparr>)) [0..<nat (cf_validatorSetSize config)]) v)) (runSimulation H config bs)"
  (is "tame (fair bs v ?x) _")
  unfolding runSimulation_def
proof (rule outcome_seq [OF createWorld_fair], clarify)
  fix w a assume "fair bs v ?x (w, [TableCreated (cf_tableId config)])"
  then have "tame (\<lambda>(s, _). fair bs v ?x s)
      (rfold (simHand H config bs) [0..<nat (cf_hands config)] ((w, [TableCreated (cf_tableId config)]), a))"
    using simHand_fair by (intro outcome_rfold) auto
  then show "tame (fair bs v ?x)
      (rbind (rfold (simHand H config bs) [0..<nat (cf_hands config)] ((w, [TableCreated (cf_tableId config)]), a)) (\<lambda>(s, _). Inr s))"
    by (rule outcome_seq) auto
qed

definition faulty_config :: SimConfig where
  "faulty_config = (createDefaultConfig 7)\<lparr>cf_playerCount := 2, cf_validatorSetSize := 2, cf_committeeSize := 1,
     cf_thresholdT := 0, cf_committeePlan := Some [[''V1'']]\<rparr>"

definition faulty_behaviors :: Behaviors where
  "faulty_behaviors =
     \<lparr>be_validator = (\<lambda>v. if v = ''V0'' then Some honestValidatorBehavior
        else Some (honestValidatorBehavior\<lparr>onShuffle := (\<lambda>_ _ _. Withhold)\<rparr>)),
      be_player = (\<lambda>_. Some alwaysCallPlayerBehavior)\<rparr>"

definition faulty_run :: simulated where
  "faulty_run = projr (runSimulation (\<lambda>s. s) faulty_config faulty_behaviors)"

lemma faulty_run_returns: "runSimulation (\<lambda>s. s) faulty_config faulty_behaviors = Inr (fst faulty_run, snd faulty_run)"
proof -
  have "case runSimulation (\<lambda>s. s) faulty_config faulty_behaviors of Inl _ \<Rightarrow> False | Inr _ \<Rightarrow> True" by code_simp
  then show ?thesis by (simp add: faulty_run_def split: sum.splits)
qed

definition faulty_hand :: SimHand where "faulty_hand = the (tb_hand (ws_table (fst faulty_run)))"

lemma faulty_hand_cards:
  "(case tb_hand (ws_table (fst faulty_run)) of None \<Rightarrow> False
     | Some h \<Rightarrow> map snd (sh_holeCards h) = [[0, 1], [2, 3]] \<and> sh_board h = [4, 5, 6, 7, 8])
   \<and> ValidatorSlashed ''V1'' ''withheld shuffle round 0'' 50 \<in> set (snd faulty_run)"
  by code_simp

text \<open>
  C34: a validator with the honest behaviour of \<^verbatim>\<open>behaviors.ts\<close> is never slashed: whatever the others do,
  no slashing event names it, and if it exists it ends active with its starting stake.
\<close>

theorem honest_validator_not_slashed:
  assumes "be_validator behaviors v = Some honestValidatorBehavior"
    and "runSimulation sha256Hex config behaviors = Inr (w, events)"
  shows "(\<forall>reason amt. ValidatorSlashed v reason amt \<notin> set events)
    \<and> (\<forall>i < nat (cf_validatorSetSize config). v = validatorId i \<longrightarrow>
         (\<exists>val. map_of (ws_validators w) v = Some val \<and> va_status val = Active \<and> va_stake val = cf_startingValidatorStake config))"
proof -
  let ?f = "\<lambda>i. \<lparr>va_id = validatorId i, va_stake = cf_startingValidatorStake config, va_status = Active, va_slashCount = 0\<rparr>"
  let ?m = "map (\<lambda>i. (validatorId i, ?f i)) [0..<nat (cf_validatorSetSize config)]"
  have f: "map_of (ws_validators w) v = map_of ?m v" "\<forall>r a. ValidatorSlashed v r a \<notin> set events"
    using runSimulation_fair [of behaviors v config sha256Hex] assms by (auto simp: fairly_def)
  have "distinct (map fst ?m)" by (simp add: comp_def distinct_map inj_on_def validatorId_inj)
  then have "map_of ?m (validatorId i) = Some (?f i)" if "i < nat (cf_validatorSetSize config)" for i
    using that by (intro map_of_is_SomeI) auto
  with f show ?thesis by auto
qed

theorem honest_validator_not_slashed_witness:
  "be_validator faulty_behaviors ''V0'' = Some honestValidatorBehavior
   \<and> ValidatorSlashed ''V1'' ''withheld shuffle round 0'' 50 \<in> set (snd faulty_run)
   \<and> ValidatorSlashed ''V0'' ''withheld shuffle round 0'' 50 \<notin> set (snd faulty_run)
   \<and> (\<exists>val. map_of (ws_validators (fst faulty_run)) ''V0'' = Some val \<and> va_status val = Active \<and> va_stake val = 200)"
proof -
  have b: "be_validator faulty_behaviors ''V0'' = Some honestValidatorBehavior" by (simp add: faulty_behaviors_def)
  have c: "validatorId 0 = ''V0''" "0 < nat (cf_validatorSetSize faulty_config)" "cf_startingValidatorStake faulty_config = 200"
    by code_simp+
  note f = honest_validator_not_slashed [OF b faulty_run_returns]
  have "\<exists>val. map_of (ws_validators (fst faulty_run)) ''V0'' = Some val \<and> va_status val = Active \<and> va_stake val = 200"
    using f [THEN conjunct2, rule_format, OF c(2) c(1) [symmetric]] c(3) by simp
  then show ?thesis using f b faulty_hand_cards by blast
qed

text \<open>
  C33: whatever the players and validators do, no card is dealt twice: in the hand the simulation ends
  with, the players' hole cards and the board are pairwise different cards of the deck.
\<close>

theorem no_card_dealt_twice:
  assumes "runSimulation sha256Hex config behaviors = Inr (w, events)" and "tb_hand (ws_table w) = Some h"
  shows "distinct (concat (map snd (sh_holeCards h)) @ sh_board h) \<and> set (concat (map snd (sh_holeCards h)) @ sh_board h) \<subseteq> {..<52}"
proof -
  let ?cs = "concat (map snd (sh_holeCards h)) @ sh_board h"
  have f: "hand_fair h {#}"
    using runSimulation_fair [of behaviors _ config sha256Hex] assms by (simp add: fairly_def)
  have d: "mset ?cs = dealtCards h" by (simp add: dealtCards_def)
  have "dealtCards h \<subseteq># mset [0..<52]"
  proof (cases "ds_deck (sh_dealer h)")
    case (Some deck)
    have "mset (take (ds_deckCursor (sh_dealer h)) deck) \<subseteq># mset deck"
      using mset_subset_eq_add_left [of "mset (take (ds_deckCursor (sh_dealer h)) deck)" "mset (drop (ds_deckCursor (sh_dealer h)) deck)"]
      by (simp flip: mset_append)
    then show ?thesis using f Some by (auto simp: hand_fair_def intro: subset_mset.order_trans)
  qed (use f in \<open>simp add: hand_fair_def\<close>)
  then obtain D where "mset [0..<52] = mset ?cs + D" unfolding d by (rule subset_mset.less_eqE)
  moreover obtain ds where "mset ds = D" using ex_mset by blast
  ultimately have m: "mset (?cs @ ds) = mset [0..<52]" by simp
  have "distinct (?cs @ ds)" using mset_eq_imp_distinct_iff [OF m] by simp
  moreover have "set (?cs @ ds) = {..<52}" using mset_eq_setD [OF m] by (simp add: atLeast0LessThan)
  ultimately show ?thesis by auto
qed

theorem no_card_dealt_twice_witness:
  "tb_hand (ws_table (fst faulty_run)) = Some faulty_hand
   \<and> map snd (sh_holeCards faulty_hand) = [[0, 1], [2, 3]] \<and> sh_board faulty_hand = [4, 5, 6, 7, 8]
   \<and> distinct (concat (map snd (sh_holeCards faulty_hand)) @ sh_board faulty_hand)"
proof -
  have h: "tb_hand (ws_table (fst faulty_run)) = Some faulty_hand"
    using faulty_hand_cards by (simp add: faulty_hand_def split: option.splits)
  show ?thesis using no_card_dealt_twice [OF faulty_run_returns h] h faulty_hand_cards by simp
qed

end
