(* ===== verification/Coordinator.thy ===== *)
theory Coordinator
  imports OCP_Prelude "HOL-Library.Word" "HOL-Library.AList" Crypto_Bytes
begin

text \<open>
  In-memory services of the coordinator, \<^verbatim>\<open>apps/coordinator/src\<close>: the store of tables, seat intents,
  chat and artifacts (\<^verbatim>\<open>store.ts\<close>), the nickname registry (\<^verbatim>\<open>nicknames.ts\<close>), the client address behind
  reverse proxies (\<^verbatim>\<open>clientIp.ts\<close>) and the faucet (\<^verbatim>\<open>faucet.ts\<close>). A JavaScript Map is an association
  list in insertion order (\<open>AList.update\<close> keeps the place of a key). Times are numbers given by the
  caller. The chain client of the faucet is a parameter: a broadcast either succeeds or throws.
\<close>

unbundle bit_operations_syntax

subsection \<open>Strings\<close>

text \<open>\<^verbatim>\<open>toLowerCase\<close> on characters up to \<^verbatim>\<open>U+00FF\<close>, \<^verbatim>\<open>trim\<close> and \<^verbatim>\<open>split(",")\<close>.\<close>

definition lowerChar :: "char \<Rightarrow> char" where
  "lowerChar c =
     (let n = of_char c :: nat
      in if 65 \<le> n \<and> n \<le> 90 \<or> 192 \<le> n \<and> n \<le> 222 \<and> n \<noteq> 215 then char_of (n + 32) else c)"

definition toLowerCase :: "string \<Rightarrow> string" where
  "toLowerCase s = map lowerChar s"

definition trimText :: "string \<Rightarrow> string" where
  "trimText s = rev (dropWhile isWhitespace (rev (dropWhile isWhitespace s)))"

fun splitOn :: "char \<Rightarrow> string \<Rightarrow> string list" where
  "splitOn sep [] = [[]]"
| "splitOn sep (c # cs) =
     (if c = sep then [] # splitOn sep cs
      else case splitOn sep cs of w # ws \<Rightarrow> (c # w) # ws | [] \<Rightarrow> [[c]])"

definition joinComma :: "string list \<Rightarrow> string" where
  "joinComma xs = (case xs of [] \<Rightarrow> [] | y # ys \<Rightarrow> y @ concat (map (\<lambda>z. CHR '','' # z) ys))"

subsection \<open>Client address\<close>

datatype Header = HeaderText string | HeaderList "string list"

definition clientIpFromForwarded :: "Header option \<Rightarrow> string \<Rightarrow> int \<Rightarrow> string" where
  "clientIpFromForwarded forwardedHeader directIp trustedHops =
     (let fallback = (if directIp = [] then ''unknown'' else directIp) in
      if trustedHops \<le> 0 then fallback
      else
        let raw = (case forwardedHeader of None \<Rightarrow> [] | Some (HeaderText s) \<Rightarrow> s | Some (HeaderList xs) \<Rightarrow> joinComma xs) in
        if raw = [] then fallback
        else
          let hops = filter (\<lambda>s. s \<noteq> []) (map trimText (splitOn CHR '','' raw)) in
          if length hops = 0 then fallback
          else
            let idx = int (length hops) - trustedHops in
            if idx < 0 then fallback
            else if nat idx < length hops then hops ! nat idx else fallback)"

subsection \<open>Nicknames\<close>

record NicknameRegistry =
  nr_map :: "(string \<times> string) list"
  nr_maxEntries :: int

definition newRegistry :: "int \<Rightarrow> NicknameRegistry" where
  "newRegistry maxEntries = \<lparr>nr_map = [], nr_maxEntries = max 1 maxEntries\<rparr>"

definition registrySize :: "NicknameRegistry \<Rightarrow> nat" where "registrySize r = length (nr_map r)"

definition registryGet :: "NicknameRegistry \<Rightarrow> string \<Rightarrow> string option" where
  "registryGet r address = map_of (nr_map r) address"

datatype SetResult = Ok | Taken

definition registrySet :: "NicknameRegistry \<Rightarrow> string \<Rightarrow> string \<Rightarrow> SetResult \<times> NicknameRegistry" where
  "registrySet r address nickname =
     (let lower = toLowerCase nickname in
      if list_ex (\<lambda>e. fst e \<noteq> address \<and> toLowerCase (snd e) = lower) (nr_map r) then (Taken, r)
      else
        let m = (if map_of (nr_map r) address = None \<and> nr_maxEntries r \<le> int (length (nr_map r))
                 then (case nr_map r of [] \<Rightarrow> [] | e # _ \<Rightarrow> AList.delete (fst e) (nr_map r))
                 else nr_map r)
        in (Ok, r\<lparr>nr_map := AList.update address nickname m\<rparr>))"

subsection \<open>Store\<close>

record ChatMessage =
  ch_sender :: string
  ch_text :: string
  ch_timeMs :: js_number

record SeatIntent =
  si_intentId :: string
  si_tableId :: string
  si_seat :: js_number
  si_player :: string
  si_createdAtMs :: js_number
  si_expiresAtMs :: js_number

record ArtifactRecord =
  ar_artifactId :: string
  ar_kind :: string
  ar_mime :: string
  ar_bytes :: "byte list"
  ar_createdAtMs :: js_number
  ar_lastAccessAtMs :: js_number

record 'tbl Store =
  cs_tables :: "(string \<times> 'tbl) list"
  cs_intents :: "(string \<times> (string \<times> SeatIntent) list) list"
  cs_chat :: "(string \<times> ChatMessage list) list"
  cs_artifacts :: "(string \<times> ArtifactRecord) list"
  cs_totalBytes :: int
  cs_maxBytes :: int
  cs_cacheMaxBytes :: int

definition CHAT_RING_SIZE :: nat where "CHAT_RING_SIZE = 50"

definition newStore :: "int \<Rightarrow> int \<Rightarrow> 'tbl Store" where
  "newStore artifactMaxBytes artifactCacheMaxBytes =
     \<lparr>cs_tables = [], cs_intents = [], cs_chat = [], cs_artifacts = [], cs_totalBytes = 0,
      cs_maxBytes = artifactMaxBytes, cs_cacheMaxBytes = artifactCacheMaxBytes\<rparr>"

definition getChatHistory :: "'tbl Store \<Rightarrow> string \<Rightarrow> ChatMessage list" where
  "getChatHistory s tableId = (case map_of (cs_chat s) tableId of None \<Rightarrow> [] | Some ring \<Rightarrow> ring)"

definition addChatMessage :: "'tbl Store \<Rightarrow> string \<Rightarrow> ChatMessage \<Rightarrow> 'tbl Store" where
  "addChatMessage s tableId msg =
     (if map_of (cs_tables s) tableId = None then s
      else
        let ring = getChatHistory s tableId @ [msg];
            ring' = (if CHAT_RING_SIZE < length ring then drop (length ring - CHAT_RING_SIZE) ring else ring)
        in s\<lparr>cs_chat := AList.update tableId ring' (cs_chat s)\<rparr>)"

definition upsertTable :: "'tbl Store \<Rightarrow> string \<Rightarrow> 'tbl \<Rightarrow> 'tbl Store" where
  "upsertTable s tableId table = s\<lparr>cs_tables := AList.update tableId table (cs_tables s)\<rparr>"

definition getTable :: "'tbl Store \<Rightarrow> string \<Rightarrow> 'tbl option" where
  "getTable s tableId = map_of (cs_tables s) tableId"

definition putSeatIntent :: "'tbl Store \<Rightarrow> SeatIntent \<Rightarrow> 'tbl Store" where
  "putSeatIntent s intent =
     (let byId = (case map_of (cs_intents s) (si_tableId intent) of None \<Rightarrow> [] | Some m \<Rightarrow> m)
      in s\<lparr>cs_intents := AList.update (si_tableId intent) (AList.update (si_intentId intent) intent byId) (cs_intents s)\<rparr>)"

definition pruneExpiredSeatIntents :: "'tbl Store \<Rightarrow> js_number \<Rightarrow> 'tbl Store" where
  "pruneExpiredSeatIntents s nowMs =
     s\<lparr>cs_intents := filter (\<lambda>e. snd e \<noteq> [])
       (map (\<lambda>e. (fst e, filter (\<lambda>i. \<not> si_expiresAtMs (snd i) \<le> nowMs) (snd e))) (cs_intents s))\<rparr>"

definition listSeatIntents :: "'tbl Store \<Rightarrow> string \<Rightarrow> js_number \<Rightarrow> SeatIntent list \<times> 'tbl Store" where
  "listSeatIntents s tableId nowMs =
     (let s' = pruneExpiredSeatIntents s nowMs
      in (case map_of (cs_intents s') tableId of None \<Rightarrow> [] | Some byId \<Rightarrow> sort_key si_seat (map snd byId), s'))"

fun evictLoop :: "int \<Rightarrow> ArtifactRecord list \<Rightarrow> (string \<times> ArtifactRecord) list \<times> int \<Rightarrow> (string \<times> ArtifactRecord) list \<times> int" where
  "evictLoop cap [] acc = acc"
| "evictLoop cap (a # as) acc =
     (if snd acc \<le> cap then acc
      else evictLoop cap as (AList.delete (ar_artifactId a) (fst acc), snd acc - int (length (ar_bytes a))))"

definition evictArtifactsIfNeeded :: "'tbl Store \<Rightarrow> 'tbl Store" where
  "evictArtifactsIfNeeded s =
     (if cs_totalBytes s \<le> cs_cacheMaxBytes s then s
      else
        let artifacts = sort_key ar_lastAccessAtMs (map snd (cs_artifacts s));
            r = evictLoop (cs_cacheMaxBytes s) artifacts (cs_artifacts s, cs_totalBytes s)
        in s\<lparr>cs_artifacts := fst r, cs_totalBytes := snd r\<rparr>)"

definition putArtifact :: "'tbl Store \<Rightarrow> ArtifactRecord \<Rightarrow> js_number \<Rightarrow> string + 'tbl Store" where
  "putArtifact s artifact nowMs =
     (if cs_maxBytes s < int (length (ar_bytes artifact)) then Inl ''artifact too large''
      else
        let total = (case map_of (cs_artifacts s) (ar_artifactId artifact) of
                       None \<Rightarrow> cs_totalBytes s
                     | Some prev \<Rightarrow> cs_totalBytes s - int (length (ar_bytes prev)));
            artifact' = artifact\<lparr>ar_lastAccessAtMs := nowMs\<rparr>
        in Inr (evictArtifactsIfNeeded
             (s\<lparr>cs_artifacts := AList.update (ar_artifactId artifact) artifact' (cs_artifacts s),
                cs_totalBytes := total + int (length (ar_bytes artifact))\<rparr>)))"

definition getArtifact :: "'tbl Store \<Rightarrow> string \<Rightarrow> js_number \<Rightarrow> ArtifactRecord option \<times> 'tbl Store" where
  "getArtifact s artifactId nowMs =
     (case map_of (cs_artifacts s) artifactId of
        None \<Rightarrow> (None, s)
      | Some rec \<Rightarrow>
          let rec' = rec\<lparr>ar_lastAccessAtMs := nowMs\<rparr>
          in (Some rec', s\<lparr>cs_artifacts := AList.update artifactId rec' (cs_artifacts s)\<rparr>))"

definition hasArtifact :: "'tbl Store \<Rightarrow> string \<Rightarrow> bool" where
  "hasArtifact s artifactId \<longleftrightarrow> map_of (cs_artifacts s) artifactId \<noteq> None"

subsection \<open>Bech32 addresses\<close>

definition BECH32_CHARSET :: string where "BECH32_CHARSET = ''qpzry9x8gf2tvdw0s3jn54khce6mua7l''"

definition BECH32_GEN :: "32 word list" where
  "BECH32_GEN = [0x3b6a57b2, 0x26508e6d, 0x1ea119fa, 0x3d4233dd, 0x2a1462b3]"

definition polymodStep :: "32 word \<Rightarrow> 32 word \<Rightarrow> 32 word" where
  "polymodStep chk v =
     (let b = drop_bit 25 chk;
          chk1 = push_bit 5 (chk AND 0x1ffffff) XOR v
      in foldl (\<lambda>c i. if drop_bit i b AND 1 \<noteq> 0 then c XOR BECH32_GEN ! i else c) chk1 [0..<5])"

definition bech32Polymod :: "32 word list \<Rightarrow> 32 word" where
  "bech32Polymod values = foldl polymodStep 1 values"

definition bech32HrpExpand :: "string \<Rightarrow> 32 word list" where
  "bech32HrpExpand hrp =
     map (\<lambda>c. drop_bit 5 (of_nat (of_char c))) hrp @ [0] @ map (\<lambda>c. of_nat (of_char c) AND 31) hrp"

fun lastIndexOf :: "char \<Rightarrow> string \<Rightarrow> nat option" where
  "lastIndexOf c [] = None"
| "lastIndexOf c (x # xs) = (case lastIndexOf c xs of Some i \<Rightarrow> Some (Suc i) | None \<Rightarrow> if x = c then Some 0 else None)"

fun indexOf :: "char \<Rightarrow> string \<Rightarrow> nat option" where
  "indexOf c [] = None"
| "indexOf c (x # xs) = (if x = c then Some 0 else map_option Suc (indexOf c xs))"

fun charsetValues :: "string \<Rightarrow> 32 word list option" where
  "charsetValues [] = Some []"
| "charsetValues (c # cs) =
     (case indexOf c BECH32_CHARSET of
        None \<Rightarrow> None
      | Some i \<Rightarrow> map_option (\<lambda>vs. of_nat i # vs) (charsetValues cs))"

definition decodeBech32Prefix :: "string \<Rightarrow> string option" where
  "decodeBech32Prefix address =
     (let code = (\<lambda>c. of_char c :: nat);
          hasLower = list_ex (\<lambda>c. 97 \<le> code c \<and> code c \<le> 122) address;
          hasUpper = list_ex (\<lambda>c. 65 \<le> code c \<and> code c \<le> 90) address
      in if length address < 8 \<or> 90 < length address then None
         else if list_ex (\<lambda>c. code c < 33 \<or> 126 < code c) address then None
         else if hasLower \<and> hasUpper then None
         else
           let addr = toLowerCase address in
           case lastIndexOf CHR ''1'' addr of
             None \<Rightarrow> None
           | Some sep \<Rightarrow>
               if sep < 1 \<or> length addr < sep + 7 then None
               else
                 let hrp = take sep addr in
                 case charsetValues (drop (sep + 1) addr) of
                   None \<Rightarrow> None
                 | Some values \<Rightarrow> if bech32Polymod (bech32HrpExpand hrp @ values) \<noteq> 1 then None else Some hrp)"

subsection \<open>Faucet\<close>

type_synonym cooldowns = "(string \<times> js_number) list"

definition evictSoonestToExpire :: "cooldowns \<Rightarrow> nat \<Rightarrow> cooldowns" where
  "evictSoonestToExpire m maxEntries =
     (if length m \<le> maxEntries then m
      else foldl (\<lambda>m e. AList.delete (fst e) m) m (take (length m - maxEntries) (sort_key snd m)))"

record FaucetConfig =
  fc_bech32Prefix :: string
  fc_cooldownMs :: js_number
  fc_ipCooldownMs :: js_number

text \<open>
  The state of an initialised service. \<open>fs_inFlight\<close> holds the local variables of the call whose broadcast
  is awaited: its address, client address and start time.
\<close>

record FaucetState =
  fs_addressCooldowns :: cooldowns
  fs_ipCooldowns :: cooldowns
  fs_busy :: bool
  fs_inFlight :: "(string \<times> string \<times> js_number) option"

definition newFaucet :: FaucetState where
  "newFaucet = \<lparr>fs_addressCooldowns = [], fs_ipCooldowns = [], fs_busy = False, fs_inFlight = None\<rparr>"

datatype FaucetError = IpRateLimited | InvalidAddress | AddressRateLimited | FaucetBusy

definition coolingDown :: "cooldowns \<Rightarrow> string \<Rightarrow> js_number \<Rightarrow> bool" where
  "coolingDown m k now = (case map_of m k of None \<Rightarrow> False | Some expiry \<Rightarrow> expiry \<noteq> 0 \<and> now < expiry)"

text \<open>\<^verbatim>\<open>drip\<close> up to the broadcast, and what follows it; an error keeps the state changes made before it.\<close>

definition dripStart :: "FaucetConfig \<Rightarrow> FaucetState \<Rightarrow> string \<Rightarrow> string \<Rightarrow> js_number \<Rightarrow> FaucetError option \<times> FaucetState" where
  "dripStart cfg fs address clientIp now =
     (let spamIpCooldownMs = min (fc_ipCooldownMs cfg) 60000 in
      if coolingDown (fs_ipCooldowns fs) clientIp now then (Some IpRateLimited, fs)
      else
        let fs1 = fs\<lparr>fs_ipCooldowns := AList.update clientIp (now + spamIpCooldownMs) (fs_ipCooldowns fs)\<rparr> in
        if decodeBech32Prefix address \<noteq> Some (fc_bech32Prefix cfg) then (Some InvalidAddress, fs1)
        else if coolingDown (fs_addressCooldowns fs1) address now then (Some AddressRateLimited, fs1)
        else if fs_busy fs1 then (Some FaucetBusy, fs1)
        else (None, fs1\<lparr>fs_busy := True, fs_inFlight := Some (address, clientIp, now)\<rparr>))"

definition dripFinish :: "FaucetConfig \<Rightarrow> FaucetState \<Rightarrow> bool \<Rightarrow> FaucetState" where
  "dripFinish cfg fs success =
     (case fs_inFlight fs of
        None \<Rightarrow> fs
      | Some (address, clientIp, now) \<Rightarrow>
          if success
          then fs\<lparr>fs_addressCooldowns := AList.update address (now + fc_cooldownMs cfg) (fs_addressCooldowns fs),
                  fs_ipCooldowns := AList.update clientIp (now + fc_ipCooldownMs cfg) (fs_ipCooldowns fs),
                  fs_busy := False, fs_inFlight := None\<rparr>
          else fs\<lparr>fs_busy := False, fs_inFlight := None\<rparr>)"

definition MAX_COOLDOWN_ENTRIES :: nat where "MAX_COOLDOWN_ENTRIES = 10000"

definition pruneCooldowns :: "FaucetState \<Rightarrow> js_number \<Rightarrow> FaucetState" where
  "pruneCooldowns fs now =
     fs\<lparr>fs_addressCooldowns := evictSoonestToExpire (filter (\<lambda>e. \<not> snd e \<le> now) (fs_addressCooldowns fs)) MAX_COOLDOWN_ENTRIES,
        fs_ipCooldowns := evictSoonestToExpire (filter (\<lambda>e. \<not> snd e \<le> now) (fs_ipCooldowns fs)) MAX_COOLDOWN_ENTRIES\<rparr>"

end
