(* ===== verification/Coordinator_Correct.thy ===== *)
theory Coordinator_Correct
  imports Coordinator
begin

text \<open>
  The client address and the nickname registry of the coordinator: whatever a client puts in front of
  the forwarded chain, the address used for rate limiting is one a trusted proxy appended, and nicknames
  stay unique and bounded. The lemmas on association lists serve the store and the faucet as well.
\<close>

subsection \<open>Association lists\<close>

lemma alist_update_keys: "map fst (AList.update k v al) = map fst al @ (if k \<in> set (map fst al) then [] else [k])"
  by (induction al) auto

lemma alist_update_distinct: "distinct (map fst al) \<Longrightarrow> distinct (map fst (AList.update k v al))"
  by (rule distinct_update)

lemma alist_update_mem:
  "distinct (map fst al) \<Longrightarrow> e \<in> set (AList.update k v al) \<longleftrightarrow> e = (k, v) \<or> e \<in> set al \<and> fst e \<noteq> k"
  by (induction al) auto

lemma map_of_filter_distinct:
  "distinct (map fst al) \<Longrightarrow> map_of (filter P al) k = (case map_of al k of Some v \<Rightarrow> if P (k, v) then Some v else None | None \<Rightarrow> None)"
proof (induction al)
  case (Cons e al)
  then show ?case
    by (cases e) (auto simp: map_of_eq_None_iff image_iff split: option.split)
qed simp

subsection \<open>Client address\<close>

lemma splitOn_append: "splitOn c (xs @ c # ys) = splitOn c xs @ splitOn c ys"
proof -
  have ne: "splitOn c zs \<noteq> []" for zs by (induction zs) (auto split: list.split)
  show ?thesis by (induction xs) (auto simp: ne split: list.split)
qed

lemma splitOn_atom: "c \<notin> set xs \<Longrightarrow> splitOn c xs = [xs]"
  by (induction xs) auto

text \<open>A hop the proxies append: not empty, without commas and white space.\<close>

definition plain_hop :: "string \<Rightarrow> bool" where
  "plain_hop h \<longleftrightarrow> h \<noteq> [] \<and> CHR '','' \<notin> set h \<and> (\<forall>c\<in>set h. \<not> isWhitespace c)"

lemma plain_hop_trim: "plain_hop h \<Longrightarrow> trimText h = h"
proof -
  assume "plain_hop h"
  then have w: "\<forall>c\<in>set h. \<not> isWhitespace c" by (simp add: plain_hop_def)
  have d: "dropWhile isWhitespace xs = xs" if "\<forall>c\<in>set xs. \<not> isWhitespace c" for xs
    using that by (cases xs) auto
  show ?thesis using d [of h] d [of "rev h"] w by (simp add: trimText_def)
qed

lemma splitOn_hops:
  "\<lbrakk>\<forall>h\<in>set hs. plain_hop h; hs \<noteq> []\<rbrakk> \<Longrightarrow> splitOn CHR '','' (joinComma hs) = hs"
proof (induction hs)
  case (Cons h hs)
  have h: "CHR '','' \<notin> set h" using Cons.prems by (simp add: plain_hop_def)
  have "splitOn CHR '','' (joinComma (h # hs)) = h # hs" if "hs \<noteq> []"
  proof -
    have "joinComma (h # hs) = h @ CHR '','' # joinComma hs" using that by (cases hs) (simp_all add: joinComma_def)
    then show ?thesis using that Cons h by (simp add: splitOn_append splitOn_atom)
  qed
  moreover have "splitOn CHR '','' (joinComma [h]) = [h]" using h by (simp add: joinComma_def splitOn_atom)
  ultimately show ?case by blast
qed simp

lemma clientIp_hops:
  assumes "filter (\<lambda>s. s \<noteq> []) (map trimText (splitOn CHR '','' raw)) = H" and "1 \<le> n" and "n \<le> length H" and "raw \<noteq> []"
  shows "clientIpFromForwarded (Some (HeaderText raw)) direct (int n) = H ! (length H - n)"
  using assms(2-4) by (cases "H = []") (simp_all add: clientIpFromForwarded_def Let_def assms(1) nat_diff_distrib')



subsection \<open>Nicknames\<close>

definition registry_inv :: "NicknameRegistry \<Rightarrow> bool" where
  "registry_inv r \<longleftrightarrow> distinct (map fst (nr_map r)) \<and> int (length (nr_map r)) \<le> nr_maxEntries r \<and> 1 \<le> nr_maxEntries r
     \<and> inj_on (\<lambda>e. toLowerCase (snd e)) (set (nr_map r))"

lemma registrySet_ok:
  assumes "registry_inv r"
  shows "registry_inv (snd (registrySet r address nickname))"
proof (cases "list_ex (\<lambda>e. fst e \<noteq> address \<and> toLowerCase (snd e) = toLowerCase nickname) (nr_map r)")
  case True
  then show ?thesis using assms by (simp add: registrySet_def)
next
  case False
  define m where "m = (if map_of (nr_map r) address = None \<and> nr_maxEntries r \<le> int (length (nr_map r))
    then (case nr_map r of [] \<Rightarrow> [] | e # _ \<Rightarrow> AList.delete (fst e) (nr_map r)) else nr_map r)"
  have sub: "set m \<subseteq> set (nr_map r)"
    by (auto simp: m_def AList.delete_eq split: list.splits if_splits)
  have d: "distinct (map fst m)"
    using assms by (auto simp: m_def registry_inv_def split: list.split intro: distinct_delete)
  have "length (AList.update address nickname m) = length m + (if address \<in> set (map fst m) then 0 else 1)"
    using arg_cong [OF alist_update_keys [of address nickname m], of length] by simp
  moreover have "int (length m) + (if address \<in> set (map fst m) then 0 else 1) \<le> nr_maxEntries r"
  proof (cases "map_of (nr_map r) address = None")
    case True
    show ?thesis
    proof (cases "nr_maxEntries r \<le> int (length (nr_map r))")
      case full: True
      obtain e es where e: "nr_map r = e # es" using full assms by (cases "nr_map r") (auto simp: registry_inv_def)
      have "length m \<le> length es" using True full e by (simp add: m_def AList.delete_eq split_beta)
      then show ?thesis using assms e by (simp add: registry_inv_def)
    next
      case False
      then show ?thesis by (simp add: m_def)
    qed
  next
    case False
    then have "m = nr_map r" "address \<in> set (map fst m)" by (auto simp: m_def map_of_eq_None_iff)
    then show ?thesis using assms by (simp add: registry_inv_def)
  qed
  moreover have "inj_on (\<lambda>e. toLowerCase (snd e)) (set (AList.update address nickname m))"
  proof (rule inj_onI)
    fix x y assume xy: "x \<in> set (AList.update address nickname m)" "y \<in> set (AList.update address nickname m)"
      "toLowerCase (snd x) = toLowerCase (snd y)"
    have new: False if "z \<in> set m" "fst z \<noteq> address" "toLowerCase (snd z) = toLowerCase nickname" for z
      using that False sub by (auto simp: list_ex_iff)
    have old: "x = y" if "x \<in> set m" "y \<in> set m" using that sub xy(3) assms by (auto simp: registry_inv_def inj_on_def)
    show "x = y" using xy new [of x] new [of y] old by (auto simp: alist_update_mem [OF d])
  qed
  moreover have "snd (registrySet r address nickname) = r\<lparr>nr_map := AList.update address nickname m\<rparr>"
    using False by (simp add: registrySet_def Let_def m_def)
  moreover have "1 \<le> nr_maxEntries r" using assms by (simp add: registry_inv_def)
  moreover have "distinct (map fst (AList.update address nickname m))" by (rule alist_update_distinct [OF d])
  ultimately show ?thesis unfolding registry_inv_def by (simp split: if_splits)
qed

text \<open>
  Nicknames stay unique and bounded. After any sequence of registrations, no two addresses hold
  nicknames that agree up to case, and the registry holds at most the configured number of entries.
\<close>

theorem nicknames_unique:
  fixes maxEntries :: int and sets :: "(string \<times> string) list"
  defines "r \<equiv> foldl (\<lambda>r s. snd (registrySet r (fst s) (snd s))) (newRegistry maxEntries) sets"
  shows "int (registrySize r) \<le> max 1 maxEntries
    \<and> (\<forall>a b n m. registryGet r a = Some n \<and> registryGet r b = Some m \<and> toLowerCase n = toLowerCase m \<longrightarrow> a = b)"
proof -
  have "registry_inv r' \<Longrightarrow> registry_inv (foldl (\<lambda>r s. snd (registrySet r (fst s) (snd s))) r' sets)
      \<and> nr_maxEntries (foldl (\<lambda>r s. snd (registrySet r (fst s) (snd s))) r' sets) = nr_maxEntries r'" for r'
  proof (induction sets arbitrary: r')
    case (Cons x xs)
    have "nr_maxEntries (snd (registrySet r' (fst x) (snd x))) = nr_maxEntries r'" by (simp add: registrySet_def Let_def)
    then show ?case using Cons.IH [OF registrySet_ok [OF Cons.prems]] by simp
  qed simp
  moreover have "registry_inv (newRegistry maxEntries)" by (simp add: registry_inv_def newRegistry_def)
  ultimately have inv: "registry_inv r" and m: "nr_maxEntries r = max 1 maxEntries"
    unfolding r_def by (simp_all add: newRegistry_def)
  have "a = b" if "registryGet r a = Some n" "registryGet r b = Some m" "toLowerCase n = toLowerCase m" for a b n m
  proof -
    have "(a, n) \<in> set (nr_map r)" "(b, m) \<in> set (nr_map r)" using that(1,2) by (simp_all add: registryGet_def map_of_SomeD)
    moreover have "inj_on (\<lambda>e. toLowerCase (snd e)) (set (nr_map r))" using inv by (simp add: registry_inv_def)
    ultimately have "(a, n) = (b, m)"
      using inj_onD [of "\<lambda>e. toLowerCase (snd e)" "set (nr_map r)" "(a, n)" "(b, m)"] that(3) by simp
    then show ?thesis by simp
  qed
  then show ?thesis using inv m by (auto simp: registry_inv_def registrySize_def)
qed

theorem nicknames_unique_witness:
  "toLowerCase ''Ann'' = toLowerCase ''ANN'' \<and>
   (let r = foldl (\<lambda>r s. snd (registrySet r (fst s) (snd s))) (newRegistry 2) [(''a'', ''Ann''), (''b'', ''ANN'')]
    in int (registrySize r) \<le> 2 \<and> registryGet r ''a'' = Some ''Ann'' \<and> registryGet r ''b'' = None)"
proof -
  let ?r = "foldl (\<lambda>r s. snd (registrySet r (fst s) (snd s))) (newRegistry 2) [(''a'', ''Ann''), (''b'', ''ANN'')]"
  have "registryGet ?r ''a'' = Some ''Ann'' \<and> registryGet ?r ''b'' = None" by code_simp
  moreover have "toLowerCase ''Ann'' = toLowerCase ''ANN''" by code_simp
  ultimately show ?thesis using nicknames_unique [of 2 "[(''a'', ''Ann''), (''b'', ''ANN'')]"] unfolding Let_def by simp
qed

end
