(* ===== verification/Store_Correct.thy ===== *)
theory Store_Correct
  imports Coordinator_Correct
begin

text \<open>
  Correctness of the coordinator's store, \<^verbatim>\<open>apps/coordinator/src/store.ts\<close>. The store is a state machine
  whose steps are the operations of the class in any order; its invariant (accounting of the cache, size
  limits, rings, consistent keys) is proved by rule induction, and the eviction is shown to remove the
  least recently used artifacts and no more than it must. The seat intents refine a map from table and
  intent id.
\<close>

subsection \<open>Reachable stores and their invariant\<close>

inductive store_reach :: "int \<Rightarrow> int \<Rightarrow> 'tbl Store \<Rightarrow> bool" for maxB cacheB where
  store_init: "store_reach maxB cacheB (newStore maxB cacheB)"
| store_chat: "store_reach maxB cacheB s \<Longrightarrow> store_reach maxB cacheB (addChatMessage s t msg)"
| store_table: "store_reach maxB cacheB s \<Longrightarrow> store_reach maxB cacheB (upsertTable s t tbl)"
| store_intent: "store_reach maxB cacheB s \<Longrightarrow> store_reach maxB cacheB (putSeatIntent s intent)"
| store_list: "store_reach maxB cacheB s \<Longrightarrow> store_reach maxB cacheB (snd (listSeatIntents s t now))"
| store_prune: "store_reach maxB cacheB s \<Longrightarrow> store_reach maxB cacheB (pruneExpiredSeatIntents s now)"
| store_put: "store_reach maxB cacheB s \<Longrightarrow> putArtifact s a now = Inr s' \<Longrightarrow> store_reach maxB cacheB s'"
| store_get: "store_reach maxB cacheB s \<Longrightarrow> store_reach maxB cacheB (snd (getArtifact s k now))"

definition bytesOf :: "ArtifactRecord \<Rightarrow> int" where "bytesOf a = int (length (ar_bytes a))"

definition cacheBytes :: "(string \<times> ArtifactRecord) list \<Rightarrow> int" where
  "cacheBytes m = sum_list (map (\<lambda>e. bytesOf (snd e)) m)"

definition artifacts_keyed :: "(string \<times> ArtifactRecord) list \<Rightarrow> bool" where
  "artifacts_keyed m \<longleftrightarrow> distinct (map fst m) \<and> (\<forall>e\<in>set m. ar_artifactId (snd e) = fst e)"

definition cache_inv :: "int \<Rightarrow> int \<Rightarrow> 'tbl Store \<Rightarrow> bool" where
  "cache_inv maxB cacheB s \<longleftrightarrow> cs_maxBytes s = maxB \<and> cs_cacheMaxBytes s = cacheB
     \<and> artifacts_keyed (cs_artifacts s) \<and> (\<forall>e\<in>set (cs_artifacts s). bytesOf (snd e) \<le> maxB)
     \<and> cs_totalBytes s = cacheBytes (cs_artifacts s) \<and> cs_totalBytes s \<le> cacheB"

definition chat_inv :: "'tbl Store \<Rightarrow> bool" where
  "chat_inv s \<longleftrightarrow> distinct (map fst (cs_chat s)) \<and> (\<forall>e\<in>set (cs_chat s). length (snd e) \<le> CHAT_RING_SIZE)"

definition intents_inv :: "'tbl Store \<Rightarrow> bool" where
  "intents_inv s \<longleftrightarrow> distinct (map fst (cs_intents s))
     \<and> (\<forall>e\<in>set (cs_intents s). distinct (map fst (snd e))
          \<and> (\<forall>i\<in>set (snd e). si_intentId (snd i) = fst i \<and> si_tableId (snd i) = fst e))"

subsection \<open>Eviction\<close>

lemma filter_dropped_prefix:
  assumes "distinct (map f as)"
  shows "filter (\<lambda>a. f a \<notin> f ` set (take n as)) as = drop n as"
proof -
  have d: "distinct (map f (take n as) @ map f (drop n as))" using assms by (simp flip: map_append)
  have "filter (\<lambda>a. f a \<notin> f ` set (take n as)) (take n as @ drop n as)
    = filter (\<lambda>a. f a \<notin> f ` set (take n as)) (drop n as)" unfolding filter_append by simp
  also have "\<dots> = drop n as" using d by (intro filter_True) auto
  finally show ?thesis by simp
qed

lemma evictLoop_spec:
  "\<exists>n\<le>length as. evictLoop cap as (m, t) =
       (filter (\<lambda>e. fst e \<notin> ar_artifactId ` set (take n as)) m, t - sum_list (map bytesOf (take n as)))
     \<and> (n = length as \<or> t - sum_list (map bytesOf (take n as)) \<le> cap)
     \<and> (\<forall>k<n. cap < t - sum_list (map bytesOf (take k as)))"
proof (induction as arbitrary: m t)
  case (Cons a as)
  show ?case
  proof (cases "t \<le> cap")
    case True
    then show ?thesis by (intro exI [of _ 0]) simp
  next
    case False
    obtain n where n: "n \<le> length as"
      "evictLoop cap as (AList.delete (ar_artifactId a) m, t - bytesOf a) =
        (filter (\<lambda>e. fst e \<notin> ar_artifactId ` set (take n as)) (AList.delete (ar_artifactId a) m),
         t - bytesOf a - sum_list (map bytesOf (take n as)))"
      "n = length as \<or> t - bytesOf a - sum_list (map bytesOf (take n as)) \<le> cap"
      "\<forall>k<n. cap < t - bytesOf a - sum_list (map bytesOf (take k as))"
      using Cons.IH [of "AList.delete (ar_artifactId a) m" "t - bytesOf a"] by blast
    have f: "filter (\<lambda>e. fst e \<notin> ar_artifactId ` set (take n as)) (AList.delete (ar_artifactId a) m)
      = filter (\<lambda>e. fst e \<notin> ar_artifactId ` set (take (Suc n) (a # as))) m"
      unfolding AList.delete_eq filter_filter by (rule filter_cong) auto
    have k: "cap < t - sum_list (map bytesOf (take k (a # as)))" if "k < Suc n" for k
      using that False n(4) by (cases k) (auto simp: algebra_simps)
    show ?thesis
      using False n f k by (intro exI [of _ "Suc n"]) (auto simp: algebra_simps simp flip: bytesOf_def)
  qed
qed simp

text \<open>The artifacts in the order in which they are evicted.\<close>

definition lruOrder :: "(string \<times> ArtifactRecord) list \<Rightarrow> ArtifactRecord list" where
  "lruOrder m = sort_key ar_lastAccessAtMs (map snd m)"

lemma lruOrder_mset: "mset (lruOrder m) = mset (map snd m)"
  by (simp add: lruOrder_def)

lemma lruOrder_distinct:
  assumes "artifacts_keyed m"
  shows "distinct (map ar_artifactId (lruOrder m))"
proof -
  have ids: "map ar_artifactId (map snd m) = map fst m" using assms by (simp add: artifacts_keyed_def)
  have "mset (map ar_artifactId (lruOrder m)) = mset (map ar_artifactId (map snd m))"
    unfolding mset_map lruOrder_mset ..
  then have "mset (map ar_artifactId (lruOrder m)) = mset (map fst m)" unfolding ids .
  from mset_eq_imp_distinct_iff [OF this] show ?thesis using assms by (simp add: artifacts_keyed_def)
qed

lemma lruOrder_bytes: "sum_list (map bytesOf (lruOrder m)) = cacheBytes m"
proof -
  have "mset (map bytesOf (lruOrder m)) = mset (map (\<lambda>e. bytesOf (snd e)) m)"
    by (simp add: lruOrder_mset image_mset.compositionality o_def)
  then show ?thesis unfolding cacheBytes_def by (metis sum_mset_sum_list)
qed

lemma evicted_mset:
  assumes "artifacts_keyed m"
  shows "mset (map snd (filter (\<lambda>e. fst e \<notin> ar_artifactId ` set (take n (lruOrder m))) m)) = mset (drop n (lruOrder m))"
proof -
  let ?P = "\<lambda>a. ar_artifactId a \<notin> ar_artifactId ` set (take n (lruOrder m))"
  have "map snd (filter (\<lambda>e. fst e \<notin> ar_artifactId ` set (take n (lruOrder m))) m) = map snd (filter (\<lambda>e. ?P (snd e)) m)"
    using assms by (intro arg_cong [where f = "map snd"] filter_cong) (auto simp: artifacts_keyed_def)
  also have "\<dots> = filter ?P (map snd m)" by (simp add: filter_map o_def)
  finally have "mset (map snd (filter (\<lambda>e. fst e \<notin> ar_artifactId ` set (take n (lruOrder m))) m))
    = filter_mset ?P (mset (lruOrder m))" by (simp add: lruOrder_mset)
  also have "\<dots> = mset (filter ?P (lruOrder m))" by simp
  also have "\<dots> = mset (drop n (lruOrder m))" by (simp add: filter_dropped_prefix [OF lruOrder_distinct [OF assms]])
  finally show ?thesis .
qed

lemma evict_spec:
  assumes "artifacts_keyed (cs_artifacts s)" and "cs_totalBytes s = cacheBytes (cs_artifacts s)" and "0 \<le> cs_cacheMaxBytes s"
  obtains n where
    "evictArtifactsIfNeeded s = s\<lparr>cs_artifacts := filter (\<lambda>e. fst e \<notin> ar_artifactId ` set (take n (lruOrder (cs_artifacts s)))) (cs_artifacts s),
       cs_totalBytes := sum_list (map bytesOf (drop n (lruOrder (cs_artifacts s))))\<rparr>"
    "sum_list (map bytesOf (drop n (lruOrder (cs_artifacts s)))) \<le> cs_cacheMaxBytes s"
    "\<forall>k<n. cs_cacheMaxBytes s < sum_list (map bytesOf (drop k (lruOrder (cs_artifacts s))))"
proof -
  let ?L = "lruOrder (cs_artifacts s)"
  have split: "cs_totalBytes s - sum_list (map bytesOf (take k ?L)) = sum_list (map bytesOf (drop k ?L))" for k
  proof -
    have "sum_list (map bytesOf (take k ?L)) + sum_list (map bytesOf (drop k ?L)) = cs_totalBytes s"
      unfolding assms(2) lruOrder_bytes [symmetric] by (simp flip: sum_list_append map_append)
    then show ?thesis by simp
  qed
  show thesis
  proof (cases "cs_totalBytes s \<le> cs_cacheMaxBytes s")
    case True
    then have "evictArtifactsIfNeeded s = s" by (simp add: evictArtifactsIfNeeded_def)
    then show thesis using that [of 0] True assms(2) split [of 0] by simp
  next
    case False
    obtain n where n: "n \<le> length ?L"
      "evictLoop (cs_cacheMaxBytes s) ?L (cs_artifacts s, cs_totalBytes s) =
         (filter (\<lambda>e. fst e \<notin> ar_artifactId ` set (take n ?L)) (cs_artifacts s), cs_totalBytes s - sum_list (map bytesOf (take n ?L)))"
      "n = length ?L \<or> cs_totalBytes s - sum_list (map bytesOf (take n ?L)) \<le> cs_cacheMaxBytes s"
      "\<forall>k<n. cs_cacheMaxBytes s < cs_totalBytes s - sum_list (map bytesOf (take k ?L))"
      using evictLoop_spec by blast
    have "evictArtifactsIfNeeded s = s\<lparr>cs_artifacts := filter (\<lambda>e. fst e \<notin> ar_artifactId ` set (take n ?L)) (cs_artifacts s),
       cs_totalBytes := sum_list (map bytesOf (drop n ?L))\<rparr>"
      using False n(2) by (simp add: evictArtifactsIfNeeded_def Let_def split flip: lruOrder_def)
    moreover have "sum_list (map bytesOf (drop n ?L)) \<le> cs_cacheMaxBytes s" using n(3) assms(3) unfolding split by auto
    ultimately show thesis using that [of n] n(4) unfolding split by blast
  qed
qed

subsection \<open>The operations keep the invariant\<close>

lemma cacheBytes_update:
  assumes "distinct (map fst m)"
  shows "cacheBytes (AList.update k a m) = cacheBytes m + bytesOf a - (case map_of m k of None \<Rightarrow> 0 | Some b \<Rightarrow> bytesOf b)"
  using assms
proof (induction m)
  case (Cons e m)
  then show ?case by (cases e) (auto simp: cacheBytes_def map_of_eq_None_iff split: option.splits)
qed (simp add: cacheBytes_def)

lemma keyed_update:
  "\<lbrakk>artifacts_keyed m; ar_artifactId a = k\<rbrakk> \<Longrightarrow> artifacts_keyed (AList.update k a m)"
  by (auto simp: artifacts_keyed_def distinct_update alist_update_mem)

text \<open>The store just before the eviction of \<^verbatim>\<open>putArtifact\<close>.\<close>

definition insertArtifact :: "'tbl Store \<Rightarrow> ArtifactRecord \<Rightarrow> js_number \<Rightarrow> 'tbl Store" where
  "insertArtifact s a now =
     (let m = AList.update (ar_artifactId a) (a\<lparr>ar_lastAccessAtMs := now\<rparr>) (cs_artifacts s)
      in s\<lparr>cs_artifacts := m, cs_totalBytes := cacheBytes m\<rparr>)"

lemma putArtifact_evicts:
  assumes "cache_inv maxB cacheB s" and "putArtifact s a now = Inr s'"
  shows "s' = evictArtifactsIfNeeded (insertArtifact s a now)" and "bytesOf a \<le> maxB"
    and "artifacts_keyed (cs_artifacts (insertArtifact s a now))"
proof -
  have d: "distinct (map fst (cs_artifacts s))" and t: "cs_totalBytes s = cacheBytes (cs_artifacts s)"
    using assms(1) by (simp_all add: cache_inv_def artifacts_keyed_def)
  have "bytesOf (a\<lparr>ar_lastAccessAtMs := now\<rparr>) = bytesOf a" by (simp add: bytesOf_def)
  then show "s' = evictArtifactsIfNeeded (insertArtifact s a now)"
    using assms(2) unfolding putArtifact_def Let_def insertArtifact_def cacheBytes_update [OF d] t
    by (auto simp: bytesOf_def algebra_simps split: if_splits option.splits)
  show "bytesOf a \<le> maxB" using assms by (auto simp: putArtifact_def bytesOf_def cache_inv_def split: if_splits)
  show "artifacts_keyed (cs_artifacts (insertArtifact s a now))"
    using assms(1) by (simp add: insertArtifact_def Let_def keyed_update cache_inv_def)
qed

lemma cache_inv_put:
  assumes "cache_inv maxB cacheB s" and "putArtifact s a now = Inr s'" and "0 \<le> cacheB"
  shows "cache_inv maxB cacheB s'"
proof -
  let ?s = "insertArtifact s a now" let ?L = "lruOrder (cs_artifacts ?s)"
  have lim: "cs_maxBytes ?s = maxB" "cs_cacheMaxBytes ?s = cacheB" "cs_totalBytes ?s = cacheBytes (cs_artifacts ?s)"
    using assms(1) by (simp_all add: insertArtifact_def Let_def cache_inv_def)
  note put = putArtifact_evicts [OF assms(1,2)]
  obtain n where n: "evictArtifactsIfNeeded ?s = ?s\<lparr>cs_artifacts := filter (\<lambda>e. fst e \<notin> ar_artifactId ` set (take n ?L)) (cs_artifacts ?s),
       cs_totalBytes := sum_list (map bytesOf (drop n ?L))\<rparr>" "sum_list (map bytesOf (drop n ?L)) \<le> cacheB"
    using evict_spec [OF put(3) lim(3)] assms(3) lim(2) by metis
  let ?m = "filter (\<lambda>e. fst e \<notin> ar_artifactId ` set (take n ?L)) (cs_artifacts ?s)"
  have "mset (map bytesOf (map snd ?m)) = mset (map bytesOf (drop n ?L))"
    unfolding mset_map [of bytesOf] evicted_mset [OF put(3)] ..
  then have "cacheBytes ?m = sum_list (map bytesOf (drop n ?L))"
    unfolding cacheBytes_def by (metis (no_types, lifting) map_map o_apply map_cong sum_mset_sum_list)
  moreover have "artifacts_keyed ?m" using put(3) by (auto simp: artifacts_keyed_def distinct_map_filter)
  moreover have "\<forall>e\<in>set (cs_artifacts ?s). bytesOf (snd e) \<le> maxB"
    using assms(1) put(2) by (auto simp: insertArtifact_def Let_def cache_inv_def artifacts_keyed_def alist_update_mem bytesOf_def)
  ultimately show ?thesis using n lim by (simp add: put(1) cache_inv_def)
qed

lemma cache_inv_get:
  assumes "cache_inv maxB cacheB s"
  shows "cache_inv maxB cacheB (snd (getArtifact s k now))"
proof (cases "map_of (cs_artifacts s) k")
  case None
  then show ?thesis using assms by (simp add: getArtifact_def)
next
  case (Some r)
  let ?r = "r\<lparr>ar_lastAccessAtMs := now\<rparr>"
  have mem: "(k, r) \<in> set (cs_artifacts s)" using Some by (rule map_of_SomeD)
  then have "ar_artifactId ?r = k" "bytesOf ?r \<le> maxB" "bytesOf ?r = bytesOf r"
    using assms by (auto simp: cache_inv_def artifacts_keyed_def bytesOf_def)
  moreover have "distinct (map fst (cs_artifacts s))" using assms by (simp add: cache_inv_def artifacts_keyed_def)
  ultimately show ?thesis using assms Some
    by (auto simp: getArtifact_def Let_def cache_inv_def keyed_update cacheBytes_update alist_update_mem)
qed

lemma chat_inv_add:
  assumes "chat_inv s"
  shows "chat_inv (addChatMessage s t msg)"
  using assms unfolding chat_inv_def addChatMessage_def Let_def
  by (auto simp: distinct_update alist_update_mem)

text \<open>The intents of one table: found under their own id, all of that table.\<close>

definition intents_keyed :: "string \<Rightarrow> (string \<times> SeatIntent) list \<Rightarrow> bool" where
  "intents_keyed t m \<longleftrightarrow> distinct (map fst m) \<and> (\<forall>i\<in>set m. si_intentId (snd i) = fst i \<and> si_tableId (snd i) = t)"

lemma intents_inv_keyed:
  "intents_inv s \<longleftrightarrow> distinct (map fst (cs_intents s)) \<and> (\<forall>e\<in>set (cs_intents s). intents_keyed (fst e) (snd e))"
  by (simp add: intents_inv_def intents_keyed_def)

lemma intents_keyed_update:
  "\<lbrakk>intents_keyed t m; si_tableId i = t\<rbrakk> \<Longrightarrow> intents_keyed t (AList.update (si_intentId i) i m)"
  by (auto simp: intents_keyed_def distinct_update alist_update_mem)

lemma intents_at:
  assumes "intents_inv s"
  shows "intents_keyed t (case map_of (cs_intents s) t of None \<Rightarrow> [] | Some m \<Rightarrow> m)"
proof (cases "map_of (cs_intents s) t")
  case (Some m)
  have "\<forall>e\<in>set (cs_intents s). intents_keyed (fst e) (snd e)" using assms by (simp add: intents_inv_keyed)
  from bspec [OF this map_of_SomeD [OF Some]] show ?thesis using Some by simp
qed (simp add: intents_keyed_def)

lemma intents_inv_put:
  assumes "intents_inv s"
  shows "intents_inv (putSeatIntent s i)"
proof -
  have d: "distinct (map fst (cs_intents s))" using assms by (simp add: intents_inv_keyed)
  show ?thesis using assms intents_keyed_update [OF intents_at [OF assms]] unfolding intents_inv_keyed putSeatIntent_def Let_def
    by (auto simp: Ball_def distinct_update alist_update_mem [OF d])
qed

lemma intents_inv_prune:
  assumes "intents_inv s"
  shows "intents_inv (pruneExpiredSeatIntents s now)"
proof -
  let ?live = "\<lambda>e. (fst e, filter (\<lambda>i. \<not> si_expiresAtMs (snd i) \<le> now) (snd e))"
  have "map fst (map ?live (cs_intents s)) = map fst (cs_intents s)" by simp
  then have "distinct (map fst (map ?live (cs_intents s)))" using assms by (simp only: intents_inv_keyed)
  moreover have "intents_keyed (fst (?live e)) (snd (?live e))" if "e \<in> set (cs_intents s)" for e
    using assms that by (auto simp: intents_inv_keyed intents_keyed_def distinct_map_filter)
  ultimately show ?thesis unfolding intents_inv_keyed pruneExpiredSeatIntents_def
    by (auto simp del: map_map intro: distinct_map_filter)
qed

lemmas store_frames = addChatMessage_def upsertTable_def putSeatIntent_def pruneExpiredSeatIntents_def Let_def

lemma evict_frame:
  "cs_chat (evictArtifactsIfNeeded s) = cs_chat s" "cs_intents (evictArtifactsIfNeeded s) = cs_intents s"
  by (simp_all add: evictArtifactsIfNeeded_def Let_def)

lemma artifact_frames:
  "putArtifact s a now = Inr s' \<Longrightarrow> cs_chat s' = cs_chat s \<and> cs_intents s' = cs_intents s"
  "cs_chat (snd (getArtifact s k now)) = cs_chat s" "cs_intents (snd (getArtifact s k now)) = cs_intents s"
  by (auto simp: putArtifact_def getArtifact_def Let_def evict_frame split: if_splits option.split)

lemma store_reach_inv:
  assumes "store_reach maxB cacheB s" and "0 \<le> cacheB"
  shows "cache_inv maxB cacheB s \<and> chat_inv s \<and> intents_inv s"
  using assms(1)
proof induction
  case store_init
  then show ?case using assms(2)
    by (simp add: cache_inv_def chat_inv_def intents_inv_def newStore_def artifacts_keyed_def cacheBytes_def)
next
  case (store_chat s t msg)
  then show ?case using chat_inv_add [of s t msg] by (simp add: cache_inv_def intents_inv_def store_frames)
next
  case (store_table s t tbl)
  then show ?case by (simp add: cache_inv_def chat_inv_def intents_inv_def store_frames)
next
  case (store_intent s i)
  then show ?case using intents_inv_put [of s i] by (simp add: cache_inv_def chat_inv_def store_frames)
next
  case (store_list s t now)
  then show ?case using intents_inv_prune [of s now]
    by (simp add: listSeatIntents_def cache_inv_def chat_inv_def store_frames)
next
  case (store_prune s now)
  then show ?case using intents_inv_prune [of s now] by (simp add: cache_inv_def chat_inv_def store_frames)
next
  case (store_put s a now s')
  then show ?case using cache_inv_put [OF _ store_put.hyps(2) assms(2)] artifact_frames(1) [OF store_put.hyps(2)]
    by (simp add: chat_inv_def intents_inv_def)
next
  case (store_get s k now)
  then show ?case using cache_inv_get [OF conjunct1 [OF store_get.IH]] by (simp add: chat_inv_def intents_inv_def artifact_frames)
qed

text \<open>
  C35: the store stays within its limits. After any sequence of its operations the byte counter is the sum
  of the sizes of the cached artifacts and at most the cache limit, no artifact is larger than the artifact
  limit, every artifact is found under its own id, and no chat history is longer than the ring.
\<close>

theorem store_within_limits:
  assumes "store_reach maxB cacheB s" and "0 \<le> cacheB"
  shows "cs_totalBytes s = (\<Sum>e\<leftarrow>cs_artifacts s. int (length (ar_bytes (snd e)))) \<and> cs_totalBytes s \<le> cacheB
    \<and> (\<forall>k a. map_of (cs_artifacts s) k = Some a \<longrightarrow> ar_artifactId a = k \<and> int (length (ar_bytes a)) \<le> maxB)
    \<and> length (getChatHistory s t) \<le> CHAT_RING_SIZE"
proof -
  note inv = store_reach_inv [OF assms]
  have "ar_artifactId a = k \<and> bytesOf a \<le> maxB" if "map_of (cs_artifacts s) k = Some a" for k a
    using inv map_of_SomeD [OF that] by (auto simp: cache_inv_def artifacts_keyed_def)
  moreover have "length (getChatHistory s t) \<le> CHAT_RING_SIZE"
    using inv by (auto simp: getChatHistory_def chat_inv_def dest!: map_of_SomeD split: option.split)
  ultimately show ?thesis using inv by (simp add: cache_inv_def cacheBytes_def bytesOf_def)
qed

lemma lru_last:
  assumes "\<forall>k<n. c < sum_list (map f (drop k L))" and "take n L \<noteq> []"
  shows "c < sum_list (map f (drop n L)) + (f (last (take n L)) :: int)"
proof -
  define k where "k = min n (length L) - 1"
  have k: "k < n" "k < length L" "Suc k = min n (length L)" using assms(2) by (auto simp: k_def min_def)
  have "last (take n L) = L ! k" using assms(2) by (simp add: last_conv_nth k_def min_def)
  moreover have "drop (Suc k) L = drop n L" unfolding k(3) by (simp add: min_def)
  ultimately have "drop k L = last (take n L) # drop n L" using Cons_nth_drop_Suc [OF k(2)] by simp
  then show ?thesis using assms(1) k(1) by force
qed

lemma sorted_map_last: "sorted (map f xs) \<Longrightarrow> x \<in> set xs \<Longrightarrow> f x \<le> f (last xs)"
  by (cases xs rule: rev_cases) (auto simp: sorted_append)

lemma filter_by_record:
  assumes "artifacts_keyed m" and "set out \<subseteq> snd ` set m"
  shows "filter (\<lambda>e. fst e \<notin> ar_artifactId ` set out) m = filter (\<lambda>e. snd e \<notin> set out) m"
proof (rule filter_cong)
  fix e assume e: "e \<in> set m"
  have "snd e \<in> set out" if a: "fst e \<in> ar_artifactId ` set out"
  proof -
    obtain x where x: "x \<in> set out" "fst e = ar_artifactId x" using a by blast
    obtain e' where e': "e' \<in> set m" "x = snd e'" using x(1) assms(2) by blast
    have "fst e' = fst e" using e' x(2) assms(1) by (simp add: artifacts_keyed_def)
    then have "snd e' = snd e" using e e'(1) assms(1) eq_key_imp_eq_value [of m "fst e" "snd e'" "snd e"]
      by (simp add: artifacts_keyed_def) (metis prod.collapse)
    then show ?thesis using x(1) e'(2) by simp
  qed
  moreover have "fst e \<in> ar_artifactId ` set out" if "snd e \<in> set out"
    using that e assms(1) by (force simp: artifacts_keyed_def)
  ultimately show "(fst e \<notin> ar_artifactId ` set out) = (snd e \<notin> set out)" by blast
qed simp

text \<open>
  C36: eviction is least-recently-used and minimal. A stored artifact enters the cache with the current
  time; the artifacts evicted to make room were accessed no later than any that stay, nothing else leaves
  or changes, and putting back the most recently used evicted artifact would exceed the cache limit.
\<close>

theorem eviction_is_lru:
  assumes "store_reach maxB cacheB s" and "0 \<le> cacheB" and "putArtifact s a now = Inr s'"
  defines "m \<equiv> AList.update (ar_artifactId a) (a\<lparr>ar_lastAccessAtMs := now\<rparr>) (cs_artifacts s)"
  shows "\<exists>out. cs_artifacts s' = filter (\<lambda>e. snd e \<notin> set out) m \<and> set out \<subseteq> snd ` set m
    \<and> (\<forall>x\<in>set out. \<forall>e\<in>set (cs_artifacts s'). ar_lastAccessAtMs x \<le> ar_lastAccessAtMs (snd e))
    \<and> (out \<noteq> [] \<longrightarrow> (\<forall>x\<in>set out. ar_lastAccessAtMs x \<le> ar_lastAccessAtMs (last out))
         \<and> cacheB < cs_totalBytes s' + int (length (ar_bytes (last out))))"
proof -
  have inv: "cache_inv maxB cacheB s" using store_reach_inv [OF assms(1,2)] by blast
  let ?s = "insertArtifact s a now" let ?L = "lruOrder m"
  have lim: "cs_cacheMaxBytes ?s = cacheB" "cs_totalBytes ?s = cacheBytes (cs_artifacts ?s)" and m: "cs_artifacts ?s = m"
    using inv by (simp_all add: insertArtifact_def Let_def cache_inv_def m_def)
  note put = putArtifact_evicts [OF inv assms(3)]
  obtain n where n: "evictArtifactsIfNeeded ?s = ?s\<lparr>cs_artifacts := filter (\<lambda>e. fst e \<notin> ar_artifactId ` set (take n ?L)) m,
       cs_totalBytes := sum_list (map bytesOf (drop n ?L))\<rparr>" "\<forall>k<n. cacheB < sum_list (map bytesOf (drop k ?L))"
    using evict_spec [OF put(3) lim(2)] assms(2) lim(1) m by metis
  let ?out = "take n ?L"
  have keyed: "artifacts_keyed m" using put(3) m by simp
  have L: "set ?L = snd ` set m" by (simp add: lruOrder_def)
  have sub: "set ?out \<subseteq> snd ` set m" using L by (auto dest: in_set_takeD)
  note eq = filter_by_record [OF keyed sub]
  have sorted: "sorted (map ar_lastAccessAtMs (take n ?L) @ map ar_lastAccessAtMs (drop n ?L))"
    by (simp add: lruOrder_def flip: map_append)
  have kept: "snd e \<in> set (drop n ?L)" if "e \<in> set (filter (\<lambda>e. snd e \<notin> set ?out) m)" for e
    using that L set_append [of "take n ?L" "drop n ?L"] by auto
  have ends: "cacheB < sum_list (map bytesOf (drop n ?L)) + bytesOf (last ?out)
      \<and> (\<forall>x\<in>set ?out. ar_lastAccessAtMs x \<le> ar_lastAccessAtMs (last ?out))" if "?out \<noteq> []"
    using lru_last [OF n(2) that] sorted_map_last [of ar_lastAccessAtMs ?out] sorted by (simp add: sorted_append)
  show ?thesis
    using n(1) eq sorted kept ends L put(1)
    by (intro exI [of _ ?out]) (auto simp: sorted_append bytesOf_def dest: in_set_takeD)
qed

text \<open>A cache of ten bytes that receives two artifacts of six bytes.\<close>

definition exampleArtifact :: "string \<Rightarrow> ArtifactRecord" where
  "exampleArtifact k = \<lparr>ar_artifactId = k, ar_kind = ''proof'', ar_mime = ''bin'', ar_bytes = replicate 6 0,
     ar_createdAtMs = 0, ar_lastAccessAtMs = 0\<rparr>"

definition exampleStore :: "string \<Rightarrow> js_number \<Rightarrow> nat Store" where
  "exampleStore k now =
     (newStore 8 10)\<lparr>cs_artifacts := [(k, (exampleArtifact k)\<lparr>ar_lastAccessAtMs := now\<rparr>)], cs_totalBytes := 6\<rparr>"

lemma example_puts:
  "putArtifact (newStore 8 10) (exampleArtifact ''a'') 1 = Inr (exampleStore ''a'' 1)"
  "putArtifact (exampleStore ''a'' 1) (exampleArtifact ''b'') 2 = Inr (exampleStore ''b'' 2)"
  by (simp_all add: putArtifact_def exampleArtifact_def exampleStore_def newStore_def evictArtifactsIfNeeded_def Let_def AList.delete_eq)

lemma example_reach: "store_reach 8 10 (exampleStore ''a'' 1)" "store_reach 8 10 (exampleStore ''b'' 2)"
proof -
  show a: "store_reach 8 10 (exampleStore ''a'' 1)" by (rule store_put [OF store_init example_puts(1)])
  show "store_reach 8 10 (exampleStore ''b'' 2)" by (rule store_put [OF a example_puts(2)])
qed

theorem store_within_limits_witness:
  "store_reach 8 10 (exampleStore ''b'' 2) \<and> cs_totalBytes (exampleStore ''b'' 2) = 6 \<and> (6 :: int) \<le> 10
    \<and> length (getChatHistory (exampleStore ''b'' 2) ''t'') \<le> CHAT_RING_SIZE"
  using store_within_limits [OF example_reach(2), of "''t''"] example_reach(2)
  by (simp add: exampleStore_def exampleArtifact_def)

theorem eviction_is_lru_witness:
  "\<exists>out. cs_artifacts (exampleStore ''b'' 2)
      = filter (\<lambda>e. snd e \<notin> set out) (AList.update ''b'' ((exampleArtifact ''b'')\<lparr>ar_lastAccessAtMs := 2\<rparr>) (cs_artifacts (exampleStore ''a'' 1)))
    \<and> out \<noteq> []"
proof -
  have ne: "cs_artifacts (exampleStore ''b'' 2) \<noteq> AList.update ''b'' ((exampleArtifact ''b'')\<lparr>ar_lastAccessAtMs := 2\<rparr>) (cs_artifacts (exampleStore ''a'' 1))"
    by (simp add: exampleStore_def)
  have id: "ar_artifactId (exampleArtifact ''b'') = ''b''" by (simp add: exampleArtifact_def)
  obtain out where "cs_artifacts (exampleStore ''b'' 2)
      = filter (\<lambda>e. snd e \<notin> set out) (AList.update ''b'' ((exampleArtifact ''b'')\<lparr>ar_lastAccessAtMs := 2\<rparr>) (cs_artifacts (exampleStore ''a'' 1)))"
    using eviction_is_lru [OF example_reach(1) _ example_puts(2)] unfolding id by auto
  then show ?thesis using ne by (intro exI [of _ out]) auto
qed

subsection \<open>Seat intents\<close>

text \<open>The abstract view of the intents: a partial function of table and intent id.\<close>

definition intentOf :: "'tbl Store \<Rightarrow> string \<Rightarrow> string \<Rightarrow> SeatIntent option" where
  "intentOf s t i = map_of (case map_of (cs_intents s) t of None \<Rightarrow> [] | Some m \<Rightarrow> m) i"

lemma intents_pruned_at:
  assumes "intents_inv s"
  shows "(case map_of (cs_intents (pruneExpiredSeatIntents s now)) t of None \<Rightarrow> [] | Some m \<Rightarrow> m)
    = filter (\<lambda>i. \<not> si_expiresAtMs (snd i) \<le> now) (case map_of (cs_intents s) t of None \<Rightarrow> [] | Some m \<Rightarrow> m)"
proof -
  let ?F = "filter (\<lambda>i. \<not> si_expiresAtMs (snd i) \<le> now)"
  have m: "map_of (map (\<lambda>e. (fst e, ?F (snd e))) (cs_intents s)) t = map_option ?F (map_of (cs_intents s) t)"
    using map_of_map [of ?F "cs_intents s"] by (simp add: case_prod_unfold)
  have "distinct (map fst (map (\<lambda>e. (fst e, ?F (snd e))) (cs_intents s)))"
    using assms by (simp add: intents_inv_keyed o_def)
  from map_of_filter_distinct [OF this, of "\<lambda>e. snd e \<noteq> []" t] show ?thesis
    unfolding m by (auto simp: pruneExpiredSeatIntents_def split: option.split)
qed

text \<open>
  C37: the seat intents refine a map from table and intent id. Putting an intent overwrites the entry of
  its own table and id and no other; pruning removes exactly the expired entries; and listing a table
  returns exactly its live intents, each once, in the order of their seats.
\<close>

theorem seat_intents_refine_map:
  assumes "store_reach maxB cacheB s" and "0 \<le> cacheB"
  shows "intentOf (putSeatIntent s i) = (intentOf s)(si_tableId i := (intentOf s (si_tableId i))(si_intentId i \<mapsto> i))
    \<and> intentOf (pruneExpiredSeatIntents s now) t k
        = (case intentOf s t k of None \<Rightarrow> None | Some j \<Rightarrow> if si_expiresAtMs j \<le> now then None else Some j)
    \<and> set (fst (listSeatIntents s t now)) = {j. (\<exists>k. intentOf s t k = Some j) \<and> \<not> si_expiresAtMs j \<le> now}
    \<and> distinct (fst (listSeatIntents s t now)) \<and> sorted (map si_seat (fst (listSeatIntents s t now)))"
proof -
  have inv: "intents_inv s" using store_reach_inv [OF assms] by blast
  let ?m = "case map_of (cs_intents s) t of None \<Rightarrow> [] | Some m \<Rightarrow> m"
  let ?live = "filter (\<lambda>i. \<not> si_expiresAtMs (snd i) \<le> now) ?m"
  have d: "distinct (map fst ?m)" and ids: "\<forall>e\<in>set ?m. si_intentId (snd e) = fst e"
    using intents_at [OF inv, of t] by (simp_all only: intents_keyed_def) blast
  have put: "intentOf (putSeatIntent s i) = (intentOf s)(si_tableId i := (intentOf s (si_tableId i))(si_intentId i \<mapsto> i))"
    by (rule ext)+ (auto simp: intentOf_def putSeatIntent_def Let_def update_conv split: option.split)
  have prune: "intentOf (pruneExpiredSeatIntents s now) t k
      = (case intentOf s t k of None \<Rightarrow> None | Some j \<Rightarrow> if si_expiresAtMs j \<le> now then None else Some j)"
    unfolding intentOf_def intents_pruned_at [OF inv] map_of_filter_distinct [OF d] by (simp split: option.split)
  have list: "fst (listSeatIntents s t now) = sort_key si_seat (map snd ?live)"
    unfolding intents_pruned_at [OF inv, symmetric] by (simp add: listSeatIntents_def Let_def split: option.split)
  have some: "(\<exists>k. intentOf s t k = Some j) \<longleftrightarrow> j \<in> snd ` set ?m" for j
    unfolding intentOf_def using d by (auto simp: map_of_eq_Some_iff image_iff)
  have "map si_intentId (map snd ?live) = map fst ?live" using ids by simp
  moreover have "distinct (map fst ?live)" by (rule distinct_map_filter [OF d])
  ultimately have dist: "distinct (map snd ?live)" using distinct_map by metis
  have live: "snd ` set (filter (\<lambda>i. P (snd i)) M) = {j. j \<in> snd ` set M \<and> P j}" for P and M :: "(string \<times> SeatIntent) list" by auto
  show ?thesis unfolding list some set_sort set_map live [of "\<lambda>j. \<not> si_expiresAtMs j \<le> now"] using put prune dist by simp
qed

theorem seat_intents_refine_map_witness:
  "(let i = \<lparr>si_intentId = ''i'', si_tableId = ''t'', si_seat = 3, si_player = ''p'', si_createdAtMs = 0, si_expiresAtMs = 60\<rparr>;
        s = putSeatIntent (newStore 10 10 :: nat Store) i
    in store_reach 10 10 s \<and> set (fst (listSeatIntents s ''t'' 59)) = {i} \<and> fst (listSeatIntents s ''t'' 60) = [])"
proof -
  define i where "i = \<lparr>si_intentId = ''i'', si_tableId = ''t'', si_seat = 3, si_player = ''p'', si_createdAtMs = 0, si_expiresAtMs = 60\<rparr>"
  define s where "s = putSeatIntent (newStore 10 10 :: nat Store) i"
  have r: "store_reach 10 10 s" unfolding s_def by (rule store_intent [OF store_init])
  have "intentOf s ''t'' k = (if k = ''i'' then Some i else None)" for k
    by (simp add: s_def i_def intentOf_def putSeatIntent_def newStore_def)
  then have some: "(\<exists>k. intentOf s ''t'' k = Some j) \<longleftrightarrow> j = i" for j by auto
  have list: "set (fst (listSeatIntents s ''t'' n)) = {j. j = i \<and> \<not> si_expiresAtMs j \<le> n}" for n
    using seat_intents_refine_map [OF r, of i n "''t''" "''i''"] unfolding some by simp
  have e: "si_expiresAtMs i = 60" by (simp add: i_def)
  have "{j. j = i \<and> \<not> si_expiresAtMs j \<le> 59} = {i}" "{j. j = i \<and> \<not> si_expiresAtMs j \<le> 60} = {}" using e by auto
  then have "set (fst (listSeatIntents s ''t'' 59)) = {i}" "set (fst (listSeatIntents s ''t'' 60)) = {}"
    unfolding list .
  then show ?thesis using r unfolding Let_def i_def [symmetric] s_def [symmetric] by simp
qed

end
