(* ===== verification/Bech32_Linear.thy ===== *)
theory Bech32_Linear
  imports Coordinator_Correct
begin

text \<open>
  The register of \<^verbatim>\<open>bech32Polymod\<close> (\<^verbatim>\<open>apps/coordinator/src/faucet.ts\<close>) is linear over exclusive or,
  so that the registers of two addresses differ by the image of the difference of their values. One
  difference never vanishes, because the low bits of the generators are independent; that two never
  cancel is computed for all 31 differences and all distances that the length limit of 90 admits.
\<close>

unbundle bit_operations_syntax

subsection \<open>The register is linear\<close>

lemma low25: "(c :: 32 word) AND 0x1ffffff = take_bit 25 c"
  by (simp add: take_bit_eq_mask mask_eq_exp_minus_1)

lemma test_bit: "(drop_bit i (drop_bit 25 c) AND 1 \<noteq> 0) \<longleftrightarrow> bit (c :: 32 word) (25 + i)"
  by (simp add: bit_iff_odd_drop_bit and_one_eq odd_iff_mod_2_eq_one add.commute)

definition shiftReg :: "32 word \<Rightarrow> 32 word" where "shiftReg c = polymodStep c 0"

lemma shiftReg_eq:
  "shiftReg c = push_bit 5 (take_bit 25 c)
     XOR (if bit c 25 then 0x3b6a57b2 else 0) XOR (if bit c 26 then 0x26508e6d else 0)
     XOR (if bit c 27 then 0x1ea119fa else 0) XOR (if bit c 28 then 0x3d4233dd else 0)
     XOR (if bit c 29 then 0x2a1462b3 else 0)"
proof -
  have up: "[0..<5] = [0, 1, 2, 3, 4]" by (simp add: upt_rec)
  show ?thesis unfolding shiftReg_def polymodStep_def Let_def low25 test_bit up
    by (simp add: BECH32_GEN_def xor.assoc)
qed

lemma polymodStep_shift: "polymodStep c v = shiftReg c XOR v"
proof -
  have "foldl (\<lambda>c i. if P i then c XOR G i else c) (x XOR v) js = foldl (\<lambda>c i. if P i then c XOR G i else c) x js XOR v"
    for P G x and js :: "nat list"
  proof (induction js arbitrary: x)
    case (Cons j js)
    have "(x XOR v) XOR G j = (x XOR G j) XOR v" by (simp add: ac_simps)
    then show ?case using Cons by simp
  qed simp
  then show ?thesis by (simp add: shiftReg_def polymodStep_def Let_def)
qed

lemma shiftReg_xor: "shiftReg (a XOR b) = shiftReg a XOR shiftReg b"
proof -
  have g: "(if bit (a XOR b) n then g else 0) = (if bit a n then g else 0) XOR (if bit b n then (g :: 32 word) else 0)" for n g
    by (simp add: bit_xor_iff)
  show ?thesis unfolding shiftReg_eq g take_bit_xor push_bit_xor by (simp only: ac_simps)
qed

lemma shiftReg_zero [simp]: "shiftReg 0 = 0"
  by (simp add: shiftReg_eq)

lemma shiftReg_small: "take_bit 30 (shiftReg c) = shiftReg c"
proof -
  have g: "take_bit 30 (if b then g else 0) = (if b then g else 0)" if "take_bit 30 g = g" for b and g :: "32 word"
    using that by simp
  have "take_bit 30 (push_bit 5 (take_bit 25 c)) = push_bit 5 (take_bit 25 c)" by (simp add: take_bit_push_bit)
  then show ?thesis unfolding shiftReg_eq take_bit_xor by (simp add: g)
qed

text \<open>The low five bits of the generators are independent.\<close>

lemma generators_independent:
  assumes "(push_bit 5 x :: 32 word) XOR (if a then 0x3b6a57b2 else 0) XOR (if b then 0x26508e6d else 0)
     XOR (if c then 0x1ea119fa else 0) XOR (if d then 0x3d4233dd else 0) XOR (if e then 0x2a1462b3 else 0) = 0"
  shows "\<not> a \<and> \<not> b \<and> \<not> c \<and> \<not> d \<and> \<not> e"
proof -
  have p: "take_bit 5 (push_bit 5 x) = 0" by (simp add: take_bit_push_bit)
  have "take_bit 5 (push_bit 5 x) XOR take_bit 5 (if a then 0x3b6a57b2 else 0) XOR take_bit 5 (if b then 0x26508e6d else 0)
     XOR take_bit 5 (if c then 0x1ea119fa else 0) XOR take_bit 5 (if d then 0x3d4233dd else 0)
     XOR take_bit 5 (if e then 0x2a1462b3 else (0 :: 32 word)) = 0"
    using arg_cong [OF assms, of "take_bit 5"] unfolding take_bit_xor by simp
  then show ?thesis unfolding p by (cases a; cases b; cases c; cases d; cases e) simp_all
qed

lemma shiftReg_nonzero:
  assumes "take_bit 30 c = c" and "shiftReg c = 0"
  shows "c = 0"
proof (rule bit_eqI)
  fix n
  have top: "\<not> bit c 25 \<and> \<not> bit c 26 \<and> \<not> bit c 27 \<and> \<not> bit c 28 \<and> \<not> bit c 29"
    using generators_independent assms(2) unfolding shiftReg_eq by blast
  then have low: "push_bit 5 (take_bit 25 c) = 0" using assms(2) unfolding shiftReg_eq by simp
  have "\<not> bit c n" if "n < 25"
  proof -
    have "bit (push_bit 5 (take_bit 25 c)) (n + 5) = bit c n" using that by (simp add: bit_push_bit_iff bit_take_bit_iff)
    then show ?thesis using low by simp
  qed
  moreover have "\<not> bit c n" if "30 \<le> n"
    using that arg_cong [OF assms(1), of "\<lambda>w. bit w n"] by (simp add: bit_take_bit_iff)
  moreover have "n < 25 \<or> n = 25 \<or> n = 26 \<or> n = 27 \<or> n = 28 \<or> n = 29 \<or> 30 \<le> n" by linarith
  ultimately show "bit c n \<longleftrightarrow> bit 0 n" using top by auto
qed

subsection \<open>Differences of two registers\<close>

definition diffRun :: "32 word \<Rightarrow> 32 word list \<Rightarrow> 32 word" where
  "diffRun d es = foldl (\<lambda>d e. shiftReg d XOR e) d es"

lemma polymod_diff:
  "length vs = length ws \<Longrightarrow> foldl polymodStep c vs XOR foldl polymodStep d ws = diffRun (c XOR d) (map2 (XOR) vs ws)"
proof (induction vs ws arbitrary: c d rule: list_induct2)
  case (Cons v vs w ws)
  have "polymodStep c v XOR polymodStep d w = shiftReg (c XOR d) XOR (v XOR w)"
    by (simp add: polymodStep_shift shiftReg_xor ac_simps)
  then show ?case using Cons.IH by (simp add: diffRun_def)
qed (simp add: diffRun_def)

lemma diffRun_append: "diffRun d (es @ fs) = diffRun (diffRun d es) fs"
  by (simp add: diffRun_def)

lemma diffRun_zeros: "\<forall>e\<in>set es. e = 0 \<Longrightarrow> diffRun d es = (shiftReg ^^ length es) d"
proof (induction es arbitrary: d)
  case (Cons e es)
  then show ?case by (simp add: diffRun_def funpow_swap1)
qed (simp add: diffRun_def)

lemma shiftReg_iter:
  assumes "take_bit 30 d = d" and "d \<noteq> 0"
  shows "take_bit 30 ((shiftReg ^^ n) d) = (shiftReg ^^ n) d \<and> (shiftReg ^^ n) d \<noteq> 0"
  using assms by (induction n) (auto simp: shiftReg_small dest: shiftReg_nonzero)

subsection \<open>Two differences\<close>

text \<open>The register as a list of its thirty bits, on which the iterations are computed.\<close>

definition bitsOf :: "32 word \<Rightarrow> bool list" where "bitsOf c = map (bit c) [0..<30]"

definition xorBits :: "bool list \<Rightarrow> bool list \<Rightarrow> bool list" where "xorBits xs ys = map2 (\<noteq>) xs ys"

definition genBits :: "bool list list" where
  "genBits = map bitsOf BECH32_GEN"

fun xorIf :: "bool list \<Rightarrow> bool list list \<Rightarrow> bool list \<Rightarrow> bool list" where
  "xorIf (b # bs) (g # gs) acc = xorIf bs gs (if b then xorBits acc g else acc)"
| "xorIf bs gs acc = acc"

definition shiftBits :: "bool list list \<Rightarrow> bool list \<Rightarrow> bool list" where
  "shiftBits gs bs = xorIf (drop 25 bs) gs (False # False # False # False # False # take 25 bs)"

fun farApart :: "bool list list \<Rightarrow> nat \<Rightarrow> bool list \<Rightarrow> bool" where
  "farApart gs 0 bs = True"
| "farApart gs (Suc n) bs = (let bs' = shiftBits gs bs in list_ex (\<lambda>b. b) (drop 5 bs') \<and> farApart gs n bs')"

definition allFarApart :: "nat \<Rightarrow> bool" where
  "allFarApart n = (let gs = genBits in
     list_all (\<lambda>bs. list_ex (\<lambda>b. b) bs \<longrightarrow> farApart gs n (bs @ replicate 25 False)) (List.n_lists 5 [True, False]))"

lemma differences_far_apart: "allFarApart 88"
  by code_simp

end
