(* ===== verification/Bech32_Correct.thy ===== *)
theory Bech32_Correct
  imports Bech32_Linear
begin

text \<open>
  \<^verbatim>\<open>decodeBech32Prefix\<close> of \<^verbatim>\<open>apps/coordinator/src/faucet.ts\<close> detects mistyped addresses: no address that
  differs from a valid one in one or two characters decodes to the same prefix.
\<close>

unbundle bit_operations_syntax

subsection \<open>Bits of the shifted register\<close>

lemma bitsOf_length [simp]: "length (bitsOf c) = 30"
  by (simp add: bitsOf_def)

lemma bitsOf_nth: "j < 30 \<Longrightarrow> bitsOf c ! j = bit c j"
  by (simp add: bitsOf_def)

lemma bitsOf_xor: "bitsOf (a XOR b) = xorBits (bitsOf a) (bitsOf b)"
  by (rule nth_equalityI) (simp_all add: xorBits_def bitsOf_nth bit_xor_iff)

lemma bitsOf_shift: "bitsOf (push_bit 5 (take_bit 25 c)) = False # False # False # False # False # take 25 (bitsOf c)"
proof (rule nth_equalityI)
  fix j assume j: "j < length (bitsOf (push_bit 5 (take_bit 25 c)))"
  have five: "(False # False # False # False # False # xs) ! j = (if j < 5 then False else xs ! (j - 5))" for xs
  proof (cases "j < 5")
    case True
    then have "j = 0 \<or> j = 1 \<or> j = 2 \<or> j = 3 \<or> j = 4" by linarith
    then show ?thesis by auto
  next
    case False
    define k where "k = j - 5"
    have "j = Suc (Suc (Suc (Suc (Suc k))))" using False by (simp add: k_def)
    then show ?thesis by simp
  qed
  show "bitsOf (push_bit 5 (take_bit 25 c)) ! j = (False # False # False # False # False # take 25 (bitsOf c)) ! j"
    unfolding five using j by (auto simp: bitsOf_nth bit_push_bit_iff bit_take_bit_iff)
qed simp

lemma bitsOf_if: "bitsOf (x XOR (if b then g else 0)) = (if b then xorBits (bitsOf x) (bitsOf g) else bitsOf x)"
  by (cases b) (simp_all flip: bitsOf_xor)

lemma bitsOf_shiftReg: "bitsOf (shiftReg c) = shiftBits genBits (bitsOf c)"
proof -
  have top: "drop 25 (bitsOf c) = [bit c 25, bit c 26, bit c 27, bit c 28, bit c 29]"
  proof -
    have "[25..<30] = [25, 26, 27, 28, 29 :: nat]" by code_simp
    then show ?thesis by (simp add: bitsOf_def drop_map)
  qed
  show ?thesis unfolding shiftReg_eq shiftBits_def top
    by (simp only: xor.assoc [symmetric] bitsOf_if bitsOf_shift genBits_def BECH32_GEN_def list.map xorIf.simps if_cancel)
qed

lemma farApart_iter:
  "\<lbrakk>farApart genBits n (bitsOf c); 1 \<le> k; k \<le> n\<rbrakk> \<Longrightarrow> list_ex (\<lambda>b. b) (drop 5 (bitsOf ((shiftReg ^^ k) c)))"
proof (induction n arbitrary: c k)
  case (Suc n)
  have f: "list_ex (\<lambda>b. b) (drop 5 (bitsOf (shiftReg c)))" "farApart genBits n (bitsOf (shiftReg c))"
    using Suc.prems(1) by (simp_all add: Let_def bitsOf_shiftReg)
  show ?case
  proof (cases "k = 1")
    case False
    have "(shiftReg ^^ k) c = (shiftReg ^^ (k - 1)) (shiftReg c)"
      using Suc.prems(2) funpow_swap1 [of shiftReg "k - 1" c] by (cases k) simp_all
    then show ?thesis using Suc.IH [OF f(2), of "k - 1"] False Suc.prems(2,3) by simp
  qed (use f in simp)
qed simp

text \<open>Values of characters occupy five bits.\<close>

lemma iterate_not_char:
  assumes "take_bit 5 e = e" and "e \<noteq> 0" and "take_bit 5 f = f" and "1 \<le> k" and "k \<le> 88"
  shows "(shiftReg ^^ k) e \<noteq> f"
proof
  assume eq: "(shiftReg ^^ k) e = f"
  have hi: "\<not> bit w n" if "take_bit 5 w = w" "5 \<le> n" for w :: "32 word" and n
    using that bit_take_bit_iff [of 5 w n] by auto
  have z: "drop 5 (bitsOf w) = replicate 25 False" if "take_bit 5 w = w" for w
    by (rule nth_equalityI) (simp_all add: bitsOf_nth hi [OF that])
  have b: "bitsOf e = take 5 (bitsOf e) @ replicate 25 False" using z [OF assms(1)] append_take_drop_id [of 5 "bitsOf e"] by simp
  have "list_ex (\<lambda>b. b) (take 5 (bitsOf e))"
  proof (rule ccontr)
    assume "\<not> ?thesis"
    then have "\<forall>b\<in>set (take 5 (bitsOf e)). \<not> b" by (simp add: list_ex_iff)
    then have "\<not> bit e n" if "n < 5" for n using that nth_mem [of n "take 5 (bitsOf e)"] by (auto simp: bitsOf_nth)
    then have "e = 0" using hi [OF assms(1)] by (intro bit_eqI) (metis bit_0_eq bot_apply bot_bool_def linorder_not_less)
    then show False using assms(2) by simp
  qed
  moreover have "take 5 (bitsOf e) \<in> set (List.n_lists 5 [True, False])" by (auto simp: set_n_lists)
  ultimately have "farApart genBits 88 (bitsOf e)"
    using differences_far_apart b unfolding allFarApart_def Let_def list_all_iff by metis
  from farApart_iter [OF this assms(4,5)] show False unfolding eq z [OF assms(3)] by (simp add: list_ex_iff)
qed

subsection \<open>One or two differences\<close>

definition hamming :: "'a list \<Rightarrow> 'a list \<Rightarrow> nat" where
  "hamming xs ys = length (filter (\<lambda>p. fst p \<noteq> snd p) (zip xs ys))"

lemma hamming_same: "hamming (p @ xs) (p @ ys) = hamming xs ys"
  by (induction p) (simp_all add: hamming_def)

lemma diffRun_first:
  assumes "filter (\<lambda>d. d \<noteq> 0) es = d # ds"
  obtains us vs where "diffRun 0 es = diffRun d vs" and "es = us @ d # vs" and "filter (\<lambda>d. d \<noteq> 0) vs = ds" and "d \<noteq> 0"
proof -
  obtain us vs where es: "es = us @ d # vs" "\<forall>u\<in>set us. u = 0" "d \<noteq> 0" "ds = filter (\<lambda>d. d \<noteq> 0) vs"
    using filter_eq_ConsD [OF assms] by blast
  have "diffRun 0 us = 0" unfolding diffRun_zeros [OF es(2)] by (induction us) simp_all
  then have "diffRun 0 es = diffRun d vs" by (simp add: es(1) diffRun_append) (simp add: diffRun_def)
  then show thesis using that es by blast
qed

lemma xor_zero_eq: "a XOR b = 0 \<Longrightarrow> a = (b :: 32 word)"
proof -
  assume "a XOR b = 0"
  then have "(a XOR b) XOR b = b" by simp
  then show ?thesis unfolding xor.assoc by simp
qed

lemma two_differences_detected:
  assumes "\<forall>e\<in>set es. take_bit 5 e = e" and "length es \<le> 89"
    and "filter (\<lambda>d. d \<noteq> 0) es = [d] \<or> filter (\<lambda>d. d \<noteq> 0) es = [d, f]"
  shows "diffRun 0 es \<noteq> 0"
proof -
  have small: "take_bit 30 x = x" if "take_bit 5 x = x" for x :: "32 word"
  proof -
    have "take_bit 30 (take_bit 5 x) = take_bit 5 x" by simp
    then show ?thesis unfolding that .
  qed
  obtain ds where ds: "filter (\<lambda>d. d \<noteq> 0) es = d # ds" "ds = [] \<or> ds = [f]" using assms(3) by auto
  obtain us vs where v: "diffRun 0 es = diffRun d vs" "es = us @ d # vs" "filter (\<lambda>d. d \<noteq> 0) vs = ds" "d \<noteq> 0"
    by (rule diffRun_first [OF ds(1)])
  have d: "take_bit 5 d = d" using assms(1) v(2) by simp
  show ?thesis
  proof (cases "ds = []")
    case True
    then have "\<forall>e\<in>set vs. e = 0" using v(3) by (auto simp: filter_empty_conv)
    then show ?thesis using v(1) diffRun_zeros shiftReg_iter [OF small [OF d] v(4)] by simp
  next
    case False
    then have "filter (\<lambda>d. d \<noteq> 0) vs = [f]" using ds(2) v(3) by simp
    then obtain xs ys where f: "vs = xs @ f # ys" "\<forall>x\<in>set xs. x = 0" "f \<noteq> 0" "[] = filter (\<lambda>d. d \<noteq> 0) ys"
      using filter_eq_ConsD [of "\<lambda>d. d \<noteq> 0" vs f "[]"] by blast
    have ys: "\<forall>y\<in>set ys. y = 0" using f(4) [symmetric] by (simp add: filter_empty_conv)
    let ?g = "(shiftReg ^^ Suc (length xs)) d XOR f"
    have g: "diffRun 0 es = (shiftReg ^^ length ys) ?g"
      unfolding v(1) f(1) diffRun_append diffRun_zeros [OF f(2)] using diffRun_zeros [OF ys] by (simp add: diffRun_def)
    have f5: "take_bit 5 f = f" using assms(1) v(2) f(1) by simp
    have "(shiftReg ^^ Suc (length xs)) d \<noteq> f"
      using assms(2) v(2) f(1) by (intro iterate_not_char [OF d v(4) f5]) simp_all
    then have "?g \<noteq> 0" using xor_zero_eq by blast
    moreover have "take_bit 30 ?g = ?g" using small [OF f5] by (simp add: take_bit_xor shiftReg_small)
    ultimately show ?thesis unfolding g using shiftReg_iter by blast
  qed
qed

subsection \<open>Addresses\<close>

lemma lastIndexOf_split: "lastIndexOf c xs = Some i \<Longrightarrow> xs = take i xs @ c # drop (i + 1) xs"
  by (induction xs arbitrary: i) (auto split: option.splits if_splits)

lemma bech32_indexOf_nth: "indexOf c xs = Some i \<Longrightarrow> i < length xs \<and> xs ! i = c"
  by (induction xs arbitrary: i) (auto split: if_splits)

definition charVal :: "char \<Rightarrow> 32 word" where "charVal c = of_nat (the (indexOf c BECH32_CHARSET))"

lemma charsetValues_map:
  "charsetValues cs = Some vs \<Longrightarrow> vs = map charVal cs \<and> (\<forall>c\<in>set cs. indexOf c BECH32_CHARSET \<noteq> None)"
  by (induction cs arbitrary: vs) (auto simp: charVal_def split: option.splits)

lemma charset_length: "length BECH32_CHARSET = 32"
  by code_simp

lemma charVal_small: "indexOf c BECH32_CHARSET \<noteq> None \<Longrightarrow> take_bit 5 (charVal c) = charVal c"
proof -
  assume "indexOf c BECH32_CHARSET \<noteq> None"
  then obtain i where i: "indexOf c BECH32_CHARSET = Some i" by blast
  have "i < 32" using bech32_indexOf_nth [OF i] unfolding charset_length by blast
  then show ?thesis using i by (simp add: charVal_def take_bit_of_nat take_bit_nat_eq_self)
qed

lemma charVal_inj:
  assumes "indexOf c BECH32_CHARSET \<noteq> None" and "indexOf d BECH32_CHARSET \<noteq> None" and "charVal c = charVal d"
  shows "c = d"
proof -
  obtain i j where ij: "indexOf c BECH32_CHARSET = Some i" "indexOf d BECH32_CHARSET = Some j" using assms by blast
  note n = bech32_indexOf_nth [OF ij(1)] bech32_indexOf_nth [OF ij(2)]
  have "i < 2 ^ 32" "j < 2 ^ 32" using n unfolding charset_length by simp_all
  then have "i = j" using assms(3) ij by (simp add: charVal_def word_of_nat_eq_iff take_bit_nat_eq_self)
  then show ?thesis using n by simp
qed

lemma decode_parts:
  assumes "decodeBech32Prefix a = Some hrp"
  shows "\<exists>data. toLowerCase a = hrp @ CHR ''1'' # data \<and> (\<forall>c\<in>set data. indexOf c BECH32_CHARSET \<noteq> None)
    \<and> bech32Polymod (bech32HrpExpand hrp @ map charVal data) = 1 \<and> length data \<le> 89"
proof -
  let ?addr = "toLowerCase a"
  obtain sep where sep: "lastIndexOf CHR ''1'' ?addr = Some sep" and hrp: "hrp = take sep ?addr"
    and len: "length a \<le> 90"
    and v: "\<exists>vs. charsetValues (drop (sep + 1) ?addr) = Some vs \<and> bech32Polymod (bech32HrpExpand hrp @ vs) = 1"
    using assms by (auto simp: decodeBech32Prefix_def Let_def split: if_splits option.splits)
  obtain vs where vs: "charsetValues (drop (sep + 1) ?addr) = Some vs" "bech32Polymod (bech32HrpExpand hrp @ vs) = 1"
    using v by blast
  have "length (drop (sep + 1) ?addr) \<le> 89" using len by (simp add: toLowerCase_def)
  then show ?thesis
    using lastIndexOf_split [OF sep] charsetValues_map [OF vs(1)] vs(2) hrp by (intro exI [of _ "drop (sep + 1) ?addr"]) simp
qed

lemma diff_values:
  assumes "length xs = length ys" and "\<forall>c\<in>set xs \<union> set ys. indexOf c BECH32_CHARSET \<noteq> None"
  shows "length (filter (\<lambda>d. d \<noteq> 0) (map2 (XOR) (map charVal xs) (map charVal ys))) = hamming xs ys
    \<and> (\<forall>e\<in>set (map2 (XOR) (map charVal xs) (map charVal ys)). take_bit 5 e = e)"
  using assms
proof (induction xs ys rule: list_induct2)
  case (Cons x xs y ys)
  have "charVal x XOR charVal y = 0 \<longleftrightarrow> x = y" using xor_zero_eq charVal_inj [of x y] Cons.prems by auto
  then show ?case using Cons by (simp add: hamming_def take_bit_xor charVal_small)
qed (simp add: hamming_def)

lemma one_or_two: "length L = 1 \<or> length L = 2 \<Longrightarrow> \<exists>d f. L = [d] \<or> L = [d, f]"
  by (auto simp: length_Suc_conv numeral_2_eq_2)

text \<open>
  C38: a mistyped address is refused. When an address decodes to a prefix, no text of the same length that
  differs from it in one or two characters, up to case, decodes to that prefix; in particular not the
  address with two characters swapped.
\<close>

theorem mistyped_address_refused:
  assumes "decodeBech32Prefix a = Some hrp" and "length b = length a"
    and "hamming (toLowerCase a) (toLowerCase b) = 1 \<or> hamming (toLowerCase a) (toLowerCase b) = 2"
  shows "decodeBech32Prefix b \<noteq> Some hrp"
proof
  assume b: "decodeBech32Prefix b = Some hrp"
  obtain xs where xs: "toLowerCase a = hrp @ CHR ''1'' # xs" "\<forall>c\<in>set xs. indexOf c BECH32_CHARSET \<noteq> None"
    "bech32Polymod (bech32HrpExpand hrp @ map charVal xs) = 1" "length xs \<le> 89" using decode_parts [OF assms(1)] by blast
  obtain ys where ys: "toLowerCase b = hrp @ CHR ''1'' # ys" "\<forall>c\<in>set ys. indexOf c BECH32_CHARSET \<noteq> None"
    "bech32Polymod (bech32HrpExpand hrp @ map charVal ys) = 1" using decode_parts [OF b] by blast
  let ?D = "map2 (XOR) (map charVal xs) (map charVal ys)"
  have len: "length xs = length ys"
    using assms(2) arg_cong [OF xs(1), of length] arg_cong [OF ys(1), of length] by (simp add: toLowerCase_def)
  have "hamming (toLowerCase a) (toLowerCase b) = hamming xs ys"
    unfolding xs(1) ys(1) using hamming_same [of "hrp @ [CHR ''1'']" xs ys] by simp
  moreover note D = diff_values [OF len]
  ultimately have w: "length (filter (\<lambda>d. d \<noteq> 0) ?D) = 1 \<or> length (filter (\<lambda>d. d \<noteq> 0) ?D) = 2"
    using assms(3) xs(2) ys(2) by (metis Un_iff)
  obtain d f where "filter (\<lambda>d. d \<noteq> 0) ?D = [d] \<or> filter (\<lambda>d. d \<noteq> 0) ?D = [d, f]"
    using one_or_two [OF w] by blast
  then have ne: "diffRun 0 ?D \<noteq> 0"
    using two_differences_detected [of ?D d f] D xs(2,4) ys(2) by (simp add: Ball_def)
  have "bech32Polymod (bech32HrpExpand hrp @ map charVal xs) XOR bech32Polymod (bech32HrpExpand hrp @ map charVal ys) = diffRun 0 ?D"
    unfolding bech32Polymod_def foldl_append using polymod_diff [of "map charVal xs" "map charVal ys"] len by simp
  then show False using ne xs(3) ys(3) by simp
qed

theorem mistyped_address_refused_witness:
  "decodeBech32Prefix ''ocp1pze4ks8c'' = Some ''ocp'' \<and> decodeBech32Prefix ''ocp1pez4ks8c'' \<noteq> Some ''ocp''"
proof -
  have a: "decodeBech32Prefix ''ocp1pze4ks8c'' = Some ''ocp''" by code_simp
  have h: "hamming (toLowerCase ''ocp1pze4ks8c'') (toLowerCase ''ocp1pez4ks8c'') = 2" by code_simp
  show ?thesis using a mistyped_address_refused [OF a, of "''ocp1pez4ks8c''"] h by simp
qed

end
