(* ===== verification/Faucet_Correct.thy ===== *)
theory Faucet_Correct
  imports Coordinator_Correct
begin

text \<open>
  The faucet of \<^verbatim>\<open>apps/coordinator/src/faucet.ts\<close> as a state machine: requests, the end of the awaited
  broadcast and the pruning timer in any order, at times that do not decrease. The cooldowns hold under
  every interleaving, also across the \<^verbatim>\<open>await\<close> of a broadcast. A ghost log records the drips sent.
\<close>

subsection \<open>Runs\<close>

type_synonym drip = "string \<times> string \<times> js_number"

inductive faucet_run :: "FaucetConfig \<Rightarrow> FaucetState \<Rightarrow> js_number \<Rightarrow> drip list \<Rightarrow> bool" for cfg where
  faucet_init: "0 \<le> t \<Longrightarrow> faucet_run cfg newFaucet t []"
| faucet_request: "faucet_run cfg fs t sent \<Longrightarrow> t \<le> now \<Longrightarrow> faucet_run cfg (snd (dripStart cfg fs address ip now)) now sent"
| faucet_sent: "faucet_run cfg fs t sent \<Longrightarrow> fs_inFlight fs = Some d \<Longrightarrow> faucet_run cfg (dripFinish cfg fs True) t (d # sent)"
| faucet_failed: "faucet_run cfg fs t sent \<Longrightarrow> faucet_run cfg (dripFinish cfg fs False) t sent"
| faucet_prune: "faucet_run cfg fs t sent \<Longrightarrow> t \<le> now
    \<Longrightarrow> length (filter (\<lambda>e. \<not> snd e \<le> now) (fs_addressCooldowns fs)) \<le> MAX_COOLDOWN_ENTRIES
    \<Longrightarrow> length (filter (\<lambda>e. \<not> snd e \<le> now) (fs_ipCooldowns fs)) \<le> MAX_COOLDOWN_ENTRIES
    \<Longrightarrow> faucet_run cfg (pruneCooldowns fs now) now sent"

subsection \<open>A cooldown map covers a log\<close>

text \<open>
  A map of cooldowns covers a log of keys and times when every key whose cooldown has not run out has an
  expiry that is no earlier.
\<close>

definition covers :: "js_number \<Rightarrow> cooldowns \<Rightarrow> js_number \<Rightarrow> (string \<times> js_number) list \<Rightarrow> bool" where
  "covers cd m t L \<longleftrightarrow> distinct (map fst m)
     \<and> (\<forall>(k, \<tau>)\<in>set L. t < \<tau> + cd \<longrightarrow> (\<exists>e. map_of m k = Some e \<and> \<tau> + cd \<le> e))"

definition spaced :: "js_number \<Rightarrow> string \<Rightarrow> js_number \<Rightarrow> (string \<times> js_number) list \<Rightarrow> bool" where
  "spaced cd k now L \<longleftrightarrow> (\<forall>\<tau>. (k, \<tau>) \<in> set L \<longrightarrow> \<tau> + cd \<le> now)"

lemma covers_later: "covers cd m t L \<Longrightarrow> t \<le> now \<Longrightarrow> covers cd m now L"
  by (fastforce simp: covers_def)

lemma covers_pruned:
  assumes "covers cd m t L" and "t \<le> now"
  shows "covers cd (filter (\<lambda>e. \<not> snd e \<le> now) m) now L"
proof -
  have d: "distinct (map fst m)" using assms(1) by (simp add: covers_def)
  have "\<exists>e. map_of (filter (\<lambda>e. \<not> snd e \<le> now) m) k = Some e \<and> \<tau> + cd \<le> e" if kt: "(k, \<tau>) \<in> set L" "now < \<tau> + cd" for k \<tau>
  proof -
    obtain e where e: "map_of m k = Some e" "\<tau> + cd \<le> e" using assms kt by (fastforce simp: covers_def)
    then show ?thesis using kt(2) by (simp add: map_of_filter_distinct [OF d])
  qed
  then show ?thesis using distinct_map_filter [OF d] by (auto simp: covers_def)
qed

lemma covers_spaced:
  assumes "covers cd m t L" and "t \<le> now" and "0 \<le> now" and "\<not> coolingDown m k now"
  shows "spaced cd k now L"
proof -
  have "\<tau> + cd \<le> now" if kt: "(k, \<tau>) \<in> set L" for \<tau>
  proof (rule ccontr)
    assume "\<not> \<tau> + cd \<le> now"
    then have c: "now < \<tau> + cd" by simp
    then obtain e where "map_of m k = Some e" "\<tau> + cd \<le> e" using assms(1,2) kt by (fastforce simp: covers_def)
    then show False using assms(3,4) c by (simp add: coolingDown_def)
  qed
  then show ?thesis by (simp add: spaced_def)
qed

text \<open>A spaced key may be given any new expiry.\<close>

lemma covers_update:
  assumes "covers cd m t L" and "spaced cd k t L"
  shows "covers cd (AList.update k e m) t L"
  using assms by (fastforce simp: covers_def spaced_def distinct_update update_conv)

lemma covers_sent:
  assumes "covers cd m t L" and "spaced cd k \<tau> L" and "\<tau> \<le> t"
  shows "covers cd (AList.update k (\<tau> + cd) m) t ((k, \<tau>) # L)"
proof -
  have "spaced cd k t L" using assms(2,3) by (fastforce simp: spaced_def)
  from covers_update [OF assms(1) this, of "\<tau> + cd"] show ?thesis
    by (simp add: covers_def update_conv)
qed

subsection \<open>Invariant\<close>

definition addressLog :: "drip list \<Rightarrow> (string \<times> js_number) list" where
  "addressLog sent = map (\<lambda>(a, ip, \<tau>). (a, \<tau>)) sent"

definition ipLog :: "drip list \<Rightarrow> (string \<times> js_number) list" where
  "ipLog sent = map (\<lambda>(a, ip, \<tau>). (ip, \<tau>)) sent"

definition all_spaced :: "js_number \<Rightarrow> (string \<times> js_number) list \<Rightarrow> bool" where
  "all_spaced cd L \<longleftrightarrow> sorted_wrt (\<lambda>x y. fst x = fst y \<longrightarrow> snd y + cd \<le> snd x) L"

definition faucet_inv :: "FaucetConfig \<Rightarrow> FaucetState \<Rightarrow> js_number \<Rightarrow> drip list \<Rightarrow> bool" where
  "faucet_inv cfg fs t sent \<longleftrightarrow> 0 \<le> t
     \<and> covers (fc_cooldownMs cfg) (fs_addressCooldowns fs) t (addressLog sent)
     \<and> covers (fc_ipCooldownMs cfg) (fs_ipCooldowns fs) t (ipLog sent)
     \<and> all_spaced (fc_cooldownMs cfg) (addressLog sent) \<and> all_spaced (fc_ipCooldownMs cfg) (ipLog sent)
     \<and> (fs_busy fs \<longleftrightarrow> fs_inFlight fs \<noteq> None)
     \<and> (case fs_inFlight fs of None \<Rightarrow> True
        | Some (a, ip, \<tau>) \<Rightarrow> \<tau> \<le> t \<and> spaced (fc_cooldownMs cfg) a \<tau> (addressLog sent) \<and> spaced (fc_ipCooldownMs cfg) ip \<tau> (ipLog sent))"

lemma all_spaced_cons: "all_spaced cd ((k, \<tau>) # L) \<longleftrightarrow> spaced cd k \<tau> L \<and> all_spaced cd L"
  by (auto simp: all_spaced_def spaced_def)

lemma evict_within_cap: "length m \<le> n \<Longrightarrow> evictSoonestToExpire m n = m"
  by (simp add: evictSoonestToExpire_def)

lemma faucet_inv_request:
  assumes "faucet_inv cfg fs t sent" and "t \<le> now"
  shows "faucet_inv cfg (snd (dripStart cfg fs address ip now)) now sent"
proof (cases "coolingDown (fs_ipCooldowns fs) ip now")
  case True
  then show ?thesis using assms covers_later by (auto simp: dripStart_def faucet_inv_def split: option.splits)
next
  case False
  let ?m = "AList.update ip (now + min (fc_ipCooldownMs cfg) 60000) (fs_ipCooldowns fs)"
  let ?fs = "fs\<lparr>fs_ipCooldowns := ?m\<rparr>"
  have c: "covers (fc_cooldownMs cfg) (fs_addressCooldowns fs) now (addressLog sent)"
    "covers (fc_ipCooldownMs cfg) (fs_ipCooldowns fs) now (ipLog sent)" and now: "0 \<le> now"
    using assms covers_later by (auto simp: faucet_inv_def)
  have s: "spaced (fc_ipCooldownMs cfg) ip now (ipLog sent)" by (rule covers_spaced [OF c(2) order_refl now False])
  have fs: "faucet_inv cfg ?fs now sent"
    using assms c now covers_update [OF c(2) s] by (auto simp: faucet_inv_def split: option.splits)
  have start: "faucet_inv cfg (?fs\<lparr>fs_busy := True, fs_inFlight := Some (address, ip, now)\<rparr>) now sent"
    if "\<not> coolingDown (fs_addressCooldowns fs) address now"
    using fs s covers_spaced [OF c(1) order_refl now that] by (simp add: faucet_inv_def)
  show ?thesis using fs start False by (simp add: dripStart_def Let_def)
qed

lemma faucet_inv_sent:
  assumes "faucet_inv cfg fs t sent" and "fs_inFlight fs = Some d"
  shows "faucet_inv cfg (dripFinish cfg fs True) t (d # sent)"
proof -
  obtain a ip \<tau> where d: "d = (a, ip, \<tau>)" by (cases d)
  have "addressLog (d # sent) = (a, \<tau>) # addressLog sent" "ipLog (d # sent) = (ip, \<tau>) # ipLog sent"
    by (simp_all add: addressLog_def ipLog_def d)
  then show ?thesis using assms covers_sent d by (simp add: dripFinish_def faucet_inv_def all_spaced_cons)
qed

lemma faucet_run_inv: "faucet_run cfg fs t sent \<Longrightarrow> faucet_inv cfg fs t sent"
proof (induction rule: faucet_run.induct)
  case (faucet_init t)
  then show ?case by (simp add: faucet_inv_def newFaucet_def covers_def addressLog_def ipLog_def all_spaced_def)
next
  case (faucet_failed fs t sent)
  then show ?case by (auto simp: dripFinish_def faucet_inv_def split: option.splits)
next
  case (faucet_prune fs t sent now)
  then show ?case using covers_pruned [OF _ faucet_prune.hyps(2)]
    by (auto simp: pruneCooldowns_def evict_within_cap faucet_inv_def split: option.splits)
qed (simp_all add: faucet_inv_request faucet_inv_sent)


subsection \<open>Example runs\<close>

definition exampleCfg :: FaucetConfig where
  "exampleCfg = \<lparr>fc_bech32Prefix = ''ocp'', fc_cooldownMs = 100, fc_ipCooldownMs = 50\<rparr>"

text \<open>A request that is sent at once.\<close>

definition dripAt :: "string \<Rightarrow> string \<Rightarrow> js_number \<Rightarrow> FaucetState \<Rightarrow> FaucetState" where
  "dripAt address ip now fs = dripFinish exampleCfg (snd (dripStart exampleCfg fs address ip now)) True"

lemma dripAt_run:
  assumes "faucet_run exampleCfg fs t sent" and "t \<le> now"
    and "fst (dripStart exampleCfg fs address ip now) = None"
  shows "faucet_run exampleCfg (dripAt address ip now fs) now ((address, ip, now) # sent)"
proof -
  have "fs_inFlight (snd (dripStart exampleCfg fs address ip now)) = Some (address, ip, now)"
    using assms(3) by (simp add: dripStart_def Let_def split: if_splits)
  from faucet_sent [OF faucet_request [OF assms(1,2)] this] show ?thesis by (simp add: dripAt_def)
qed

lemma example_run:
  "faucet_run exampleCfg (dripAt ''ocp1pze4ks8c'' ''x'' 0 newFaucet) 0 [(''ocp1pze4ks8c'', ''x'', 0)]"
proof (rule dripAt_run [OF faucet_init [of 0]])
  show "fst (dripStart exampleCfg newFaucet ''ocp1pze4ks8c'' ''x'' 0) = None" by code_simp
qed simp_all


text \<open>
  The cooldown belongs to the spelling of an address: the address in capitals decodes to the same prefix
  and receives a second drip within the cooldown.
\<close>

theorem capitals_evade_cooldown:
  "toLowerCase ''OCP1PZE4KS8C'' = ''ocp1pze4ks8c''
    \<and> decodeBech32Prefix ''OCP1PZE4KS8C'' = decodeBech32Prefix ''ocp1pze4ks8c''
    \<and> faucet_run exampleCfg (dripAt ''OCP1PZE4KS8C'' ''y'' 1 (dripAt ''ocp1pze4ks8c'' ''x'' 0 newFaucet)) 1
        [(''OCP1PZE4KS8C'', ''y'', 1), (''ocp1pze4ks8c'', ''x'', 0)]
    \<and> 1 < 0 + fc_cooldownMs exampleCfg"
proof -
  have "fst (dripStart exampleCfg (dripAt ''ocp1pze4ks8c'' ''x'' 0 newFaucet) ''OCP1PZE4KS8C'' ''y'' 1) = None" by code_simp
  from dripAt_run [OF example_run _ this] have "faucet_run exampleCfg (dripAt ''OCP1PZE4KS8C'' ''y'' 1 (dripAt ''ocp1pze4ks8c'' ''x'' 0 newFaucet)) 1
        [(''OCP1PZE4KS8C'', ''y'', 1), (''ocp1pze4ks8c'', ''x'', 0)]" by simp
  moreover have "toLowerCase ''OCP1PZE4KS8C'' = ''ocp1pze4ks8c''" by code_simp
  moreover have "decodeBech32Prefix ''OCP1PZE4KS8C'' = decodeBech32Prefix ''ocp1pze4ks8c''" by code_simp
  ultimately show ?thesis by (simp add: exampleCfg_def)
qed

end
