(* ===== verification/Daemon_Base.thy ===== *)
theory Daemon_Base
  imports Hole_Cards Sigma_Proofs Shuffle_V1 Coordinator
begin

text \<open>
  What the handlers of the dealer daemon (\<^verbatim>\<open>apps/dealer-daemon/src\<close>) share: the chain as seen through the
  client, the messages the daemon sends, the state of a daemon, sequencing of calls that may throw after
  they have had effects, and the conversions of untyped chain data. The client is a parameter: a record
  of query and submission functions over an unknown chain state. Random bytes are a supply that is used
  up; a call that finds it too short throws. A JSON field under several spellings is one field.
\<close>

subsection \<open>Messages\<close>

datatype DaemonMsg =
    DkgCommit string js_number "byte list list" "byte list"
  | DkgEncryptedShare string js_number js_number "byte list" "byte list" "byte list" "byte list"
  | DkgComplaintAEADBad string js_number string js_number "byte list" "byte list"
  | DkgComplaintMissing string js_number string
  | DkgShareReveal string js_number string "byte list"
  | SubmitShuffle string string string js_number "byte list"
  | SubmitEncShare string string string js_number "byte list" "byte list" "byte list"
  | SubmitPubShare string string string js_number "byte list" "byte list"
  | BeginEpoch js_number js_number
  | FinalizeEpoch js_number
  | StartHand string
  | InitHand string string js_number
  | FinalizeDeck string string
  | FinalizeReveal string string js_number
  | Tick string
  | DealerTimeout string string
  | BeaconCommit string int "byte list"
  | BeaconReveal string int "byte list"

subsection \<open>Chain data\<close>

record MemberJson =
  mj_validator :: string
  mj_index :: "JsonInt option"
  mj_ephemeralPubkey :: "JsonBytes option"

record EpochJson =
  ej_epochId :: "JsonInt option"
  ej_members :: "MemberJson list"

record CommitJson =
  cj_dealer :: string
  cj_commitments :: "JsonBytes option list"

record EncryptedShareJson =
  xj_dealer :: string
  xj_recipientIndex :: "JsonInt option"
  xj_u :: "JsonBytes option"
  xj_v :: "JsonBytes option"
  xj_proof :: "JsonBytes option"
  xj_scalarCt :: "JsonBytes option"

record ComplaintJson =
  oj_complainer :: string
  oj_dealer :: string
  oj_kind :: string

record RevealJson =
  rj_dealer :: string
  rj_to :: string
  rj_share :: "JsonBytes option"

record DkgJson = EpochJson +
  kj_commits :: "CommitJson list"
  kj_encryptedShares :: "EncryptedShareJson list"
  kj_complaints :: "ComplaintJson list"
  kj_reveals :: "RevealJson list"
  kj_slashed :: "string list"

record SeatJson =
  sj_player :: string
  sj_pk :: "JsonBytes option"

record TableDealerJson =
  tj_epochId :: "JsonInt option"
  tj_finalized :: "bool option"
  tj_deckFinalized :: "bool option"
  tj_revealPos :: "JsonInt option"
  tj_cursor :: "JsonInt option"
  tj_holePos :: "JsonInt option list"
  tj_reveals :: "JsonInt option list"

record HandJson =
  hj_handId :: "string option"
  hj_phase :: string
  hj_dealer :: "TableDealerJson option"
  hj_boardLength :: nat
  hj_inHand :: "bool list"
  hj_folded :: "bool list"

record TableJson =
  tb_hand :: "HandJson option"
  tb_seats :: "SeatJson option list"

record CipherJson =
  ch_c1 :: "JsonBytes option"
  ch_c2 :: "JsonBytes option"

record DaemonHandJson =
  dj_deck :: "CipherJson option list"
  dj_shuffleStep :: "JsonInt option"
  dj_pkHand :: "JsonBytes option"
  dj_initHeight :: "JsonInt option"
  dj_initHashSalt :: "JsonBytes option"

subsection \<open>Environment and state\<close>

record 'w chain_client =
  cl_getDealerEpoch :: "'w \<Rightarrow> EpochJson option fallible"
  cl_getDealerDkg :: "'w \<Rightarrow> DkgJson option fallible"
  cl_getTables :: "'w \<Rightarrow> string list fallible"
  cl_getTable :: "'w \<Rightarrow> string \<Rightarrow> TableJson option fallible"
  cl_getDealerHand :: "'w \<Rightarrow> string \<Rightarrow> string \<Rightarrow> DaemonHandJson option fallible"
  cl_submit :: "'w \<Rightarrow> DaemonMsg \<Rightarrow> string option \<times> 'w"

record DealerDaemonConfig =
  dc_validatorAddress :: string
  dc_statePassphrase :: string
  dc_autoBeginEpoch :: bool
  dc_autoInitHand :: bool
  dc_autoFinalize :: bool
  dc_committeeSize :: js_number
  dc_threshold :: js_number
  dc_shuffleRounds :: js_number

record ('p, 'w) dealer_env =
  de_curve :: "'p curve"
  de_sha512 :: hash
  de_sha256 :: hash
  de_hmacSha256 :: "byte list \<Rightarrow> byte list \<Rightarrow> byte list"
  de_gcmEncrypt :: "byte list \<Rightarrow> byte list \<Rightarrow> byte list \<Rightarrow> byte list \<Rightarrow> byte list"
  de_gcmDecrypt :: "byte list \<Rightarrow> byte list \<Rightarrow> byte list \<Rightarrow> byte list \<Rightarrow> byte list fallible"
  de_unsafeSeedAllowed :: bool
  de_client :: "'w chain_client"
  de_config :: DealerDaemonConfig

record EpochSecrets =
  sec_epochId :: js_number
  sec_validatorIndex :: js_number
  sec_polyCoeffs :: "string list"
  sec_secretShare :: string
  sec_ephemeralSk :: "string option"

record 'w daemon =
  dm_world :: 'w
  dm_store :: "js_number \<Rightarrow> EpochSecrets option"
  dm_random :: "byte list"

subsection \<open>Calls with effects\<close>

text \<open>An \<^verbatim>\<open>async\<close> function: a result or a thrown error, and the state it leaves in either case.\<close>

type_synonym ('w, 'a) act = "'w daemon \<Rightarrow> 'a fallible \<times> 'w daemon"

definition aret :: "'a \<Rightarrow> ('w, 'a) act" where "aret x s = (Inr x, s)"

definition alift :: "'a fallible \<Rightarrow> ('w, 'a) act" where "alift r s = (r, s)"

definition abind :: "('w, 'a) act \<Rightarrow> ('a \<Rightarrow> ('w, 'b) act) \<Rightarrow> ('w, 'b) act" where
  "abind m k s = (case m s of (Inl e, s') \<Rightarrow> (Inl e, s') | (Inr x, s') \<Rightarrow> k x s')"

definition acatch :: "('w, 'a) act \<Rightarrow> (string \<Rightarrow> ('w, 'a) act) \<Rightarrow> ('w, 'a) act" where
  "acatch m h s = (case m s of (Inl e, s') \<Rightarrow> h e s' | (Inr x, s') \<Rightarrow> (Inr x, s'))"

text \<open>A loop whose body may \<^verbatim>\<open>return\<close> from the function (\<open>True\<close>).\<close>

fun auntil :: "('a \<Rightarrow> ('w, bool) act) \<Rightarrow> 'a list \<Rightarrow> ('w, bool) act" where
  "auntil f [] = aret False"
| "auntil f (x # xs) = abind (f x) (\<lambda>stop. if stop then aret True else auntil f xs)"

fun afold :: "('a \<Rightarrow> 'b \<Rightarrow> ('w, 'b) act) \<Rightarrow> 'a list \<Rightarrow> 'b \<Rightarrow> ('w, 'b) act" where
  "afold f [] acc = aret acc"
| "afold f (x # xs) acc = abind (f x acc) (\<lambda>acc. afold f xs acc)"

definition query :: "('w \<Rightarrow> 'a fallible) \<Rightarrow> ('w, 'a) act" where "query q s = (q (dm_world s), s)"

definition submit :: "('p, 'w) dealer_env \<Rightarrow> DaemonMsg \<Rightarrow> ('w, unit) act" where
  "submit E m s =
     (case cl_submit (de_client E) (dm_world s) m of
        (None, w) \<Rightarrow> (Inr (), s\<lparr>dm_world := w\<rparr>)
      | (Some e, w) \<Rightarrow> (Inl e, s\<lparr>dm_world := w\<rparr>))"

definition storeLoad :: "js_number \<Rightarrow> ('w, EpochSecrets option) act" where
  "storeLoad epochId s = (Inr (dm_store s epochId), s)"

definition storeSave :: "EpochSecrets \<Rightarrow> ('w, unit) act" where
  "storeSave secrets s = (Inr (), s\<lparr>dm_store := (dm_store s)(sec_epochId secrets \<mapsto> secrets)\<rparr>)"

definition storeHas :: "js_number \<Rightarrow> ('w, bool) act" where
  "storeHas epochId s = (Inr (dm_store s epochId \<noteq> None), s)"

definition randomBytes :: "nat \<Rightarrow> ('w, byte list) act" where
  "randomBytes n s =
     (if length (dm_random s) < n then (Inl ''randomBytes: no entropy'', s)
      else (Inr (take n (dm_random s)), s\<lparr>dm_random := drop n (dm_random s)\<rparr>))"

text \<open>The rejection loop draws until the scalar is not 0.\<close>

function drawNonzero :: "byte list \<Rightarrow> (int \<times> byte list) fallible" where
  "drawNonzero r =
     (if length r < 64 then Inl ''randomBytes: no entropy''
      else let s = scalarMod (bytesToBigintLE (take 64 r))
           in if s \<noteq> 0 then Inr (s, drop 64 r) else drawNonzero (drop 64 r))"
  by pat_completeness auto
termination
  by (relation "measure length") auto

declare drawNonzero.simps [simp del]

definition nonzeroScalar :: "('w, int) act" where
  "nonzeroScalar s =
     (case drawNonzero (dm_random s) of
        Inl e \<Rightarrow> (Inl e, s\<lparr>dm_random := []\<rparr>)
      | Inr (k, r) \<Rightarrow> (Inr k, s\<lparr>dm_random := r\<rparr>))"

fun nonzeroScalars :: "nat \<Rightarrow> ('w, int list) act" where
  "nonzeroScalars 0 = aret []"
| "nonzeroScalars (Suc n) = abind nonzeroScalar (\<lambda>x. abind (nonzeroScalars n) (\<lambda>xs. aret (x # xs)))"

subsection \<open>Conversions\<close>

text \<open>\<^verbatim>\<open>s.includes(pat)\<close> and \<^verbatim>\<open>s.startsWith(pat)\<close>.\<close>

definition startsWith :: "string \<Rightarrow> string \<Rightarrow> bool" where
  "startsWith s pat \<longleftrightarrow> take (length pat) s = pat"

definition includesText :: "string \<Rightarrow> string \<Rightarrow> bool" where
  "includesText s pat \<longleftrightarrow> list_ex (\<lambda>i. startsWith (drop i s) pat) [0..<Suc (length s)]"

text \<open>Digits of a number in a base up to 16, and \<^verbatim>\<open>n.toString(16)\<close>, \<^verbatim>\<open>BigInt("0x" + s)\<close> of a bigint.\<close>

definition radixDigits :: "int \<Rightarrow> string \<Rightarrow> int option" where
  "radixDigits b s =
     (if s = [] \<or> list_ex (\<lambda>c. case hexValue c of None \<Rightarrow> True | Some v \<Rightarrow> b \<le> v) s then None
      else Some (foldl (\<lambda>v c. v * b + the (hexValue c)) 0 s))"

fun hexNat :: "nat \<Rightarrow> string" where
  "hexNat n = (if n < 16 then [HEX_DIGITS ! n] else hexNat (n div 16) @ [HEX_DIGITS ! (n mod 16)])"

declare hexNat.simps [simp del]

definition bigintHex :: "int \<Rightarrow> string" where "bigintHex x = (if x < 0 then CHR ''-'' # hexNat (nat (- x)) else hexNat (nat x))"

definition bigintFromHex :: "string \<Rightarrow> int fallible" where
  "bigintFromHex s = (case radixDigits 16 s of None \<Rightarrow> Inl ''SyntaxError: cannot convert to a BigInt'' | Some v \<Rightarrow> Inr v)"

text \<open>A literal with a radix prefix, as \<^verbatim>\<open>Number\<close> and \<^verbatim>\<open>BigInt\<close> read it.\<close>

definition prefixed :: "string \<Rightarrow> int option" where
  "prefixed s =
     (let p = take 2 s; d = drop 2 s in
      if p = ''0x'' \<or> p = ''0X'' then radixDigits 16 d
      else if p = ''0o'' \<or> p = ''0O'' then radixDigits 8 d
      else if p = ''0b'' \<or> p = ''0B'' then radixDigits 2 d
      else None)"

definition signed :: "(string \<Rightarrow> 'a :: uminus option) \<Rightarrow> string \<Rightarrow> 'a option" where
  "signed f s =
     (if startsWith s ''-'' then map_option uminus (f (drop 1 s))
      else if startsWith s ''+'' then f (drop 1 s) else f s)"

definition isDigits :: "string \<Rightarrow> bool" where "isDigits s \<longleftrightarrow> radixDigits 10 s \<noteq> None"

text \<open>An unsigned decimal literal: digits, an optional fraction and an optional exponent.\<close>

definition decimal :: "string \<Rightarrow> js_number option" where
  "decimal s =
     (let m = takeWhile (\<lambda>c. c \<noteq> CHR ''e'' \<and> c \<noteq> CHR ''E'') s;
          x = drop (length m) s;
          i = takeWhile (\<lambda>c. c \<noteq> CHR ''.'') m;
          f = drop (Suc (length i)) m;
          digits = i @ f;
          expo = (if x = [] then Some 0 else signed (radixDigits 10) (drop 1 x))
      in case (radixDigits 10 digits, expo) of
           (Some v, Some n) \<Rightarrow> Some (of_int v * 10 powi (n - int (length f)))
         | _ \<Rightarrow> None)"

text \<open>\<^verbatim>\<open>Number(s)\<close> on a text; \<open>None\<close> is NaN or infinite.\<close>

definition numberOf :: "string \<Rightarrow> js_number option" where
  "numberOf s =
     (let t = trimText s in
      if t = [] then Some 0
      else case prefixed t of Some v \<Rightarrow> Some (of_int v) | None \<Rightarrow> signed decimal t)"

definition asNumber :: "JsonInt option \<Rightarrow> js_number option" where
  "asNumber v =
     (case v of
        None \<Rightarrow> None
      | Some (NumInt n) \<Rightarrow> Some n
      | Some (TextInt s) \<Rightarrow> if trimText s = [] then None else numberOf s)"

definition bigIntOf :: "JsonInt \<Rightarrow> int fallible" where
  "bigIntOf v =
     (case v of
        NumInt n \<Rightarrow> toBigInt (Some n)
      | TextInt s \<Rightarrow>
          let t = trimText s in
          if t = [] then Inr 0
          else case prefixed t of
                 Some x \<Rightarrow> Inr x
               | None \<Rightarrow> (case signed (radixDigits 10) t of
                            Some x \<Rightarrow> Inr x
                          | None \<Rightarrow> Inl ''SyntaxError: cannot convert to a BigInt''))"

text \<open>\<^verbatim>\<open>Number(v ?? 0) | 0\<close>: truncation to a signed 32-bit integer.\<close>

definition toInt32 :: "JsonInt option \<Rightarrow> int" where
  "toInt32 v =
     (let n = (case v of None \<Rightarrow> Some 0 | Some (NumInt n) \<Rightarrow> Some n | Some (TextInt s) \<Rightarrow> numberOf s)
      in case n of
           None \<Rightarrow> 0
         | Some x \<Rightarrow> let t = (if x < 0 then - \<lfloor>- x\<rfloor> else \<lfloor>x\<rfloor>) in sint (word_of_int t :: 32 word))"

text \<open>\<^verbatim>\<open>decodeBytes\<close> of \<^verbatim>\<open>handlers/shuffle.ts\<close> reads text as base64 only.\<close>

definition daemonBytes :: "JsonBytes option \<Rightarrow> byte list fallible" where
  "daemonBytes raw =
     (case raw of
        Some (RawBytes bs) \<Rightarrow> Inr bs
      | Some (TextBytes s) \<Rightarrow> if s = [] then Inl ''unsupported bytes value'' else Inr (fromBase64 s)
      | None \<Rightarrow> Inl ''unsupported bytes value'')"

definition decodeSaltBytes :: "JsonBytes \<Rightarrow> byte list fallible" where
  "decodeSaltBytes raw =
     (case raw of
        RawBytes bs \<Rightarrow> Inr bs
      | TextBytes s \<Rightarrow> if s = [] then Inl ''unsupported initHashSalt bytes value'' else Inr (fromBase64 s))"

definition decodeOnchainBytes :: "JsonBytes option \<Rightarrow> byte list option" where
  "decodeOnchainBytes raw =
     (case raw of
        None \<Rightarrow> None
      | Some (RawBytes bs) \<Rightarrow> Some bs
      | Some (TextBytes r) \<Rightarrow>
          let s = (if startsWith r ''0x'' then drop 2 r else r)
          in if s \<noteq> [] \<and> list_all (\<lambda>c. hexValue c \<noteq> None) s \<and> even (length s) then Some (hexPairs s)
             else Some (fromBase64 r))"

definition decodeDeck :: "'p curve \<Rightarrow> CipherJson option list \<Rightarrow> 'p ElGamalCiphertext list fallible" where
  "decodeDeck C rawDeck =
     rmap (\<lambda>entry. case entry of
             None \<Rightarrow> Inl ''missing deck entry''
           | Some e \<Rightarrow>
               rbind (rbind (daemonBytes (ch_c1 e)) (groupElementFromBytes C)) (\<lambda>c1.
               rbind (rbind (daemonBytes (ch_c2 e)) (groupElementFromBytes C)) (\<lambda>c2.
               Inr \<lparr>ct_c1 = c1, ct_c2 = c2\<rparr>))) rawDeck"

end
