(* ===== verification/Dealer_Daemon.thy ===== *)
theory Dealer_Daemon
  imports Daemon_Base
begin

text \<open>
  The dealer daemon of a validator, \<^verbatim>\<open>apps/dealer-daemon/src\<close>: the handlers for key generation
  (\<^verbatim>\<open>handlers/dkg.ts\<close>), shuffling (\<^verbatim>\<open>handlers/shuffle.ts\<close>), encrypted shares of hole cards
  (\<^verbatim>\<open>handlers/encshares.ts\<close>), public shares (\<^verbatim>\<open>handlers/pubshares.ts\<close>), the beacon (\<^verbatim>\<open>handlers/beacon.ts\<close>) and
  automation (\<^verbatim>\<open>handlers/automation.ts\<close>), and the polling cycle that composes them (\<^verbatim>\<open>daemon.ts\<close>).
\<close>

subsection \<open>The key of a hand\<close>

definition u64le :: "js_number option \<Rightarrow> byte list fallible" where
  "u64le v = rbind (toBigInt v) (\<lambda>x. Inr (fst (bytesLELoop x 8)))"

definition i64le :: "int \<Rightarrow> byte list" where
  "i64le v = fst (bytesLELoop (if v < 0 then v + 2 ^ 64 else v) 8)"

text \<open>\<open>Inr None\<close>: the handler logs what is missing and returns.\<close>

definition handScalar :: "('p, 'w) dealer_env \<Rightarrow> js_number \<Rightarrow> string \<Rightarrow> string \<Rightarrow> DaemonHandJson \<Rightarrow> int option fallible" where
  "handScalar E epochId tableId handId dealerHand =
     (case dj_initHeight dealerHand of
        None \<Rightarrow> Inr None
      | Some initHeightRaw \<Rightarrow>
          (case dj_initHashSalt dealerHand of
             None \<Rightarrow> Inr None
           | Some initSaltRaw \<Rightarrow>
               rbind (bigIntOf initHeightRaw) (\<lambda>initHeight.
               rbind (decodeSaltBytes initSaltRaw) (\<lambda>initSalt.
               if length initSalt \<noteq> 32 then Inr None
               else
                 rbind (u64le (Some epochId)) (\<lambda>e. rbind (u64le (numberOf tableId)) (\<lambda>t. rbind (u64le (numberOf handId)) (\<lambda>h.
                 rbind (hashToScalar (de_sha512 E) ''ocp/v1/dealer/hand-derive/v2'' [e, t, h, i64le initHeight, initSalt])
                   (\<lambda>k. Inr (Some k)))))))))"

definition deckEntry :: "'p ElGamalCiphertext list \<Rightarrow> js_number \<Rightarrow> 'p ElGamalCiphertext option" where
  "deckEntry deck pos =
     (if isInteger pos \<and> 0 \<le> pos \<and> nat \<lfloor>pos\<rfloor> < length deck then Some (deck ! nat \<lfloor>pos\<rfloor>) else None)"

subsection \<open>Encrypted shares of hole cards\<close>

definition makeEncShare :: "('p, 'w) dealer_env \<Rightarrow> int \<Rightarrow> 'p \<Rightarrow> 'p \<Rightarrow> 'p \<Rightarrow> ('w, byte list \<times> byte list) act" where
  "makeEncShare E xHand yHand pkPlayer c1 =
     (let C = de_curve E in
      abind (alift (mulPoint C c1 xHand)) (\<lambda>d.
      abind nonzeroScalar (\<lambda>r.
      abind (alift (mulBase C r)) (\<lambda>u.
      abind (alift (mulPoint C pkPlayer r)) (\<lambda>m.
      let v = pointAdd C d m in
      abind nonzeroScalar (\<lambda>wx.
      abind nonzeroScalar (\<lambda>wr.
      abind (alift (encShareProve C (de_sha512 E) yHand c1 pkPlayer u v xHand r wx wr)) (\<lambda>prf.
      abind (alift (encodeEncShareProof C prf)) (\<lambda>proofBytes.
      aret (groupElementToBytes C u @ groupElementToBytes C v, proofBytes))))))))))"

definition encShareCard :: "('p, 'w) dealer_env \<Rightarrow> string \<Rightarrow> string \<Rightarrow> js_number list \<Rightarrow> 'p ElGamalCiphertext list
    \<Rightarrow> int \<Rightarrow> 'p \<Rightarrow> byte list \<Rightarrow> 'p \<Rightarrow> nat \<Rightarrow> nat \<Rightarrow> ('w, bool) act" where
  "encShareCard E tableId handId holePos deck xHand yHand pkPlayerBytes pkPlayer seat cardIdx =
     (let pos = aget 255 holePos (seat * 2 + cardIdx) in
      if pos < 0 \<or> pos = 255 then aret False
      else case deckEntry deck pos of
        None \<Rightarrow> aret False
      | Some ct \<Rightarrow>
          abind (makeEncShare E xHand yHand pkPlayer (ct_c1 ct)) (\<lambda>(encShare, proofBytes).
          acatch
            (abind (submit E (SubmitEncShare (dc_validatorAddress (de_config E)) tableId handId pos pkPlayerBytes encShare proofBytes))
               (\<lambda>_. aret False))
            (\<lambda>msg. if includesText msg ''already'' \<or> includesText msg ''duplicate'' then aret False
                   else if includesText msg ''not in shuffle phase'' then aret True
                   else alift (Inl msg))))"

definition encShareSeat :: "('p, 'w) dealer_env \<Rightarrow> string \<Rightarrow> string \<Rightarrow> js_number list \<Rightarrow> 'p ElGamalCiphertext list
    \<Rightarrow> int \<Rightarrow> 'p \<Rightarrow> SeatJson option list \<Rightarrow> nat \<Rightarrow> ('w, bool) act" where
  "encShareSeat E tableId handId holePos deck xHand yHand seats seat =
     (case aget None seats seat of
        None \<Rightarrow> aret False
      | Some seatData \<Rightarrow>
          if sj_player seatData = [] then aret False
          else if sj_pk seatData = None \<or> sj_pk seatData = Some (TextBytes []) then aret False
          else case rbind (daemonBytes (sj_pk seatData)) (\<lambda>b. rbind (groupElementFromBytes (de_curve E) b) (\<lambda>p. Inr (b, p))) of
            Inl _ \<Rightarrow> aret False
          | Inr (pkPlayerBytes, pkPlayer) \<Rightarrow>
              auntil (encShareCard E tableId handId holePos deck xHand yHand pkPlayerBytes pkPlayer seat) [0, 1])"

definition tableHolePos :: "TableJson \<Rightarrow> js_number list" where
  "tableHolePos table =
     (case tb_hand table of
        None \<Rightarrow> []
      | Some h \<Rightarrow> (case hj_dealer h of None \<Rightarrow> [] | Some d \<Rightarrow> List.map_filter asNumber (tj_holePos d)))"

definition handleEncShares :: "('p, 'w) dealer_env \<Rightarrow> string \<Rightarrow> string \<Rightarrow> js_number \<Rightarrow> ('w, unit) act" where
  "handleEncShares E tableId handId epochId =
     abind (storeLoad epochId) (\<lambda>loaded. case loaded of
       None \<Rightarrow> aret ()
     | Some secrets \<Rightarrow>
         if sec_secretShare secrets = ''0'' then aret ()
         else
         abind (alift (bigintFromHex (sec_secretShare secrets))) (\<lambda>secretShare.
         abind (query (\<lambda>w. cl_getTable (de_client E) w tableId)) (\<lambda>fetched. case fetched of
           None \<Rightarrow> aret ()
         | Some table \<Rightarrow>
             let holePos = tableHolePos table in
             if length holePos \<noteq> 18 then aret ()
             else
             abind (query (\<lambda>w. cl_getDealerHand (de_client E) w tableId handId)) (\<lambda>fetchedHand. case fetchedHand of
               None \<Rightarrow> aret ()
             | Some dealerHand \<Rightarrow>
                 abind (alift (handScalar E epochId tableId handId dealerHand)) (\<lambda>scalar. case scalar of
                   None \<Rightarrow> aret ()
                 | Some k \<Rightarrow>
                     let xHand = scalarMul secretShare k in
                     abind (alift (mulBase (de_curve E) xHand)) (\<lambda>yHand.
                     abind (alift (decodeDeck (de_curve E) (dj_deck dealerHand))) (\<lambda>deck.
                     abind (auntil (encShareSeat E tableId handId holePos deck xHand yHand (tb_seats table)) [0..<9]) (\<lambda>_.
                     aret ()))))))))"

subsection \<open>Public shares\<close>

definition handlePubShare :: "('p, 'w) dealer_env \<Rightarrow> string \<Rightarrow> string \<Rightarrow> js_number \<Rightarrow> js_number \<Rightarrow> ('w, unit) act" where
  "handlePubShare E tableId handId epochId pos =
     (let C = de_curve E in
      abind (storeLoad epochId) (\<lambda>loaded. case loaded of
        None \<Rightarrow> aret ()
      | Some secrets \<Rightarrow>
          if sec_secretShare secrets = ''0'' then aret ()
          else
          abind (alift (bigintFromHex (sec_secretShare secrets))) (\<lambda>secretShare.
          abind (query (\<lambda>w. cl_getDealerHand (de_client E) w tableId handId)) (\<lambda>fetchedHand. case fetchedHand of
            None \<Rightarrow> aret ()
          | Some dealerHand \<Rightarrow>
              abind (alift (handScalar E epochId tableId handId dealerHand)) (\<lambda>scalar. case scalar of
                None \<Rightarrow> aret ()
              | Some k \<Rightarrow>
                  let xHand = scalarMul secretShare k in
                  abind (alift (mulBase C xHand)) (\<lambda>yHand.
                  abind (alift (decodeDeck C (dj_deck dealerHand))) (\<lambda>deck.
                  case deckEntry deck pos of
                    None \<Rightarrow> aret ()
                  | Some cipher \<Rightarrow>
                      abind (alift (mulPoint C (ct_c1 cipher) xHand)) (\<lambda>d.
                      abind nonzeroScalar (\<lambda>w.
                      abind (alift (chaumPedersenProve C (de_sha512 E) yHand (ct_c1 cipher) d xHand w)) (\<lambda>prf.
                      abind (alift (encodeChaumPedersenProof C prf)) (\<lambda>proofBytes.
                      acatch
                        (submit E (SubmitPubShare (dc_validatorAddress (de_config E)) tableId handId pos
                           (groupElementToBytes C d) proofBytes))
                        (\<lambda>msg. if includesText msg ''already'' \<or> includesText msg ''duplicate'' then aret ()
                               else alift (Inl msg)))))))))))))"

subsection \<open>Shuffling\<close>

record ParsedMember =
  pm_validator :: string
  pm_index :: js_number
  pm_ephemeralPubkey :: "byte list option"

definition sameAddress :: "string \<Rightarrow> string \<Rightarrow> bool" where
  "sameAddress a b \<longleftrightarrow> toLowerCase a = toLowerCase b"

definition memberAt :: "ParsedMember list \<Rightarrow> js_number \<Rightarrow> ParsedMember option" where
  "memberAt ms i = (if isInteger i \<and> 0 \<le> i \<and> nat \<lfloor>i\<rfloor> < length ms then Some (ms ! nat \<lfloor>i\<rfloor>) else None)"

definition shuffleStep :: "DaemonHandJson \<Rightarrow> js_number option" where
  "shuffleStep dealerHand =
     (case dj_shuffleStep dealerHand of
        None \<Rightarrow> Some 0
      | Some (NumInt n) \<Rightarrow> Some n
      | Some (TextInt s) \<Rightarrow> numberOf s)"

definition handleShuffle :: "('p, 'w) dealer_env \<Rightarrow> string \<Rightarrow> string \<Rightarrow> ParsedMember list \<Rightarrow> ('w, unit) act" where
  "handleShuffle E tableId handId epochMembers =
     (let C = de_curve E; me = dc_validatorAddress (de_config E) in
      abind (query (\<lambda>w. cl_getDealerHand (de_client E) w tableId handId)) (\<lambda>fetchedHand. case fetchedHand of
        None \<Rightarrow> alift (Inl ''dealer hand not found'')
      | Some dealerHand \<Rightarrow>
          (case shuffleStep dealerHand of
             None \<Rightarrow> aret ()
           | Some actualStep \<Rightarrow>
               if of_nat (length epochMembers) \<le> actualStep then aret ()
               else case memberAt epochMembers actualStep of
                 None \<Rightarrow> aret ()
               | Some expected \<Rightarrow>
                   if pm_validator expected = [] \<or> \<not> sameAddress (pm_validator expected) me then aret ()
                   else if dj_pkHand dealerHand = None \<or> dj_pkHand dealerHand = Some (TextBytes [])
                   then alift (Inl ''dealer hand missing pkHand'')
                   else
                     let rnd = actualStep + 1 in
                     abind (alift (rbind (daemonBytes (dj_pkHand dealerHand)) (groupElementFromBytes C))) (\<lambda>pkHand.
                     abind (alift (decodeDeck C (dj_deck dealerHand))) (\<lambda>deck.
                     abind (alift (bigIntOf (TextInt tableId))) (\<lambda>t.
                     abind (alift (bigIntOf (TextInt handId))) (\<lambda>h.
                     abind (alift (buildShuffleContext t h rnd me)) (\<lambda>context.
                     abind (randomBytes 32) (\<lambda>seed.
                     abind (alift (shuffleProveV1 C (de_sha512 E) (de_unsafeSeedAllowed E) seed pkHand deck
                              \<lparr>opt_seedUnsafeForTestsOnly = None, opt_rounds = Some (dc_shuffleRounds (de_config E)),
                               opt_context = Some context\<rparr>)) (\<lambda>(_, proofBytes).
                     submit E (SubmitShuffle me tableId handId rnd proofBytes)))))))))))"

subsection \<open>Key generation\<close>

definition dkgModQ :: "int \<Rightarrow> int" where
  "dkgModQ n = (let x = n smod CURVE_ORDER in if x < 0 then x + CURVE_ORDER else x)"

definition evalPolyQ :: "int list \<Rightarrow> int \<Rightarrow> int" where
  "evalPolyQ coeffs x =
     dkgModQ (fst (foldl (\<lambda>(acc, pow) a. (dkgModQ (acc + dkgModQ a * pow), dkgModQ (pow * x))) (0, 1) coeffs))"

definition myMember :: "('p, 'w) dealer_env \<Rightarrow> ParsedMember list \<Rightarrow> ParsedMember option" where
  "myMember E members = find (\<lambda>m. sameAddress (pm_validator m) (dc_validatorAddress (de_config E))) members"

definition handleDkgCommit :: "('p, 'w) dealer_env \<Rightarrow> js_number \<Rightarrow> ParsedMember list \<Rightarrow> ('w, unit) act" where
  "handleDkgCommit E epochId members =
     (let C = de_curve E in
      abind (storeHas epochId) (\<lambda>present. if present then aret () else
      case myMember E members of
        None \<Rightarrow> aret ()
      | Some m \<Rightarrow>
          abind (nonzeroScalars (nat \<lfloor>dc_threshold (de_config E)\<rfloor>)) (\<lambda>polyCoeffs.
          abind (alift (rmap (\<lambda>c. rbind (mulBase C c) (\<lambda>p. Inr (groupElementToBytes C p))) polyCoeffs)) (\<lambda>commitments.
          abind nonzeroScalar (\<lambda>ephemeralSk.
          abind (alift (mulBase C ephemeralSk)) (\<lambda>ephemeralPk.
          abind (submit E (DkgCommit (dc_validatorAddress (de_config E)) epochId commitments (groupElementToBytes C ephemeralPk))) (\<lambda>_.
          storeSave \<lparr>sec_epochId = epochId, sec_validatorIndex = pm_index m, sec_polyCoeffs = map bigintHex polyCoeffs,
                     sec_secretShare = ''0'', sec_ephemeralSk = Some (bigintHex ephemeralSk)\<rparr>)))))))"

text \<open>The commitments of a dealer; \<open>None\<close> when an entry is malformed.\<close>

fun decodeCommitments :: "JsonBytes option list \<Rightarrow> byte list list option" where
  "decodeCommitments [] = Some []"
| "decodeCommitments (cb # cbs) =
     (case decodeOnchainBytes cb of
        None \<Rightarrow> None
      | Some b \<Rightarrow> if length b \<noteq> 32 then None else map_option ((#) b) (decodeCommitments cbs))"

definition sendEncryptedShare :: "('p, 'w) dealer_env \<Rightarrow> js_number \<Rightarrow> int list \<Rightarrow> 'p list \<Rightarrow> (string \<times> int) list
    \<Rightarrow> ParsedMember \<Rightarrow> unit \<Rightarrow> ('w, unit) act" where
  "sendEncryptedShare E epochId polyCoeffs commitments existing recipient u0 =
     (let C = de_curve E; me = dc_validatorAddress (de_config E) in
      if sameAddress (pm_validator recipient) me then aret ()
      else if list_ex (\<lambda>(d, j). d = toLowerCase me \<and> of_int j = pm_index recipient) existing then aret ()
      else case pm_ephemeralPubkey recipient of
        None \<Rightarrow> aret ()
      | Some pkRBytes \<Rightarrow>
          if length pkRBytes \<noteq> 32 then aret ()
          else case groupElementFromBytes C pkRBytes of
            Inl _ \<Rightarrow> aret ()
          | Inr pkR \<Rightarrow>
              abind (alift (toBigInt (Some (pm_index recipient)))) (\<lambda>j.
              let s = evalPolyQ polyCoeffs j in
              abind nonzeroScalar (\<lambda>r.
              abind (alift (mulBase C r)) (\<lambda>u.
              abind (alift (mulBase C s)) (\<lambda>sG.
              abind (alift (mulPoint C pkR r)) (\<lambda>m.
              let v = pointAdd C sG m in
              abind nonzeroScalar (\<lambda>ws.
              abind nonzeroScalar (\<lambda>wr.
              abind (alift (dkgEncShareProve C (de_sha512 E) commitments (pm_index recipient) pkR u v s r ws wr)) (\<lambda>prf.
              abind (alift (encodeDkgEncShareProof C prf)) (\<lambda>proofBytes.
              abind (alift (encryptShareScalar C (de_sha256 E) (de_gcmEncrypt E) pkR r s proofBytes)) (\<lambda>scalarCt.
              acatch (submit E (DkgEncryptedShare me epochId (pm_index recipient) (groupElementToBytes C u)
                                  (groupElementToBytes C v) proofBytes scalarCt))
                (\<lambda>_. aret ()))))))))))))"

definition handleDkgEncryptedShares :: "('p, 'w) dealer_env \<Rightarrow> js_number \<Rightarrow> ParsedMember list \<Rightarrow> DkgJson \<Rightarrow> ('w, unit) act" where
  "handleDkgEncryptedShares E epochId members dkg =
     (let me = toLowerCase (dc_validatorAddress (de_config E)) in
      abind (storeLoad epochId) (\<lambda>loaded. case loaded of
        None \<Rightarrow> aret ()
      | Some secrets \<Rightarrow>
          if sec_polyCoeffs secrets = [] then aret ()
          else if myMember E members = None then aret ()
          else
          abind (alift (rmap bigintFromHex (sec_polyCoeffs secrets))) (\<lambda>polyCoeffs.
          case find (\<lambda>c. toLowerCase (cj_dealer c) = me) (kj_commits dkg) of
            None \<Rightarrow> aret ()
          | Some myCommit \<Rightarrow>
              (case decodeCommitments (cj_commitments myCommit) of
                 None \<Rightarrow> aret ()
               | Some commitmentsBytes \<Rightarrow>
                   abind (alift (rmap (groupElementFromBytes (de_curve E)) commitmentsBytes)) (\<lambda>commitmentsPts.
                   let existing = List.map_filter
                         (\<lambda>es. let d = toLowerCase (xj_dealer es); j = toInt32 (xj_recipientIndex es)
                               in if d \<noteq> [] \<and> 0 < j then Some (d, j) else None) (kj_encryptedShares dkg)
                   in afold (sendEncryptedShare E epochId polyCoeffs commitmentsPts existing) members ())))))"

text \<open>Scalars recovered so far, by dealer in lower case, and the dealers complained about.\<close>

type_synonym collected = "(string \<times> int) list \<times> string list"

definition complainAead :: "('p, 'w) dealer_env \<Rightarrow> js_number \<Rightarrow> int \<Rightarrow> js_number \<Rightarrow> string \<Rightarrow> 'p \<Rightarrow> ('w, unit) act" where
  "complainAead E epochId skR myIndex dealer u =
     (let C = de_curve E in
      acatch
        (abind (alift (mulPoint C u skR)) (\<lambda>dh.
         abind (alift (mulBase C skR)) (\<lambda>y.
         abind nonzeroScalar (\<lambda>w.
         abind (alift (chaumPedersenProve C (de_sha512 E) y u dh skR w)) (\<lambda>prf.
         abind (alift (encodeChaumPedersenProof C prf)) (\<lambda>dleqProof.
         submit E (DkgComplaintAEADBad (dc_validatorAddress (de_config E)) epochId dealer myIndex
           (groupElementToBytes C dh) dleqProof)))))))
        (\<lambda>_. aret ()))"

definition accuse :: "('p, 'w) dealer_env \<Rightarrow> js_number \<Rightarrow> int \<Rightarrow> js_number \<Rightarrow> string \<Rightarrow> 'p \<Rightarrow> collected \<Rightarrow> ('w, collected) act" where
  "accuse E epochId skR myIndex dealer u acc =
     (if toLowerCase dealer \<in> set (snd acc) then aret acc
      else abind (complainAead E epochId skR myIndex dealer u) (\<lambda>_. aret (fst acc, toLowerCase dealer # snd acc)))"

definition collectOne :: "('p, 'w) dealer_env \<Rightarrow> js_number \<Rightarrow> int \<Rightarrow> js_number \<Rightarrow> EncryptedShareJson \<Rightarrow> collected \<Rightarrow> ('w, collected) act" where
  "collectOne E epochId skR myIndex es acc =
     (let C = de_curve E in
      if sameAddress (xj_dealer es) (dc_validatorAddress (de_config E)) then aret acc
      else if of_int (toInt32 (xj_recipientIndex es)) \<noteq> myIndex then aret acc
      else case (decodeOnchainBytes (xj_u es), decodeOnchainBytes (xj_v es), decodeOnchainBytes (xj_proof es), decodeOnchainBytes (xj_scalarCt es)) of
        (Some uBytes, Some vBytes, Some proofBytes, Some ct) \<Rightarrow>
          (case rbind (groupElementFromBytes C uBytes) (\<lambda>u. rbind (groupElementFromBytes C vBytes) (\<lambda>v. Inr (u, v))) of
             Inl _ \<Rightarrow> aret acc
           | Inr (u, v) \<Rightarrow>
               (case decryptShareScalar C (de_sha256 E) (de_gcmDecrypt E) skR u proofBytes ct of
                  Inl _ \<Rightarrow> accuse E epochId skR myIndex (xj_dealer es) u acc
                | Inr s \<Rightarrow>
                    abind (alift (mulBase C s)) (\<lambda>sharePointFromScalar.
                    abind (alift (mulPoint C u skR)) (\<lambda>m.
                    if \<not> pointEq C sharePointFromScalar (pointSub C v m)
                    then accuse E epochId skR myIndex (xj_dealer es) u acc
                    else aret (AList.update (toLowerCase (xj_dealer es)) s (fst acc), snd acc)))))
      | _ \<Rightarrow> aret acc)"

definition collectEncryptedShareScalars :: "('p, 'w) dealer_env \<Rightarrow> js_number \<Rightarrow> DkgJson \<Rightarrow> ('w, (string \<times> int) list) act" where
  "collectEncryptedShareScalars E epochId dkg =
     abind (storeLoad epochId) (\<lambda>loaded. case loaded of
       None \<Rightarrow> aret []
     | Some secrets \<Rightarrow>
         if sec_ephemeralSk secrets = None \<or> sec_ephemeralSk secrets = Some [] then aret []
         else
         abind (alift (bigintFromHex (the (sec_ephemeralSk secrets)))) (\<lambda>skR.
         let complained = map (\<lambda>c. toLowerCase (oj_dealer c))
               (filter (\<lambda>c. sameAddress (oj_complainer c) (dc_validatorAddress (de_config E))
                          \<and> (oj_kind c = ''aead-bad'' \<or> oj_kind c = ''aead-spurious'')) (kj_complaints dkg))
         in abind (afold (collectOne E epochId skR (sec_validatorIndex secrets)) (kj_encryptedShares dkg) ([], complained))
              (\<lambda>acc. aret (fst acc))))"

definition complainMissing :: "('p, 'w) dealer_env \<Rightarrow> js_number \<Rightarrow> DkgJson \<Rightarrow> ParsedMember \<Rightarrow> unit \<Rightarrow> ('w, unit) act" where
  "complainMissing E epochId dkg member u0 =
     (let me = dc_validatorAddress (de_config E) in
      if sameAddress (pm_validator member) me then aret ()
      else if list_ex (\<lambda>c. sameAddress (oj_complainer c) me \<and> sameAddress (oj_dealer c) (pm_validator member)) (kj_complaints dkg)
      then aret ()
      else if \<not> list_ex (\<lambda>c. sameAddress (cj_dealer c) (pm_validator member)) (kj_commits dkg) then aret ()
      else acatch (submit E (DkgComplaintMissing me epochId (pm_validator member))) (\<lambda>_. aret ()))"

definition handleDkgComplaints :: "('p, 'w) dealer_env \<Rightarrow> js_number \<Rightarrow> ParsedMember list \<Rightarrow> DkgJson \<Rightarrow> ('w, unit) act" where
  "handleDkgComplaints E epochId members dkg =
     (if \<not> list_ex (\<lambda>c. sameAddress (cj_dealer c) (dc_validatorAddress (de_config E))) (kj_commits dkg) then aret ()
      else afold (complainMissing E epochId dkg) members ())"

definition revealShare :: "('p, 'w) dealer_env \<Rightarrow> js_number \<Rightarrow> ParsedMember list \<Rightarrow> DkgJson \<Rightarrow> int list
    \<Rightarrow> ComplaintJson \<Rightarrow> unit \<Rightarrow> ('w, unit) act" where
  "revealShare E epochId members dkg polyCoeffs complaint u0 =
     (let me = dc_validatorAddress (de_config E) in
      if list_ex (\<lambda>r. sameAddress (rj_dealer r) me \<and> sameAddress (rj_to r) (oj_complainer complaint)) (kj_reveals dkg) then aret ()
      else case find (\<lambda>m. sameAddress (pm_validator m) (oj_complainer complaint)) members of
        None \<Rightarrow> aret ()
      | Some complainerMember \<Rightarrow>
          abind (alift (toBigInt (Some (pm_index complainerMember)))) (\<lambda>j.
          abind (alift (scalarToBytes (evalPolyQ polyCoeffs j))) (\<lambda>shareBytes.
          acatch (submit E (DkgShareReveal me epochId (oj_complainer complaint) shareBytes)) (\<lambda>_. aret ()))))"

definition handleDkgReveals :: "('p, 'w) dealer_env \<Rightarrow> js_number \<Rightarrow> ParsedMember list \<Rightarrow> DkgJson \<Rightarrow> ('w, unit) act" where
  "handleDkgReveals E epochId members dkg =
     abind (storeLoad epochId) (\<lambda>loaded. case loaded of
       None \<Rightarrow> aret ()
     | Some secrets \<Rightarrow>
         abind (alift (rmap bigintFromHex (sec_polyCoeffs secrets))) (\<lambda>polyCoeffs.
         let complaintsAgainstUs = filter (\<lambda>c. sameAddress (oj_dealer c) (dc_validatorAddress (de_config E))) (kj_complaints dkg)
         in afold (revealShare E epochId members dkg polyCoeffs) complaintsAgainstUs ()))"

definition decodeRevealShare :: "JsonBytes \<Rightarrow> int" where
  "decodeRevealShare shareBytes =
     (case shareBytes of
        RawBytes bs \<Rightarrow> dkgModQ (bytesToBigintLE bs)
      | TextBytes t \<Rightarrow>
          let hex = (if startsWith t ''0x'' then drop 2 t else t)
          in if list_all (\<lambda>c. hexValue c \<noteq> None) hex \<and> length hex = 64
             then dkgModQ (bytesToBigintLE (hexPairs hex))
             else dkgModQ (bytesToBigintLE (fromBase64 t)))"

text \<open>The sum so far and the dealers counted in it.\<close>

type_synonym tally = "int \<times> string list"

definition countEncrypted :: "string list \<Rightarrow> tally \<Rightarrow> string \<times> int \<Rightarrow> tally" where
  "countEncrypted slashed acc e =
     (if fst e \<in> set slashed then acc else (dkgModQ (fst acc + snd e), fst e # snd acc))"

definition countReveal :: "('p, 'w) dealer_env \<Rightarrow> string list \<Rightarrow> tally \<Rightarrow> RevealJson \<Rightarrow> tally" where
  "countReveal E slashed acc reveal =
     (let me = toLowerCase (dc_validatorAddress (de_config E)); dealerAddr = toLowerCase (rj_dealer reveal) in
      if toLowerCase (rj_to reveal) \<noteq> me then acc
      else if dealerAddr = me then acc
      else if dealerAddr \<in> set slashed then acc
      else if dealerAddr \<in> set (snd acc) then acc
      else case rj_share reveal of
        None \<Rightarrow> acc
      | Some shareBytes \<Rightarrow>
          if shareBytes = TextBytes [] then acc
          else (dkgModQ (fst acc + decodeRevealShare shareBytes), dealerAddr # snd acc))"

definition handleDkgAggregate :: "('p, 'w) dealer_env \<Rightarrow> js_number \<Rightarrow> ParsedMember list \<Rightarrow> DkgJson \<Rightarrow> ('w, bool) act" where
  "handleDkgAggregate E epochId members dkg =
     abind (storeLoad epochId) (\<lambda>loaded. case loaded of
       None \<Rightarrow> aret False
     | Some secrets \<Rightarrow>
         if sec_secretShare secrets \<noteq> ''0'' then aret True
         else case myMember E members of
           None \<Rightarrow> aret False
         | Some m \<Rightarrow>
             abind (alift (rmap bigintFromHex (sec_polyCoeffs secrets))) (\<lambda>polyCoeffs.
             abind (alift (toBigInt (Some (pm_index m)))) (\<lambda>j.
             let slashed = map toLowerCase (kj_slashed dkg) in
             abind (collectEncryptedShareScalars E epochId dkg) (\<lambda>encScalars.
             let acc = foldl (countReveal E slashed)
                         (foldl (countEncrypted slashed) (evalPolyQ polyCoeffs j, []) encScalars) (kj_reveals dkg);
                 expectedOtherMembers = length (filter (\<lambda>m. \<not> sameAddress (pm_validator m) (dc_validatorAddress (de_config E))
                                           \<and> toLowerCase (pm_validator m) \<notin> set slashed) members)
             in if length (snd acc) < expectedOtherMembers then aret False
                else abind (storeSave (secrets\<lparr>sec_secretShare := bigintHex (fst acc)\<rparr>)) (\<lambda>_. aret True)))))"

subsection \<open>Beacon\<close>

definition u64LE :: "int \<Rightarrow> byte list fallible" where
  "u64LE n = (if n < 0 \<or> 2 ^ 64 \<le> n then Inl ''RangeError: out of range'' else Inr (fst (bytesLELoop n 8)))"

definition lengthPrefixed :: "byte list list \<Rightarrow> byte list fallible" where
  "lengthPrefixed parts = rbind (rmap (\<lambda>p. rbind (u32le (of_nat (length p))) (\<lambda>l. Inr (l @ p))) parts) (\<lambda>chunks. Inr (concat chunks))"

definition hashDomain :: "('p, 'w) dealer_env \<Rightarrow> string \<Rightarrow> byte list list \<Rightarrow> byte list fallible" where
  "hashDomain E domain parts = rbind (lengthPrefixed parts) (\<lambda>b. Inr (de_sha256 E (utf8 domain @ b)))"

definition computeCommit :: "('p, 'w) dealer_env \<Rightarrow> string \<Rightarrow> int \<Rightarrow> byte list \<Rightarrow> byte list fallible" where
  "computeCommit E validator epochId salt =
     rbind (u64LE epochId) (\<lambda>e. hashDomain E ''ocp/v1/beacon/commit'' [utf8 validator, e, salt])"

definition deriveSalt :: "('p, 'w) dealer_env \<Rightarrow> string \<Rightarrow> string \<Rightarrow> int \<Rightarrow> byte list fallible" where
  "deriveSalt E passphrase validator epochId =
     rbind (u64LE epochId) (\<lambda>e. Inr (de_hmacSha256 E (utf8 passphrase) (utf8 ''ocp/v1/beacon/salt/v1'' @ utf8 validator @ e)))"

definition maybeBeaconParticipate :: "('p, 'w) dealer_env \<Rightarrow> ('w, unit) act" where
  "maybeBeaconParticipate E =
     (let me = dc_validatorAddress (de_config E) in
      abind (acatch (query (cl_getDealerEpoch (de_client E))) (\<lambda>_. aret None)) (\<lambda>epoch.
      abind (alift (case epoch of None \<Rightarrow> Inr 0
                    | Some ep \<Rightarrow> (case ej_epochId ep of None \<Rightarrow> Inr 0 | Some v \<Rightarrow> bigIntOf v))) (\<lambda>currentEpochId.
      let targetEpoch = currentEpochId + 1 in
      abind (alift (deriveSalt E (dc_statePassphrase (de_config E)) me targetEpoch)) (\<lambda>salt.
      abind (alift (computeCommit E me targetEpoch salt)) (\<lambda>commit.
      abind (acatch (submit E (BeaconCommit me targetEpoch commit)) (\<lambda>_. aret ())) (\<lambda>_.
      acatch (submit E (BeaconReveal me targetEpoch salt)) (\<lambda>_. aret ())))))))"

subsection \<open>Automation\<close>

text \<open>A submission whose failure is logged or ignored; the result says whether it was accepted.\<close>

definition trySubmit :: "('p, 'w) dealer_env \<Rightarrow> DaemonMsg \<Rightarrow> ('w, bool) act" where
  "trySubmit E m = acatch (abind (submit E m) (\<lambda>_. aret True)) (\<lambda>_. aret False)"

definition maybeBeginEpoch :: "('p, 'w) dealer_env \<Rightarrow> ('w, bool) act" where
  "maybeBeginEpoch E =
     (if \<not> dc_autoBeginEpoch (de_config E) then aret False
      else abind (acatch (query (cl_getDealerEpoch (de_client E))) (\<lambda>_. aret None)) (\<lambda>epoch.
        if epoch \<noteq> None then aret False
        else abind (acatch (query (cl_getDealerDkg (de_client E))) (\<lambda>_. aret None)) (\<lambda>dkg.
          if dkg \<noteq> None then aret False
          else trySubmit E (BeginEpoch (dc_committeeSize (de_config E)) (dc_threshold (de_config E))))))"

definition maybeFinalizeEpoch :: "('p, 'w) dealer_env \<Rightarrow> js_number \<Rightarrow> ('w, bool) act" where
  "maybeFinalizeEpoch E epochId =
     (if \<not> dc_autoFinalize (de_config E) then aret False else trySubmit E (FinalizeEpoch epochId))"

definition maybeStartAndInitHand :: "('p, 'w) dealer_env \<Rightarrow> string \<Rightarrow> js_number \<Rightarrow> ('w, bool) act" where
  "maybeStartAndInitHand E tableId epochId =
     (if \<not> dc_autoInitHand (de_config E) then aret False
      else abind (acatch (query (\<lambda>w. cl_getTable (de_client E) w tableId)) (\<lambda>_. aret None)) (\<lambda>fetched. case fetched of
        None \<Rightarrow> aret False
      | Some table \<Rightarrow>
          if (case tb_hand table of None \<Rightarrow> False | Some h \<Rightarrow> hj_handId h \<notin> {None, Some []}) then aret False
          else if length (filter (\<lambda>s. case s of None \<Rightarrow> False | Some d \<Rightarrow> sj_player d \<noteq> []) (tb_seats table)) < 2 then aret False
          else acatch
            (abind (submit E (StartHand tableId)) (\<lambda>_.
             abind (acatch (query (\<lambda>w. cl_getTable (de_client E) w tableId)) (\<lambda>_. aret None)) (\<lambda>updatedTable.
             let newHandId = (case updatedTable of
                   None \<Rightarrow> ''1''
                 | Some t \<Rightarrow> (case tb_hand t of None \<Rightarrow> ''1'' | Some h \<Rightarrow> (case hj_handId h of None \<Rightarrow> ''1'' | Some i \<Rightarrow> i)))
             in abind (submit E (InitHand tableId newHandId epochId)) (\<lambda>_. aret True))))
            (\<lambda>_. aret False)))"

definition maybeFinalizeDeck :: "('p, 'w) dealer_env \<Rightarrow> string \<Rightarrow> string \<Rightarrow> ('w, bool) act" where
  "maybeFinalizeDeck E tableId handId =
     (if \<not> dc_autoFinalize (de_config E) then aret False else trySubmit E (FinalizeDeck tableId handId))"

definition maybeFinalizeReveal :: "('p, 'w) dealer_env \<Rightarrow> string \<Rightarrow> string \<Rightarrow> js_number \<Rightarrow> ('w, bool) act" where
  "maybeFinalizeReveal E tableId handId pos =
     (if \<not> dc_autoFinalize (de_config E) then aret False else trySubmit E (FinalizeReveal tableId handId pos))"

definition maybeTick :: "('p, 'w) dealer_env \<Rightarrow> string \<Rightarrow> ('w, bool) act" where
  "maybeTick E tableId = trySubmit E (Tick tableId)"

definition maybeDealerTimeout :: "('p, 'w) dealer_env \<Rightarrow> string \<Rightarrow> string \<Rightarrow> ('w, bool) act" where
  "maybeDealerTimeout E tableId handId = trySubmit E (DealerTimeout tableId handId)"

subsection \<open>The polling cycle\<close>

datatype Phase = PhBetting | PhShuffle | PhAwaitFlop | PhAwaitTurn | PhAwaitRiver | PhAwaitShowdown | PhShowdown | PhOther string

definition normalizePhase :: "string \<Rightarrow> Phase" where
  "normalizePhase raw =
     (let s = toLowerCase raw;
          clean = (if startsWith s ''hand_phase_'' then drop (length ''hand_phase_'') s else s)
      in if clean = ''betting'' then PhBetting
         else if clean = ''shuffle'' then PhShuffle
         else if clean = ''await_flop'' then PhAwaitFlop
         else if clean = ''await_turn'' then PhAwaitTurn
         else if clean = ''await_river'' then PhAwaitRiver
         else if clean = ''await_showdown'' then PhAwaitShowdown
         else if clean = ''showdown'' then PhShowdown
         else PhOther clean)"

definition eligiblePositions :: "HandJson \<Rightarrow> js_number list \<Rightarrow> js_number list" where
  "eligiblePositions h holePos =
     concat (map (\<lambda>seat.
       if \<not> aget False (hj_inHand h) seat \<or> aget False (hj_folded h) seat then []
       else filter (\<lambda>p. 0 \<le> p \<and> p \<noteq> 255) [holePos ! (seat * 2), holePos ! (seat * 2 + 1)]) [0..<9])"

definition expectedRevealPos :: "TableJson \<Rightarrow> js_number option" where
  "expectedRevealPos table =
     (case tb_hand table of
        None \<Rightarrow> None
      | Some h \<Rightarrow>
          (case hj_dealer h of
             None \<Rightarrow> None
           | Some dh \<Rightarrow>
               if \<not> (case tj_finalized dh of Some b \<Rightarrow> b | None \<Rightarrow> (case tj_deckFinalized dh of Some b \<Rightarrow> b | None \<Rightarrow> False)) then None
               else
                 let phase = normalizePhase (hj_phase h);
                     explicitPos = asNumber (tj_revealPos dh)
                 in if (case explicitPos of None \<Rightarrow> False | Some p \<Rightarrow> 0 \<le> p \<and> p \<noteq> 255) then explicitPos
                    else if phase = PhAwaitFlop \<or> phase = PhAwaitTurn \<or> phase = PhAwaitRiver
                    then Some ((case asNumber (tj_cursor dh) of None \<Rightarrow> 0 | Some c \<Rightarrow> c) + of_nat (hj_boardLength h))
                    else if phase = PhAwaitShowdown
                    then
                      let holePos = List.map_filter asNumber (tj_holePos dh);
                          reveals = List.map_filter asNumber (tj_reveals dh)
                      in if length holePos \<noteq> 18 then None
                         else find (\<lambda>p. p \<notin> set reveals) (sort (eligiblePositions h holePos))
                    else None))"

definition parseEphemeral :: "JsonBytes option \<Rightarrow> byte list option" where
  "parseEphemeral raw =
     (case raw of
        None \<Rightarrow> None
      | Some (RawBytes bs) \<Rightarrow> if bs \<noteq> [] then Some bs else None
      | Some (TextBytes t) \<Rightarrow>
          if t = [] then None
          else let s = (if startsWith t ''0x'' then drop 2 t else t)
               in if list_all (\<lambda>c. hexValue c \<noteq> None) s \<and> length s = 64 then Some (hexPairs s)
                  else let buf = fromBase64 t in if buf \<noteq> [] then Some buf else None)"

definition parseMembersFromEpoch :: "MemberJson list \<Rightarrow> ParsedMember list" where
  "parseMembersFromEpoch raw =
     List.map_filter (\<lambda>m.
       if mj_validator m = [] then None
       else map_option (\<lambda>index. \<lparr>pm_validator = mj_validator m, pm_index = index,
                                pm_ephemeralPubkey = parseEphemeral (mj_ephemeralPubkey m)\<rparr>) (asNumber (mj_index m))) raw"

text \<open>\<^verbatim>\<open>.catch(...)\<close> on a call whose result is not used.\<close>

definition attempt :: "('w, 'a) act \<Rightarrow> ('w, unit) act" where
  "attempt m = acatch (abind m (\<lambda>_. aret ())) (\<lambda>_. aret ())"

definition processTable :: "('p, 'w) dealer_env \<Rightarrow> js_number \<Rightarrow> ParsedMember list \<Rightarrow> string \<Rightarrow> ('w, unit) act" where
  "processTable E epochId epochMembers tableId =
     abind (acatch (query (\<lambda>w. cl_getTable (de_client E) w tableId)) (\<lambda>_. aret None)) (\<lambda>fetched. case fetched of
       None \<Rightarrow> aret ()
     | Some table \<Rightarrow>
         (case tb_hand table of
            None \<Rightarrow> attempt (maybeStartAndInitHand E tableId epochId)
          | Some hand \<Rightarrow>
              let handId = (case hj_handId hand of None \<Rightarrow> [] | Some i \<Rightarrow> i) in
              if handId = [] then attempt (maybeStartAndInitHand E tableId epochId)
              else
                let phase = normalizePhase (hj_phase hand);
                    deckFinalized = (case hj_dealer hand of
                        None \<Rightarrow> False
                      | Some d \<Rightarrow> (case tj_deckFinalized d of Some b \<Rightarrow> b | None \<Rightarrow> False));
                    dealerEpochId = (case hj_dealer hand of
                        None \<Rightarrow> 0
                      | Some d \<Rightarrow> (case asNumber (tj_epochId d) of None \<Rightarrow> 0 | Some n \<Rightarrow> n))
                in
                abind
                  (if phase = PhShuffle \<and> \<not> deckFinalized
                   then if dealerEpochId = 0 then attempt (submit E (InitHand tableId handId epochId))
                        else abind (attempt (handleShuffle E tableId handId epochMembers)) (\<lambda>_.
                             attempt (maybeFinalizeDeck E tableId handId))
                   else if deckFinalized \<and> (phase = PhShuffle \<or> phase = PhBetting)
                   then attempt (handleEncShares E tableId handId epochId)
                   else if phase \<in> {PhAwaitFlop, PhAwaitTurn, PhAwaitRiver, PhAwaitShowdown}
                   then (case expectedRevealPos table of
                           None \<Rightarrow> aret ()
                         | Some pos \<Rightarrow>
                             abind (attempt (handlePubShare E tableId handId epochId pos)) (\<lambda>_.
                             attempt (maybeFinalizeReveal E tableId handId pos)))
                   else aret ()) (\<lambda>_.
                abind (if phase = PhBetting then attempt (maybeTick E tableId) else aret ()) (\<lambda>_.
                attempt (maybeDealerTimeout E tableId handId)))))"

text \<open>The five phases of key generation; a vanished run ends the cycle.\<close>

definition dkgCycle :: "('p, 'w) dealer_env \<Rightarrow> DkgJson \<Rightarrow> ('w, unit) act" where
  "dkgCycle E dkg =
     (let dkgMembers = parseMembersFromEpoch (ej_members dkg);
          epochId = (case asNumber (ej_epochId dkg) of None \<Rightarrow> 0 | Some n \<Rightarrow> n);
          refetch = acatch (query (cl_getDealerDkg (de_client E))) (\<lambda>_. aret None)
      in if \<not> (dkgMembers \<noteq> [] \<and> 0 < epochId) then aret ()
         else
         abind (attempt (handleDkgCommit E epochId dkgMembers)) (\<lambda>_.
         abind refetch (\<lambda>d1. case d1 of None \<Rightarrow> aret () | Some dkgAfterCommit \<Rightarrow>
         abind (attempt (handleDkgEncryptedShares E epochId (parseMembersFromEpoch (ej_members dkgAfterCommit)) dkgAfterCommit)) (\<lambda>_.
         abind (attempt (handleDkgComplaints E epochId dkgMembers dkgAfterCommit)) (\<lambda>_.
         abind refetch (\<lambda>d2. case d2 of None \<Rightarrow> aret () | Some dkgAfterComplaints \<Rightarrow>
         abind (attempt (handleDkgReveals E epochId dkgMembers dkgAfterComplaints)) (\<lambda>_.
         abind refetch (\<lambda>d3. case d3 of None \<Rightarrow> aret () | Some dkgAfterReveals \<Rightarrow>
         abind (acatch (handleDkgAggregate E epochId dkgMembers dkgAfterReveals) (\<lambda>_. aret False)) (\<lambda>aggregated.
         if aggregated then attempt (maybeFinalizeEpoch E epochId) else aret ())))))))))"

definition pollOnce :: "('p, 'w) dealer_env \<Rightarrow> ('w, unit) act" where
  "pollOnce E =
     abind (acatch (query (cl_getDealerEpoch (de_client E))) (\<lambda>_. aret None)) (\<lambda>epoch.
     abind (acatch (query (cl_getDealerDkg (de_client E))) (\<lambda>_. aret None)) (\<lambda>dkg.
     abind (maybeBeaconParticipate E) (\<lambda>_.
     case dkg of
       Some d \<Rightarrow> dkgCycle E d
     | None \<Rightarrow>
         (case epoch of
            None \<Rightarrow> abind (maybeBeginEpoch E) (\<lambda>_. aret ())
          | Some ep \<Rightarrow>
              let epochId = (case asNumber (ej_epochId ep) of None \<Rightarrow> 0 | Some n \<Rightarrow> n);
                  epochMembers = parseMembersFromEpoch (ej_members ep)
              in abind (acatch (query (cl_getTables (de_client E))) (\<lambda>_. aret [])) (\<lambda>tableIds.
                 afold (\<lambda>tableId u. attempt (processTable E epochId epochMembers tableId)) tableIds ())))))"

end
