(* ===== verification/Dealer_Shares.thy ===== *)
theory Dealer_Shares
  imports Dealer_Daemon Hole_Correct
begin

text \<open>
  The shares a dealer daemon sends (\<^verbatim>\<open>handlers/encshares.ts\<close>, \<^verbatim>\<open>handlers/pubshares.ts\<close>). With enough entropy the
  handlers return, every card of every seated player gets exactly one share, the share encrypts the right
  multiple of the card's first component under the player's key, and its proof verifies.
\<close>

subsection \<open>Sequencing\<close>

lemma abind_simps [simp]:
  "m s = (Inr x, s') \<Longrightarrow> abind m k s = k x s'"
  "m s = (Inl e, s') \<Longrightarrow> abind m k s = (Inl e, s')"
  "abind (aret x) k = k x" "abind (alift (Inr x)) k = k x" "abind (alift (Inl e)) k = alift (Inl e)"
  by (auto simp: abind_def aret_def alift_def fun_eq_iff)

lemma acatch_simps [simp]:
  "m s = (Inr x, s') \<Longrightarrow> acatch m h s = (Inr x, s')"
  "m s = (Inl e, s') \<Longrightarrow> acatch m h s = h e s'"
  by (simp_all add: acatch_def)

lemma act_apply [simp]:
  "aret x s = (Inr x, s)" "alift r s = (r, s)" "query q s = (q (dm_world s), s)" "storeLoad e s = (Inr (dm_store s e), s)"
  by (simp_all add: aret_def alift_def query_def storeLoad_def)

subsection \<open>Entropy\<close>

text \<open>The random supply yields \<open>n\<close> more scalars.\<close>

fun entropy :: "nat \<Rightarrow> byte list \<Rightarrow> bool" where
  "entropy 0 r = True"
| "entropy (Suc n) r = (case drawNonzero r of Inl _ \<Rightarrow> False | Inr (k, r') \<Rightarrow> entropy n r')"

lemma entropy_replicate: "entropy n (replicate (64 * n) 1)"
proof (induction n)
  case (Suc n)
  let ?s = "scalarMod (bytesToBigintLE (replicate 64 1))"
  have "?s \<noteq> 0" by code_simp
  moreover have "replicate (64 * Suc n) (1 :: byte) = replicate 64 1 @ replicate (64 * n) 1"
    by (simp add: replicate_add)
  ultimately have "drawNonzero (replicate (64 * Suc n) 1) = Inr (?s, replicate (64 * n) 1)"
    by (simp add: drawNonzero.simps [of "replicate 64 1 @ r" for r])
  then show ?case using Suc.IH by simp
qed simp

lemma entropy_mono: "entropy (m + n) r \<Longrightarrow> entropy m r"
  by (induction m arbitrary: r) (auto split: sum.splits)

lemma drawNonzero_range: "drawNonzero r = Inr (k, r') \<Longrightarrow> nonzero_scalar k"
proof (induction r rule: drawNonzero.induct)
  case (1 r)
  let ?s = "scalarMod (bytesToBigintLE (take 64 r))"
  have range: "0 \<le> ?s \<and> ?s < CURVE_ORDER" by (simp add: scalarMod_eq)
  have l: "\<not> length r < 64" using 1(2) by (auto simp: drawNonzero.simps [of r])
  show ?case
  proof (cases "?s = 0")
    case True
    then show ?thesis using 1(1) [OF l refl] 1(2) l by (simp add: drawNonzero.simps [of r])
  next
    case False
    then have "k = ?s" using 1(2) l by (simp add: drawNonzero.simps [of r] Let_def)
    then show ?thesis using range False by linarith
  qed
qed

lemma nonzeroScalar_ok:
  assumes "entropy (Suc n) (dm_random s)"
  obtains k r where "nonzeroScalar s = (Inr k, s\<lparr>dm_random := r\<rparr>)" and "nonzero_scalar k" and "entropy n r"
proof -
  obtain k r where d: "drawNonzero (dm_random s) = Inr (k, r)" "entropy n r"
    using assms by (auto split: sum.splits)
  show thesis by (rule that [of k r]) (use d drawNonzero_range [OF d(1)] in \<open>simp_all add: nonzeroScalar_def\<close>)
qed

lemma nonzeroScalar_thrice:
  assumes "entropy (3 + n) (dm_random s)"
  obtains a b c r1 r2 r3 where "nonzeroScalar s = (Inr a, s\<lparr>dm_random := r1\<rparr>)"
    and "nonzeroScalar (s\<lparr>dm_random := r1\<rparr>) = (Inr b, s\<lparr>dm_random := r2\<rparr>)"
    and "nonzeroScalar (s\<lparr>dm_random := r2\<rparr>) = (Inr c, s\<lparr>dm_random := r3\<rparr>)"
    and "nonzero_scalar a" and "nonzero_scalar b" and "nonzero_scalar c" and "entropy n r3"
proof -
  obtain a r1 where a: "nonzeroScalar s = (Inr a, s\<lparr>dm_random := r1\<rparr>)" "nonzero_scalar a" "entropy (Suc (Suc n)) r1"
    by (rule nonzeroScalar_ok [of "Suc (Suc n)" s]) (use assms in \<open>simp_all add: numeral_3_eq_3\<close>)
  obtain b r2 where b: "nonzeroScalar (s\<lparr>dm_random := r1\<rparr>) = (Inr b, s\<lparr>dm_random := r2\<rparr>)" "nonzero_scalar b" "entropy (Suc n) r2"
    by (rule nonzeroScalar_ok [of "Suc n" "s\<lparr>dm_random := r1\<rparr>"]) (use a(3) in simp_all)
  obtain c r3 where c: "nonzeroScalar (s\<lparr>dm_random := r2\<rparr>) = (Inr c, s\<lparr>dm_random := r3\<rparr>)" "nonzero_scalar c" "entropy n r3"
    by (rule nonzeroScalar_ok [of n "s\<lparr>dm_random := r2\<rparr>"]) (use b(3) in simp_all)
  show thesis by (rule that [OF a(1) b(1) c(1) a(2) b(2) c(2,3)])
qed

subsection \<open>Challenges are always drawn\<close>

lemma challengeScalar_total:
  assumes "hash64 H" and "length (utf8 l) < 100"
  shows "\<exists>r. challengeScalar H h l = Inr r"
proof -
  have u: "updateLenBytes h x = Inr (h @ lenFrame x)" if "length x < 100" for h x
    unfolding updateLenBytes_Inr using that by simp
  have l: "length (H x) = 64" for x using assms(1) by (simp add: hash64_def)
  then have "H x \<noteq> []" for x by (metis list.size(3) zero_neq_numeral)
  then show ?thesis using assms(2) l
    by (simp add: challengeScalar_def u Let_def scalarFromBytesModOrder_def)
qed

lemma transcriptChallenge_total:
  assumes "hash64 H" and "length (utf8 d) < 100" and "\<forall>m\<in>set ms. small_msg m" and "length (utf8 l) < 100"
  shows "\<exists>e. transcriptChallenge H d ms l = Inr e"
proof -
  obtain h where "newTranscript d = Inr h" using assms(2) by (simp add: newTranscript_def updateLenBytes_Inr)
  moreover obtain h1 where "appendAll h ms = Inr h1" using assms(3) appendAll_Inr by blast
  moreover obtain r where "challengeScalar H h1 l = Inr r" using challengeScalar_total [OF assms(1,4)] by blast
  ultimately show ?thesis by (simp add: transcriptChallenge_def)
qed

lemma encShareChallenge_total:
  assumes "ristretto C dl" and "hash64 H"
  shows "\<exists>e. encShareChallenge C H y c1 pkP u v a1 a2 a3 = Inr e"
  unfolding encShareChallenge_def
  by (rule transcriptChallenge_total [OF assms(2)])
    (simp_all add: small_msg_def ENC_SHARE_DOMAIN_def utf8_def utf8Char_def ristretto_width [OF assms(1)])

lemma cpChallenge_total:
  assumes "ristretto C dl" and "hash64 H"
  shows "\<exists>e. cpChallenge C H y c1 d a b = Inr e"
  unfolding cpChallenge_def
  by (rule transcriptChallenge_total [OF assms(2)])
    (simp_all add: small_msg_def CP_DOMAIN_def utf8_def utf8Char_def ristretto_width [OF assms(1)])

subsection \<open>One share\<close>

text \<open>
  A share of a card for a player: the ElGamal encryption, under the player's key, of \<open>x\<close> times the first
  component of the card, and a proof that verifies unless a scalar it must multiply by is 0.
\<close>

definition valid_enc_share :: "'p curve \<Rightarrow> hash \<Rightarrow> ('p \<Rightarrow> int) \<Rightarrow> int \<Rightarrow> 'p \<Rightarrow> 'p \<Rightarrow> byte list \<Rightarrow> byte list \<Rightarrow> bool" where
  "valid_enc_share C H dl x pk c1 enc proofBytes \<longleftrightarrow>
     (\<exists>u v y p. enc = groupElementToBytes C u @ groupElementToBytes C v \<and> mulBase C x = Inr y
        \<and> eqmod (dl v) (x * dl c1 + dl pk * dl u) \<and> encodeEncShareProof C p = Inr proofBytes
        \<and> (encShareChallenge C H y c1 pk u v (es_a1 p) (es_a2 p) (es_a3 p) \<noteq> Inr 0 \<and> es_sx p \<noteq> 0 \<and> es_sr p \<noteq> 0
             \<longrightarrow> encShareVerify C H y c1 pk u v p = Inr True))"

lemma encShareProve_ok:
  assumes R: "ristretto C dl" and H: "hash64 H" and y: "mulBase C x = Inr y" and u: "mulBase C r = Inr u"
    and v: "mulAdd C c1 x pk r = Inr v" and w: "nonzero_scalar wx" "nonzero_scalar wr"
  obtains p where "encShareProve C H y c1 pk u v x r wx wr = Inr p"
    and "encShareChallenge C H y c1 pk u v (es_a1 p) (es_a2 p) (es_a3 p) \<noteq> Inr 0 \<and> es_sx p \<noteq> 0 \<and> es_sr p \<noteq> 0
      \<longrightarrow> encShareVerify C H y c1 pk u v p = Inr True"
    and "\<exists>bs. encodeEncShareProof C p = Inr bs"
proof -
  note x = mulBase_Inr(1) [OF R y] and r = mulBase_Inr(1) [OF R u]
  obtain a1 a2 a3 where a: "mulBase C wx = Inr a1" "mulBase C wr = Inr a2" "mulAdd C c1 wx pk wr = Inr a3"
    using mulBase_ok [OF R] mulAdd_ok [OF R] w by metis
  obtain e where e: "encShareChallenge C H y c1 pk u v a1 a2 a3 = Inr e" using encShareChallenge_total [OF R H] by blast
  have er: "0 \<le> e" "e < CURVE_ORDER" using challenge_range e unfolding encShareChallenge_def by blast+
  define p where "p = \<lparr>es_a1 = a1, es_a2 = a2, es_a3 = a3, es_sx = scalarAdd wx (scalarMul e x), es_sr = scalarAdd wr (scalarMul e r)\<rparr>"
  have as: "assertScalar k = Inr ()" if "0 \<le> k \<and> k < CURVE_ORDER" for k using that by (simp add: assertScalar_def)
  have "encShareProve C H y c1 pk u v x r wx wr = Inr p"
    using x r w a e by (simp add: encShareProve_def as p_def)
  moreover have "encShareVerify C H y c1 pk u v p = Inr True" if "e \<noteq> 0" "es_sx p \<noteq> 0" "es_sr p \<noteq> 0"
  proof -
    have "shareChecks C y c1 pk u v p e = Inr True"
      by (rule share_complete [OF R y u v a(1,2,3) p_def _ that(2,3)]) (use er that(1) in linarith)
    then show ?thesis unfolding encShareVerify_shape
      by (simp add: p_def as e)
  qed
  moreover have "\<exists>bs. encodeEncShareProof C p = Inr bs"
  proof -
    have "\<exists>b. scalarToBytes (scalarAdd k l) = Inr b" for k l using scalarToBytes_ok [OF scalar_range(3,4)] by blast
    then obtain b1 b2 where "scalarToBytes (es_sx p) = Inr b1" "scalarToBytes (es_sr p) = Inr b2" unfolding p_def by fastforce
    then show ?thesis by (simp add: encodeEncShareProof_def)
  qed
  ultimately show thesis using that e by (auto simp: p_def)
qed

lemma makeEncShare_ok:
  assumes R: "ristretto (de_curve E) dl" and H: "hash64 (de_sha512 E)" and y: "mulBase (de_curve E) x = Inr y"
    and n: "entropy (3 + n) (dm_random s)"
  obtains enc proofBytes r where "makeEncShare E x y pk c1 s = (Inr (enc, proofBytes), s\<lparr>dm_random := r\<rparr>)"
    and "valid_enc_share (de_curve E) (de_sha512 E) dl x pk c1 enc proofBytes" and "entropy n r"
proof -
  let ?C = "de_curve E" and ?H = "de_sha512 E"
  note x = mulBase_Inr(1) [OF R y]
  obtain d where d: "mulPoint ?C c1 x = Inr d" "dl d = (x * dl c1) mod CURVE_ORDER" by (rule mulPoint_ok [OF R x])
  obtain k wx wr r1 r2 r3 where draw: "nonzeroScalar s = (Inr k, s\<lparr>dm_random := r1\<rparr>)"
    "nonzeroScalar (s\<lparr>dm_random := r1\<rparr>) = (Inr wx, s\<lparr>dm_random := r2\<rparr>)"
    "nonzeroScalar (s\<lparr>dm_random := r2\<rparr>) = (Inr wr, s\<lparr>dm_random := r3\<rparr>)"
    and k: "nonzero_scalar k" "nonzero_scalar wx" "nonzero_scalar wr" "entropy n r3"
    by (rule nonzeroScalar_thrice [OF n])
  obtain u where u: "mulBase ?C k = Inr u" "dl u = k" using mulBase_ok [OF R k(1)] by blast
  obtain m where m: "mulPoint ?C pk k = Inr m" "dl m = (k * dl pk) mod CURVE_ORDER" by (rule mulPoint_ok [OF R k(1)])
  have v: "mulAdd ?C c1 x pk k = Inr (pointAdd ?C d m)" using d m by (simp add: mulAdd_def)
  obtain p bs where p: "encShareProve ?C ?H y c1 pk u (pointAdd ?C d m) x k wx wr = Inr p"
    "encShareChallenge ?C ?H y c1 pk u (pointAdd ?C d m) (es_a1 p) (es_a2 p) (es_a3 p) \<noteq> Inr 0 \<and> es_sx p \<noteq> 0 \<and> es_sr p \<noteq> 0
      \<longrightarrow> encShareVerify ?C ?H y c1 pk u (pointAdd ?C d m) p = Inr True" "encodeEncShareProof ?C p = Inr bs"
    using encShareProve_ok [OF R H y u(1) v k(2,3)] by blast
  have "eqmod (dl (pointAdd ?C d m)) (x * dl c1 + dl pk * dl u)"
    using d(2) m(2) u(2) by (simp add: ristretto_add [OF R] mod_simps mult.commute)
  then have "valid_enc_share ?C ?H dl x pk c1 (groupElementToBytes ?C u @ groupElementToBytes ?C (pointAdd ?C d m)) bs"
    unfolding valid_enc_share_def using y p by blast
  moreover have "makeEncShare E x y pk c1 s =
      (Inr (groupElementToBytes ?C u @ groupElementToBytes ?C (pointAdd ?C d m), bs), s\<lparr>dm_random := r3\<rparr>)"
    using d(1) draw u(1) m(1) p(1,3) by (simp add: makeEncShare_def Let_def)
  ultimately show thesis using that k(4) by blast
qed

subsection \<open>The loops over seats and cards\<close>

text \<open>A client that accepts every message; \<open>L\<close> reads the messages accepted so far off the chain state.\<close>

definition accepting :: "'w chain_client \<Rightarrow> ('w \<Rightarrow> DaemonMsg list) \<Rightarrow> bool" where
  "accepting cl L \<longleftrightarrow> (\<forall>w m. \<exists>w'. cl_submit cl w m = (None, w') \<and> L w' = L w @ [m])"

lemma submit_ok:
  assumes "accepting (de_client E) L"
  obtains w where "submit E m s = (Inr (), s\<lparr>dm_world := w\<rparr>)" and "L w = L (dm_world s) @ [m]"
  using assms unfolding accepting_def submit_def by (metis (mono_tags, lifting) case_prod_conv option.simps(4))

text \<open>
  From every state with three scalars of entropy per target, the call returns \<open>r\<close>, keeps the secrets, and
  sends one message per target, in order.
\<close>

definition runs_to :: "('w \<Rightarrow> DaemonMsg list) \<Rightarrow> ('t \<Rightarrow> DaemonMsg \<Rightarrow> bool) \<Rightarrow> 'a \<Rightarrow> ('w, 'a) act \<Rightarrow> 't list \<Rightarrow> bool" where
  "runs_to L ok r m ts \<longleftrightarrow>
     (\<forall>s n. entropy (3 * length ts + n) (dm_random s) \<longrightarrow>
        (\<exists>s' msgs. m s = (Inr r, s') \<and> dm_store s' = dm_store s \<and> entropy n (dm_random s')
           \<and> L (dm_world s') = L (dm_world s) @ msgs \<and> list_all2 ok ts msgs))"

lemma runs_to_D:
  assumes "runs_to L ok r m ts" and "entropy (3 * length ts + n) (dm_random s)"
  obtains s' msgs where "m s = (Inr r, s')" "dm_store s' = dm_store s" "entropy n (dm_random s')"
    "L (dm_world s') = L (dm_world s) @ msgs" "list_all2 ok ts msgs"
  using assms unfolding runs_to_def by blast

lemma runs_to_ret [simp]: "runs_to L ok r (aret r) []"
  by (simp add: runs_to_def)

lemma runs_to_auntil:
  fixes L :: "'w \<Rightarrow> DaemonMsg list"
  assumes "\<forall>x\<in>set xs. runs_to L ok False (f x) (g x)"
  shows "runs_to L ok False (auntil f xs) (concat (map g xs))"
  using assms
proof (induction xs)
  case (Cons x xs)
  show ?case unfolding runs_to_def
  proof (intro allI impI)
    fix s :: "'w daemon" and n assume "entropy (3 * length (concat (map g (x # xs))) + n) (dm_random s)"
    then have e: "entropy (3 * length (g x) + (3 * length (concat (map g xs)) + n)) (dm_random s)"
      by (simp add: add.assoc distrib_left)
    obtain s1 m1 where 1: "f x s = (Inr False, s1)" "dm_store s1 = dm_store s"
      "entropy (3 * length (concat (map g xs)) + n) (dm_random s1)"
      "L (dm_world s1) = L (dm_world s) @ m1" "list_all2 ok (g x) m1"
      by (rule runs_to_D [of L ok False "f x" "g x", OF _ e]) (use Cons.prems in auto)
    obtain s2 m2 where 2: "auntil f xs s1 = (Inr False, s2)" "dm_store s2 = dm_store s1" "entropy n (dm_random s2)"
      "L (dm_world s2) = L (dm_world s1) @ m2" "list_all2 ok (concat (map g xs)) m2"
      by (rule runs_to_D [OF Cons.IH 1(3)]) (use Cons.prems in auto)
    show "\<exists>s' msgs. auntil f (x # xs) s = (Inr False, s') \<and> dm_store s' = dm_store s \<and> entropy n (dm_random s')
        \<and> L (dm_world s') = L (dm_world s) @ msgs \<and> list_all2 ok (concat (map g (x # xs))) msgs"
      using 1 2 by (intro exI [of _ s2] exI [of _ "m1 @ m2"]) (simp add: abind_def list_all2_appendI)
  qed
qed simp

lemma runs_to_afold:
  fixes L :: "'w \<Rightarrow> DaemonMsg list"
  assumes "\<forall>x\<in>set xs. runs_to L ok () (f x ()) (g x)"
  shows "runs_to L ok () (afold f xs ()) (concat (map g xs))"
  using assms
proof (induction xs)
  case (Cons x xs)
  show ?case unfolding runs_to_def
  proof (intro allI impI)
    fix s :: "'w daemon" and n assume "entropy (3 * length (concat (map g (x # xs))) + n) (dm_random s)"
    then have e: "entropy (3 * length (g x) + (3 * length (concat (map g xs)) + n)) (dm_random s)"
      by (simp add: add.assoc distrib_left)
    obtain s1 m1 where 1: "f x () s = (Inr (), s1)" "dm_store s1 = dm_store s"
      "entropy (3 * length (concat (map g xs)) + n) (dm_random s1)"
      "L (dm_world s1) = L (dm_world s) @ m1" "list_all2 ok (g x) m1"
      by (rule runs_to_D [of L ok "()" "f x ()" "g x", OF _ e]) (use Cons.prems in auto)
    obtain s2 m2 where 2: "afold f xs () s1 = (Inr (), s2)" "dm_store s2 = dm_store s1" "entropy n (dm_random s2)"
      "L (dm_world s2) = L (dm_world s1) @ m2" "list_all2 ok (concat (map g xs)) m2"
      by (rule runs_to_D [OF Cons.IH 1(3)]) (use Cons.prems in auto)
    show "\<exists>s' msgs. afold f (x # xs) () s = (Inr (), s') \<and> dm_store s' = dm_store s \<and> entropy n (dm_random s')
        \<and> L (dm_world s') = L (dm_world s) @ msgs \<and> list_all2 ok (concat (map g (x # xs))) msgs"
      using 1 2 by (intro exI [of _ s2] exI [of _ "m1 @ m2"]) (simp add: abind_def list_all2_appendI)
  qed
qed simp

text \<open>The cards a hand deals: position, the player's key as bytes and as a point, first component.\<close>

type_synonym 'p target = "js_number \<times> byte list \<times> 'p \<times> 'p"

definition cardTarget :: "js_number list \<Rightarrow> 'p ElGamalCiphertext list \<Rightarrow> byte list \<Rightarrow> 'p \<Rightarrow> nat \<Rightarrow> nat \<Rightarrow> 'p target list" where
  "cardTarget holePos deck pkb pk seat cardIdx =
     (let pos = aget 255 holePos (seat * 2 + cardIdx)
      in if pos < 0 \<or> pos = 255 then []
         else case deckEntry deck pos of None \<Rightarrow> [] | Some ct \<Rightarrow> [(pos, pkb, pk, ct_c1 ct)])"

definition seatTargets :: "'p curve \<Rightarrow> js_number list \<Rightarrow> 'p ElGamalCiphertext list \<Rightarrow> SeatJson option list \<Rightarrow> nat \<Rightarrow> 'p target list" where
  "seatTargets C holePos deck seats seat =
     (case aget None seats seat of
        None \<Rightarrow> []
      | Some d \<Rightarrow>
          if sj_player d = [] then []
          else case rbind (daemonBytes (sj_pk d)) (\<lambda>b. rbind (groupElementFromBytes C b) (\<lambda>p. Inr (b, p))) of
            Inl _ \<Rightarrow> []
          | Inr (pkb, pk) \<Rightarrow> concat (map (cardTarget holePos deck pkb pk seat) [0, 1]))"

definition handTargets :: "'p curve \<Rightarrow> js_number list \<Rightarrow> 'p ElGamalCiphertext list \<Rightarrow> SeatJson option list \<Rightarrow> 'p target list" where
  "handTargets C holePos deck seats = concat (map (seatTargets C holePos deck seats) [0..<9])"

text \<open>The message that delivers a target's share of the hand key \<open>x\<close>.\<close>

definition delivers :: "('p, 'w) dealer_env \<Rightarrow> ('p \<Rightarrow> int) \<Rightarrow> int \<Rightarrow> string \<Rightarrow> string \<Rightarrow> 'p target \<Rightarrow> DaemonMsg \<Rightarrow> bool" where
  "delivers E dl x tableId handId t m \<longleftrightarrow>
     (case t of (pos, pkb, pk, c1) \<Rightarrow>
        \<exists>enc proofBytes. m = SubmitEncShare (dc_validatorAddress (de_config E)) tableId handId pos pkb enc proofBytes
          \<and> valid_enc_share (de_curve E) (de_sha512 E) dl x pk c1 enc proofBytes)"

lemma encShareCard_runs:
  fixes L :: "'w \<Rightarrow> DaemonMsg list"
  assumes R: "ristretto (de_curve E) dl" and H: "hash64 (de_sha512 E)" and y: "mulBase (de_curve E) x = Inr y"
    and A: "accepting (de_client E) L"
  shows "runs_to L (delivers E dl x tableId handId) False (encShareCard E tableId handId holePos deck x y pkb pk seat i)
    (cardTarget holePos deck pkb pk seat i)"
proof -
  let ?pos = "aget 255 holePos (seat * 2 + i)"
  show ?thesis
  proof (cases "?pos < 0 \<or> ?pos = 255 \<or> deckEntry deck ?pos = None")
    case True
    then show ?thesis by (auto simp: encShareCard_def cardTarget_def Let_def)
  next
    case False
    then obtain ct where ct: "deckEntry deck ?pos = Some ct" by blast
    have t: "cardTarget holePos deck pkb pk seat i = [(?pos, pkb, pk, ct_c1 ct)]"
      using False ct by (simp add: cardTarget_def)
    show ?thesis unfolding runs_to_def t
    proof (intro allI impI)
      fix s :: "'w daemon" and n assume "entropy (3 * length [(?pos, pkb, pk, ct_c1 ct)] + n) (dm_random s)"
      then have e: "entropy (3 + n) (dm_random s)" by simp
      obtain enc pb r where m: "makeEncShare E x y pk (ct_c1 ct) s = (Inr (enc, pb), s\<lparr>dm_random := r\<rparr>)"
        "valid_enc_share (de_curve E) (de_sha512 E) dl x pk (ct_c1 ct) enc pb" "entropy n r"
        by (rule makeEncShare_ok [OF R H y e])
      let ?msg = "SubmitEncShare (dc_validatorAddress (de_config E)) tableId handId ?pos pkb enc pb"
      obtain w where w: "submit E ?msg (s\<lparr>dm_random := r\<rparr>) = (Inr (), s\<lparr>dm_random := r, dm_world := w\<rparr>)"
        "L w = L (dm_world s) @ [?msg]"
        using submit_ok [OF A, of ?msg "s\<lparr>dm_random := r\<rparr>"] by auto
      have "encShareCard E tableId handId holePos deck x y pkb pk seat i s = (Inr False, s\<lparr>dm_random := r, dm_world := w\<rparr>)"
        using False ct m(1) w(1) by (simp add: encShareCard_def abind_def acatch_def)
      then show "\<exists>s' msgs. encShareCard E tableId handId holePos deck x y pkb pk seat i s = (Inr False, s')
          \<and> dm_store s' = dm_store s \<and> entropy n (dm_random s') \<and> L (dm_world s') = L (dm_world s) @ msgs
          \<and> list_all2 (delivers E dl x tableId handId) [(?pos, pkb, pk, ct_c1 ct)] msgs"
        using w(2) m(2,3) by (intro exI [of _ "s\<lparr>dm_random := r, dm_world := w\<rparr>"] exI [of _ "[?msg]"]) (simp add: delivers_def)
    qed
  qed
qed

lemma encShareSeat_runs:
  assumes "ristretto (de_curve E) dl" and "hash64 (de_sha512 E)" and "mulBase (de_curve E) x = Inr y"
    and "accepting (de_client E) L"
  shows "runs_to L (delivers E dl x tableId handId) False (encShareSeat E tableId handId holePos deck x y seats seat)
    (seatTargets (de_curve E) holePos deck seats seat)"
proof (cases "aget None seats seat")
  case (Some d)
  have none: "\<exists>e. daemonBytes r = Inl e" if "r = None \<or> r = Some (TextBytes [])" for r
    using that by (auto simp: daemonBytes_def)
  let ?key = "rbind (daemonBytes (sj_pk d)) (\<lambda>b. rbind (groupElementFromBytes (de_curve E) b) (\<lambda>p. Inr (b, p)))"
  show ?thesis
  proof (cases "sj_player d = [] \<or> sj_pk d = None \<or> sj_pk d = Some (TextBytes [])")
    case True
    then show ?thesis using Some none [of "sj_pk d"] by (auto simp: encShareSeat_def seatTargets_def)
  next
    case False
    show ?thesis
    proof (cases ?key)
      case (Inr k)
      obtain pkb pk where k: "k = (pkb, pk)" by (cases k)
      have "runs_to L (delivers E dl x tableId handId) False (auntil (encShareCard E tableId handId holePos deck x y pkb pk seat) [0, 1])
          (concat (map (cardTarget holePos deck pkb pk seat) [0, 1]))"
        by (rule runs_to_auntil) (simp add: encShareCard_runs [OF assms])
      then show ?thesis using Some False Inr k by (auto simp: encShareSeat_def seatTargets_def)
    qed (use Some False in \<open>auto simp: encShareSeat_def seatTargets_def\<close>)
  qed
qed (simp add: encShareSeat_def seatTargets_def)

lemma encShareSeats_run:
  assumes "ristretto (de_curve E) dl" and "hash64 (de_sha512 E)" and "mulBase (de_curve E) x = Inr y"
    and "accepting (de_client E) L"
  shows "runs_to L (delivers E dl x tableId handId) False (auntil (encShareSeat E tableId handId holePos deck x y seats) [0..<9])
    (handTargets (de_curve E) holePos deck seats)"
  unfolding handTargets_def by (rule runs_to_auntil) (simp add: encShareSeat_runs [OF assms])

subsection \<open>Hexadecimal text of a bigint\<close>

lemma hexNat_digits: "hexNat n \<noteq> [] \<and> \<not> list_ex (\<lambda>c. case hexValue c of None \<Rightarrow> True | Some v \<Rightarrow> 16 \<le> v) (hexNat n)
    \<and> foldl (\<lambda>v c. v * 16 + the (hexValue c)) 0 (hexNat n) = int n"
proof (induction n rule: hexNat.induct)
  case (1 n)
  show ?case
  proof (cases "n < 16")
    case True
    then show ?thesis by (simp add: hexNat.simps [of n] hexDigit(1))
  next
    case False
    have "int (n div 16) * 16 + int (n mod 16) = int n"
      by (metis div_mult_mod_eq mult.commute of_nat_add of_nat_mult of_nat_numeral)
    then show ?thesis using 1 [OF False] False by (simp add: hexNat.simps [of n] hexDigit(1))
  qed
qed

text \<open>A stored share is read back.\<close>

lemma bigintHex_round_trip: "0 \<le> s \<Longrightarrow> bigintFromHex (bigintHex s) = Inr s"
  using hexNat_digits [of "nat s"] by (simp add: bigintFromHex_def bigintHex_def radixDigits_def)

lemma bigintHex_zero: "0 \<le> s \<Longrightarrow> bigintHex s = ''0'' \<longleftrightarrow> s = 0"
proof
  assume "0 \<le> s" and "bigintHex s = ''0''"
  then have "bigintFromHex ''0'' = Inr s" using bigintHex_round_trip [of s] by simp
  then show "s = 0" by (simp add: bigintFromHex_def radixDigits_def hexValue_def split: if_splits)
qed (simp add: bigintHex_def hexNat.simps HEX_DIGITS_def)

subsection \<open>The handler\<close>

text \<open>
  What a dealer sees when it deals the hand: the table with its 18 hole positions, the deck, and the scalar
  of the hand; and its share \<open>s\<close> of the epoch key in the store.
\<close>

definition sees_hand :: "('p, 'w) dealer_env \<Rightarrow> 'w \<Rightarrow> string \<Rightarrow> string \<Rightarrow> js_number \<Rightarrow> int
    \<Rightarrow> TableJson \<Rightarrow> DaemonHandJson \<Rightarrow> 'p ElGamalCiphertext list \<Rightarrow> bool" where
  "sees_hand E w tableId handId epochId k tbl hand deck \<longleftrightarrow>
     cl_getTable (de_client E) w tableId = Inr (Some tbl) \<and> length (tableHolePos tbl) = 18
   \<and> cl_getDealerHand (de_client E) w tableId handId = Inr (Some hand)
   \<and> handScalar E epochId tableId handId hand = Inr (Some k) \<and> decodeDeck (de_curve E) (dj_deck hand) = Inr deck"

definition holds_share :: "'w daemon \<Rightarrow> js_number \<Rightarrow> int \<Rightarrow> bool" where
  "holds_share st epochId s \<longleftrightarrow> (\<exists>secrets. dm_store st epochId = Some secrets \<and> sec_secretShare secrets = bigintHex s)"

definition deals_hand :: "('p, 'w) dealer_env \<Rightarrow> 'w daemon \<Rightarrow> string \<Rightarrow> string \<Rightarrow> js_number \<Rightarrow> int \<Rightarrow> int
    \<Rightarrow> TableJson \<Rightarrow> DaemonHandJson \<Rightarrow> 'p ElGamalCiphertext list \<Rightarrow> bool" where
  "deals_hand E st tableId handId epochId s k tbl hand deck \<longleftrightarrow>
     0 < s \<and> scalarMul s k \<noteq> 0 \<and> holds_share st epochId s \<and> sees_hand E (dm_world st) tableId handId epochId k tbl hand deck"

lemmas deals_hand_defs = deals_hand_def holds_share_def sees_hand_def

lemma handleEncShares_sends:
  assumes R: "ristretto (de_curve E) dl" and H: "hash64 (de_sha512 E)" and A: "accepting (de_client E) L"
    and D: "deals_hand E st tableId handId epochId s k tbl hand deck"
    and n: "entropy (3 * length (handTargets (de_curve E) (tableHolePos tbl) deck (tb_seats tbl))) (dm_random st)"
  obtains st' msgs where "handleEncShares E tableId handId epochId st = (Inr (), st')"
    and "L (dm_world st') = L (dm_world st) @ msgs"
    and "list_all2 (delivers E dl (scalarMul s k) tableId handId)
      (handTargets (de_curve E) (tableHolePos tbl) deck (tb_seats tbl)) msgs"
proof -
  let ?x = "scalarMul s k"
  obtain secrets where sec: "dm_store st epochId = Some secrets" "sec_secretShare secrets = bigintHex s"
    using D by (auto simp: deals_hand_defs)
  have s: "0 < s" and k: "?x \<noteq> 0" using D by (auto simp: deals_hand_defs)
  have x: "nonzero_scalar ?x" using k scalar_range(7,8) [of s k] by linarith
  obtain y where y: "mulBase (de_curve E) ?x = Inr y" using mulBase_ok [OF R x] by blast
  obtain st' msgs where run: "auntil (encShareSeat E tableId handId (tableHolePos tbl) deck ?x y (tb_seats tbl)) [0..<9] st = (Inr False, st')"
    "L (dm_world st') = L (dm_world st) @ msgs"
    "list_all2 (delivers E dl ?x tableId handId) (handTargets (de_curve E) (tableHolePos tbl) deck (tb_seats tbl)) msgs"
    by (rule runs_to_D [OF encShareSeats_run [OF R H y A], of "tableHolePos tbl" deck "tb_seats tbl" 0 st]) (use n in auto)
  have "handleEncShares E tableId handId epochId st = (Inr (), st')"
    using D sec s y run(1) bigintHex_round_trip [of s] bigintHex_zero [of s]
    by (simp add: handleEncShares_def deals_hand_defs abind_def Let_def)
  then show thesis using that run(2,3) by blast
qed

subsection \<open>A toy environment\<close>

text \<open>Integers modulo the order as the group, constant hashes, a cipher that appends 16 zero bytes.\<close>

definition demo_env :: "string \<Rightarrow> 'w chain_client \<Rightarrow> (int, 'w) dealer_env" where
  "demo_env address cl =
     \<lparr>de_curve = zq_curve, de_sha512 = constHash 3, de_sha256 = constHash 1, de_hmacSha256 = (\<lambda>k x. x),
      de_gcmEncrypt = (\<lambda>key iv aad x. x @ replicate 16 0), de_gcmDecrypt = (\<lambda>key iv aad x. Inr (take (length x - 16) x)),
      de_unsafeSeedAllowed = False, de_client = cl,
      de_config = \<lparr>dc_validatorAddress = address, dc_statePassphrase = [], dc_autoBeginEpoch = True, dc_autoInitHand = True,
                   dc_autoFinalize = True, dc_committeeSize = 2, dc_threshold = 2, dc_shuffleRounds = 2\<rparr>\<rparr>"

lemma demo_env_sel [simp]:
  "de_curve (demo_env a cl) = zq_curve" "de_sha512 (demo_env a cl) = constHash 3" "de_sha256 (demo_env a cl) = constHash 1"
  "de_client (demo_env a cl) = cl" "dc_validatorAddress (de_config (demo_env a cl)) = a"
  "de_gcmEncrypt (demo_env a cl) = (\<lambda>key iv aad x. x @ replicate 16 0)"
  "de_gcmDecrypt (demo_env a cl) = (\<lambda>key iv aad x. Inr (take (length x - 16) x))"
  by (simp_all add: demo_env_def)

text \<open>A chain that keeps the list of messages and answers nothing.\<close>

definition recording_client :: "DaemonMsg list chain_client" where
  "recording_client =
     \<lparr>cl_getDealerEpoch = (\<lambda>w. Inr None), cl_getDealerDkg = (\<lambda>w. Inr None), cl_getTables = (\<lambda>w. Inr []),
      cl_getTable = (\<lambda>w t. Inr None), cl_getDealerHand = (\<lambda>w t h. Inr None), cl_submit = (\<lambda>w m. (None, w @ [m]))\<rparr>"

lemma recording_accepting: "accepting recording_client id"
  by (simp add: accepting_def recording_client_def)

end
