(* ===== verification/Dealer_Correct.thy ===== *)
theory Dealer_Correct
  imports Dealer_Shares "HOL-Library.Sublist"
begin

text \<open>
  Dealing across components: the shares the daemons of a committee send for a hand
  (\<^verbatim>\<open>apps/dealer-daemon/src/handlers/encshares.ts\<close>) are what the bot (\<^verbatim>\<open>apps/bot/src/holeCards.ts\<close>) needs to
  recover its two cards.
\<close>

subsection \<open>A committee and what it leaves on chain\<close>

text \<open>A dealer about to deal: its environment, its index, its share of the epoch key, its state.\<close>

record ('p, 'w) dealing =
  dg_env :: "('p, 'w) dealer_env"
  dg_index :: int
  dg_share :: int
  dg_state :: "'w daemon"

definition sentBy :: "('w \<Rightarrow> DaemonMsg list) \<Rightarrow> string \<Rightarrow> string \<Rightarrow> js_number \<Rightarrow> ('p, 'w) dealing \<Rightarrow> DaemonMsg list" where
  "sentBy L tableId handId epochId d =
     (let w = dm_world (dg_state d)
      in drop (length (L w)) (L (dm_world (snd (handleEncShares (dg_env d) tableId handId epochId (dg_state d))))))"

text \<open>The chain records a share under the index of its sender, and shows the bot the same deck.\<close>

fun recorded :: "int \<Rightarrow> DaemonMsg \<Rightarrow> EncShareJson list" where
  "recorded i (SubmitEncShare validator tableId handId pos pk enc proofBytes) =
     [\<lparr>es_pos = Some (NumInt pos), es_pkPlayer = Some (RawBytes pk), es_encShare = Some (RawBytes enc),
       es_index = Some (NumInt (of_int i))\<rparr>]"
| "recorded i m = []"

definition chainHand :: "DaemonHandJson \<Rightarrow> EncShareJson list \<Rightarrow> DealerHandJson" where
  "chainHand hand shares =
     \<lparr>dh_deck = map (map_option (\<lambda>e. \<lparr>de_c2 = ch_c2 e\<rparr>)) (dj_deck hand), dh_encShares = shares\<rparr>"

text \<open>
  Every dealer holds the evaluation at its index of the polynomial \<open>cs\<close> shared in key generation, sees the
  same hand, and has entropy for its shares.
\<close>

definition ready :: "'p curve \<Rightarrow> hash \<Rightarrow> ('w \<Rightarrow> DaemonMsg list) \<Rightarrow> string \<Rightarrow> string \<Rightarrow> js_number \<Rightarrow> int list \<Rightarrow> int
    \<Rightarrow> TableJson \<Rightarrow> DaemonHandJson \<Rightarrow> 'p ElGamalCiphertext list \<Rightarrow> ('p, 'w) dealing \<Rightarrow> bool" where
  "ready C H L tableId handId epochId cs k tbl hand deck d \<longleftrightarrow>
     de_curve (dg_env d) = C \<and> de_sha512 (dg_env d) = H \<and> accepting (de_client (dg_env d)) L
   \<and> deals_hand (dg_env d) (dg_state d) tableId handId epochId (dg_share d) k tbl hand deck
   \<and> entropy (3 * length (handTargets C (tableHolePos tbl) deck (tb_seats tbl))) (dm_random (dg_state d))
   \<and> valid_index (dg_index d) \<and> eqmod (dg_share d) (polyval cs (dg_index d))"

lemma ready_sends:
  assumes R: "ristretto C dl" and H: "hash64 H" and r: "ready C H L tableId handId epochId cs k tbl hand deck d"
  shows "fst (handleEncShares (dg_env d) tableId handId epochId (dg_state d)) = Inr ()"
    and "list_all2 (delivers (dg_env d) dl (scalarMul (dg_share d) k) tableId handId)
      (handTargets C (tableHolePos tbl) deck (tb_seats tbl)) (sentBy L tableId handId epochId d)"
proof -
  let ?E = "dg_env d"
  have e: "de_curve ?E = C" "de_sha512 ?E = H" "accepting (de_client ?E) L"
    "deals_hand ?E (dg_state d) tableId handId epochId (dg_share d) k tbl hand deck"
    "entropy (3 * length (handTargets C (tableHolePos tbl) deck (tb_seats tbl))) (dm_random (dg_state d))"
    using r by (simp_all add: ready_def)
  obtain st' msgs where s: "handleEncShares ?E tableId handId epochId (dg_state d) = (Inr (), st')"
    "L (dm_world st') = L (dm_world (dg_state d)) @ msgs"
    "list_all2 (delivers ?E dl (scalarMul (dg_share d) k) tableId handId) (handTargets C (tableHolePos tbl) deck (tb_seats tbl)) msgs"
    using handleEncShares_sends [of ?E dl L, OF _ _ e(3,4)] R H e(1,2,5) by metis
  show "fst (handleEncShares ?E tableId handId epochId (dg_state d)) = Inr ()" using s(1) by simp
  show "list_all2 (delivers ?E dl (scalarMul (dg_share d) k) tableId handId)
      (handTargets C (tableHolePos tbl) deck (tb_seats tbl)) (sentBy L tableId handId epochId d)"
    using s by (simp add: sentBy_def)
qed

subsection \<open>Each dealer contributes one share per card\<close>

lemma delivered_honest:
  assumes R: "ristretto (de_curve E) dl" and i: "valid_index i" and s: "eqmod s (polyval cs i)"
    and pk: "dl pk = sk"
    and v: "valid_enc_share (de_curve E) H dl (scalarMul s k) pk c1 enc proofBytes"
  shows "honest_share (de_curve E) dl (map ((*) k) cs) (dl c1) sk
    \<lparr>es_pos = Some (NumInt pos), es_pkPlayer = Some (RawBytes pkb), es_encShare = Some (RawBytes enc),
     es_index = Some (NumInt (of_int i))\<rparr>"
proof -
  obtain u v where uv: "enc = groupElementToBytes (de_curve E) u @ groupElementToBytes (de_curve E) v"
    "eqmod (dl v) (scalarMul s k * dl c1 + dl pk * dl u)"
    using v by (auto simp: valid_enc_share_def)
  have "eqmod (scalarMul s k) (k * polyval cs i)"
    using mod_mult_cong [OF refl s, of k] by (simp add: scalar_arith mult.commute)
  then have "eqmod (dl v) (k * polyval cs i * dl c1 + sk * dl u)"
    using uv(2) mod_add_cong [OF mod_mult_cong [OF _ refl] refl] pk by metis
  then show ?thesis using uv(1) i
    by (auto simp: honest_share_def shareIndex_def jsonInt_def toBytes_def polyval_scale)
qed

lemma one_share:
  assumes R: "ristretto C dl" and sk: "nonzero_scalar sk" and i: "valid_index i" and s: "eqmod s (polyval cs i)"
    and E: "de_curve E = C" and pk: "dl pk = sk"
    and "list_all2 (delivers E dl (scalarMul s k) tableId handId) ts msgs"
    and "distinct (map fst ts)" and "(pos, pkb, pk, c1) \<in> set ts"
  shows "\<exists>es. filter (\<lambda>es. addressed pos pkb es \<and> readable C sk es) (concat (map (recorded i) msgs)) = [es]
    \<and> honest_share C dl (map ((*) k) cs) (dl c1) sk es \<and> shareIndex es = i"
  using assms(7-9)
proof (induction rule: list_all2_induct)
  case (Cons t ts m msgs)
  obtain pos' pkb' pk' c1' where t: "t = (pos', pkb', pk', c1')" by (cases t)
  obtain enc pb where m: "m = SubmitEncShare (dc_validatorAddress (de_config E)) tableId handId pos' pkb' enc pb"
    "valid_enc_share C (de_sha512 E) dl (scalarMul s k) pk' c1' enc pb"
    using Cons.hyps(1) E by (auto simp: delivers_def t)
  let ?es = "\<lparr>es_pos = Some (NumInt pos'), es_pkPlayer = Some (RawBytes pkb'), es_encShare = Some (RawBytes enc),
     es_index = Some (NumInt (of_int i))\<rparr>"
  show ?case
  proof (cases "pos' = pos")
    case True
    then have p: "(pos', pkb', pk', c1') = (pos, pkb, pk, c1)" "pos \<notin> fst ` set ts"
      using Cons.prems t by (auto simp: image_iff)
    have h: "honest_share C dl (map ((*) k) cs) (dl c1) sk ?es"
      using delivered_honest [of E dl i s cs pk sk] R E i s pk m(2) p by simp
    have "\<forall>es\<in>set (concat (map (recorded i) msgs)). \<not> addressed pos pkb es"
      using Cons.hyps(2) p(2)
      by (induction rule: list_all2_induct) (auto simp: delivers_def addressed_def jsonInt_def)
    then have "filter (\<lambda>es. addressed pos pkb es \<and> readable C sk es) (concat (map (recorded i) msgs)) = []"
      by (auto simp: filter_empty_conv)
    then show ?thesis using h honest_share_readable [OF R sk h] p m(1)
      by (auto simp: addressed_def jsonInt_def toBytes_def shareIndex_def)
  next
    case False
    then have "\<not> addressed pos pkb ?es" by (simp add: addressed_def jsonInt_def)
    then show ?thesis using Cons.IH Cons.prems False t m(1) by auto
  qed
qed simp

text \<open>Over the committee: as many shares as dealers, all honest, with the dealers' indices.\<close>

lemma committee_shares:
  assumes "\<forall>d\<in>set ds. \<exists>es. filter P (f d) = [es] \<and> Q es \<and> shareIndex es = idx d"
  shows "let mine = filter P (concat (map f ds)) in map shareIndex mine = map idx ds \<and> list_all Q mine"
  using assms by (induction ds) (auto simp: Let_def)

subsection \<open>The cards of a seat are among the targets\<close>

definition dealtPos :: "js_number \<Rightarrow> bool" where "dealtPos p \<longleftrightarrow> 0 \<le> p \<and> p \<noteq> 255"

lemma subseq_concat:
  assumes "\<forall>x\<in>set xs. subseq (f x) (g x)"
  shows "subseq (concat (map f xs)) (concat (map g xs))"
  using assms by (induction xs) (auto intro: list_emb_append_mono)

lemma distinct_subseq: "subseq xs ys \<Longrightarrow> distinct ys \<Longrightarrow> distinct xs"
  by (induction rule: list_emb.induct) (auto dest: list_emb_set)

lemma cardTarget_subseq: "subseq (map fst (cardTarget hp deck pkb pk seat i)) (filter dealtPos [aget 255 hp (seat * 2 + i)])"
  by (auto simp: cardTarget_def dealtPos_def Let_def split: option.split)

lemma seatTargets_subseq:
  assumes "length hp = 18" and "seat < 9"
  shows "subseq (map fst (seatTargets C hp deck seats seat)) (filter dealtPos [hp ! (seat * 2), hp ! (seat * 2 + 1)])"
proof -
  have a: "aget 255 hp (seat * 2) = hp ! (seat * 2)" "aget 255 hp (seat * 2 + 1) = hp ! (seat * 2 + 1)"
    using assms by (simp_all add: aget_def)
  have c: "subseq (map fst (cardTarget hp deck b p seat 0)) (filter dealtPos [hp ! (seat * 2)])"
    "subseq (map fst (cardTarget hp deck b p seat 1)) (filter dealtPos [hp ! (seat * 2 + 1)])" for b p
    using cardTarget_subseq [of hp deck b p seat 0] cardTarget_subseq [of hp deck b p seat 1] a
    by (simp_all del: filter.simps)
  have "filter dealtPos [hp ! (seat * 2), hp ! (seat * 2 + 1)] = filter dealtPos [hp ! (seat * 2)] @ filter dealtPos [hp ! (seat * 2 + 1)]"
    by simp
  then have "subseq (map fst (concat (map (cardTarget hp deck b p seat) [0, 1]))) (filter dealtPos [hp ! (seat * 2), hp ! (seat * 2 + 1)])" for b p
    using list_emb_append_mono [OF c] by (simp del: filter.simps)
  then show ?thesis by (auto simp: seatTargets_def split: option.split sum.split simp del: filter.simps list.map(2) concat.simps)
qed

lemma pairs_nth: "concat (map (\<lambda>s. [hp ! (s * 2), hp ! (s * 2 + 1)]) [0..<n]) = map ((!) hp) [0..<2 * n]"
  by (induction n) (simp_all add: mult.commute)

lemma handTargets_subseq:
  assumes "length hp = 18"
  shows "subseq (map fst (handTargets C hp deck seats)) (filter dealtPos hp)"
proof -
  have "map fst (handTargets C hp deck seats) = concat (map (\<lambda>s. map fst (seatTargets C hp deck seats s)) [0..<9])"
    by (simp add: handTargets_def map_concat comp_def)
  moreover have "subseq (concat (map (\<lambda>s. map fst (seatTargets C hp deck seats s)) [0..<9]))
      (concat (map (\<lambda>s. filter dealtPos [hp ! (s * 2), hp ! (s * 2 + 1)]) [0..<9]))"
    by (intro subseq_concat ballI seatTargets_subseq [OF assms]) simp
  moreover have "concat (map (\<lambda>s. [hp ! (s * 2), hp ! (s * 2 + 1)]) [0..<9]) = hp"
    using pairs_nth [of hp 9] map_nth [of hp] assms by simp
  then have "concat (map (\<lambda>s. filter dealtPos [hp ! (s * 2), hp ! (s * 2 + 1)]) [0..<9]) = filter dealtPos hp"
    using filter_concat [of dealtPos "map (\<lambda>s. [hp ! (s * 2), hp ! (s * 2 + 1)]) [0..<9]"]
    by (simp add: comp_def del: filter.simps)
  ultimately show ?thesis by simp
qed

text \<open>A seated player with a decodable key \<open>pkb\<close>.\<close>

definition seated :: "'p curve \<Rightarrow> TableJson \<Rightarrow> nat \<Rightarrow> byte list \<Rightarrow> 'p \<Rightarrow> bool" where
  "seated C tbl seat pkb pk \<longleftrightarrow>
     seat < 9 \<and> (\<exists>d. aget None (tb_seats tbl) seat = Some d \<and> sj_player d \<noteq> [] \<and> daemonBytes (sj_pk d) = Inr pkb)
   \<and> groupElementFromBytes C pkb = Inr pk"

lemma seated_target:
  assumes "seated C tbl seat pkb pk" and "length hp = 18" and "i < 2" and "dealtPos (hp ! (seat * 2 + i))"
    and "deckEntry deck (hp ! (seat * 2 + i)) = Some ct"
  shows "(hp ! (seat * 2 + i), pkb, pk, ct_c1 ct) \<in> set (handTargets C hp deck (tb_seats tbl))"
proof -
  have s: "seat < 9" using assms(1) by (simp add: seated_def)
  then have a: "aget 255 hp (seat * 2 + i) = hp ! (seat * 2 + i)" using assms(2,3) by (simp add: aget_def)
  have "cardTarget hp deck pkb pk seat i = [(hp ! (seat * 2 + i), pkb, pk, ct_c1 ct)]"
    using assms(4,5) by (simp add: cardTarget_def a dealtPos_def)
  moreover have "i \<in> set [0, 1]" using assms(3) by auto
  moreover obtain d where "aget None (tb_seats tbl) seat = Some d" "sj_player d \<noteq> []" "daemonBytes (sj_pk d) = Inr pkb"
    using assms(1) unfolding seated_def by blast
  moreover have "groupElementFromBytes C pkb = Inr pk" using assms(1) by (simp add: seated_def)
  ultimately have "(hp ! (seat * 2 + i), pkb, pk, ct_c1 ct) \<in> set (seatTargets C hp deck (tb_seats tbl) seat)"
    by (auto simp: seatTargets_def)
  then show ?thesis using s by (auto simp: handTargets_def)
qed

lemma decodeDeck_entry:
  assumes R: "ristretto C dl" and "decodeDeck C raw = Inr deck" and "deckEntry deck pos = Some ct"
    and J: "\<forall>e. Some e \<in> set raw \<longrightarrow> toBytes (ch_c2 e) = daemonBytes (ch_c2 e)"
  shows "\<exists>e. deckAt (map (map_option (\<lambda>e. \<lparr>de_c2 = ch_c2 e\<rparr>)) raw) pos = Some e \<and> de_c2 e \<noteq> Some (TextBytes [])
    \<and> toBytes (de_c2 e) = Inr (groupElementToBytes C (ct_c2 ct))"
proof -
  let ?i = "nat \<lfloor>pos\<rfloor>"
  have p: "isInteger pos" "0 \<le> pos" "?i < length deck" "deck ! ?i = ct"
    using assms(3) by (auto simp: deckEntry_def split: if_splits)
  have l: "?i < length raw" using rmap_length [OF assms(2) [unfolded decodeDeck_def]] p(3) by simp
  obtain e b where e: "raw ! ?i = Some e" "daemonBytes (ch_c2 e) = Inr b" "groupElementFromBytes C b = Inr (ct_c2 ct)"
    using rmap_nth [OF assms(2) [unfolded decodeDeck_def] l, unfolded p(4)]
    by (auto split: option.splits)
  have "toBytes (ch_c2 e) = Inr (groupElementToBytes C (ct_c2 ct))"
    using J e(1,2) l groupElement_canonical [OF e(3) R] by (metis nth_mem)
  moreover have "ch_c2 e \<noteq> Some (TextBytes [])" using e(2) by (auto simp: daemonBytes_def)
  ultimately show ?thesis using p l e(1) by (simp add: deckAt_def aget_def)
qed

subsection \<open>From the dealers to the player\<close>

text \<open>The card at position \<open>pos\<close>, encrypted under the hand key that \<open>cs\<close> shares.\<close>

definition holds_card :: "('p \<Rightarrow> int) \<Rightarrow> int list \<Rightarrow> int \<Rightarrow> 'p ElGamalCiphertext list \<Rightarrow> js_number \<Rightarrow> nat \<Rightarrow> bool" where
  "holds_card dl cs k deck pos cardId \<longleftrightarrow>
     dealtPos pos \<and> cardId < 52
   \<and> (\<exists>ct. deckEntry deck pos = Some ct \<and> eqmod (dl (ct_c2 ct)) (int cardId + 1 + k * polyval cs 0 * dl (ct_c1 ct)))"

lemma recorded_bytes: "es \<in> set (recorded j m) \<Longrightarrow> \<exists>b c. toBytes (es_pkPlayer es) = Inr b \<and> toBytes (es_encShare es) = Inr c"
  by (cases m) (auto simp: toBytes_def)

lemma committee_deals:
  assumes R: "ristretto C dl" and H: "hash64 H" and sk: "nonzero_scalar sk"
    and r: "\<forall>d\<in>set ds. ready C H L tableId handId epochId cs k tbl hand deck d"
    and ds: "ds \<noteq> []" "distinct (map dg_index ds)" "length cs \<le> length ds"
    and hp: "distinct (filter dealtPos (tableHolePos tbl))"
    and J: "\<forall>e. Some e \<in> set (dj_deck hand) \<longrightarrow> toBytes (ch_c2 e) = daemonBytes (ch_c2 e)"
    and P: "seated C tbl seat pkb pk" "dl pk = sk" and i: "i < 2"
    and c: "holds_card dl cs k deck (tableHolePos tbl ! (seat * 2 + i)) cardId"
  shows "\<exists>c1. dealt C dl (map ((*) k) cs) sk pkb
    (chainHand hand (concat (map (\<lambda>d. concat (map (recorded (dg_index d)) (sentBy L tableId handId epochId d))) ds)))
    (tableHolePos tbl ! (seat * 2 + i)) c1 cardId"
proof -
  let ?pos = "tableHolePos tbl ! (seat * 2 + i)" and ?cs = "map ((*) k) cs"
  let ?f = "\<lambda>d. concat (map (recorded (dg_index d)) (sentBy L tableId handId epochId d))"
  let ?P = "\<lambda>es. addressed ?pos pkb es \<and> readable C sk es"
  obtain ct where ct: "deckEntry deck ?pos = Some ct" "eqmod (dl (ct_c2 ct)) (int cardId + 1 + k * polyval cs 0 * dl (ct_c1 ct))"
    and pos: "dealtPos ?pos" "cardId < 52" using c by (auto simp: holds_card_def)
  obtain d0 where d0: "d0 \<in> set ds" using ds(1) by (cases ds) auto
  have l: "length (tableHolePos tbl) = 18" and dk: "decodeDeck C (dj_deck hand) = Inr deck"
    using r d0 by (auto simp: ready_def deals_hand_defs)
  have one: "\<forall>d\<in>set ds. \<exists>es. filter ?P (?f d) = [es] \<and> honest_share C dl ?cs (dl (ct_c1 ct)) sk es \<and> shareIndex es = dg_index d"
  proof
    fix d assume "d \<in> set ds"
    then have rd: "ready C H L tableId handId epochId cs k tbl hand deck d" using r by blast
    show "\<exists>es. filter ?P (?f d) = [es] \<and> honest_share C dl ?cs (dl (ct_c1 ct)) sk es \<and> shareIndex es = dg_index d"
      by (rule one_share [OF R sk _ _ _ P(2) ready_sends(2) [OF R H rd] distinct_subseq [OF handTargets_subseq [OF l] hp]
            seated_target [OF P(1) l i pos(1) ct(1)]])
        (use rd in \<open>auto simp: ready_def\<close>)
  qed
  have mine: "map shareIndex (filter ?P (concat (map ?f ds))) = map dg_index ds"
    "\<forall>es\<in>set (filter ?P (concat (map ?f ds))). honest_share C dl ?cs (dl (ct_c1 ct)) sk es"
    using committee_shares [OF one] unfolding Let_def list_all_iff by blast+
  have len: "length (filter ?P (concat (map ?f ds))) = length ds" using arg_cong [OF mine(1), of length] by simp
  obtain e where e: "deckAt (map (map_option (\<lambda>e. \<lparr>de_c2 = ch_c2 e\<rparr>)) (dj_deck hand)) ?pos = Some e"
    "de_c2 e \<noteq> Some (TextBytes [])" "toBytes (de_c2 e) = Inr (groupElementToBytes C (ct_c2 ct))"
    using decodeDeck_entry [OF R dk ct(1) J] by blast
  have "dealt C dl ?cs sk pkb (chainHand hand (concat (map ?f ds))) ?pos (ct_c1 ct) cardId"
    unfolding dealt_def Let_def chainHand_def DealerHandJson.select_convs
  proof (intro conjI)
    show "filter ?P (concat (map ?f ds)) \<noteq> []" using len ds(1) by (metis length_0_conv)
    show "distinct (map shareIndex (filter ?P (concat (map ?f ds))))" unfolding mine(1) by (rule ds(2))
    show "\<exists>e c2. deckAt (map (map_option (\<lambda>e. \<lparr>de_c2 = ch_c2 e\<rparr>)) (dj_deck hand)) ?pos = Some e \<and> de_c2 e \<noteq> Some (TextBytes [])
        \<and> toBytes (de_c2 e) = Inr (groupElementToBytes C c2) \<and> eqmod (dl c2) (int cardId + 1 + polyval ?cs 0 * dl (ct_c1 ct))"
      using e ct(2) by (auto simp: polyval_scale)
    show "length ?cs \<le> length (filter ?P (concat (map ?f ds)))" unfolding len using ds(3) by simp
  qed (use pos mine(2) recorded_bytes in \<open>auto simp: dealtPos_def\<close>)
  then show ?thesis by blast
qed

text \<open>
  C4: dealing works end to end. A committee holds shares of an epoch key, at least as many dealers as the
  sharing polynomial has coefficients, with different indices; the chain accepts their messages and each has
  entropy for its shares. Then every dealer's \<open>handleEncShares\<close> returns, and a seated player whose two positions
  hold cards encrypted under the derived hand key recovers, from the shares the dealers sent, exactly these
  two cards.
\<close>

theorem dealt_cards_reach_player:
  assumes "ristretto C dl" and "hash64 H" and "nonzero_scalar sk"
    and "\<forall>d\<in>set ds. ready C H L tableId handId epochId cs k tbl hand deck d"
    and "ds \<noteq> []" and "distinct (map dg_index ds)" and "length cs \<le> length ds"
    and "distinct (filter dealtPos (tableHolePos tbl))"
    and "\<forall>e. Some e \<in> set (dj_deck hand) \<longrightarrow> toBytes (ch_c2 e) = daemonBytes (ch_c2 e)"
    and "seated C tbl seat pkb pk" and "dl pk = sk"
    and "holds_card dl cs k deck (tableHolePos tbl ! (seat * 2)) card0"
    and "holds_card dl cs k deck (tableHolePos tbl ! (seat * 2 + 1)) card1"
  shows "(\<forall>d\<in>set ds. fst (handleEncShares (dg_env d) tableId handId epochId (dg_state d)) = Inr ())
    \<and> decryptHoleCards C
        (Some (chainHand hand (concat (map (\<lambda>d. concat (map (recorded (dg_index d)) (sentBy L tableId handId epochId d))) ds))))
        (tableHolePos tbl ! (seat * 2), tableHolePos tbl ! (seat * 2 + 1)) pkb sk = Inr (Some (card0, card1))"
  using committee_deals [OF assms(1-11), of 0 card0] committee_deals [OF assms(1-11), of 1 card1] assms(4,12,13)
    decryptHoleCard_ok [OF assms(1,3)] ready_sends(1) [OF assms(1,2)]
  by (fastforce simp: decryptHoleCards_def)

text \<open>
  A hand on the toy group: the epoch key shared by \<open>5 + 3 x\<close>, two dealers, hand scalar 3, a player with
  key 7 at seat 0, cards 10 and 20 at positions 0 and 1, and a chain that keeps the list of messages.
\<close>

definition demo_raw :: "int \<Rightarrow> JsonBytes option" where
  "demo_raw P = Some (RawBytes (groupElementToBytes zq_curve P))"

definition demo_daemon_hand :: DaemonHandJson where
  "demo_daemon_hand =
     \<lparr>dj_deck = [Some \<lparr>ch_c1 = demo_raw 2, ch_c2 = demo_raw 41\<rparr>, Some \<lparr>ch_c1 = demo_raw 3, ch_c2 = demo_raw 66\<rparr>],
      dj_shuffleStep = None, dj_pkHand = None, dj_initHeight = Some (NumInt 5), dj_initHashSalt = Some (RawBytes (replicate 32 0))\<rparr>"

definition demo_deck :: "int ElGamalCiphertext list" where
  "demo_deck = [\<lparr>ct_c1 = 2, ct_c2 = 41\<rparr>, \<lparr>ct_c1 = 3, ct_c2 = 66\<rparr>]"

definition demo_table_dealer :: TableDealerJson where
  "demo_table_dealer =
     \<lparr>tj_epochId = Some (NumInt 1), tj_finalized = None, tj_deckFinalized = Some True, tj_revealPos = None,
      tj_cursor = None, tj_holePos = map (\<lambda>n. Some (NumInt n)) (0 # 1 # replicate 16 255), tj_reveals = []\<rparr>"

definition demo_table :: TableJson where
  "demo_table =
     \<lparr>tb_hand = Some \<lparr>hj_handId = Some ''1'', hj_phase = ''shuffle'', hj_dealer = Some demo_table_dealer,
                     hj_boardLength = 0, hj_inHand = [], hj_folded = []\<rparr>,
      tb_seats = [Some \<lparr>sj_player = ''p'', sj_pk = demo_raw 7\<rparr>]\<rparr>"

definition demo_client :: "DaemonMsg list chain_client" where
  "demo_client =
     \<lparr>cl_getDealerEpoch = (\<lambda>w. Inr None), cl_getDealerDkg = (\<lambda>w. Inr None), cl_getTables = (\<lambda>w. Inr [''1'']),
      cl_getTable = (\<lambda>w t. Inr (Some demo_table)), cl_getDealerHand = (\<lambda>w t h. Inr (Some demo_daemon_hand)),
      cl_submit = (\<lambda>w m. (None, w @ [m]))\<rparr>"

definition demo_secrets :: "js_number \<Rightarrow> int \<Rightarrow> EpochSecrets" where
  "demo_secrets i s =
     \<lparr>sec_epochId = 1, sec_validatorIndex = i, sec_polyCoeffs = [], sec_secretShare = bigintHex s, sec_ephemeralSk = None\<rparr>"

definition demo_dealing :: "int \<Rightarrow> int \<Rightarrow> (int, DaemonMsg list) dealing" where
  "demo_dealing i s =
     \<lparr>dg_env = demo_env ''v'' demo_client, dg_index = i, dg_share = s,
      dg_state = \<lparr>dm_world = [], dm_store = [1 \<mapsto> demo_secrets (of_int i) s], dm_random = replicate 384 1\<rparr>\<rparr>"

lemma demo_hole_positions: "tableHolePos demo_table = 0 # 1 # replicate 16 255"
  by code_simp

lemma zq_decode: "0 \<le> P \<Longrightarrow> P < CURVE_ORDER \<Longrightarrow> groupElementFromBytes zq_curve (groupElementToBytes zq_curve P) = Inr P"
  using zq_canonical [of P] by (simp add: canonicalPoint_def)

lemma demo_decoded: "P \<in> {2, 3, 7, 41, 66} \<Longrightarrow> rbind (daemonBytes (demo_raw P)) (groupElementFromBytes zq_curve) = Inr P"
  using zq_decode [of P] by (auto simp: demo_raw_def daemonBytes_def CURVE_ORDER_def)

lemma demo_decodeDeck: "decodeDeck zq_curve (dj_deck demo_daemon_hand) = Inr demo_deck"
  by (simp add: decodeDeck_def demo_daemon_hand_def demo_deck_def demo_decoded)

lemma demo_handScalar: "handScalar (demo_env a cl) 1 ''1'' ''1'' demo_daemon_hand = Inr (Some 3)"
proof -
  have u: "u64le (Some 1) = Inr [1, 0, 0, 0, 0, 0, 0, 0]" "numberOf ''1'' = Some 1" "bigIntOf (NumInt 5) = Inr 5"
    "i64le 5 = [5, 0, 0, 0, 0, 0, 0, 0]" by code_simp+
  have f: "updateLenBytes h bs = Inr (h @ lenFrame bs)" if "length bs < 100" for h bs
    unfolding updateLenBytes_Inr using that by simp
  show ?thesis
    by (simp add: handScalar_def demo_daemon_hand_def u hashToScalar_def f decodeSaltBytes_def
        utf8_def utf8Char_def constHash_scalar)
qed

lemma demo_sees_hand: "sees_hand (demo_env a demo_client) w ''1'' ''1'' 1 3 demo_table demo_daemon_hand demo_deck"
  by (simp add: sees_hand_def demo_client_def demo_hole_positions demo_handScalar demo_decodeDeck)

lemma demo_accepting: "accepting demo_client id"
  by (simp add: accepting_def demo_client_def)

lemma demo_targets_length: "length (handTargets zq_curve (tableHolePos demo_table) demo_deck (tb_seats demo_table)) \<le> 2"
  using list_emb_length [OF handTargets_subseq [of "tableHolePos demo_table" zq_curve demo_deck "tb_seats demo_table"]]
  by (simp add: demo_hole_positions dealtPos_def)

lemma demo_entropy: "entropy (3 * length (handTargets zq_curve (tableHolePos demo_table) demo_deck (tb_seats demo_table))) (replicate 384 1)"
proof -
  let ?n = "length (handTargets zq_curve (tableHolePos demo_table) demo_deck (tb_seats demo_table))"
  have "3 * ?n \<le> 6" using demo_targets_length by linarith
  then obtain j where j: "6 = 3 * ?n + j" using le_Suc_ex by blast
  have "entropy 6 (replicate 384 1)" using entropy_replicate [of 6] by simp
  then show ?thesis unfolding j by (rule entropy_mono)
qed

lemma demo_hand_bytes: "\<forall>e. Some e \<in> set (dj_deck demo_daemon_hand) \<longrightarrow> toBytes (ch_c2 e) = daemonBytes (ch_c2 e)"
  by (auto simp: demo_daemon_hand_def demo_raw_def toBytes_def daemonBytes_def)

lemma demo_seated: "seated zq_curve demo_table 0 (groupElementToBytes zq_curve 7) 7"
  using zq_decode [of 7] by (simp add: seated_def demo_table_def demo_raw_def daemonBytes_def aget_def CURVE_ORDER_def)

lemma demo_cards:
  "holds_card zq_log [5, 3] 3 demo_deck (tableHolePos demo_table ! (0 * 2)) 10"
  "holds_card zq_log [5, 3] 3 demo_deck (tableHolePos demo_table ! (0 * 2 + 1)) 20"
  by (simp_all add: holds_card_def demo_hole_positions demo_deck_def deckEntry_def dealtPos_def mod_simps) (simp_all add: CURVE_ORDER_def)

lemma demo_ready:
  assumes "valid_index i" and "s \<in> {8, 11}" and "eqmod s (polyval [5, 3] i)"
  shows "ready zq_curve (constHash 3) id ''1'' ''1'' 1 [5, 3] 3 demo_table demo_daemon_hand demo_deck (demo_dealing i s)"
proof -
  have k: "scalarMul s 3 \<noteq> 0" "0 < s" using assms(2) by (auto simp: scalar_arith CURVE_ORDER_def)
  have "deals_hand (demo_env ''v'' demo_client) (dg_state (demo_dealing i s)) ''1'' ''1'' 1 s 3 demo_table demo_daemon_hand demo_deck"
    using k by (simp add: deals_hand_def demo_sees_hand) (simp add: holds_share_def demo_dealing_def demo_secrets_def)
  then show ?thesis using assms demo_entropy
    by (simp add: ready_def demo_dealing_def demo_accepting)
qed

theorem dealt_cards_reach_player_witness:
  "decryptHoleCards zq_curve
     (Some (chainHand demo_daemon_hand (concat (map (\<lambda>d. concat (map (recorded (dg_index d)) (sentBy id ''1'' ''1'' 1 d)))
        [demo_dealing 1 8, demo_dealing 2 11])))) (0, 1) (groupElementToBytes zq_curve 7) 7 = Inr (Some (10, 20))"
proof -
  have r: "\<forall>d\<in>set [demo_dealing 1 8, demo_dealing 2 11].
      ready zq_curve (constHash 3) id ''1'' ''1'' 1 [5, 3] 3 demo_table demo_daemon_hand demo_deck d"
    using demo_ready [of 1 8] demo_ready [of 2 11] by (simp add: valid_index_def)
  show ?thesis
    using dealt_cards_reach_player [OF zq_ristretto constHash64 zq_7 r _ _ _ _ demo_hand_bytes demo_seated _ demo_cards]
    by (simp add: demo_dealing_def demo_hole_positions dealtPos_def CURVE_ORDER_def)
qed

end
