(* ===== verification/Spec2Isabelle.thy ===== *)
theory Spec2Isabelle
  imports Engine_Theorems Hand_Eval_Correct Shuffle_Correct Bot_Correct Hole_Correct Dkg_Correct Simulation_Fair
    Store_Correct Bech32_Correct Faucet_Correct Dealer_Correct
begin

text \<open>
  \<^bold>\<open>On-chain poker: a verification library.\<close>

  The program plays no-limit hold'em without a trusted dealer. A committee of validators generates a
  shared key, shuffles a deck of ElGamal ciphertexts with proofs, and opens cards by threshold
  decryption; a betting engine runs the hands; bots play them; a coordinator serves browsers; a
  simulator exercises the protocol against cheating validators and players. The source is a
  monorepo: \<^verbatim>\<open>packages/poker-engine\<close>, \<^verbatim>\<open>packages/holdem-eval\<close>, \<^verbatim>\<open>packages/ocp-crypto\<close>,
  \<^verbatim>\<open>packages/ocp-shuffle\<close>, \<^verbatim>\<open>apps/dealer-daemon\<close>, \<^verbatim>\<open>apps/bot\<close>, \<^verbatim>\<open>apps/sim\<close>, \<^verbatim>\<open>apps/coordinator\<close>,
  \<^verbatim>\<open>deprecated/dkg-prototype\<close> and the parts listed under "Not modelled".

  \<^bold>\<open>Conventions.\<close> A function that throws returns a sum, \<open>Inl\<close> the error (\<open>OCP_Prelude\<close>: \<open>rbind\<close>,
  \<open>guard_else\<close>, \<open>rmap\<close>, \<open>rfold\<close>). A JavaScript number is a rational (\<open>js_number\<close>), a bigint an \<open>int\<close>, a
  byte an 8-bit word, a class or object a record, a Map an association list in insertion order or a
  partial function where the order is never read. Mutation is state passing. The texts of error
  messages, logging and cloning are dropped. The ristretto255 library, SHA-256, SHA-512, AES-GCM and the
  random source are parameters; what is used of the group is the named hypothesis \<open>ristretto\<close> (operations
  act on discrete logarithms modulo the group order, encodings are canonical), instantiated in the
  witnesses by the integers modulo the order.

  \<^bold>\<open>Betting engine\<close> (\<^verbatim>\<open>packages/poker-engine/src\<close>). \<open>Side_Pots\<close> models \<^verbatim>\<open>pots.ts\<close> and shows that the
  pots hold the contributions, are well formed, and give each contender exactly what it matched.
  \<open>Poker_Engine\<close> models \<^verbatim>\<open>engine.ts\<close>, \<^verbatim>\<open>types.ts\<close> and \<^verbatim>\<open>errors.ts\<close>: the table, the hand and every exported
  operation. \<open>Engine_Chips\<close> accounts for chips, \<open>Engine_Invariant\<close> proves the table invariant kept by
  every operation, \<open>Engine_Runs\<close> states the step contract as locales (interpreted on actions, ticks and
  aborts) with reachability and the termination measure, and \<open>Engine_Theorems\<close> holds the properties:
  reachable states satisfy the invariant, chips are conserved, betting terminates and is never stuck,
  exactly which bets are accepted, under-raises do not reopen betting, folds, timeouts, aborts and
  showdowns do what they should; and two hands in which the engine goes wrong.

  \<^bold>\<open>Hand evaluation\<close> (\<^verbatim>\<open>packages/holdem-eval/src\<close>). \<open>Cards\<close>, \<open>Hand_Rank\<close> and \<open>Hand_Eval\<close> model
  \<^verbatim>\<open>cards.ts\<close>, \<^verbatim>\<open>handRank.ts\<close> and \<^verbatim>\<open>evaluate.ts\<close>; \<open>Hand_Eval_Correct\<close> shows that \<open>evaluate5\<close> equals the
  declarative value of a hand, \<open>evaluate7\<close> picks a best five-card hand and \<open>winners\<close> returns exactly the
  unbeaten seats.

  \<^bold>\<open>Cryptography\<close> (\<^verbatim>\<open>packages/ocp-crypto/src\<close>). \<open>Crypto_Bytes\<close> models \<^verbatim>\<open>utils/bytes.ts\<close> and
  \<^verbatim>\<open>utils/scalar.ts\<close>, \<open>Crypto_Group\<close> models \<^verbatim>\<open>utils/group.ts\<close>, \<^verbatim>\<open>utils/hash.ts\<close>, \<^verbatim>\<open>utils/transcript.ts\<close> and
  \<^verbatim>\<open>elgamal.ts\<close>, \<open>Sigma_Proofs\<close> the files of \<^verbatim>\<open>proofs/\<close>. Shown: encodings are canonical, transcripts are
  binding, honest proofs are accepted, two accepting proofs with the same commitments and different
  challenges force the statement (special soundness), the share of a dealer reaches its recipient.

  \<^bold>\<open>Verifiable shuffle\<close> (\<^verbatim>\<open>packages/ocp-shuffle/src\<close>). \<open>Shuffle_Proofs\<close> models \<^verbatim>\<open>encoding.ts\<close>,
  \<^verbatim>\<open>elgamal.ts\<close>, \<^verbatim>\<open>rng.ts\<close>, \<^verbatim>\<open>eqdlog.ts\<close> and \<^verbatim>\<open>switch_or.ts\<close>, \<open>Shuffle_V1\<close> models \<^verbatim>\<open>shuffle_v1.ts\<close>.
  \<open>Odd_Even_Sort\<close> proves that the sorting network sorts, \<open>Shuffle_Correct\<close> that the prover's rounds refine
  it, so that the deck is permuted as sampled and no plaintext changes, and what an accepting verifier has
  checked. \<open>Shuffle_Runs\<close> holds concrete runs for the witnesses. The rejection loops end
  because the generator throws once its 32-bit block counter is used up; the theorems about the prover are
  conditional on its returning, which a witness shows to happen.

  \<^bold>\<open>Threshold decryption\<close> (\<^verbatim>\<open>apps/bot/src/holeCards.ts\<close>). \<open>Interpolation\<close> proves Lagrange interpolation at
  zero over the rationals and modulo an integer; \<open>Hole_Cards\<close> models the file, \<open>Hole_Recovery\<close> and
  \<open>Hole_Correct\<close> show that the bot recovers exactly its two cards from a threshold of honest shares among
  arbitrary others. Validator indices are taken from \<open>1..255\<close>: their differences are then coprime to the
  group order, which is shown by an explicit combination and needs no primality.

  \<^bold>\<open>Dealer daemon\<close> (\<^verbatim>\<open>apps/dealer-daemon/src\<close>). \<open>Daemon_Base\<close> has the chain's JSON, the messages, the
  state of a daemon and calls that may throw after effects; \<open>Dealer_Daemon\<close> models \<^verbatim>\<open>handlers/\<close> and the polling
  cycle of \<^verbatim>\<open>daemon.ts\<close>. The chain client is a parameter over an unknown chain state. Random bytes are a finite
  supply, and a call that finds it empty throws: \<open>entropy n\<close> says that it yields \<open>n\<close> more scalars.
  \<open>Dealer_Shares\<close> shows that with enough entropy a dealer sends exactly one valid share for every card of every
  seated player, \<open>Dealer_Correct\<close> that the bot recovers its cards from the shares a committee sent.

  \<^bold>\<open>Key generation\<close> (\<^verbatim>\<open>deprecated/dkg-prototype/src\<close>). \<open>Dkg_Prototype\<close> models the protocol, the transcript
  and its verifier, \<open>Dkg_Algebra\<close> the arithmetic, \<open>Dkg_Correct\<close> shows that a run slashes exactly the
  cheaters, that the verifier reaches the same outcome from the messages, and that any threshold of
  qualified members holds the secret of the published key.

  \<^bold>\<open>Bot\<close> (\<^verbatim>\<open>apps/bot/src\<close>). \<open>Bot_Strategies\<close> models the three strategies, the coercion of a decision
  (\<^verbatim>\<open>sanitizeAction.ts\<close>) and the decision taken in \<^verbatim>\<open>bot.ts\<close>; \<open>Bot_Correct\<close> composes them with the engine:
  on every reachable table in an open betting interval the action sent is accepted, and a table on which it
  is not.

  \<^bold>\<open>Simulator\<close> (\<^verbatim>\<open>apps/sim/src\<close>). \<open>Simulation\<close> models \<^verbatim>\<open>sim.ts\<close> and the files it uses;
  \<open>Simulation_Correct\<close> shows that no invariant check fails and funds are conserved, \<open>Simulation_Fair\<close> that
  honest validators are never slashed and no card is dealt twice, whatever validators and players do.

  \<^bold>\<open>Coordinator\<close> (\<^verbatim>\<open>apps/coordinator/src\<close>). \<open>Coordinator\<close> models \<^verbatim>\<open>store.ts\<close>, \<^verbatim>\<open>nicknames.ts\<close>,
  \<^verbatim>\<open>clientIp.ts\<close> and \<^verbatim>\<open>faucet.ts\<close>. \<open>Store_Correct\<close> treats the store as a state machine: its limits hold in every
  reachable state, eviction is least-recently-used and minimal, seat intents refine a map.
  \<open>Coordinator_Correct\<close> covers nicknames and the client address. \<open>Bech32_Linear\<close> and \<open>Bech32_Correct\<close> show
  that one or two wrong characters in an address are detected; the length limit of 90 bounds the distance
  of two differences by 88, up to which the register is iterated. \<open>Faucet_Correct\<close> shows that the cooldowns
  hold under every interleaving of requests and awaited broadcasts.

  \<^bold>\<open>Not modelled.\<close> The chains (\<^verbatim>\<open>apps/chain\<close>, \<^verbatim>\<open>apps/cosmos\<close>) are Go programs over the Cosmos SDK and CometBFT; the
  bot, the coordinator and the browser see them through their clients. The SDK (\<^verbatim>\<open>packages/ocp-sdk\<close>: generated protobuf codecs, signing and query
  clients), the coordinator's HTTP and WebSocket servers and chain adapters, and the bot's polling loop are
  network input and output around the parts above. Of the dealer daemon, the encrypted state files, the
  environment configuration and the timer are left out. The web client and the landing page are user interfaces
  (React, Pixi, audio). \<^verbatim>\<open>deprecated/evm\<close> is retired, \<^verbatim>\<open>scripts\<close> and \<^verbatim>\<open>deploy\<close> drive and install the programs.
  Computational hardness (discrete logarithms, collision resistance) is not expressed: soundness is
  special soundness, binding is injectivity of the bytes that are hashed.
\<close>

end
